(* ===== verification/Prelude.thy ===== *)
theory Prelude
  imports Main "HOL-Library.Char_ord" "HOL-Library.List_Lexorder"
begin

text \<open>
  Shared vocabulary of the development.

  \<^item> \<open>outcome\<close>: what a Rust function that returns \<open>Result<T, E>\<close> can do: return \<open>Ok\<close>,
    return \<open>Err\<close>, or panic (\<open>expect\<close>, \<open>unwrap\<close>, an index out of range). A loop that may run
    forever returns an \<open>outcome option\<close>, \<open>None\<close> being "does not return".
  \<^item> \<open>bt_insert\<close>, \<open>bt_remove\<close>, \<open>bt_wf\<close>: a \<open>BTreeMap\<close> as the list of its entries in key order,
    behind the interface \<open>ordered_map\<close>.
  \<^item> \<open>closed_vocabulary\<close>: the contract shared by every closed enum of the code base (the constant
    \<open>ALL\<close>, the function \<open>as_str\<close>, the function \<open>parse\<close> that searches \<open>ALL\<close>).
  \<^item> saturating arithmetic on \<open>i32\<close>.
\<close>

named_theorems outcome_simps \<open>computation rules of the outcome monad\<close>
named_theorems vocab_defs \<open>definitions of the closed vocabularies\<close>

section \<open>Results, panics and divergence\<close>

datatype ('e, 'a) outcome = Ok 'a | Err 'e | Panic string

fun and_then :: "('e, 'a) outcome \<Rightarrow> ('a \<Rightarrow> ('e, 'b) outcome) \<Rightarrow> ('e, 'b) outcome" where
  "and_then (Ok x) f = f x"
| "and_then (Err e) f = Err e"
| "and_then (Panic s) f = Panic s"

lemma and_then_cong [fundef_cong]:
  "m = m' \<Longrightarrow> (\<And>x. m' = Ok x \<Longrightarrow> f x = f' x) \<Longrightarrow> and_then m f = and_then m' f'"
  by (cases m) auto

lemma and_then_eq_Ok [simp]:
  "and_then m f = Ok y \<longleftrightarrow> (\<exists>x. m = Ok x \<and> f x = Ok y)"
  by (cases m) auto

lemma Ok_eq_and_then [simp]:
  "Ok y = and_then m f \<longleftrightarrow> (\<exists>x. m = Ok x \<and> f x = Ok y)"
  by (cases m) auto

lemma and_then_eq_Panic [simp]:
  "and_then m f = Panic s \<longleftrightarrow> m = Panic s \<or> (\<exists>x. m = Ok x \<and> f x = Panic s)"
  by (cases m) auto

lemma and_then_eq_Err [simp]:
  "and_then m f = Err e \<longleftrightarrow> m = Err e \<or> (\<exists>x. m = Ok x \<and> f x = Err e)"
  by (cases m) auto

lemma and_then_assoc: "and_then (and_then m f) g = and_then m (\<lambda>x. and_then (f x) g)"
  by (cases m) auto

lemma and_then_Ok_right [simp]: "and_then m Ok = m"
  by (cases m) auto

definition is_Ok :: "('e, 'a) outcome \<Rightarrow> bool" where
  "is_Ok m \<longleftrightarrow> (case m of Ok _ \<Rightarrow> True | _ \<Rightarrow> False)"

lemma is_Ok_simps [simp]: "is_Ok (Ok x)" "\<not> is_Ok (Err e)" "\<not> is_Ok (Panic s)"
  by (simp_all add: is_Ok_def)

lemma is_Ok_iff: "is_Ok m \<longleftrightarrow> (\<exists>x. m = Ok x)"
  by (cases m) auto

text \<open>The same sequencing for computations that may not return.\<close>

definition and_then_opt ::
  "('e, 'a) outcome option \<Rightarrow> ('a \<Rightarrow> ('e, 'b) outcome option) \<Rightarrow> ('e, 'b) outcome option" where
  "and_then_opt m f = (case m of None \<Rightarrow> None | Some (Ok x) \<Rightarrow> f x
     | Some (Err e) \<Rightarrow> Some (Err e) | Some (Panic s) \<Rightarrow> Some (Panic s))"

lemma and_then_opt_simps [simp, outcome_simps]:
  "and_then_opt None f = None"
  "and_then_opt (Some (Ok x)) f = f x"
  "and_then_opt (Some (Err e)) f = Some (Err e)"
  "and_then_opt (Some (Panic s)) f = Some (Panic s)"
  by (simp_all add: and_then_opt_def)

lemma and_then_opt_cong [fundef_cong]:
  "m = m' \<Longrightarrow> (\<And>x. m' = Some (Ok x) \<Longrightarrow> f x = f' x) \<Longrightarrow> and_then_opt m f = and_then_opt m' f'"
  by (auto simp: and_then_opt_def split: option.splits outcome.splits)

lemma and_then_opt_eq_None [simp]:
  "and_then_opt m f = None \<longleftrightarrow> m = None \<or> (\<exists>x. m = Some (Ok x) \<and> f x = None)"
  by (auto simp: and_then_opt_def split: option.splits outcome.splits)

lemma and_then_opt_eq_Ok [simp]:
  "and_then_opt m f = Some (Ok y) \<longleftrightarrow> (\<exists>x. m = Some (Ok x) \<and> f x = Some (Ok y))"
  by (auto simp: and_then_opt_def split: option.splits outcome.splits)

section \<open>Ordered maps\<close>

text \<open>
  A Rust \<open>BTreeMap\<close> is modelled by the list of its entries in strictly increasing key order, so
  that \<open>values()\<close> and \<open>iter()\<close> read off the list and equality of maps is equality of lists.
\<close>

fun bt_insert :: "'k::linorder \<Rightarrow> 'v \<Rightarrow> ('k \<times> 'v) list \<Rightarrow> ('k \<times> 'v) list" where
  "bt_insert k v [] = [(k, v)]"
| "bt_insert k v ((k', v') # m) =
     (if k < k' then (k, v) # (k', v') # m
      else if k = k' then (k, v) # m
      else (k', v') # bt_insert k v m)"

definition bt_remove :: "'k \<Rightarrow> ('k \<times> 'v) list \<Rightarrow> ('k \<times> 'v) list" where
  "bt_remove k m = filter (\<lambda>e. fst e \<noteq> k) m"

definition bt_wf :: "('k::linorder \<times> 'v) list \<Rightarrow> bool" where
  "bt_wf m \<longleftrightarrow> sorted_wrt (<) (map fst m)"

lemma set_bt_insert_keys: "set (map fst (bt_insert k v m)) = insert k (set (map fst m))"
  by (induction k v m rule: bt_insert.induct) auto

lemma map_of_bt_insert: "map_of (bt_insert k v m) = (map_of m)(k \<mapsto> v)"
  if "bt_wf m"
  using that
proof (induction k v m rule: bt_insert.induct)
  case (2 k v k' v' m)
  then show ?case by (auto simp: bt_wf_def fun_eq_iff)
qed auto

lemma bt_wf_insert: "bt_wf m \<Longrightarrow> bt_wf (bt_insert k v m)"
proof (induction k v m rule: bt_insert.induct)
  case (2 k v k' v' m)
  have "\<forall>x \<in> set (map fst (bt_insert k v m)). k' < x" if "k' < k" "\<forall>x \<in> set (map fst m). k' < x"
    using that by (simp add: set_bt_insert_keys del: set_map)
  with 2 show ?case by (fastforce simp: bt_wf_def)
qed (simp add: bt_wf_def)

lemma bt_wf_Nil [simp]: "bt_wf []"
  by (simp add: bt_wf_def)

lemma bt_wf_remove: "bt_wf m \<Longrightarrow> bt_wf (bt_remove k m)"
  by (induction m) (auto simp: bt_wf_def bt_remove_def)

lemma map_of_bt_remove: "map_of (bt_remove k m) = (map_of m)(k := None)"
  by (induction m) (auto simp: bt_remove_def fun_eq_iff)

lemma bt_wf_distinct: "bt_wf m \<Longrightarrow> distinct (map fst m)"
  by (simp add: bt_wf_def strict_sorted_iff)

locale ordered_map =
  fixes empty :: "'m"
    and insert :: "'k \<Rightarrow> 'v \<Rightarrow> 'm \<Rightarrow> 'm"
    and remove :: "'k \<Rightarrow> 'm \<Rightarrow> 'm"
    and lookup :: "'m \<Rightarrow> 'k \<Rightarrow> 'v option"
    and entries :: "'m \<Rightarrow> ('k \<times> 'v) list"
    and invar :: "'m \<Rightarrow> bool"
  assumes lookup_empty: "lookup empty = Map.empty"
    and lookup_insert: "invar m \<Longrightarrow> lookup (insert k v m) = (lookup m)(k \<mapsto> v)"
    and lookup_remove: "invar m \<Longrightarrow> lookup (remove k m) = (lookup m)(k := None)"
    and entries_lookup: "invar m \<Longrightarrow> (k, v) \<in> set (entries m) \<longleftrightarrow> lookup m k = Some v"
    and distinct_keys: "invar m \<Longrightarrow> distinct (map fst (entries m))"
    and invar_empty: "invar empty"
    and invar_insert: "invar m \<Longrightarrow> invar (insert k v m)"
    and invar_remove: "invar m \<Longrightarrow> invar (remove k m)"
begin

lemma entries_insert:
  "invar m \<Longrightarrow> set (entries (insert k v m)) = Set.insert (k, v) {e \<in> set (entries m). fst e \<noteq> k}"
  by (auto simp: entries_lookup lookup_insert invar_insert split: if_splits)

lemma entries_remove:
  "invar m \<Longrightarrow> set (entries (remove k m)) = {e \<in> set (entries m). fst e \<noteq> k}"
  by (auto simp: entries_lookup lookup_remove invar_remove split: if_splits)

lemma keys_insert:
  "invar m \<Longrightarrow> fst ` set (entries (insert k v m)) = Set.insert k (fst ` set (entries m))"
  by (force simp: entries_insert)

lemma insert_absorbs_remove: "invar m \<Longrightarrow>
  set (entries (insert k v (remove k m))) = set (entries (insert k v m))"
  by (auto simp: entries_insert entries_remove invar_remove)

end

interpretation bt: ordered_map "[]" bt_insert bt_remove map_of "\<lambda>m. m" bt_wf
  by unfold_locales
    (auto simp: map_of_bt_insert map_of_bt_remove bt_wf_insert bt_wf_remove bt_wf_distinct
      dest: map_of_SomeD intro: map_of_is_SomeI)

section \<open>Closed vocabularies\<close>

text \<open>
  Every closed enum of the code base is declared with \<open>ALL\<close>, \<open>as_str\<close> and a \<open>parse\<close> that searches
  \<open>ALL\<close> for the string (\<open>Self::ALL.iter().copied().find(|x| x.as_str() == s)\<close>).
\<close>

definition parse_in :: "'a list \<Rightarrow> ('a \<Rightarrow> string) \<Rightarrow> string \<Rightarrow> 'a option" where
  "parse_in all as_str s = find (\<lambda>x. as_str x = s) all"

locale closed_vocabulary =
  fixes all :: "'a list" and as_str :: "'a \<Rightarrow> string"
  assumes all_complete: "set all = UNIV"
    and all_distinct: "distinct all"
    and as_str_inj: "inj as_str"
begin

lemma parse_as_str: "parse_in all as_str (as_str x) = Some x"
proof -
  have "x \<in> set all" using all_complete by simp
  then show ?thesis
  proof (cases "find (\<lambda>y. as_str y = as_str x) all")
    case None
    with \<open>x \<in> set all\<close> show ?thesis by (auto simp: find_None_iff)
  next
    case (Some y)
    then have "as_str y = as_str x" by (auto simp: find_Some_iff)
    with as_str_inj have "y = x" by (auto dest: injD)
    with Some show ?thesis by (simp add: parse_in_def)
  qed
qed

lemma parse_Some_iff: "parse_in all as_str s = Some x \<longleftrightarrow> as_str x = s"
proof
  assume "parse_in all as_str s = Some x"
  then show "as_str x = s" by (auto simp: parse_in_def find_Some_iff)
qed (auto simp: parse_as_str)

lemma parse_None_iff: "parse_in all as_str s = None \<longleftrightarrow> s \<notin> range as_str"
  by (metis not_None_eq parse_Some_iff rangeE rangeI)

end

text \<open>\<open>join_quoted\<close> of \<open>src/tracker/kind.rs\<close>: the SQL \<open>IN\<close> list of a vocabulary.\<close>

fun join_strings :: "string \<Rightarrow> string list \<Rightarrow> string" where
  "join_strings sep [] = []"
| "join_strings sep [s] = s"
| "join_strings sep (s # t # ss) = s @ sep @ join_strings sep (t # ss)"

definition join_quoted :: "string list \<Rightarrow> string" where
  "join_quoted items = join_strings '','' (map (\<lambda>s. [CHR 0x27] @ s @ [CHR 0x27]) items)"

section \<open>Lists\<close>

lemma find_filter_hd: "find P xs = (case filter P xs of [] \<Rightarrow> None | x # _ \<Rightarrow> Some x)"
  by (induction xs) auto

lemma find_SomeD: "find P xs = Some x \<Longrightarrow> x \<in> set xs \<and> P x"
  by (induction xs) (auto split: if_splits)

lemma sorted_wrt_less_sorted_list_of_set [simp]:
  "sorted_wrt (<) (sorted_list_of_set (A :: 'a::linorder set))"
  by (rule strict_sorted_list_of_set)

section \<open>Saturating 32-bit arithmetic\<close>

definition i32_min :: int where "i32_min = - 2147483648"
definition i32_max :: int where "i32_max = 2147483647"

definition in_i32 :: "int \<Rightarrow> bool" where
  "in_i32 x \<longleftrightarrow> i32_min \<le> x \<and> x \<le> i32_max"

definition clamp_i32 :: "int \<Rightarrow> int" where
  "clamp_i32 x = max i32_min (min i32_max x)"

definition sat_add :: "int \<Rightarrow> int \<Rightarrow> int" where
  "sat_add a b = clamp_i32 (a + b)"

definition sat_sub :: "int \<Rightarrow> int \<Rightarrow> int" where
  "sat_sub a b = clamp_i32 (a - b)"

lemmas i32_defs = i32_min_def i32_max_def in_i32_def clamp_i32_def sat_add_def sat_sub_def

lemma clamp_i32_id: "in_i32 x \<Longrightarrow> clamp_i32 x = x"
  by (simp add: i32_defs)

lemma in_i32_clamp [simp]: "in_i32 (clamp_i32 x)"
  by (simp add: i32_defs)

lemma in_i32_sat [simp]: "in_i32 (sat_add a b)" "in_i32 (sat_sub a b)"
  by (simp_all add: sat_add_def sat_sub_def)

section \<open>Strings\<close>

text \<open>\<open>str::to_lowercase\<close> and \<open>str::contains\<close>, on ASCII text; decimal rendering of a \<open>usize\<close>.\<close>

definition lower_char :: "char \<Rightarrow> char" where
  "lower_char c =
     (let n = (of_char c :: nat) in if 65 \<le> n \<and> n \<le> 90 then char_of (n + 32) else c)"

definition to_lowercase :: "string \<Rightarrow> string" where
  "to_lowercase s = map lower_char s"

text \<open>\<open>str::trim\<close>, on ASCII text.\<close>

definition is_blank :: "char \<Rightarrow> bool" where
  "is_blank c = (let n = (of_char c :: nat) in 9 \<le> n \<and> n \<le> 13 \<or> n = 32)"

definition trim :: "string \<Rightarrow> string" where
  "trim s = rev (dropWhile is_blank (rev (dropWhile is_blank s)))"

fun str_contains :: "string \<Rightarrow> string \<Rightarrow> bool" where
  "str_contains [] n \<longleftrightarrow> n = []"
| "str_contains (c # s) n \<longleftrightarrow> take (length n) (c # s) = n \<or> str_contains s n"

fun decimal :: "nat \<Rightarrow> string" where
  "decimal n = (if n < 10 then [char_of (48 + n)] else decimal (n div 10) @ [char_of (48 + n mod 10)])"

declare decimal.simps [simp del]

end
