(* ===== verification/Csm_Types.thy ===== *)
theory Csm_Types
  imports Prelude
begin

text \<open>
  Protocol types of the communicating-state-machine layer: \<open>src/csm/role.rs\<close> (roles, labels,
  media, actions, stack actions), \<open>src/csm/mpst/global.rs\<close> (global types, the protocol
  environment, participants, communications, the visibly pushdown alphabet and sequential
  composition) and \<open>src/csm/mpst/local.rs\<close> (local types). The laws of sequential composition that
  do not involve well-formedness or projection are proved here.
\<close>

named_theorems csm_defs \<open>literal constructors of protocol types\<close>

section \<open>Roles, labels and actions\<close>

datatype role = Role (role_str: string)

instantiation role :: linorder
begin

definition less_eq_role :: "role \<Rightarrow> role \<Rightarrow> bool" where
  "less_eq_role r s \<longleftrightarrow> role_str r \<le> role_str s"

definition less_role :: "role \<Rightarrow> role \<Rightarrow> bool" where
  "less_role r s \<longleftrightarrow> role_str r < role_str s"

instance
  by standard (auto simp: less_eq_role_def less_role_def role.expand)

end

datatype message_medium = Text | Latent nat string

fun is_latent :: "message_medium \<Rightarrow> bool" where
  "is_latent (Latent _ _) = True"
| "is_latent Text = False"

record label =
  lbl_name :: string
  lbl_medium :: message_medium

definition label_text :: "string \<Rightarrow> label" where
  "label_text n = \<lparr> lbl_name = n, lbl_medium = Text \<rparr>"

definition label_latent :: "string \<Rightarrow> nat \<Rightarrow> string \<Rightarrow> label" where
  "label_latent n hidden_size backbone_sig =
     \<lparr> lbl_name = n, lbl_medium = Latent hidden_size backbone_sig \<rparr>"

definition label_is_latent :: "label \<Rightarrow> bool" where
  "label_is_latent l = is_latent (lbl_medium l)"

record channel =
  ch_from :: role
  ch_to :: role

datatype action = Send role label | Recv role label

fun action_label :: "action \<Rightarrow> label" where
  "action_label (Send _ l) = l"
| "action_label (Recv _ l) = l"

fun action_peer :: "action \<Rightarrow> role" where
  "action_peer (Send to _) = to"
| "action_peer (Recv from _) = from"

datatype stack_action = Neutral | Push | Pop

definition stack_action_all :: "stack_action list" where
  "stack_action_all = [Neutral, Push, Pop]"

fun stack_action_str :: "stack_action \<Rightarrow> string" where
  "stack_action_str Neutral = ''neutral''"
| "stack_action_str Push = ''push''"
| "stack_action_str Pop = ''pop''"

definition stack_action_parse :: "string \<Rightarrow> stack_action option" where
  "stack_action_parse = parse_in stack_action_all stack_action_str"

definition stack_action_sql_in_list :: string where
  "stack_action_sql_in_list = join_quoted (map stack_action_str stack_action_all)"

interpretation stack_action_vocab: closed_vocabulary stack_action_all stack_action_str
proof
  show "set stack_action_all = UNIV"
    unfolding stack_action_all_def using stack_action.exhaust by auto
  show "distinct stack_action_all" by (simp add: stack_action_all_def)
  show "inj stack_action_str"
    by (rule injI, case_tac x; case_tac y; simp)
qed

definition MAX_STACK_DEPTH :: nat where "MAX_STACK_DEPTH = 4096"

section \<open>Global types\<close>

record protocol_ref =
  ref_name :: string

type_synonym role_subst = "(role \<times> role) list"

datatype global_type =
    Interaction role role label global_type
  | Choice role role "(label \<times> global_type) list"
  | Rec string global_type
  | Var string
  | GlobalCall protocol_ref role_subst global_type
  | GlobalBox label global_type label global_type
  | End

type_synonym global_branch = "label \<times> global_type"

lemma global_induct [case_names Interaction Choice Rec Var GlobalCall GlobalBox End Nil Cons]:
  assumes "\<And>f t l c. P c \<Longrightarrow> P (Interaction f t l c)"
    and "\<And>f t bs. Q bs \<Longrightarrow> P (Choice f t bs)"
    and "\<And>x b. P b \<Longrightarrow> P (Rec x b)"
    and "\<And>x. P (Var x)"
    and "\<And>cl s c. P c \<Longrightarrow> P (GlobalCall cl s c)"
    and "\<And>e b x c. P b \<Longrightarrow> P c \<Longrightarrow> P (GlobalBox e b x c)"
    and "P End"
    and "Q []"
    and "\<And>l c bs. P c \<Longrightarrow> Q bs \<Longrightarrow> Q ((l, c) # bs)"
  shows "P g" and "Q bs"
proof -
  show P: "P g" for g
  proof (induction g)
    case (Choice f t bs)
    have "Q bs" using Choice
    proof (induction bs)
      case (Cons b bs)
      have "P (snd b)" by (rule Cons.prems[of b]) (auto simp: snds.simps)
      with Cons show ?case using assms(9)[of "snd b" bs "fst b"] by auto
    qed (rule assms(8))
    then show ?case by (rule assms(2))
  qed (use assms in auto)
  show "Q bs" by (induction bs) (use assms(8,9) P in auto)
qed

subsection \<open>The protocol environment\<close>

text \<open>
  \<open>ProtocolEnv\<close> wraps a \<open>BTreeMap<String, GlobalType>\<close>.
\<close>

type_synonym protocol_env = "(string \<times> global_type) list"

definition env_new :: protocol_env where
  "env_new = []"

definition env_insert :: "string \<Rightarrow> global_type \<Rightarrow> protocol_env \<Rightarrow> protocol_env" where
  "env_insert n g env = bt_insert n g env"

definition env_resolve :: "protocol_env \<Rightarrow> protocol_ref \<Rightarrow> global_type option" where
  "env_resolve env r = map_of env (ref_name r)"

definition env_contains :: "protocol_env \<Rightarrow> protocol_ref \<Rightarrow> bool" where
  "env_contains env r \<longleftrightarrow> map_of env (ref_name r) \<noteq> None"

subsection \<open>Participants, communications and alphabet\<close>

fun collect_roles :: "global_type \<Rightarrow> role set \<Rightarrow> role set"
  and collect_roles_branches :: "global_branch list \<Rightarrow> role set \<Rightarrow> role set" where
  "collect_roles (Interaction from to _ cont) acc =
     collect_roles cont (insert to (insert from acc))"
| "collect_roles (Choice from to branches) acc =
     collect_roles_branches branches (insert to (insert from acc))"
| "collect_roles (Rec _ body) acc = collect_roles body acc"
| "collect_roles (GlobalCall _ subst cont) acc =
     collect_roles cont (acc \<union> set (map snd subst))"
| "collect_roles (GlobalBox _ body _ cont) acc = collect_roles cont (collect_roles body acc)"
| "collect_roles (Var _) acc = acc"
| "collect_roles End acc = acc"
| "collect_roles_branches [] acc = acc"
| "collect_roles_branches ((_, cont) # bs) acc =
     collect_roles_branches bs (collect_roles cont acc)"

definition participants :: "global_type \<Rightarrow> role set" where
  "participants g = collect_roles g {}"

fun collect_comms :: "global_type \<Rightarrow> (string \<times> string \<times> string) list \<Rightarrow> (string \<times> string \<times> string) list"
  and collect_comms_branches ::
    "role \<Rightarrow> role \<Rightarrow> global_branch list \<Rightarrow> (string \<times> string \<times> string) list
      \<Rightarrow> (string \<times> string \<times> string) list" where
  "collect_comms (Interaction from to l cont) acc =
     collect_comms cont (acc @ [(role_str from, role_str to, lbl_name l)])"
| "collect_comms (Choice from to branches) acc = collect_comms_branches from to branches acc"
| "collect_comms (Rec _ body) acc = collect_comms body acc"
| "collect_comms (GlobalCall _ _ cont) acc = collect_comms cont acc"
| "collect_comms (GlobalBox _ body _ cont) acc = collect_comms cont (collect_comms body acc)"
| "collect_comms (Var _) acc = acc"
| "collect_comms End acc = acc"
| "collect_comms_branches from to [] acc = acc"
| "collect_comms_branches from to ((l, cont) # bs) acc =
     collect_comms_branches from to bs
       (collect_comms cont (acc @ [(role_str from, role_str to, lbl_name l)]))"

definition communications :: "global_type \<Rightarrow> (string \<times> string \<times> string) list" where
  "communications g = collect_comms g []"

fun collect_alphabet :: "global_type \<Rightarrow> (string \<times> stack_action) list \<Rightarrow> (string \<times> stack_action) list"
  and collect_alphabet_branches ::
    "global_branch list \<Rightarrow> (string \<times> stack_action) list \<Rightarrow> (string \<times> stack_action) list" where
  "collect_alphabet (Interaction _ _ l cont) acc =
     collect_alphabet cont (acc @ [(lbl_name l, Neutral)])"
| "collect_alphabet (Choice _ _ branches) acc = collect_alphabet_branches branches acc"
| "collect_alphabet (Rec _ body) acc = collect_alphabet body acc"
| "collect_alphabet (GlobalCall callee _ cont) acc =
     collect_alphabet cont
       (acc @ [(''call:'' @ ref_name callee, Push), (''ret:'' @ ref_name callee, Pop)])"
| "collect_alphabet (GlobalBox enter body exit cont) acc =
     collect_alphabet cont
       (collect_alphabet body (acc @ [(lbl_name enter, Push)]) @ [(lbl_name exit, Pop)])"
| "collect_alphabet (Var _) acc = acc"
| "collect_alphabet End acc = acc"
| "collect_alphabet_branches [] acc = acc"
| "collect_alphabet_branches ((l, cont) # bs) acc =
     collect_alphabet_branches bs (collect_alphabet cont (acc @ [(lbl_name l, Neutral)]))"

definition alphabet :: "global_type \<Rightarrow> (string \<times> stack_action) list" where
  "alphabet g = collect_alphabet g []"

subsection \<open>Sequential composition\<close>

fun gthen :: "global_type \<Rightarrow> global_type \<Rightarrow> global_type"
  and gthen_branches :: "global_branch list \<Rightarrow> global_type \<Rightarrow> global_branch list" where
  "gthen End k = k"
| "gthen (Interaction from to l c) k = Interaction from to l (gthen c k)"
| "gthen (Choice from to bs) k = Choice from to (gthen_branches bs k)"
| "gthen (Rec x b) k = Rec x (gthen b k)"
| "gthen (Var x) k = Var x"
| "gthen (GlobalCall callee subst c) k = GlobalCall callee subst (gthen c k)"
| "gthen (GlobalBox enter b exit c) k = GlobalBox enter b exit (gthen c k)"
| "gthen_branches [] k = []"
| "gthen_branches ((l, c) # bs) k = (l, gthen c k) # gthen_branches bs k"

section \<open>Local types\<close>

datatype local_type =
    LSend role label local_type
  | LRecv role label local_type
  | LSelect role "(label \<times> local_type) list"
  | LBranch role "(label \<times> local_type) list"
  | LRec string local_type
  | LVar string
  | LCall protocol_ref role_subst local_type
  | LBox label local_type label local_type
  | LEnd

type_synonym local_branch = "label \<times> local_type"

lemma local_induct
  [case_names LSend LRecv LSelect LBranch LRec LVar LCall LBox LEnd Nil Cons]:
  assumes "\<And>t l c. P c \<Longrightarrow> P (LSend t l c)"
    and "\<And>f l c. P c \<Longrightarrow> P (LRecv f l c)"
    and "\<And>t bs. Q bs \<Longrightarrow> P (LSelect t bs)"
    and "\<And>f bs. Q bs \<Longrightarrow> P (LBranch f bs)"
    and "\<And>x b. P b \<Longrightarrow> P (LRec x b)"
    and "\<And>x. P (LVar x)"
    and "\<And>cl s c. P c \<Longrightarrow> P (LCall cl s c)"
    and "\<And>e b x c. P b \<Longrightarrow> P c \<Longrightarrow> P (LBox e b x c)"
    and "P LEnd"
    and Nil: "Q []"
    and Cons: "\<And>l c bs. P c \<Longrightarrow> Q bs \<Longrightarrow> Q ((l, c) # bs)"
  shows "P t" and "Q bs"
proof -
  have list: "Q bs" if "\<And>b. b \<in> set bs \<Longrightarrow> P (snd b)" for bs
    using that
  proof (induction bs)
    case (Cons b bs)
    then show ?case using assms(11)[of "snd b" bs "fst b"] by auto
  qed (rule Nil)
  show P: "P t" for t
  proof (induction t)
    case (LSelect r bs)
    have "Q bs" by (rule list) (use LSelect in \<open>auto simp: snds.simps\<close>)
    then show ?case by (rule assms(3))
  next
    case (LBranch r bs)
    have "Q bs" by (rule list) (use LBranch in \<open>auto simp: snds.simps\<close>)
    then show ?case by (rule assms(4))
  qed (use assms in auto)
  show "Q bs" by (rule list) (rule P)
qed

section \<open>Laws\<close>

lemma collect_roles_acc:
  "collect_roles g acc = acc \<union> collect_roles g {}"
  "collect_roles_branches bs acc = acc \<union> collect_roles_branches bs {}"
proof (induction g and bs arbitrary: acc and acc rule: global_induct)
  case (Interaction f t l c)
  show ?case by (simp, subst (1 2) Interaction) auto
next
  case (Choice f t bs)
  show ?case by (simp, subst (1 2) Choice) auto
next
  case (GlobalCall cl s c)
  show ?case by (simp, subst (1 2) GlobalCall) auto
next
  case (GlobalBox e b x c)
  show ?case by (simp, subst (1 2) GlobalBox(2), subst GlobalBox(1)) auto
next
  case (Cons l c bs)
  show ?case by (simp, subst (1 2) Cons(2), subst Cons(1)) auto
next
  case (Rec x b)
  show ?case by (simp, rule Rec)
qed auto

lemma participants_simps [simp]:
  "participants (Interaction f t l c) = {f, t} \<union> participants c"
  "participants (Choice f t bs) = {f, t} \<union> (\<Union>b \<in> set bs. participants (snd b))"
  "participants (Rec x b) = participants b"
  "participants (Var x) = {}"
  "participants (GlobalCall cl s c) = set (map snd s) \<union> participants c"
  "participants (GlobalBox e b y c) = participants b \<union> participants c"
  "participants End = {}"
proof -
  have branches: "collect_roles_branches bs {} = (\<Union>b \<in> set bs. participants (snd b))" for bs
    by (induction bs)
      (auto simp: participants_def collect_roles_acc(2)[where acc = "collect_roles _ _"])
  show "participants (Interaction f t l c) = {f, t} \<union> participants c"
    by (subst participants_def, simp, subst collect_roles_acc) (auto simp: participants_def)
  show "participants (Choice f t bs) = {f, t} \<union> (\<Union>b \<in> set bs. participants (snd b))"
    by (subst participants_def, simp, subst collect_roles_acc) (auto simp: branches)
  show "participants (GlobalCall cl s c) = set (map snd s) \<union> participants c"
    by (subst participants_def, simp, subst collect_roles_acc) (auto simp: participants_def)
  show "participants (GlobalBox e b y c) = participants b \<union> participants c"
    by (subst participants_def, simp, subst collect_roles_acc) (auto simp: participants_def)
qed (auto simp: participants_def)

lemma finite_participants [simp, intro]: "finite (participants g)"
proof -
  have "finite (participants g)" and "\<forall>b \<in> set bs. finite (participants (snd b))" for bs :: "global_branch list"
    by (induction g and bs rule: global_induct) auto
  then show ?thesis by blast
qed

lemma collect_alphabet_acc:
  "collect_alphabet g acc = acc @ collect_alphabet g []"
  "collect_alphabet_branches bs acc = acc @ collect_alphabet_branches bs []"
proof (induction g and bs arbitrary: acc and acc rule: global_induct)
  case (Interaction f t l c)
  show ?case by (simp, subst (1 2) Interaction) simp
next
  case (GlobalCall cl s c)
  show ?case by (simp, subst (1 2) GlobalCall) simp
next
  case (GlobalBox e b x c)
  show ?case by (simp, subst (1 2) GlobalBox(2), subst (1 2) GlobalBox(1)) simp
next
  case (Cons l c bs)
  show ?case by (simp, subst (1 2) Cons(2), subst (1 2) Cons(1)) simp
next
  case (Rec x b)
  show ?case by (simp, rule Rec)
next
  case (Choice f t bs)
  show ?case by (simp, rule Choice)
qed simp_all

lemma alphabet_simps [simp]:
  "alphabet (Interaction f t l c) = (lbl_name l, Neutral) # alphabet c"
  "alphabet (Choice f t bs) = concat (map (\<lambda>b. (lbl_name (fst b), Neutral) # alphabet (snd b)) bs)"
  "alphabet (Rec x b) = alphabet b"
  "alphabet (Var x) = []"
  "alphabet (GlobalCall cl s c) =
     (''call:'' @ ref_name cl, Push) # (''ret:'' @ ref_name cl, Pop) # alphabet c"
  "alphabet (GlobalBox e b y c) =
     (lbl_name e, Push) # alphabet b @ (lbl_name y, Pop) # alphabet c"
  "alphabet End = []"
proof -
  have branches: "collect_alphabet_branches bs [] =
    concat (map (\<lambda>b. (lbl_name (fst b), Neutral) # alphabet (snd b)) bs)" for bs
  proof (induction bs)
    case (Cons b bs)
    then show ?case
      by (cases b) (simp, subst collect_alphabet_acc(2), subst collect_alphabet_acc(1),
        simp add: alphabet_def)
  qed simp
  show "alphabet (Choice f t bs) =
    concat (map (\<lambda>b. (lbl_name (fst b), Neutral) # alphabet (snd b)) bs)"
    by (simp add: alphabet_def[of "Choice f t bs"] branches)
  show "alphabet (Interaction f t l c) = (lbl_name l, Neutral) # alphabet c"
    by (subst alphabet_def, simp, subst collect_alphabet_acc) (simp add: alphabet_def)
  show "alphabet (GlobalCall cl s c) =
     (''call:'' @ ref_name cl, Push) # (''ret:'' @ ref_name cl, Pop) # alphabet c"
    by (subst alphabet_def, simp, subst collect_alphabet_acc) (simp add: alphabet_def)
  show "alphabet (GlobalBox e b y c) =
     (lbl_name e, Push) # alphabet b @ (lbl_name y, Pop) # alphabet c"
    by (subst alphabet_def, simp, subst collect_alphabet_acc, subst (2) collect_alphabet_acc,
      simp add: alphabet_def, subst collect_alphabet_acc, simp)
qed (auto simp: alphabet_def)

lemma gthen_branches_map: "gthen_branches bs k = map (\<lambda>b. (fst b, gthen (snd b) k)) bs"
  by (induction bs) auto

lemma gthen_End_right [simp]: "gthen g End = g" "gthen_branches bs End = bs"
  by (induction g and bs rule: global_induct) auto

lemma gthen_assoc:
  "gthen (gthen p q) r = gthen p (gthen q r)"
  "gthen_branches (gthen_branches bs q) r = gthen_branches bs (gthen q r)"
  by (induction p and bs rule: global_induct) auto

lemma participants_gthen_subset: "participants (gthen p q) \<subseteq> participants p \<union> participants q"
proof -
  have "participants (gthen p q) \<subseteq> participants p \<union> participants q"
    and "\<forall>b \<in> set (gthen_branches bs q). participants (snd b) \<subseteq>
      (\<Union>b \<in> set bs. participants (snd b)) \<union> participants q" for bs
    by (induction p and bs rule: global_induct) fastforce+
  then show ?thesis by blast
qed

lemma participants_gthen_superset: "participants p \<subseteq> participants (gthen p q)"
proof -
  have "participants p \<subseteq> participants (gthen p q)"
    and "(\<Union>b \<in> set bs. participants (snd b)) \<subseteq>
      (\<Union>b \<in> set (gthen_branches bs q). participants (snd b))" for bs
    by (induction p and bs rule: global_induct) fastforce+
  then show ?thesis by blast
qed

lemma alphabet_gthen_subset: "set (alphabet (gthen p q)) \<subseteq> set (alphabet p) \<union> set (alphabet q)"
proof -
  have "set (alphabet (gthen p q)) \<subseteq> set (alphabet p) \<union> set (alphabet q)"
    and "\<forall>b \<in> set (gthen_branches bs q). set (alphabet (snd b)) \<subseteq>
      (\<Union>b \<in> set bs. set (alphabet (snd b))) \<union> set (alphabet q)" for bs
    by (induction p and bs rule: global_induct) (fastforce simp: gthen_branches_map)+
  then show ?thesis by blast
qed

end
