(* ===== verification/Csm_Wellformed.thy ===== *)
theory Csm_Wellformed
  imports Csm_Types "HOL-Library.Transitive_Closure_Table"
begin

text \<open>
  Well-formedness of global types, \<open>src/csm/mpst/wellformed.rs\<close>: the structural pass
  (\<open>check\<close>), the visibly pushdown pass (\<open>check_visibility\<close>) and the callee pass
  (\<open>check_callees\<close>, a walk of the call graph guarded by the set of names on the current path).
  The lemmas characterise each pass, show that no pass panics, and show when sequential
  composition keeps a protocol well-formed.
\<close>

section \<open>The checker\<close>

datatype wf_error =
    SelfMessage role
  | UnboundVar string
  | UnguardedRec string
  | EmptyChoice role role
  | DuplicateChoiceLabel string
  | UnknownCallee string
  | MalformedBox string
  | NonInjectiveSubst string
  | VpaSymbolConflict string
  | ReservedBoundaryLabel string
  | StackBoundExceeded nat

text \<open>The first element a growing \<open>BTreeSet\<close> refuses to insert.\<close>

fun first_dup :: "'a set \<Rightarrow> 'a list \<Rightarrow> 'a option" where
  "first_dup seen [] = None"
| "first_dup seen (x # xs) = (if x \<in> seen then Some x else first_dup (insert x seen) xs)"

fun guarded :: "global_type \<Rightarrow> string \<Rightarrow> bool" where
  "guarded (Var v) x \<longleftrightarrow> v \<noteq> x"
| "guarded (Rec inner body) x \<longleftrightarrow> (if inner = x then True else guarded body x)"
| "guarded _ x \<longleftrightarrow> True"

fun can_terminate :: "global_type \<Rightarrow> bool"
  and can_terminate_any :: "global_branch list \<Rightarrow> bool" where
  "can_terminate End \<longleftrightarrow> True"
| "can_terminate (Var _) \<longleftrightarrow> False"
| "can_terminate (Interaction _ _ _ cont) \<longleftrightarrow> can_terminate cont"
| "can_terminate (Choice _ _ branches) \<longleftrightarrow> can_terminate_any branches"
| "can_terminate (Rec _ body) \<longleftrightarrow> can_terminate body"
| "can_terminate (GlobalCall _ _ cont) \<longleftrightarrow> can_terminate cont"
| "can_terminate (GlobalBox _ _ _ cont) \<longleftrightarrow> can_terminate cont"
| "can_terminate_any [] \<longleftrightarrow> False"
| "can_terminate_any ((_, cont) # bs) \<longleftrightarrow> can_terminate cont \<or> can_terminate_any bs"

definition quote :: "string \<Rightarrow> string" where
  "quote s = [CHR 0x27] @ s @ [CHR 0x27]"

fun check :: "global_type \<Rightarrow> string list \<Rightarrow> (wf_error, unit) outcome"
  and check_branches :: "global_branch list \<Rightarrow> string list \<Rightarrow> (wf_error, unit) outcome" where
  "check (Interaction from to _ cont) bound =
     (if from = to then Err (SelfMessage from) else check cont bound)"
| "check (Choice from to branches) bound =
     (if from = to then Err (SelfMessage from)
      else if branches = [] then Err (EmptyChoice from to)
      else case first_dup {} (map (\<lambda>b. lbl_name (fst b)) branches) of
        Some l \<Rightarrow> Err (DuplicateChoiceLabel l)
      | None \<Rightarrow> check_branches branches bound)"
| "check (Rec x body) bound =
     (if \<not> guarded body x then Err (UnguardedRec x) else check body (x # bound))"
| "check (Var x) bound = (if x \<in> set bound then Ok () else Err (UnboundVar x))"
| "check (GlobalCall _ subst cont) bound =
     (if subst = [] then Err (NonInjectiveSubst ''<empty substitution>'')
      else case first_dup {} (map snd subst) of
        Some r \<Rightarrow> Err (NonInjectiveSubst (role_str r))
      | None \<Rightarrow> check cont bound)"
| "check (GlobalBox enter body exit cont) bound =
     (if lbl_name enter = [] \<or> lbl_name exit = []
      then Err (MalformedBox ''empty enter/exit boundary label'')
      else if \<not> can_terminate body
      then Err (MalformedBox
        (''box body '' @ quote (lbl_name enter) @ '' can never reach End (cannot return)''))
      else and_then (check body []) (\<lambda>_. check cont bound))"
| "check End bound = Ok ()"
| "check_branches [] bound = Ok ()"
| "check_branches ((_, cont) # bs) bound =
     and_then (check cont bound) (\<lambda>_. check_branches bs bound)"

definition starts_with :: "string \<Rightarrow> string \<Rightarrow> bool" where
  "starts_with p s \<longleftrightarrow> take (length p) s = p"

fun check_symbols ::
  "(string \<times> stack_action) list \<Rightarrow> (string \<times> stack_action) list \<Rightarrow> (wf_error, unit) outcome" where
  "check_symbols action_of [] = Ok ()"
| "check_symbols action_of ((l, a) # rest) =
     (if a = Neutral \<and> (starts_with ''call:'' l \<or> starts_with ''ret:'' l)
      then Err (ReservedBoundaryLabel l)
      else case map_of action_of l of
        Some prev \<Rightarrow> if prev \<noteq> a then Err (VpaSymbolConflict l)
                     else check_symbols (bt_insert l a action_of) rest
      | None \<Rightarrow> check_symbols (bt_insert l a action_of) rest)"

definition check_visibility :: "global_type \<Rightarrow> (wf_error, unit) outcome" where
  "check_visibility g = check_symbols [] (alphabet g)"

lemma card_unvisited_decreases:
  assumes "map_of env n = Some b" and "n \<notin> V"
  shows "card (fst ` set env - insert n V) < card (fst ` set env - V)"
proof (rule psubset_card_mono)
  have "n \<in> fst ` set env" using map_of_SomeD[OF assms(1)] by force
  with assms(2) show "fst ` set env - insert n V \<subset> fst ` set env - V" by blast
qed simp

text \<open>
  The mutable \<open>visiting\<close> set is inserted into before a callee is expanded and restored after, so
  the model passes it down.
\<close>

function (sequential) check_callees ::
  "global_type \<Rightarrow> protocol_env \<Rightarrow> string set \<Rightarrow> nat \<Rightarrow> (wf_error, unit) outcome"
  and check_callees_node ::
  "global_type \<Rightarrow> protocol_env \<Rightarrow> string set \<Rightarrow> nat \<Rightarrow> (wf_error, unit) outcome"
  and check_callees_branches ::
  "global_branch list \<Rightarrow> protocol_env \<Rightarrow> string set \<Rightarrow> nat \<Rightarrow> (wf_error, unit) outcome" where
  "check_callees g env visiting depth =
     (if depth > MAX_STACK_DEPTH then Err (StackBoundExceeded depth)
      else check_callees_node g env visiting depth)"
| "check_callees_node (Interaction _ _ _ cont) env visiting depth =
     check_callees cont env visiting depth"
| "check_callees_node (Choice _ _ branches) env visiting depth =
     check_callees_branches branches env visiting depth"
| "check_callees_node (Rec _ body) env visiting depth = check_callees body env visiting depth"
| "check_callees_node (GlobalBox _ body _ cont) env visiting depth =
     and_then (check_callees body env visiting (depth + 1))
       (\<lambda>_. check_callees cont env visiting depth)"
| "check_callees_node (GlobalCall callee _ cont) env visiting depth =
     (case env_resolve env callee of
        None \<Rightarrow> Err (UnknownCallee (ref_name callee))
      | Some body \<Rightarrow>
          and_then
            (if ref_name callee \<in> visiting then Ok ()
             else and_then (check body []) (\<lambda>_. and_then (check_visibility body) (\<lambda>_.
               check_callees body env (insert (ref_name callee) visiting) (depth + 1))))
            (\<lambda>_. check_callees cont env visiting depth))"
| "check_callees_node (Var _) env visiting depth = Ok ()"
| "check_callees_node End env visiting depth = Ok ()"
| "check_callees_branches [] env visiting depth = Ok ()"
| "check_callees_branches ((_, cont) # bs) env visiting depth =
     and_then (check_callees cont env visiting depth)
       (\<lambda>_. check_callees_branches bs env visiting depth)"
  by pat_completeness auto

termination
  by (relation "measures
      [\<lambda>x. case x of Inl (g, env, V, d) \<Rightarrow> card (fst ` set env - V)
         | Inr (Inl (g, env, V, d)) \<Rightarrow> card (fst ` set env - V)
         | Inr (Inr (bs, env, V, d)) \<Rightarrow> card (fst ` set env - V),
       \<lambda>x. case x of Inl (g, env, V, d) \<Rightarrow> 2 * size g + 1
         | Inr (Inl (g, env, V, d)) \<Rightarrow> 2 * size g
         | Inr (Inr (bs, env, V, d)) \<Rightarrow> 2 * size_list (size_prod (\<lambda>_. 0) size) bs + 1]")
    (auto simp: env_resolve_def card_unvisited_decreases)

definition well_formed_in :: "global_type \<Rightarrow> protocol_env \<Rightarrow> (wf_error, unit) outcome" where
  "well_formed_in g env =
     and_then (check g []) (\<lambda>_. and_then (check_visibility g) (\<lambda>_. check_callees g env {} 0))"

definition well_formed :: "global_type \<Rightarrow> (wf_error, unit) outcome" where
  "well_formed g = well_formed_in g env_new"

section \<open>The structural pass\<close>

lemma first_dup_None_iff: "first_dup seen xs = None \<longleftrightarrow> distinct xs \<and> set xs \<inter> seen = {}"
  by (induction seen xs rule: first_dup.induct) auto

lemma first_dup_SomeD: "first_dup {} xs = Some x \<Longrightarrow> \<not> distinct xs"
  using first_dup_None_iff[of "{}" xs] by auto

lemma check_branches_Ok_iff:
  "check_branches bs bound = Ok () \<longleftrightarrow> (\<forall>b \<in> set bs. check (snd b) bound = Ok ())"
  by (induction bs) auto

lemma check_Ok_simps [simp]:
  "check (Interaction f t l c) bound = Ok () \<longleftrightarrow> f \<noteq> t \<and> check c bound = Ok ()"
  "check (Choice f t bs) bound = Ok () \<longleftrightarrow> f \<noteq> t \<and> bs \<noteq> []
     \<and> distinct (map (\<lambda>b. lbl_name (fst b)) bs) \<and> (\<forall>b \<in> set bs. check (snd b) bound = Ok ())"
  "check (Rec x b) bound = Ok () \<longleftrightarrow> guarded b x \<and> check b (x # bound) = Ok ()"
  "check (Var x) bound = Ok () \<longleftrightarrow> x \<in> set bound"
  "check (GlobalCall cl s c) bound = Ok () \<longleftrightarrow>
     s \<noteq> [] \<and> distinct (map snd s) \<and> check c bound = Ok ()"
  "check (GlobalBox e b y c) bound = Ok () \<longleftrightarrow> lbl_name e \<noteq> [] \<and> lbl_name y \<noteq> []
     \<and> can_terminate b \<and> check b [] = Ok () \<and> check c bound = Ok ()"
  by (auto simp: check_branches_Ok_iff first_dup_None_iff dest: first_dup_SomeD
      split: option.splits)

declare check.simps(1-6) [simp del]

lemma check_no_panic:
  "check g bound \<noteq> Panic m" "check_branches bs bound \<noteq> Panic m"
proof (induction g and bs arbitrary: bound and bound rule: global_induct)
  case (GlobalBox e b x c)
  then show ?case by (cases "check b []") (auto simp: check.simps)
next
  case (Cons l c bs)
  then show ?case by (cases "check c bound") (auto simp: check.simps)
qed (auto simp: check.simps split: option.splits)

lemma check_weaken:
  fixes bs :: "global_branch list"
  shows "check g bound = Ok () \<Longrightarrow> set bound \<subseteq> set bound' \<Longrightarrow> check g bound' = Ok ()"
  "\<forall>b \<in> set bs. check (snd b) bound = Ok () \<Longrightarrow> set bound \<subseteq> set bound' \<Longrightarrow>
    \<forall>b \<in> set bs. check (snd b) bound' = Ok ()"
proof (induction g and bs arbitrary: bound bound' and bound bound' rule: global_induct)
  case (Rec x b)
  from Rec.prems show ?case by (simp, intro Rec.IH[of "x # bound" "x # bound'"]) auto
next
  case (Cons l c bs)
  then show ?case by (simp, blast)
qed auto

text \<open>A variable that is not free in a checked type is guarded in it.\<close>

lemma guarded_if_not_bound: "check g bound = Ok () \<Longrightarrow> x \<notin> set bound \<Longrightarrow> guarded g x"
  by (induction g arbitrary: bound) auto

lemma guarded_gthen:
  "guarded g x \<Longrightarrow> check k [] = Ok () \<Longrightarrow> guarded (gthen g k) x"
  by (induction g) (auto intro: guarded_if_not_bound)

lemma check_gthen:
  fixes bs :: "global_branch list"
  shows "check g bound = Ok () \<Longrightarrow> check k [] = Ok () \<Longrightarrow> check (gthen g k) bound = Ok ()"
  "\<forall>b \<in> set bs. check (snd b) bound = Ok () \<Longrightarrow> check k [] = Ok () \<Longrightarrow>
     \<forall>b \<in> set (gthen_branches bs k). check (snd b) bound = Ok ()"
proof (induction g and bs arbitrary: bound and bound rule: global_induct)
  case (Choice f t bs)
  moreover have "map (\<lambda>b. lbl_name (fst b)) (gthen_branches bs k) = map (\<lambda>b. lbl_name (fst b)) bs"
    by (simp add: gthen_branches_map comp_def)
  moreover have "gthen_branches bs k = [] \<longleftrightarrow> bs = []"
    by (simp add: gthen_branches_map)
  ultimately show ?case by simp
next
  case (Rec x b)
  then show ?case by (auto intro: guarded_gthen)
next
  case End
  then show ?case by (auto intro: check_weaken)
qed auto

section \<open>The visibly pushdown pass\<close>

definition reserved :: "string \<Rightarrow> bool" where
  "reserved l \<longleftrightarrow> starts_with ''call:'' l \<or> starts_with ''ret:'' l"

lemma check_symbols_Ok_iff:
  assumes "bt_wf m"
  shows "check_symbols m xs = Ok () \<longleftrightarrow>
    (\<forall>l. (l, Neutral) \<in> set xs \<longrightarrow> \<not> reserved l) \<and>
    (\<forall>l a b. (l, a) \<in> set xs \<longrightarrow> (l, b) \<in> set xs \<union> set m \<longrightarrow> a = b)"
  using assms
proof (induction xs arbitrary: m)
  case (Cons s rest)
  obtain l a where s: "s = (l, a)" by (cases s)
  note ins = bt.entries_insert[OF Cons.prems, of l a]
  have IH: "check_symbols (bt_insert l a m) rest = Ok () \<longleftrightarrow>
    (\<forall>l. (l, Neutral) \<in> set rest \<longrightarrow> \<not> reserved l) \<and>
    (\<forall>k b c. (k, b) \<in> set rest \<longrightarrow>
      (k, c) \<in> set rest \<union> insert (l, a) {e \<in> set m. fst e \<noteq> l} \<longrightarrow> b = c)"
    using Cons.IH[OF bt_wf_insert[OF Cons.prems, of l a]] unfolding ins .
  have step: "check_symbols m (s # rest) = Ok () \<longleftrightarrow> \<not> (a = Neutral \<and> reserved l) \<and>
    (\<forall>b. (l, b) \<in> set m \<longrightarrow> a = b) \<and> check_symbols (bt_insert l a m) rest = Ok ()"
    using bt.entries_lookup[OF Cons.prems, of l]
    by (auto simp: s reserved_def split: option.splits)
  show ?case unfolding step IH by (simp add: s) blast
qed simp

lemma check_symbols_no_panic: "check_symbols m xs \<noteq> Panic s"
  by (induction m xs rule: check_symbols.induct) (auto split: option.splits)

definition visible :: "(string \<times> stack_action) set \<Rightarrow> bool" where
  "visible A \<longleftrightarrow> (\<forall>l. (l, Neutral) \<in> A \<longrightarrow> \<not> reserved l)
     \<and> (\<forall>l a b. (l, a) \<in> A \<longrightarrow> (l, b) \<in> A \<longrightarrow> a = b)"

lemma check_visibility_iff: "check_visibility g = Ok () \<longleftrightarrow> visible (set (alphabet g))"
  by (simp add: check_visibility_def check_symbols_Ok_iff visible_def)

lemma visible_mono: "visible B \<Longrightarrow> A \<subseteq> B \<Longrightarrow> visible A"
  unfolding visible_def by blast

section \<open>The callee pass\<close>

fun callee_names :: "global_type \<Rightarrow> string set"
  and callee_names_branches :: "global_branch list \<Rightarrow> string set" where
  "callee_names (Interaction _ _ _ c) = callee_names c"
| "callee_names (Choice _ _ bs) = callee_names_branches bs"
| "callee_names (Rec _ b) = callee_names b"
| "callee_names (GlobalBox _ b _ c) = callee_names b \<union> callee_names c"
| "callee_names (GlobalCall cl _ c) = insert (ref_name cl) (callee_names c)"
| "callee_names (Var _) = {}"
| "callee_names End = {}"
| "callee_names_branches [] = {}"
| "callee_names_branches ((_, c) # bs) = callee_names c \<union> callee_names_branches bs"

definition call_edge :: "protocol_env \<Rightarrow> string \<Rightarrow> string \<Rightarrow> bool" where
  "call_edge env m n \<longleftrightarrow> (\<exists>b. map_of env m = Some b \<and> n \<in> callee_names b)"

definition sound_callee :: "protocol_env \<Rightarrow> string \<Rightarrow> bool" where
  "sound_callee env n \<longleftrightarrow>
     (\<exists>b. map_of env n = Some b \<and> check b [] = Ok () \<and> check_visibility b = Ok ())"

text \<open>What one successful walk of a type says of the callees it names.\<close>

definition walked :: "protocol_env \<Rightarrow> string set \<Rightarrow> string \<Rightarrow> bool" where
  "walked env V n \<longleftrightarrow> (\<exists>b. map_of env n = Some b) \<and>
     (n \<in> V \<or> sound_callee env n \<and>
       (\<exists>d b. map_of env n = Some b \<and> check_callees b env (insert n V) d = Ok ()))"

lemma check_callees_walked:
  "check_callees g env V d = Ok () \<Longrightarrow> n \<in> callee_names g \<Longrightarrow> walked env V n"
  "check_callees_node g env V d = Ok () \<Longrightarrow> n \<in> callee_names g \<Longrightarrow> walked env V n"
  "check_callees_branches bs env V d = Ok () \<Longrightarrow> n \<in> callee_names_branches bs \<Longrightarrow> walked env V n"
proof (induction g env V d and g env V d and bs env V d
    rule: check_callees_check_callees_node_check_callees_branches.induct)
  case (6 callee s cont env V d)
  then obtain b where b: "env_resolve env callee = Some b"
    and cont: "check_callees cont env V d = Ok ()"
    and body: "ref_name callee \<notin> V \<Longrightarrow> check b [] = Ok () \<and> check_visibility b = Ok () \<and>
      check_callees b env (insert (ref_name callee) V) (d + 1) = Ok ()"
    by (auto split: option.splits if_splits)
  show ?case
  proof (cases "n = ref_name callee")
    case True
    with b body show ?thesis
      unfolding walked_def sound_callee_def env_resolve_def by blast
  next
    case False
    with 6(2)[OF b _ cont] 6(4) body show ?thesis by (cases "ref_name callee \<in> V") auto
  qed
qed (auto split: if_splits)

lemma check_callees_path:
  assumes "rtrancl_path (call_edge env) n ns m" "distinct (n # ns)" "set (n # ns) \<inter> V = {}"
    and "check_callees g env V d = Ok ()" "n \<in> callee_names g"
  shows "sound_callee env m"
  using assms
proof (induction arbitrary: V g d rule: rtrancl_path.induct)
  case (base x)
  then show ?case using check_callees_walked(1)[OF base(3,4)] by (auto simp: walked_def)
next
  case (step x y ys z)
  from check_callees_walked(1)[OF step.prems(3,4)] step.prems(2)
  obtain d' b where b: "map_of env x = Some b" "check_callees b env (insert x V) d' = Ok ()"
    by (auto simp: walked_def)
  with step.hyps(1) have "y \<in> callee_names b" by (auto simp: call_edge_def)
  with step.IH[OF _ _ b(2)] step.prems show ?case by auto
qed

lemma check_callees_reachable:
  assumes "check_callees g env {} d = Ok ()" "n \<in> callee_names g" "(call_edge env)\<^sup>*\<^sup>* n m"
  shows "sound_callee env m"
proof -
  obtain ns where "rtrancl_path (call_edge env) n ns m"
    using assms(3) by (auto simp: rtranclp_eq_rtrancl_path)
  then obtain ns' where "rtrancl_path (call_edge env) n ns' m" "distinct (n # ns')"
    by (rule rtrancl_path_distinct)
  then show ?thesis using check_callees_path assms(1,2) by blast
qed

lemma check_callees_no_panic:
  "check_callees g env V d \<noteq> Panic s"
  "check_callees_node g env V d \<noteq> Panic s"
  "check_callees_branches bs env V d \<noteq> Panic s"
  by (induction g env V d and g env V d and bs env V d
      rule: check_callees_check_callees_node_check_callees_branches.induct)
    (auto simp: check_no_panic check_visibility_def check_symbols_no_panic
      split: option.splits if_splits)

lemma check_callees_gthen:
  "check_callees p env V d = Ok () \<Longrightarrow> check_callees q env V d = Ok () \<Longrightarrow>
     check_callees (gthen p q) env V d = Ok ()"
  "check_callees_branches bs env V d = Ok () \<Longrightarrow> check_callees q env V d = Ok () \<Longrightarrow>
     check_callees_branches (gthen_branches bs q) env V d = Ok ()"
  by (induction p and bs rule: global_induct) (auto split: if_splits option.splits)

section \<open>Well-formedness\<close>

lemma well_formed_in_Ok_iff: "well_formed_in g env = Ok () \<longleftrightarrow>
  check g [] = Ok () \<and> check_visibility g = Ok () \<and> check_callees g env {} 0 = Ok ()"
  by (auto simp: well_formed_in_def)

lemma well_formed_in_gthen:
  assumes "well_formed_in p env = Ok ()" and "well_formed_in q env = Ok ()"
    and "visible (set (alphabet p) \<union> set (alphabet q))"
  shows "well_formed_in (gthen p q) env = Ok ()"
  using assms visible_mono[OF assms(3) alphabet_gthen_subset]
  by (auto simp: well_formed_in_Ok_iff check_gthen check_callees_gthen check_visibility_iff
      simp del: check_callees.simps)

end
