(* ===== verification/Csm_Project.thy ===== *)
theory Csm_Project
  imports Csm_Wellformed
begin

text \<open>
  Projection of a global type onto one role, \<open>src/csm/mpst/project.rs\<close>: \<open>project\<close>, \<open>merge\<close>,
  \<open>as_offer\<close>, \<open>merge_offers\<close> and \<open>describe\<close>. A choice without branches makes a bystander's
  projection panic (\<open>expect\<close>); the lemmas show that a checked type never does. The order
  \<open>covers\<close> says what a merge keeps of its two sides, and sequential composition of local types
  is the image of sequential composition of global types.
\<close>

section \<open>Projection\<close>

datatype projection_error = Unmergeable string string | UnresolvedCallee string

text \<open>The UTF-8 bytes of the non-ASCII characters of \<open>describe\<close>.\<close>

definition utf8_langle :: string where "utf8_langle = [CHR 0xE2, CHR 0x9F, CHR 0xA8]"
definition utf8_rangle :: string where "utf8_rangle = [CHR 0xE2, CHR 0x9F, CHR 0xA9]"
definition utf8_ellipsis :: string where "utf8_ellipsis = [CHR 0xE2, CHR 0x80, CHR 0xA6]"
definition utf8_oplus :: string where "utf8_oplus = [CHR 0xE2, CHR 0x8A, CHR 0x95]"
definition utf8_mu :: string where "utf8_mu = [CHR 0xCE, CHR 0xBC]"

fun describe :: "local_type \<Rightarrow> string" where
  "describe (LSend to l _) =
     ''!'' @ role_str to @ utf8_langle @ lbl_name l @ utf8_rangle @ utf8_ellipsis"
| "describe (LRecv from l _) =
     ''?'' @ role_str from @ utf8_langle @ lbl_name l @ utf8_rangle @ utf8_ellipsis"
| "describe (LSelect to _) = utf8_oplus @ role_str to @ ''{'' @ utf8_ellipsis @ ''}''"
| "describe (LBranch from _) = ''&'' @ role_str from @ ''{'' @ utf8_ellipsis @ ''}''"
| "describe (LRec x _) = utf8_mu @ x @ ''.'' @ utf8_ellipsis"
| "describe (LCall callee _ _) = ''call '' @ ref_name callee @ utf8_ellipsis"
| "describe (LBox enter _ exit _) = ''box'' @ utf8_langle @ lbl_name enter @ utf8_rangle
     @ ''{'' @ utf8_ellipsis @ ''}'' @ utf8_langle @ lbl_name exit @ utf8_rangle @ utf8_ellipsis"
| "describe (LVar x) = x"
| "describe LEnd = ''end''"

fun as_offer :: "local_type \<Rightarrow> (role \<times> local_branch list) option" where
  "as_offer (LRecv from l cont) = Some (from, [(l, cont)])"
| "as_offer (LBranch from branches) = Some (from, branches)"
| "as_offer _ = None"

lemma as_offer_size:
  "Some (f, bs) = as_offer t \<Longrightarrow> size_list (size_prod (\<lambda>_. 0) size) bs \<le> Suc (size t)"
  by (cases t) auto

text \<open>The map of the first branch list, keyed by label name.\<close>

definition offer_map :: "local_branch list \<Rightarrow> (string \<times> local_branch) list" where
  "offer_map bs = fold (\<lambda>b m. bt_insert (lbl_name (fst b)) b m) bs []"

text \<open>Both types as offers of one sender (the \<open>if let\<close> of \<open>merge\<close> with its guard).\<close>

definition same_offer ::
  "local_type \<Rightarrow> local_type \<Rightarrow> (role \<times> local_branch list \<times> local_branch list) option" where
  "same_offer a b = (case (as_offer a, as_offer b) of
     (Some (fa, ba), Some (fb, bb)) \<Rightarrow> if fa = fb then Some (fa, ba, bb) else None
   | _ \<Rightarrow> None)"

lemma same_offer_size:
  "same_offer a b = Some (f, ba, bb) \<Longrightarrow> size_list (size_prod (\<lambda>_. 0) size) bb \<le> Suc (size b)"
  using as_offer_size[of f bb b]
  by (auto simp: same_offer_def split: option.splits if_splits)

function (sequential) merge ::
    "local_type \<Rightarrow> local_type \<Rightarrow> (projection_error, local_type) outcome"
  and merge_heads ::
    "local_type \<Rightarrow> local_type \<Rightarrow> (projection_error, local_type) outcome"
  and merge_offers ::
    "role \<Rightarrow> local_branch list \<Rightarrow> local_branch list \<Rightarrow> (projection_error, local_type) outcome"
  and merge_into ::
    "(string \<times> local_branch) list \<Rightarrow> local_branch list
      \<Rightarrow> (projection_error, (string \<times> local_branch) list) outcome" where
  "merge a b =
     (if a = b then Ok a
      else case same_offer a b of
        Some (f, ba, bb) \<Rightarrow> merge_offers f ba bb
      | None \<Rightarrow> merge_heads a b)"
| "merge_heads (LRec v1 b1) (LRec v2 b2) =
     (if v1 = v2 then and_then (merge b1 b2) (\<lambda>m. Ok (LRec v1 m))
      else Err (Unmergeable (describe (LRec v1 b1)) (describe (LRec v2 b2))))"
| "merge_heads (LCall c1 s1 k1) (LCall c2 s2 k2) =
     (if c1 = c2 \<and> s1 = s2 then and_then (merge k1 k2) (\<lambda>m. Ok (LCall c1 s1 m))
      else Err (Unmergeable (describe (LCall c1 s1 k1)) (describe (LCall c2 s2 k2))))"
| "merge_heads (LBox e1 bd1 x1 k1) (LBox e2 bd2 x2 k2) =
     (if e1 = e2 \<and> x1 = x2
      then and_then (merge bd1 bd2) (\<lambda>mb. and_then (merge k1 k2) (\<lambda>mk. Ok (LBox e1 mb x1 mk)))
      else Err (Unmergeable (describe (LBox e1 bd1 x1 k1)) (describe (LBox e2 bd2 x2 k2))))"
| "merge_heads a b = Err (Unmergeable (describe a) (describe b))"
| "merge_offers from ba bb =
     and_then (merge_into (offer_map ba) bb) (\<lambda>m. Ok (LBranch from (map snd m)))"
| "merge_into m [] = Ok m"
| "merge_into m ((l, c) # bb) =
     (case map_of m (lbl_name l) of
        Some (l', c') \<Rightarrow> and_then (merge c' c)
          (\<lambda>mc. merge_into (bt_insert (lbl_name l) (l', mc) (bt_remove (lbl_name l) m)) bb)
      | None \<Rightarrow> merge_into (bt_insert (lbl_name l) (l, c) (bt_remove (lbl_name l) m)) bb)"
  by pat_completeness auto

termination
  by (relation "measure (\<lambda>x. case x of Inl (Inl (a, b)) \<Rightarrow> 3 * size b + 5
      | Inl (Inr (a, b)) \<Rightarrow> 3 * size b + 4
      | Inr (Inl (f, a, bs)) \<Rightarrow> 3 * size_list (size_prod (\<lambda>_. 0) size) bs + 1
      | Inr (Inr (m, bs)) \<Rightarrow> 3 * size_list (size_prod (\<lambda>_. 0) size) bs)")
    (auto dest!: same_offer_size)

declare merge.simps [simp del]

fun project :: "global_type \<Rightarrow> role \<Rightarrow> (projection_error, local_type) outcome"
  and project_branches ::
    "global_branch list \<Rightarrow> role \<Rightarrow> (projection_error, local_branch list) outcome"
  and project_merge ::
    "local_type \<Rightarrow> global_branch list \<Rightarrow> role \<Rightarrow> (projection_error, local_type) outcome" where
  "project (Interaction from to l cont) role = and_then (project cont role) (\<lambda>c.
     if role = from then Ok (LSend to l c)
     else if role = to then Ok (LRecv from l c)
     else Ok c)"
| "project (Choice from to branches) role =
     (if role = from then and_then (project_branches branches role) (\<lambda>bs. Ok (LSelect to bs))
      else if role = to then and_then (project_branches branches role) (\<lambda>bs. Ok (LBranch from bs))
      else case branches of
        [] \<Rightarrow> Panic ''well-formed choice has at least one branch''
      | (l, c) # rest \<Rightarrow> and_then (project c role) (\<lambda>acc. project_merge acc rest role))"
| "project (Rec x body) role = and_then (project body role) (\<lambda>b. Ok (LRec x b))"
| "project (GlobalCall callee subst cont) role = and_then (project cont role) (\<lambda>c.
     if role \<in> set (map snd subst) then Ok (LCall callee subst c) else Ok c)"
| "project (GlobalBox enter body exit cont) role = and_then (project cont role) (\<lambda>c.
     if role \<in> participants body
     then and_then (project body role) (\<lambda>b. Ok (LBox enter b exit c))
     else Ok c)"
| "project (Var x) role = Ok (LVar x)"
| "project End role = Ok LEnd"
| "project_branches [] role = Ok []"
| "project_branches ((l, c) # bs) role = and_then (project c role) (\<lambda>p.
     and_then (project_branches bs role) (\<lambda>ps. Ok ((l, p) # ps)))"
| "project_merge acc [] role = Ok acc"
| "project_merge acc ((l, c) # bs) role = and_then (project c role) (\<lambda>p.
     and_then (merge acc p) (\<lambda>acc'. project_merge acc' bs role))"

section \<open>Merging\<close>

lemma merge_same [simp]: "merge a a = Ok a"
  by (simp add: merge.simps)

text \<open>The derivations of a successful merge.\<close>

inductive merges :: "local_type \<Rightarrow> local_type \<Rightarrow> local_type \<Rightarrow> bool"
  and merges_into ::
    "(string \<times> local_branch) list \<Rightarrow> local_branch list \<Rightarrow> (string \<times> local_branch) list \<Rightarrow> bool" where
  same: "merges a a a"
| offer: "as_offer a = Some (f, ba) \<Longrightarrow> as_offer b = Some (f, bb) \<Longrightarrow> a \<noteq> b \<Longrightarrow>
    merges_into (offer_map ba) bb m \<Longrightarrow> merges a b (LBranch f (map snd m))"
| recursion: "a \<noteq> b \<Longrightarrow> merges a b c \<Longrightarrow> merges (LRec v a) (LRec v b) (LRec v c)"
| call: "a \<noteq> b \<Longrightarrow> merges a b c \<Longrightarrow> merges (LCall cl s a) (LCall cl s b) (LCall cl s c)"
| nested: "(a1, a2) \<noteq> (b1, b2) \<Longrightarrow> merges a1 b1 c1 \<Longrightarrow> merges a2 b2 c2 \<Longrightarrow>
    merges (LBox e a1 x a2) (LBox e b1 x b2) (LBox e c1 x c2)"
| into_Nil: "merges_into m [] m"
| into_shared: "map_of m (lbl_name l) = Some (l', c') \<Longrightarrow> merges c' c d \<Longrightarrow>
    merges_into (bt_insert (lbl_name l) (l', d) (bt_remove (lbl_name l) m)) bb m' \<Longrightarrow>
    merges_into m ((l, c) # bb) m'"
| into_fresh: "map_of m (lbl_name l) = None \<Longrightarrow>
    merges_into (bt_insert (lbl_name l) (l, c) (bt_remove (lbl_name l) m)) bb m' \<Longrightarrow>
    merges_into m ((l, c) # bb) m'"

lemma merge_imp_merges:
  "merge a b = Ok c \<Longrightarrow> merges a b c"
  "merge_heads a b = Ok c \<Longrightarrow> a \<noteq> b \<Longrightarrow> merges a b c"
  "merge_offers f ba bb = Ok c \<Longrightarrow>
    \<exists>m. merges_into (offer_map ba) bb m \<and> c = LBranch f (map snd m)"
  "merge_into m bs = Ok m' \<Longrightarrow> merges_into m bs m'"
proof (induction a b and a b and f ba bb and m bs arbitrary: c and c and c and m'
    rule: merge_merge_heads_merge_offers_merge_into.induct)
  case (1 a b)
  show ?case
  proof (cases "a = b")
    case True
    with 1(3) show ?thesis by (simp add: same)
  next
    case False
    show ?thesis
    proof (cases "same_offer a b")
      case None
      with 1(1)[OF False None] 1(3) False show ?thesis by (simp add: merge.simps[of a b])
    next
      case (Some s)
      obtain f ba bb where s: "s = (f, ba, bb)" by (cases s)
      with Some have ab: "as_offer a = Some (f, ba)" "as_offer b = Some (f, bb)"
        by (auto simp: same_offer_def split: option.splits if_splits)
      have "merge_offers f ba bb = Ok c"
        using 1(3) False Some s by (simp add: merge.simps[of a b])
      from 1(2)[OF False Some _ refl this] s ab False show ?thesis by (auto intro: offer)
    qed
  qed
next
  case (8 m l c bb)
  show ?case
  proof (cases "map_of m (lbl_name l)")
    case None
    with 8(1)[OF None] 8(4) show ?thesis by (auto intro: into_fresh)
  next
    case (Some e)
    obtain l' c' where e: "e = (l', c')" by (cases e)
    with Some 8(4) obtain d where d: "merge c' c = Ok d"
      and m': "merge_into (bt_insert (lbl_name l) (l', d) (bt_remove (lbl_name l) m)) bb = Ok m'"
      by auto
    show ?thesis
      by (rule into_shared[OF Some[unfolded e] 8(2)[OF Some e[symmetric] d]
        8(3)[OF Some e[symmetric] d m']])
  qed
qed (auto intro: recursion call nested into_Nil split: if_splits)

lemma merges_imp_merge:
  "merges a b c \<Longrightarrow> merge a b = Ok c"
  "merges_into m bs m' \<Longrightarrow> merge_into m bs = Ok m'"
proof (induction rule: merges_merges_into.inducts)
  case (offer a f ba b bb m)
  then show ?case by (subst merge.simps) (simp add: same_offer_def)
next
  case (recursion a b c v)
  then show ?case by (subst merge.simps) (simp add: same_offer_def)
next
  case (call a b c cl s)
  then show ?case by (subst merge.simps) (simp add: same_offer_def)
next
  case (nested a1 a2 b1 b2 c1 c2 e x)
  then show ?case by (subst merge.simps) (auto simp: same_offer_def)
qed simp_all

lemma merge_Ok_iff: "merge a b = Ok c \<longleftrightarrow> merges a b c"
  using merge_imp_merges(1) merges_imp_merge(1) by blast

text \<open>Local types whose labels come from \<open>L\<close> and whose choices have distinct label names.\<close>

fun lgood :: "label set \<Rightarrow> local_type \<Rightarrow> bool"
  and lgood_branches :: "label set \<Rightarrow> local_branch list \<Rightarrow> bool" where
  "lgood L (LSend _ l c) \<longleftrightarrow> l \<in> L \<and> lgood L c"
| "lgood L (LRecv _ l c) \<longleftrightarrow> l \<in> L \<and> lgood L c"
| "lgood L (LSelect _ bs) \<longleftrightarrow> distinct (map (\<lambda>b. lbl_name (fst b)) bs) \<and> lgood_branches L bs"
| "lgood L (LBranch _ bs) \<longleftrightarrow> distinct (map (\<lambda>b. lbl_name (fst b)) bs) \<and> lgood_branches L bs"
| "lgood L (LRec _ b) \<longleftrightarrow> lgood L b"
| "lgood L (LCall _ _ c) \<longleftrightarrow> lgood L c"
| "lgood L (LBox _ b _ c) \<longleftrightarrow> lgood L b \<and> lgood L c"
| "lgood L _ \<longleftrightarrow> True"
| "lgood_branches L [] \<longleftrightarrow> True"
| "lgood_branches L ((l, c) # bs) \<longleftrightarrow> l \<in> L \<and> lgood L c \<and> lgood_branches L bs"

lemma lgood_branches_iff [simp]:
  "lgood_branches L bs \<longleftrightarrow> (\<forall>b \<in> set bs. fst b \<in> L \<and> lgood L (snd b))"
  by (induction bs) auto

declare lgood_branches.simps [simp del]

lemma as_offer_lgood: "as_offer t = Some (f, bs) \<Longrightarrow> lgood L t \<longleftrightarrow>
    distinct (map (\<lambda>b. lbl_name (fst b)) bs) \<and> (\<forall>b \<in> set bs. fst b \<in> L \<and> lgood L (snd b))"
  by (cases t) auto

text \<open>The entries of the map a merge builds.\<close>

definition offer_ok :: "label set \<Rightarrow> (string \<times> local_branch) list \<Rightarrow> bool" where
  "offer_ok L m \<longleftrightarrow> bt_wf m \<and>
     (\<forall>e \<in> set m. fst e = lbl_name (fst (snd e)) \<and> fst (snd e) \<in> L \<and> lgood L (snd (snd e)))"

lemma offer_ok_insert:
  "offer_ok L m \<Longrightarrow> l \<in> L \<Longrightarrow> lgood L c \<Longrightarrow> offer_ok L (bt_insert (lbl_name l) (l, c) m)"
  by (auto simp: offer_ok_def bt_wf_insert bt.entries_insert)

lemma offer_ok_remove: "offer_ok L m \<Longrightarrow> offer_ok L (bt_remove k m)"
  by (auto simp: offer_ok_def bt_wf_remove bt.entries_remove)

lemma offer_ok_map_ofD: "offer_ok L m \<Longrightarrow> map_of m k = Some (l, c) \<Longrightarrow> k = lbl_name l \<and> l \<in> L \<and> lgood L c"
  by (drule map_of_SomeD) (auto simp: offer_ok_def)

lemma offer_map_entries:
  assumes "distinct (map (\<lambda>b. lbl_name (fst b)) bs)"
  shows "bt_wf (offer_map bs)" "set (offer_map bs) = (\<lambda>b. (lbl_name (fst b), b)) ` set bs"
proof -
  have "bt_wf (fold (\<lambda>b. bt_insert (lbl_name (fst b)) b) bs m) \<and>
    set (fold (\<lambda>b. bt_insert (lbl_name (fst b)) b) bs m) = set m \<union> (\<lambda>b. (lbl_name (fst b), b)) ` set bs"
    if "bt_wf m" "distinct (map (\<lambda>b. lbl_name (fst b)) bs)"
      "\<forall>b \<in> set bs. lbl_name (fst b) \<notin> fst ` set m" for m
    using that
  proof (induction bs arbitrary: m)
    case (Cons b bs)
    have ins: "set (bt_insert (lbl_name (fst b)) b m) = insert (lbl_name (fst b), b) (set m)"
      using Cons.prems by (subst bt.entries_insert) (auto simp: image_iff)
    have "\<forall>b' \<in> set bs. lbl_name (fst b') \<notin> fst ` set (bt_insert (lbl_name (fst b)) b m)"
      using Cons.prems(2,3) unfolding ins by (force simp: image_iff)
    with Cons.IH[OF bt_wf_insert[OF Cons.prems(1), of "lbl_name (fst b)" b]] Cons.prems(2) ins
    show ?case by simp
  qed simp
  from this[of "[]"] assms
  show "bt_wf (offer_map bs)" "set (offer_map bs) = (\<lambda>b. (lbl_name (fst b), b)) ` set bs"
    by (simp_all add: offer_map_def)
qed

lemma offer_ok_offer_map:
  "distinct (map (\<lambda>b. lbl_name (fst b)) bs) \<Longrightarrow> \<forall>b \<in> set bs. fst b \<in> L \<and> lgood L (snd b) \<Longrightarrow>
    offer_ok L (offer_map bs)"
  by (auto simp: offer_ok_def offer_map_entries)

lemma offer_ok_lgood: "offer_ok L m \<Longrightarrow> lgood L (LBranch f (map snd m))"
proof -
  assume m: "offer_ok L m"
  then have "map ((\<lambda>b. lbl_name (fst b)) \<circ> snd) m = map fst m"
    by (auto simp: offer_ok_def)
  with m bt_wf_distinct[of m] show ?thesis
    by (simp add: offer_ok_def del: map_eq_conv)
qed

section \<open>What a merge keeps\<close>

inductive covers :: "local_type \<Rightarrow> local_type \<Rightarrow> bool" where
  itself: "covers t t"
| recv: "(l, c') \<in> set bs \<Longrightarrow> covers c' c \<Longrightarrow> covers (LBranch f bs) (LRecv f l c)"
| branch: "(\<And>l c. (l, c) \<in> set bs' \<Longrightarrow> \<exists>c'. (l, c') \<in> set bs \<and> covers c' c) \<Longrightarrow>
    covers (LBranch f bs) (LBranch f bs')"
| recursion: "covers b b' \<Longrightarrow> covers (LRec x b) (LRec x b')"
| call: "covers c c' \<Longrightarrow> covers (LCall cl s c) (LCall cl s c')"
| nested: "covers b b' \<Longrightarrow> covers c c' \<Longrightarrow> covers (LBox e b x c) (LBox e b' x c')"

lemma covers_trans: "covers b c \<Longrightarrow> covers a b \<Longrightarrow> covers a c"
proof (induction arbitrary: a rule: covers.induct)
  case (recv l c' bs c f)
  from recv.prems show ?case
  proof cases
    case itself
    then show ?thesis using recv.hyps by (auto intro: covers.recv)
  next
    case (branch as)
    then show ?thesis using recv.hyps recv.IH by (meson covers.recv)
  qed
next
  case (branch bs' bs f)
  have step: "\<exists>c'. (l, c') \<in> set bs \<and> (\<forall>a. covers a c' \<longrightarrow> covers a c)"
    if "(l, c) \<in> set bs'" for l c using branch.IH[OF that] by blast
  from branch.prems show ?case
  proof cases
    case itself
    have "covers (LBranch f bs) (LBranch f bs')"
      by (rule covers.branch) (use step covers.itself in blast)
    with itself show ?thesis by simp
  next
    case (branch as)
    have "covers (LBranch f as) (LBranch f bs')"
      by (rule covers.branch) (use step branch(2) in blast)
    with branch(1) show ?thesis by simp
  qed
next
  case (nested b b' c c' e x)
  from nested.prems nested.hyps show ?case by cases (auto intro: covers.nested nested.IH)
qed (auto elim: covers.cases intro: covers.intros)


text \<open>
  A merge is above both its sides, provided a label name stands for one label (the label of the
  left side is kept when two names collide).
\<close>

definition kept :: "(string \<times> local_branch) list \<Rightarrow> label \<Rightarrow> local_type \<Rightarrow> bool" where
  "kept m l c \<longleftrightarrow> (\<exists>c'. (lbl_name l, (l, c')) \<in> set m \<and> covers c' c)"

lemma kept_mono: "kept m l c' \<Longrightarrow> covers c' c \<Longrightarrow> kept m l c"
  unfolding kept_def using covers_trans by blast

lemma covers_offer:
  assumes "as_offer t = Some (f, bs)" "\<forall>b \<in> set bs. kept m (fst b) (snd b)"
  shows "covers (LBranch f (map snd m)) t"
proof -
  have "\<exists>c'. (l, c') \<in> set (map snd m) \<and> covers c' c" if "(l, c) \<in> set bs" for l c
    using assms(2) that by (force simp: kept_def)
  note entry = this
  from assms(1) show ?thesis
  proof (cases t)
    case (LRecv f' l c)
    with assms(1) entry[of l c] show ?thesis by (auto intro: covers.recv simp del: set_map)
  next
    case (LBranch f' bs')
    have "covers (LBranch f (map snd m)) (LBranch f bs)" by (rule covers.branch) (rule entry)
    with LBranch assms(1) show ?thesis by simp
  qed auto
qed

lemma merges_covers:
  assumes L: "inj_on lbl_name L"
  shows "merges a b c \<Longrightarrow> lgood L a \<Longrightarrow> lgood L b \<Longrightarrow>
      lgood L c \<and> covers c a \<and> covers c b"
    and "merges_into m bs m' \<Longrightarrow> offer_ok L m \<Longrightarrow>
      \<forall>b \<in> set bs. fst b \<in> L \<and> lgood L (snd b) \<Longrightarrow>
      offer_ok L m' \<and> (\<forall>e \<in> set m. kept m' (fst (snd e)) (snd (snd e))) \<and>
        (\<forall>b \<in> set bs. kept m' (fst b) (snd b))"
proof (induction rule: merges_merges_into.inducts)
  case (offer a f ba b bb m)
  note ga = offer.prems(1)[unfolded as_offer_lgood[OF offer.hyps(1)]]
    and gb = offer.prems(2)[unfolded as_offer_lgood[OF offer.hyps(2)]]
  have m: "offer_ok L m" "\<forall>e \<in> set (offer_map ba). kept m (fst (snd e)) (snd (snd e))"
      "\<forall>b \<in> set bb. kept m (fst b) (snd b)"
    using offer.IH[OF offer_ok_offer_map] ga gb by blast+
  from m(2) ga have "\<forall>b \<in> set ba. kept m (fst b) (snd b)" by (auto simp: offer_map_entries)
  with m covers_offer[OF offer.hyps(1)] covers_offer[OF offer.hyps(2)]
    offer_ok_lgood[OF m(1)] show ?case by blast
next
  case (into_shared m l l' c' c d bb m')
  note l' = offer_ok_map_ofD[OF into_shared.prems(1) into_shared.hyps(1)]
  have l: "l' = l" using l' into_shared.prems(2) L by (auto dest: inj_onD)
  have d: "lgood L d" "covers d c'" "covers d c"
    using into_shared.IH(1) l' into_shared.prems(2) by auto
  let ?m = "bt_insert (lbl_name l) (l', d) (bt_remove (lbl_name l) m)"
  have wf: "bt_wf m" using into_shared.prems(1) by (simp add: offer_ok_def)
  have entries: "set ?m = insert (lbl_name l, l', d) {e \<in> set m. fst e \<noteq> lbl_name l}"
    using bt_wf_remove[OF wf, of "lbl_name l"] wf
    by (auto simp: bt.entries_insert bt.entries_remove)
  have "offer_ok L ?m"
    using offer_ok_insert[OF offer_ok_remove[OF into_shared.prems(1)]] d(1) l l' by auto
  then have IH: "offer_ok L m'" "\<forall>e \<in> set ?m. kept m' (fst (snd e)) (snd (snd e))"
      "\<forall>b \<in> set bb. kept m' (fst b) (snd b)"
    using into_shared.IH(2) into_shared.prems(2) by auto
  have "kept m' l d" using IH(2) l unfolding entries by auto
  then have k: "kept m' l c" "kept m' l c'" using d kept_mono by blast+
  have "kept m' (fst (snd e)) (snd (snd e))" if "e \<in> set m" for e
  proof (cases "fst e = lbl_name l")
    case True
    with that have "(lbl_name l, snd e) \<in> set m" by (metis prod.collapse)
    with True have "snd e = (l', c')"
      using into_shared.hyps(1) bt.entries_lookup[OF wf, of "fst e" "snd e"] by simp
    with k l show ?thesis by simp
  next
    case False
    with that IH(2) show ?thesis unfolding entries by blast
  qed
  with IH k show ?case by auto
next
  case (into_fresh m l c bb m')
  let ?m = "bt_insert (lbl_name l) (l, c) (bt_remove (lbl_name l) m)"
  have wf: "bt_wf m" using into_fresh.prems(1) by (simp add: offer_ok_def)
  have entries: "set ?m = insert (lbl_name l, l, c) (set m)"
    using bt_wf_remove[OF wf, of "lbl_name l"] wf into_fresh.hyps(1)
    by (auto simp: bt.entries_insert bt.entries_remove map_of_eq_None_iff image_iff)
  have "offer_ok L ?m"
    using offer_ok_insert[OF offer_ok_remove[OF into_fresh.prems(1)]] into_fresh.prems(2) by auto
  with into_fresh.IH into_fresh.prems(2) show ?case unfolding entries by auto
next
  case (into_Nil m)
  then show ?case by (force simp: offer_ok_def kept_def intro: covers.itself)
next
  case (same a)
  then show ?case by (simp add: covers.itself)
next
  case (recursion a b c v)
  then show ?case by (simp add: covers.recursion)
next
  case (call a b c cl s)
  then show ?case by (simp add: covers.call)
next
  case (nested a1 a2 b1 b2 c1 c2 e x)
  then show ?case by (simp add: covers.nested)
qed

section \<open>Projection of checked types\<close>

fun glabels :: "global_type \<Rightarrow> label set"
  and glabels_branches :: "global_branch list \<Rightarrow> label set" where
  "glabels (Interaction _ _ l c) = insert l (glabels c)"
| "glabels (Choice _ _ bs) = glabels_branches bs"
| "glabels (Rec _ b) = glabels b"
| "glabels (GlobalCall _ _ c) = glabels c"
| "glabels (GlobalBox _ b _ c) = glabels b \<union> glabels c"
| "glabels (Var _) = {}"
| "glabels End = {}"
| "glabels_branches [] = {}"
| "glabels_branches ((l, c) # bs) = insert l (glabels c \<union> glabels_branches bs)"

lemma merge_no_panic:
  "merge a b \<noteq> Panic s" "merge_heads a b \<noteq> Panic s" "merge_offers f ba bb \<noteq> Panic s"
  "merge_into m bs \<noteq> Panic s"
proof (induction a b and a b and f ba bb and m bs
    rule: merge_merge_heads_merge_offers_merge_into.induct)
  case (1 a b)
  then show ?case by (cases "a = b"; cases "same_offer a b") (auto simp: merge.simps[of a b])
qed (auto split: option.splits)

lemma project_no_panic:
  "check g bound = Ok () \<Longrightarrow> project g r \<noteq> Panic s"
  "\<forall>b \<in> set bs. check (snd b) bound = Ok () \<Longrightarrow> project_branches bs r \<noteq> Panic s"
  "\<forall>b \<in> set bs. check (snd b) bound = Ok () \<Longrightarrow> project_merge acc bs r \<noteq> Panic s"
proof (induction g r and bs r and acc bs r arbitrary: bound and bound and bound
    rule: project_project_branches_project_merge.induct)
  case (2 f t bs r)
  then show ?case by (cases bs) (auto split: if_splits)
qed (auto simp: merge_no_panic)

lemma project_branches_names:
  "project_branches bs r = Ok ps \<Longrightarrow> map fst ps = map fst bs"
  by (induction bs arbitrary: ps) auto

lemma project_branches_iff:
  "project_branches bs r = Ok ps \<longleftrightarrow>
     list_all2 (\<lambda>b p. fst p = fst b \<and> project (snd b) r = Ok (snd p)) bs ps"
  by (induction bs arbitrary: ps) (auto simp: list_all2_Cons1)

lemma merges_lgood:
  "merges a b c \<Longrightarrow> lgood L a \<Longrightarrow> lgood L b \<Longrightarrow> lgood L c"
  "merges_into m bs m' \<Longrightarrow> offer_ok L m \<Longrightarrow>
    \<forall>b \<in> set bs. fst b \<in> L \<and> lgood L (snd b) \<Longrightarrow> offer_ok L m'"
proof (induction rule: merges_merges_into.inducts)
  case (offer a f ba b bb m)
  then show ?case
    using offer.prems[unfolded as_offer_lgood[OF offer.hyps(1)] as_offer_lgood[OF offer.hyps(2)]]
    by (intro offer_ok_lgood) (auto intro: offer.IH offer_ok_offer_map)
next
  case (into_shared m l l' c' c d bb m')
  note l' = offer_ok_map_ofD[OF into_shared.prems(1) into_shared.hyps(1)]
  then show ?case
    using into_shared offer_ok_insert[OF offer_ok_remove[OF into_shared.prems(1)], of l' d "lbl_name l"]
    by auto
next
  case (into_fresh m l c bb m')
  then show ?case
    using offer_ok_insert[OF offer_ok_remove[OF into_fresh.prems(1)], of l c "lbl_name l"] by auto
qed auto

lemma project_lgood:
  "check g bound = Ok () \<Longrightarrow> glabels g \<subseteq> L \<Longrightarrow> project g r = Ok t \<Longrightarrow> lgood L t"
  "\<forall>b \<in> set bs. check (snd b) bound = Ok () \<Longrightarrow> glabels_branches bs \<subseteq> L \<Longrightarrow>
    project_branches bs r = Ok ps \<Longrightarrow> lgood_branches L ps"
  "\<forall>b \<in> set bs. check (snd b) bound = Ok () \<Longrightarrow> glabels_branches bs \<subseteq> L \<Longrightarrow>
    project_merge acc bs r = Ok t \<Longrightarrow> lgood L acc \<Longrightarrow> lgood L t"
proof (induction g r and bs r and acc bs r arbitrary: bound t and bound ps and bound t
    rule: project_project_branches_project_merge.induct)
  case (2 f to bs r)
  have names: "map (\<lambda>p. lbl_name (fst p)) ps = map (\<lambda>b. lbl_name (fst b)) bs"
    if "project_branches bs r = Ok ps" for ps
    using arg_cong[OF project_branches_names[OF that], of "map lbl_name"] by (simp add: comp_def)
  show ?case
  proof (cases "r = f \<or> r = to")
    case True
    with 2 names show ?thesis by (auto split: if_splits)
  next
    case False
    with 2 show ?thesis by (cases bs) (auto split: if_splits)
  qed
next
  case (9 l c bs r)
  then show ?case by (auto simp: lgood_branches.simps simp del: lgood_branches_iff)
next
  case (11 acc l c bs r)
  then show ?case by (auto simp: merge_Ok_iff) (metis merges_lgood(1))
qed (auto split: if_splits)

text \<open>A bystander's projection of a choice is above its projection of every branch.\<close>

lemma project_merge_covers:
  assumes L: "inj_on lbl_name L"
  shows "\<forall>b \<in> set bs. check (snd b) bound = Ok () \<Longrightarrow> glabels_branches bs \<subseteq> L \<Longrightarrow>
    lgood L acc \<Longrightarrow> project_merge acc bs r = Ok t \<Longrightarrow>
    covers t acc \<and> (\<forall>b \<in> set bs. \<exists>p. project (snd b) r = Ok p \<and> covers t p)"
proof (induction bs arbitrary: acc)
  case (Cons b bs)
  obtain l c where b: "b = (l, c)" by (cases b)
  with Cons.prems obtain p acc' where p: "project c r = Ok p" and m: "merges acc p acc'"
    and rest: "project_merge acc' bs r = Ok t" by (auto simp: merge_Ok_iff)
  have "lgood L p" using project_lgood(1)[OF _ _ p] Cons.prems(1,2) b by auto
  with merges_covers(1)[OF L m Cons.prems(3)]
  have acc': "lgood L acc'" "covers acc' acc" "covers acc' p" by auto
  with Cons.IH[OF _ _ _ rest] Cons.prems(1,2) b have "covers t acc'"
    "\<forall>b \<in> set bs. \<exists>p. project (snd b) r = Ok p \<and> covers t p" by auto
  with acc' p b show ?case by (auto intro: covers_trans)
qed (auto intro: covers.itself)

section \<open>Projection and sequential composition\<close>

fun lthen :: "local_type \<Rightarrow> local_type \<Rightarrow> local_type"
  and lthen_branches :: "local_branch list \<Rightarrow> local_type \<Rightarrow> local_branch list" where
  "lthen LEnd k = k"
| "lthen (LSend t l c) k = LSend t l (lthen c k)"
| "lthen (LRecv f l c) k = LRecv f l (lthen c k)"
| "lthen (LSelect t bs) k = LSelect t (lthen_branches bs k)"
| "lthen (LBranch f bs) k = LBranch f (lthen_branches bs k)"
| "lthen (LRec x b) k = LRec x (lthen b k)"
| "lthen (LVar x) k = LVar x"
| "lthen (LCall cl s c) k = LCall cl s (lthen c k)"
| "lthen (LBox e b x c) k = LBox e b x (lthen c k)"
| "lthen_branches [] k = []"
| "lthen_branches ((l, c) # bs) k = (l, lthen c k) # lthen_branches bs k"

lemma lthen_branches_map [simp]: "lthen_branches bs k = map (\<lambda>b. (fst b, lthen (snd b) k)) bs"
  by (induction bs) auto

declare lthen_branches.simps [simp del]

lemma as_offer_lthen:
  "as_offer t = Some (f, bs) \<Longrightarrow> as_offer (lthen t k) = Some (f, map (\<lambda>b. (fst b, lthen (snd b) k)) bs)"
  by (cases t) auto

abbreviation then_entry :: "local_type \<Rightarrow> string \<times> local_branch \<Rightarrow> string \<times> local_branch" where
  "then_entry k e \<equiv> (fst e, fst (snd e), lthen (snd (snd e)) k)"

lemma map_of_then_entry:
  "map_of (map (then_entry k) m) x = map_option (\<lambda>b. (fst b, lthen (snd b) k)) (map_of m x)"
  by (induction m) auto

lemma bt_insert_then_entry:
  "map (then_entry k) (bt_insert x (l, c) m) = bt_insert x (l, lthen c k) (map (then_entry k) m)"
  by (induction x "(l, c)" m rule: bt_insert.induct) auto

lemma bt_remove_then_entry:
  "map (then_entry k) (bt_remove x m) = bt_remove x (map (then_entry k) m)"
  by (induction m) (auto simp: bt_remove_def)

lemma offer_map_then_entry:
  "offer_map (map (\<lambda>b. (fst b, lthen (snd b) k)) bs) = map (then_entry k) (offer_map bs)"
proof -
  have "fold (\<lambda>b. bt_insert (lbl_name (fst b)) b) (map (\<lambda>b. (fst b, lthen (snd b) k)) bs)
      (map (then_entry k) m) =
    map (then_entry k) (fold (\<lambda>b. bt_insert (lbl_name (fst b)) b) bs m)" for m
  proof (induction bs arbitrary: m)
    case (Cons b bs)
    then show ?case
      using bt_insert_then_entry[of k "lbl_name (fst b)" "fst b" "snd b" m]
        Cons[of "bt_insert (lbl_name (fst b)) b m", symmetric] by simp
  qed simp
  from this[of "[]"] show ?thesis by (simp add: offer_map_def)
qed

text \<open>
  The state in which \<open>merge_into\<close> meets the branches it has left: the names ahead are distinct, so
  the entry a branch meets is one of the entries the merge started with.
\<close>

definition into_ready :: "(string \<times> local_branch) list \<Rightarrow> local_branch list \<Rightarrow> bool" where
  "into_ready m bs \<longleftrightarrow> bt_wf m \<and> distinct (map (\<lambda>b. lbl_name (fst b)) bs) \<and>
     (\<forall>b \<in> set bs. lgood UNIV (snd b) \<and>
       (\<forall>e. map_of m (lbl_name (fst b)) = Some e \<longrightarrow> lgood UNIV (snd e)))"

lemma map_of_replace:
  "bt_wf m \<Longrightarrow> x \<noteq> k \<Longrightarrow> map_of (bt_insert k e (bt_remove k m)) x = map_of m x"
  by (simp add: map_of_bt_insert map_of_bt_remove bt_wf_remove)

lemma into_ready_step:
  assumes "into_ready m ((l, c) # bb)"
  shows "into_ready (bt_insert (lbl_name l) e (bt_remove (lbl_name l) m)) bb"
proof -
  have "map_of (bt_insert (lbl_name l) e (bt_remove (lbl_name l) m)) (lbl_name (fst b)) =
    map_of m (lbl_name (fst b))" if "b \<in> set bb" for b
    using assms that by (intro map_of_replace) (force simp: into_ready_def)+
  then show ?thesis using assms by (simp add: into_ready_def bt_wf_insert bt_wf_remove)
qed

lemma into_ready_offer:
  assumes "as_offer a = Some (f, ba)" "as_offer b = Some (f, bb)" "lgood UNIV a" "lgood UNIV b"
  shows "into_ready (offer_map ba) bb"
  using assms(3,4)[unfolded as_offer_lgood[OF assms(1)] as_offer_lgood[OF assms(2)]]
  by (fastforce simp: into_ready_def offer_map_entries dest!: map_of_SomeD)

text \<open>Mergeable types that become equal after composition were equal before.\<close>

abbreviation then_branch :: "local_type \<Rightarrow> local_branch \<Rightarrow> local_branch" where
  "then_branch k b \<equiv> (fst b, lthen (snd b) k)"

lemma offer_lthen_inj:
  assumes "distinct (map (\<lambda>b. lbl_name (fst b)) ba)"
    and "map (then_branch k) ba = map (then_branch k) bb"
    and "\<forall>b \<in> set bb. \<forall>e. map_of (offer_map ba) (lbl_name (fst b)) = Some e \<longrightarrow>
       lthen (snd e) k = lthen (snd b) k \<longrightarrow> snd e = snd b"
  shows "ba = bb"
proof -
  have look: "map_of (offer_map ba) (lbl_name (fst e)) = Some e" if "e \<in> set ba" for e
    using that assms(1) by (intro map_of_is_SomeI bt_wf_distinct) (auto simp: offer_map_entries)
  have eqs: "list_all2 (\<lambda>x y. fst x = fst y \<and> lthen (snd x) k = lthen (snd y) k) ba bb"
    using assms(2) by (auto simp: list_all2_conv_all_nth list_eq_iff_nth_eq)
  have "ba ! i = bb ! i" if "i < length bb" for i
    using eqs look[of "ba ! i"] assms(3)[rule_format, of "bb ! i" "ba ! i"] that
    by (intro prod_eqI) (auto simp: list_all2_conv_all_nth)
  with eqs show ?thesis by (auto simp: list_all2_conv_all_nth list_eq_iff_nth_eq)
qed

lemma merges_lthen_inj:
  "merges a b c \<Longrightarrow> lgood UNIV a \<Longrightarrow> lgood UNIV b \<Longrightarrow> lthen a k = lthen b k \<Longrightarrow> a = b"
  "merges_into m bs m' \<Longrightarrow> into_ready m bs \<Longrightarrow>
     \<forall>b \<in> set bs. \<forall>e. map_of m (lbl_name (fst b)) = Some e \<longrightarrow>
       lthen (snd e) k = lthen (snd b) k \<longrightarrow> snd e = snd b"
proof (induction rule: merges_merges_into.inducts)
  case (offer a f ba b bb m)
  have "ba = bb"
  proof (rule offer_lthen_inj)
    show "map (then_branch k) ba = map (then_branch k) bb"
      using as_offer_lthen[OF offer.hyps(1), of k] as_offer_lthen[OF offer.hyps(2), of k]
        offer.prems(3) by simp
  qed (use offer.IH[OF into_ready_offer[OF offer.hyps(1,2) offer.prems(1,2)]]
      offer.prems(1)[unfolded as_offer_lgood[OF offer.hyps(1)]] in blast)+
  with offer.hyps(1,2) offer.prems(3) show ?case by (cases a; cases b) auto
next
  case (into_shared m l l' c' c d bb m')
  note tail = into_shared.IH(2)[OF into_ready_step[OF into_shared.prems]]
  have "map_of (bt_insert (lbl_name l) (l', d) (bt_remove (lbl_name l) m)) (lbl_name (fst b)) =
    map_of m (lbl_name (fst b))" if "b \<in> set bb" for b
    using into_shared.prems that by (intro map_of_replace) (force simp: into_ready_def)+
  with tail into_shared show ?case by (simp add: into_ready_def)
next
  case (into_fresh m l c bb m')
  note tail = into_fresh.IH[OF into_ready_step[OF into_fresh.prems]]
  have "map_of (bt_insert (lbl_name l) (l, c) (bt_remove (lbl_name l) m)) (lbl_name (fst b)) =
    map_of m (lbl_name (fst b))" if "b \<in> set bb" for b
    using into_fresh.prems that by (intro map_of_replace) (force simp: into_ready_def)+
  with tail into_fresh.hyps(1) show ?case by simp
qed auto

lemma merges_lthen:
  "merges a b c \<Longrightarrow> lgood UNIV a \<Longrightarrow> lgood UNIV b \<Longrightarrow> merges (lthen a k) (lthen b k) (lthen c k)"
  "merges_into m bs m' \<Longrightarrow> into_ready m bs \<Longrightarrow>
     merges_into (map (then_entry k) m) (map (then_branch k) bs) (map (then_entry k) m')"
proof (induction rule: merges_merges_into.inducts)
  case (same a)
  show ?case by (rule merges_merges_into.same)
next
  case (offer a f ba b bb m)
  have "lthen a k \<noteq> lthen b k"
    using merges_lthen_inj(1)[OF merges_merges_into.offer[OF offer.hyps] offer.prems] offer.hyps(3)
    by blast
  then have "merges (lthen a k) (lthen b k) (LBranch f (map snd (map (then_entry k) m)))"
    using as_offer_lthen[OF offer.hyps(1), of k] as_offer_lthen[OF offer.hyps(2), of k]
      offer.IH[OF into_ready_offer[OF offer.hyps(1,2) offer.prems]]
    by (intro merges_merges_into.offer) (auto simp: offer_map_then_entry)
  then show ?case by (simp add: comp_def)
next
  case (recursion a b c v)
  then show ?case using merges_lthen_inj(1)[OF recursion.hyps(2)]
    by (auto intro: merges_merges_into.recursion)
next
  case (call a b c cl s)
  then show ?case using merges_lthen_inj(1)[OF call.hyps(2)]
    by (auto intro: merges_merges_into.call)
next
  case (nested a1 a2 b1 b2 c1 c2 e x)
  then show ?case using merges_lthen_inj(1)[OF nested.hyps(3)]
    by (auto intro!: merges_merges_into.nested)
next
  case (into_Nil m)
  show ?case by (simp add: merges_merges_into.into_Nil)
next
  case (into_shared m l l' c' c d bb m')
  note tail = into_shared.IH(2)[OF into_ready_step[OF into_shared.prems]]
  show ?case using into_shared.hyps(1) into_shared.prems
    by (simp, intro merges_merges_into.into_shared[OF _ into_shared.IH(1)
          tail[unfolded bt_insert_then_entry bt_remove_then_entry]])
      (auto simp: map_of_then_entry into_ready_def)
next
  case (into_fresh m l c bb m')
  note tail = into_fresh.IH[OF into_ready_step[OF into_fresh.prems]]
  show ?case using into_fresh.hyps(1)
    by (simp, intro merges_merges_into.into_fresh[OF _
          tail[unfolded bt_insert_then_entry bt_remove_then_entry]])
      (auto simp: map_of_then_entry)
qed

lemma project_gthen:
  "check g bound = Ok () \<Longrightarrow> project k r = Ok lk \<Longrightarrow> project g r = Ok t \<Longrightarrow>
     project (gthen g k) r = Ok (lthen t lk)"
  "\<forall>b \<in> set bs. check (snd b) bound = Ok () \<Longrightarrow> project k r = Ok lk \<Longrightarrow>
     project_branches bs r = Ok ps \<Longrightarrow> project_branches (gthen_branches bs k) r = Ok (lthen_branches ps lk)"
  "\<forall>b \<in> set bs. check (snd b) bound = Ok () \<Longrightarrow> project k r = Ok lk \<Longrightarrow> lgood UNIV acc \<Longrightarrow>
     project_merge acc bs r = Ok t \<Longrightarrow>
     project_merge (lthen acc lk) (gthen_branches bs k) r = Ok (lthen t lk)"
proof (induction g r and bs r and acc bs r arbitrary: bound t and bound ps and bound t
    rule: project_project_branches_project_merge.induct)
  case (2 f to bs r)
  show ?case
  proof (cases "r = f \<or> r = to")
    case True
    with 2 show ?thesis by (auto split: if_splits)
  next
    case False
    then obtain l c rest where bs: "bs = (l, c) # rest" using 2 by (cases bs) auto
    with False 2 obtain acc where "project c r = Ok acc" "project_merge acc rest r = Ok t" by auto
    moreover from this 2 bs have "lgood UNIV acc" using project_lgood(1)[of c bound UNIV r acc] by auto
    ultimately show ?thesis using 2 bs False by auto
  qed
next
  case (11 acc l c bs r)
  then obtain p acc' where p: "project c r = Ok p" and m: "merges acc p acc'"
    and rest: "project_merge acc' bs r = Ok t" by (auto simp: merge_Ok_iff)
  have good: "lgood UNIV p" using project_lgood(1)[OF _ _ p, of bound UNIV] 11 by auto
  then have "lgood UNIV acc'" using m 11(5) merges_lgood(1) by blast
  then have "project_merge (lthen acc' lk) (gthen_branches bs k) r = Ok (lthen t lk)"
    using 11(2)[OF p _ _ 11(4) _ rest] m 11(3) by (auto simp: merge_Ok_iff)
  moreover have "merges (lthen acc lk) (lthen p lk) (lthen acc' lk)"
    using merges_lthen(1)[OF m 11(5) good] .
  moreover have "project (gthen c k) r = Ok (lthen p lk)" using 11(1)[OF _ 11(4) p] 11(3) by auto
  ultimately show ?case by (auto simp: merge_Ok_iff)
qed (auto split: if_splits simp: lthen_branches.simps simp del: lthen_branches_map)

end
