(* ===== verification/Csm_Machine.thy ===== *)
theory Csm_Machine
  imports Csm_Project
begin

text \<open>
  Local machines and networks, \<open>src/csm/machine.rs\<close>: the compiler from local types to machines
  (\<open>go\<close>, \<open>compile_callee_box\<close>, \<open>compile_in\<close>), the network of a global type (\<open>build_in\<close>) and its
  channels.

  The mutable \<open>Compiler\<close> struct is the record \<open>compiler\<close> (edges, state counter, terminals, box
  memo); its scoped fields (\<open>rec_env\<close>, restored after every \<open>Rec\<close>, and \<open>box_exit_labels\<close>, popped
  after every frame) and its constants (\<open>role\<close>, \<open>penv\<close>) are the record \<open>scope\<close>, passed down. The
  \<open>debug_assert_eq!\<close> checks are absent from release builds and not modelled. Compiling a callee
  recurses through the environment: the fuel of \<open>go\<close> counts nested callee boxes, and
  \<open>compile_in_terminates\<close> shows that the fuel \<open>compile_in\<close> uses is enough.
\<close>

section \<open>Machines\<close>

datatype edge_kind = Internal | Call nat | Return

record local_edge =
  e_from :: nat
  e_action :: action
  e_to :: nat
  e_kind :: edge_kind

record local_machine =
  m_role :: role
  m_n_states :: nat
  m_initial :: nat
  m_edges :: "local_edge list"
  m_terminals :: "nat set"

definition edges_from :: "local_machine \<Rightarrow> nat \<Rightarrow> local_edge list" where
  "edges_from m state = filter (\<lambda>e. e_from e = state) (m_edges m)"

definition is_terminal :: "local_machine \<Rightarrow> nat \<Rightarrow> bool" where
  "is_terminal m state \<longleftrightarrow> state \<in> m_terminals m"

section \<open>The compiler\<close>

record compiler =
  c_edges :: "local_edge list"
  c_n :: nat
  c_terminals :: "nat set"
  c_box_memo :: "((string \<times> role) \<times> nat) list"

record scope =
  sc_role :: role
  sc_penv :: protocol_env
  sc_rec_env :: "string \<Rightarrow> nat option"
  sc_box_exit_labels :: "label list"

type_synonym 'a compiled = "(projection_error, 'a \<times> compiler) outcome option"

definition fresh :: "compiler \<Rightarrow> nat \<times> compiler" where
  "fresh c = (c_n c, c\<lparr>c_n := c_n c + 1\<rparr>)"

text \<open>\<open>entry.unwrap_or_else(|| self.fresh())\<close>\<close>

definition entry_or_fresh :: "nat option \<Rightarrow> compiler \<Rightarrow> nat \<times> compiler" where
  "entry_or_fresh entry c = (case entry of Some s \<Rightarrow> (s, c) | None \<Rightarrow> fresh c)"

definition push_edge :: "local_edge \<Rightarrow> compiler \<Rightarrow> compiler" where
  "push_edge e c = c\<lparr>c_edges := c_edges c @ [e]\<rparr>"

definition edge :: "nat \<Rightarrow> action \<Rightarrow> nat \<Rightarrow> edge_kind \<Rightarrow> local_edge" where
  "edge s a t k = \<lparr>e_from = s, e_action = a, e_to = t, e_kind = k\<rparr>"

definition call_label :: "string \<Rightarrow> label" where
  "call_label n = label_text (''call:'' @ n)"

definition ret_label :: "string \<Rightarrow> label" where
  "ret_label n = label_text (''ret:'' @ n)"

fun go :: "nat \<Rightarrow> scope \<Rightarrow> local_type \<Rightarrow> nat option \<Rightarrow> compiler \<Rightarrow> nat compiled"
  and go_branches ::
    "nat \<Rightarrow> scope \<Rightarrow> nat \<Rightarrow> (label \<Rightarrow> action) \<Rightarrow> local_branch list \<Rightarrow> compiler \<Rightarrow> unit compiled"
  and compile_callee_box :: "nat \<Rightarrow> scope \<Rightarrow> string \<Rightarrow> role \<Rightarrow> compiler \<Rightarrow> nat compiled" where
  "go fuel sc LEnd entry c =
     (let (s, c) = entry_or_fresh entry c in
      case sc_box_exit_labels sc of
        exit_label # _ \<Rightarrow>
          Some (Ok (s, push_edge (edge s (Send (sc_role sc) exit_label) s Return) c))
      | [] \<Rightarrow> Some (Ok (s, c\<lparr>c_terminals := insert s (c_terminals c)\<rparr>)))"
| "go fuel sc (LVar x) entry c =
     (case sc_rec_env sc x of
        Some s \<Rightarrow> Some (Ok (s, c))
      | None \<Rightarrow> Some (Panic ''unbound recursion variable in compile''))"
| "go fuel sc (LRec x body) entry c =
     (let (s, c) = entry_or_fresh entry c in
      and_then_opt (go fuel (sc\<lparr>sc_rec_env := (sc_rec_env sc)(x \<mapsto> s)\<rparr>) body (Some s) c)
        (\<lambda>(got, c). Some (Ok (s, c))))"
| "go fuel sc (LSend to l cont) entry c =
     (let (s, c) = entry_or_fresh entry c in
      and_then_opt (go fuel sc cont None c)
        (\<lambda>(t, c). Some (Ok (s, push_edge (edge s (Send to l) t Internal) c))))"
| "go fuel sc (LRecv from l cont) entry c =
     (let (s, c) = entry_or_fresh entry c in
      and_then_opt (go fuel sc cont None c)
        (\<lambda>(t, c). Some (Ok (s, push_edge (edge s (Recv from l) t Internal) c))))"
| "go fuel sc (LSelect to branches) entry c =
     (let (s, c) = entry_or_fresh entry c in
      and_then_opt (go_branches fuel sc s (Send to) branches c) (\<lambda>(_, c). Some (Ok (s, c))))"
| "go fuel sc (LBranch from branches) entry c =
     (let (s, c) = entry_or_fresh entry c in
      and_then_opt (go_branches fuel sc s (Recv from) branches c) (\<lambda>(_, c). Some (Ok (s, c))))"
| "go fuel sc (LCall callee subst cont) entry c =
     (let (s, c) = entry_or_fresh entry c in
      and_then_opt (go fuel sc cont None c) (\<lambda>(ret, c).
        case find (\<lambda>kv. snd kv = sc_role sc) subst of
          None \<Rightarrow> Some (Panic ''projection only emits LocalCall when the role participates'')
        | Some (cr, _) \<Rightarrow>
            and_then_opt (compile_callee_box fuel sc (ref_name callee) cr c) (\<lambda>(box_entry, c).
              Some (Ok (s, push_edge
                (edge s (Send (sc_role sc) (call_label (ref_name callee))) box_entry (Call ret)) c)))))"
| "go fuel sc (LBox enter body exit cont) entry c =
     (let (s, c) = entry_or_fresh entry c in
      and_then_opt (go fuel sc cont None c) (\<lambda>(ret, c).
        let (body_entry, c) = fresh c in
        and_then_opt
          (go fuel (sc\<lparr>sc_box_exit_labels := exit # sc_box_exit_labels sc\<rparr>) body (Some body_entry) c)
          (\<lambda>(got, c). Some (Ok (s, push_edge
             (edge s (Send (sc_role sc) enter) body_entry (Call ret)) c)))))"
| "go_branches fuel sc s act [] c = Some (Ok ((), c))"
| "go_branches fuel sc s act ((l, cont) # bs) c =
     and_then_opt (go fuel sc cont None c) (\<lambda>(t, c).
       go_branches fuel sc s act bs (push_edge (edge s (act l) t Internal) c))"
| "compile_callee_box fuel sc callee_name cr c =
     (case map_of (c_box_memo c) (callee_name, cr) of
        Some e \<Rightarrow> Some (Ok (e, c))
      | None \<Rightarrow>
          (case env_resolve (sc_penv sc) \<lparr>ref_name = callee_name\<rparr> of
             None \<Rightarrow> Some (Err (UnresolvedCallee callee_name))
           | Some g \<Rightarrow>
               (case project g cr of
                  Err e \<Rightarrow> Some (Err e)
                | Panic m \<Rightarrow> Some (Panic m)
                | Ok callee_lt \<Rightarrow>
                    (case fuel of
                       0 \<Rightarrow> None
                     | Suc fuel' \<Rightarrow>
                         let (entry, c) = fresh c;
                             c = c\<lparr>c_box_memo := ((callee_name, cr), entry) # c_box_memo c\<rparr> in
                         and_then_opt
                           (go fuel' (sc\<lparr>sc_box_exit_labels :=
                               ret_label callee_name # sc_box_exit_labels sc\<rparr>)
                             callee_lt (Some entry) c)
                           (\<lambda>(got, c). Some (Ok (entry, c)))))))"

text \<open>
  The callee roles a compilation can ask for: the keys of the substitutions of the type and of
  the protocols of the environment.
\<close>

fun lsubst_keys :: "local_type \<Rightarrow> role list"
  and lsubst_keys_branches :: "local_branch list \<Rightarrow> role list" where
  "lsubst_keys (LSend _ _ c) = lsubst_keys c"
| "lsubst_keys (LRecv _ _ c) = lsubst_keys c"
| "lsubst_keys (LSelect _ bs) = lsubst_keys_branches bs"
| "lsubst_keys (LBranch _ bs) = lsubst_keys_branches bs"
| "lsubst_keys (LRec _ b) = lsubst_keys b"
| "lsubst_keys (LVar _) = []"
| "lsubst_keys (LCall _ s c) = map fst s @ lsubst_keys c"
| "lsubst_keys (LBox _ b _ c) = lsubst_keys b @ lsubst_keys c"
| "lsubst_keys LEnd = []"
| "lsubst_keys_branches [] = []"
| "lsubst_keys_branches ((_, c) # bs) = lsubst_keys c @ lsubst_keys_branches bs"

fun gsubst_keys :: "global_type \<Rightarrow> role list"
  and gsubst_keys_branches :: "global_branch list \<Rightarrow> role list" where
  "gsubst_keys (Interaction _ _ _ c) = gsubst_keys c"
| "gsubst_keys (Choice _ _ bs) = gsubst_keys_branches bs"
| "gsubst_keys (Rec _ b) = gsubst_keys b"
| "gsubst_keys (Var _) = []"
| "gsubst_keys (GlobalCall _ s c) = map fst s @ gsubst_keys c"
| "gsubst_keys (GlobalBox _ b _ c) = gsubst_keys b @ gsubst_keys c"
| "gsubst_keys End = []"
| "gsubst_keys_branches [] = []"
| "gsubst_keys_branches ((_, c) # bs) = gsubst_keys c @ gsubst_keys_branches bs"

definition compile_fuel :: "local_type \<Rightarrow> protocol_env \<Rightarrow> nat" where
  "compile_fuel lt penv = length penv *
     length (lsubst_keys lt @ concat (map (\<lambda>e. gsubst_keys (snd e)) penv))"

definition empty_compiler :: compiler where
  "empty_compiler = \<lparr>c_edges = [], c_n = 0, c_terminals = {}, c_box_memo = []\<rparr>"

definition compile_in ::
  "role \<Rightarrow> local_type \<Rightarrow> protocol_env \<Rightarrow> (projection_error, local_machine) outcome option" where
  "compile_in role lt penv =
     and_then_opt
       (go (compile_fuel lt penv)
         \<lparr>sc_role = role, sc_penv = penv, sc_rec_env = Map.empty, sc_box_exit_labels = []\<rparr>
         lt None empty_compiler)
       (\<lambda>(initial, c). Some (Ok
         \<lparr>m_role = role, m_n_states = c_n c, m_initial = initial, m_edges = c_edges c,
          m_terminals = c_terminals c\<rparr>))"

definition compile :: "role \<Rightarrow> local_type \<Rightarrow> (projection_error, local_machine) outcome option" where
  "compile role lt = (case compile_in role lt env_new of
     Some (Err e) \<Rightarrow> Some (Panic ''call-free local type compiles'')
   | r \<Rightarrow> r)"

section \<open>Networks\<close>

record network =
  nw_protocol :: string
  nw_machines :: "(role \<times> local_machine) list"
  nw_channels :: "channel set"

fun collect_channels :: "global_type \<Rightarrow> channel set \<Rightarrow> channel set"
  and collect_channels_branches :: "global_branch list \<Rightarrow> channel set \<Rightarrow> channel set" where
  "collect_channels (Interaction from to _ cont) acc =
     collect_channels cont (insert \<lparr>ch_from = from, ch_to = to\<rparr> acc)"
| "collect_channels (Choice from to branches) acc =
     collect_channels_branches branches (insert \<lparr>ch_from = from, ch_to = to\<rparr> acc)"
| "collect_channels (Rec _ body) acc = collect_channels body acc"
| "collect_channels (GlobalCall _ _ cont) acc = collect_channels cont acc"
| "collect_channels (GlobalBox _ body _ cont) acc = collect_channels cont (collect_channels body acc)"
| "collect_channels (Var _) acc = acc"
| "collect_channels End acc = acc"
| "collect_channels_branches [] acc = acc"
| "collect_channels_branches ((_, cont) # bs) acc =
     collect_channels_branches bs (collect_channels cont acc)"

text \<open>The loop over the participants, in role order; \<open>machines\<close> is built in key order.\<close>

fun build_machines ::
  "global_type \<Rightarrow> protocol_env \<Rightarrow> role list
    \<Rightarrow> (projection_error, (role \<times> local_machine) list) outcome option" where
  "build_machines g penv [] = Some (Ok [])"
| "build_machines g penv (r # rs) =
     and_then_opt (Some (project g r)) (\<lambda>lt.
       and_then_opt (compile_in r lt penv) (\<lambda>m.
         and_then_opt (build_machines g penv rs) (\<lambda>ms. Some (Ok ((r, m) # ms)))))"

definition build_in ::
  "string \<Rightarrow> global_type \<Rightarrow> protocol_env \<Rightarrow> (projection_error, network) outcome option" where
  "build_in protocol g penv =
     and_then_opt (build_machines g penv (sorted_list_of_set (participants g))) (\<lambda>ms.
       Some (Ok \<lparr>nw_protocol = protocol, nw_machines = ms, nw_channels = collect_channels g {}\<rparr>))"

definition build :: "string \<Rightarrow> global_type \<Rightarrow> (projection_error, network) outcome option" where
  "build protocol g = build_in protocol g env_new"

definition nw_machine :: "network \<Rightarrow> role \<Rightarrow> local_machine option" where
  "nw_machine net r = map_of (nw_machines net) r"

end
