(* ===== verification/Csm_Compile.thy ===== *)
theory Csm_Compile
  imports Csm_Machine
begin

text \<open>
  Correctness of the compiler of \<open>src/csm/machine.rs\<close>. The relation \<open>rep\<close> says that a state of a
  machine behaves as a local type; \<open>go_correct\<close> shows that the state \<open>go\<close> returns represents the
  type it was given, that states allocated earlier keep their edges, and that every memoised box
  represents the projection of its callee. The side condition \<open>lheads\<close> is the one under which a
  node compiled into a given state really starts there (the \<open>debug_assert_eq!\<close> of the source).
  The last section shows that the fuel \<open>compile_in\<close> passes to \<open>go\<close> is enough.
\<close>

section \<open>Machines that represent a local type\<close>

text \<open>
  A picture of a (partial) machine: the edges leaving each state, the terminal states, the box
  entries and the role that owns the machine.
\<close>

record picture =
  p_out :: "nat \<Rightarrow> local_edge list"
  p_terminals :: "nat set"
  p_memo :: "string \<times> role \<Rightarrow> nat option"
  p_role :: role

definition branch_edges :: "nat \<Rightarrow> (label \<Rightarrow> action) \<Rightarrow> local_branch list \<Rightarrow> nat list \<Rightarrow> local_edge list" where
  "branch_edges s act bs ts = map2 (\<lambda>b t. edge s (act (fst b)) t Internal) bs ts"

text \<open>
  \<open>rep P R \<rho> boxed s t\<close>: state \<open>s\<close> of \<open>P\<close> behaves as the local type \<open>t\<close>, the recursion
  variables standing for the states \<open>\<rho>\<close> and the states of the type itself lying in \<open>R\<close>.
\<close>

fun rep :: "picture \<Rightarrow> nat set \<Rightarrow> (string \<Rightarrow> nat option) \<Rightarrow> bool \<Rightarrow> nat \<Rightarrow> local_type \<Rightarrow> bool"
  and rep_branches ::
    "picture \<Rightarrow> nat set \<Rightarrow> (string \<Rightarrow> nat option) \<Rightarrow> bool \<Rightarrow> nat list \<Rightarrow> local_branch list \<Rightarrow> bool" where
  "rep P R \<rho> boxed s LEnd \<longleftrightarrow> s \<in> R \<and>
     (if boxed then s \<notin> p_terminals P \<and> (\<exists>l. p_out P s = [edge s (Send (p_role P) l) s Return])
      else s \<in> p_terminals P \<and> p_out P s = [])"
| "rep P R \<rho> boxed s (LVar x) \<longleftrightarrow> \<rho> x = Some s"
| "rep P R \<rho> boxed s (LRec x b) \<longleftrightarrow> rep P R (\<rho>(x \<mapsto> s)) boxed s b"
| "rep P R \<rho> boxed s (LSend to l c) \<longleftrightarrow> s \<in> R \<and> s \<notin> p_terminals P \<and>
     (\<exists>t. p_out P s = [edge s (Send to l) t Internal] \<and> rep P R \<rho> boxed t c)"
| "rep P R \<rho> boxed s (LRecv from l c) \<longleftrightarrow> s \<in> R \<and> s \<notin> p_terminals P \<and>
     (\<exists>t. p_out P s = [edge s (Recv from l) t Internal] \<and> rep P R \<rho> boxed t c)"
| "rep P R \<rho> boxed s (LSelect to bs) \<longleftrightarrow> s \<in> R \<and> s \<notin> p_terminals P \<and>
     (\<exists>ts. p_out P s = branch_edges s (Send to) bs ts \<and> rep_branches P R \<rho> boxed ts bs)"
| "rep P R \<rho> boxed s (LBranch from bs) \<longleftrightarrow> s \<in> R \<and> s \<notin> p_terminals P \<and>
     (\<exists>ts. p_out P s = branch_edges s (Recv from) bs ts \<and> rep_branches P R \<rho> boxed ts bs)"
| "rep P R \<rho> boxed s (LCall callee subst c) \<longleftrightarrow> s \<in> R \<and> s \<notin> p_terminals P \<and>
     (\<exists>ret be cr v. p_out P s =
         [edge s (Send (p_role P) (call_label (ref_name callee))) be (Call ret)] \<and>
       rep P R \<rho> boxed ret c \<and> find (\<lambda>kv. snd kv = p_role P) subst = Some (cr, v) \<and>
       p_memo P (ref_name callee, cr) = Some be)"
| "rep P R \<rho> boxed s (LBox enter b exit c) \<longleftrightarrow> s \<in> R \<and> s \<notin> p_terminals P \<and>
     (\<exists>ret be. p_out P s = [edge s (Send (p_role P) enter) be (Call ret)] \<and>
       rep P R \<rho> boxed ret c \<and> rep P R \<rho> True be b)"
| "rep_branches P R \<rho> boxed ts [] \<longleftrightarrow> ts = []"
| "rep_branches P R \<rho> boxed ts ((l, c) # bs) \<longleftrightarrow>
     (\<exists>t ts'. ts = t # ts' \<and> rep P R \<rho> boxed t c \<and> rep_branches P R \<rho> boxed ts' bs)"

definition extends :: "nat set \<Rightarrow> picture \<Rightarrow> picture \<Rightarrow> bool" where
  "extends R P Q \<longleftrightarrow> p_role Q = p_role P \<and> p_memo P \<subseteq>\<^sub>m p_memo Q \<and>
     (\<forall>q \<in> R. p_out Q q = p_out P q \<and> (q \<in> p_terminals Q \<longleftrightarrow> q \<in> p_terminals P))"

lemma rep_mono:
  "rep P R \<rho> boxed s t \<Longrightarrow> extends R P Q \<Longrightarrow> R \<subseteq> R' \<Longrightarrow> rep Q R' \<rho> boxed s t"
  "rep_branches P R \<rho> boxed ts bs \<Longrightarrow> extends R P Q \<Longrightarrow> R \<subseteq> R' \<Longrightarrow>
    rep_branches Q R' \<rho> boxed ts bs"
proof (induction t and bs arbitrary: \<rho> boxed s and \<rho> boxed ts rule: local_induct)
  case (LCall cl su c)
  then show ?case by (auto simp: extends_def map_le_def dom_def) metis
next
  case (LEnd)
  then show ?case by (auto simp: extends_def)
next
  case (LBox e b x c)
  then obtain ret be where "p_out P s = [edge s (Send (p_role P) e) be (Call ret)]"
    "rep P R \<rho> boxed ret c" "rep P R \<rho> True be b" "s \<in> R" "s \<notin> p_terminals P" by auto
  moreover from this LBox have "rep Q R' \<rho> boxed ret c" "rep Q R' \<rho> True be b" by auto
  ultimately show ?case using LBox.prems(2,3) by (auto simp: extends_def)
qed (auto simp: extends_def; blast)+

text \<open>
  Where a node is compiled into a state it was given (the state of a \<open>Rec\<close> binder or of a box),
  a variable in head position must be one of the binders that own this state.
\<close>

fun lheads :: "string set option \<Rightarrow> local_type \<Rightarrow> bool"
  and lheads_branches :: "local_branch list \<Rightarrow> bool" where
  "lheads m (LVar y) \<longleftrightarrow> (case m of None \<Rightarrow> True | Some X \<Rightarrow> y \<in> X)"
| "lheads m (LRec x b) \<longleftrightarrow> lheads (Some (insert x (case m of None \<Rightarrow> {} | Some X \<Rightarrow> X))) b"
| "lheads m (LSend _ _ c) \<longleftrightarrow> lheads None c"
| "lheads m (LRecv _ _ c) \<longleftrightarrow> lheads None c"
| "lheads m (LSelect _ bs) \<longleftrightarrow> lheads_branches bs"
| "lheads m (LBranch _ bs) \<longleftrightarrow> lheads_branches bs"
| "lheads m (LCall _ _ c) \<longleftrightarrow> lheads None c"
| "lheads m (LBox _ b _ c) \<longleftrightarrow> lheads (Some {}) b \<and> lheads None c"
| "lheads m LEnd \<longleftrightarrow> True"
| "lheads_branches [] \<longleftrightarrow> True"
| "lheads_branches ((_, c) # bs) \<longleftrightarrow> lheads None c \<and> lheads_branches bs"

section \<open>Compiler states\<close>

definition out :: "compiler \<Rightarrow> nat \<Rightarrow> local_edge list" where
  "out c q = filter (\<lambda>e. e_from e = q) (c_edges c)"

definition picture_of :: "role \<Rightarrow> compiler \<Rightarrow> picture" where
  "picture_of r c = \<lparr>p_out = out c, p_terminals = c_terminals c, p_memo = map_of (c_box_memo c),
     p_role = r\<rparr>"

definition compiler_ok :: "compiler \<Rightarrow> bool" where
  "compiler_ok c \<longleftrightarrow> (\<forall>e \<in> set (c_edges c). e_from e < c_n c) \<and> (\<forall>q \<in> c_terminals c. q < c_n c)"

text \<open>From \<open>c\<close> to \<open>c'\<close> only the states in \<open>R\<close> and the new ones have gained edges.\<close>

definition grows :: "nat set \<Rightarrow> compiler \<Rightarrow> compiler \<Rightarrow> bool" where
  "grows R c c' \<longleftrightarrow> compiler_ok c' \<and> c_n c \<le> c_n c' \<and> map_of (c_box_memo c) \<subseteq>\<^sub>m map_of (c_box_memo c') \<and>
     (\<forall>q < c_n c. q \<notin> R \<longrightarrow> out c' q = out c q \<and> (q \<in> c_terminals c' \<longleftrightarrow> q \<in> c_terminals c))"

lemma grows_refl: "compiler_ok c \<Longrightarrow> grows R c c"
  by (simp add: grows_def)

lemma grows_trans:
  assumes "grows R c c1" "grows S c1 c2" "\<And>q. q \<in> S \<Longrightarrow> q \<in> R \<or> c_n c \<le> q"
  shows "grows R c c2"
proof -
  have "out c2 q = out c q \<and> (q \<in> c_terminals c2 \<longleftrightarrow> q \<in> c_terminals c)"
    if "q < c_n c" "q \<notin> R" for q
  proof -
    have "q \<notin> S" using assms(3) that by force
    with assms(1,2) that show ?thesis by (simp add: grows_def)
  qed
  with assms(1,2) show ?thesis by (auto simp: grows_def intro: map_le_trans)
qed

lemma grows_extends:
  "grows S c c' \<Longrightarrow> (\<And>q. q \<in> R \<Longrightarrow> q < c_n c \<and> q \<notin> S) \<Longrightarrow> extends R (picture_of r c) (picture_of r c')"
  by (auto simp: grows_def extends_def picture_of_def)

lemma out_push_edge [simp]:
  "out (push_edge e c) q = (if e_from e = q then out c q @ [e] else out c q)"
  by (simp add: out_def push_edge_def)

lemma push_edge_simps [simp]:
  "c_n (push_edge e c) = c_n c" "c_terminals (push_edge e c) = c_terminals c"
  "c_box_memo (push_edge e c) = c_box_memo c"
  by (simp_all add: push_edge_def)

lemma edge_simps [simp]:
  "e_from (edge s a t k) = s" "e_action (edge s a t k) = a" "e_to (edge s a t k) = t"
  "e_kind (edge s a t k) = k"
  by (simp_all add: edge_def)

lemma compiler_ok_push_edge: "compiler_ok c \<Longrightarrow> e_from e < c_n c \<Longrightarrow> compiler_ok (push_edge e c)"
  by (auto simp: compiler_ok_def push_edge_def)

lemma grows_push_edge: "compiler_ok c \<Longrightarrow> e_from e < c_n c \<Longrightarrow> grows {e_from e} c (push_edge e c)"
  by (auto simp: grows_def compiler_ok_push_edge)

lemma out_fresh_state: "compiler_ok c \<Longrightarrow> c_n c \<le> q \<Longrightarrow> out c q = [] \<and> q \<notin> c_terminals c"
  by (force simp: compiler_ok_def out_def filter_empty_conv)


definition entry_ready :: "nat option \<Rightarrow> compiler \<Rightarrow> bool" where
  "entry_ready entry c \<longleftrightarrow> (\<forall>e. entry = Some e \<longrightarrow> e < c_n c \<and> out c e = [] \<and> e \<notin> c_terminals c)"

definition region :: "nat option \<Rightarrow> compiler \<Rightarrow> compiler \<Rightarrow> nat set" where
  "region entry c c' = set_option entry \<union> {c_n c..<c_n c'}"

definition mode_ok :: "string set option \<Rightarrow> nat option \<Rightarrow> (string \<Rightarrow> nat option) \<Rightarrow> bool" where
  "mode_ok m entry \<rho> \<longleftrightarrow> (case entry of None \<Rightarrow> m = None
     | Some e \<Rightarrow> (\<exists>X. m = Some X \<and> (\<forall>y \<in> X. \<rho> y = Some e)))"

lemma entry_or_freshD:
  assumes "entry_or_fresh entry c = (s, c1)" "compiler_ok c" "entry_ready entry c"
  shows "compiler_ok c1" "grows {} c c1" "s < c_n c1" "out c1 s = []" "s \<notin> c_terminals c1"
    "c_n c \<le> c_n c1" "s \<in> set_option entry \<or> s = c_n c" "s \<in> region entry c c1"
    "\<And>e. entry = Some e \<Longrightarrow> s = e" "c_box_memo c1 = c_box_memo c"
proof -
  have "compiler_ok (c\<lparr>c_n := Suc (c_n c)\<rparr>)" "out (c\<lparr>c_n := Suc (c_n c)\<rparr>) = out c"
    using assms(2) by (auto simp: compiler_ok_def out_def fun_eq_iff less_Suc_eq)
  with assms out_fresh_state[OF assms(2)]
  show "compiler_ok c1" "grows {} c c1" "s < c_n c1" "out c1 s = []" "s \<notin> c_terminals c1"
    "c_n c \<le> c_n c1" "s \<in> set_option entry \<or> s = c_n c" "s \<in> region entry c c1"
    "\<And>e. entry = Some e \<Longrightarrow> s = e" "c_box_memo c1 = c_box_memo c"
    by (auto simp: entry_or_fresh_def fresh_def entry_ready_def region_def grows_def
        split: option.splits)
qed

definition memo_rep :: "role \<Rightarrow> protocol_env \<Rightarrow> compiler \<Rightarrow> compiler \<Rightarrow> bool" where
  "memo_rep r env c c' \<longleftrightarrow> (\<forall>n cr be. map_of (c_box_memo c') (n, cr) = Some be \<longrightarrow>
     map_of (c_box_memo c) (n, cr) = None \<longrightarrow>
     (\<exists>g t \<rho>. map_of env n = Some g \<and> project g cr = Ok t \<and>
       rep (picture_of r c') {c_n c..<c_n c'} \<rho> True be t))"

lemma memo_rep_same: "c_box_memo c' = c_box_memo c \<Longrightarrow> memo_rep r env c c'"
  by (simp add: memo_rep_def)

lemma memo_rep_trans:
  assumes "memo_rep r env c c1" "memo_rep r env c1 c2" "grows R c c1" "grows S c1 c2"
    and S: "\<And>q. q \<in> S \<Longrightarrow> q < c_n c \<or> c_n c1 \<le> q"
  shows "memo_rep r env c c2"
  unfolding memo_rep_def
proof (intro allI impI)
  fix n cr be
  assume be: "map_of (c_box_memo c2) (n, cr) = Some be" "map_of (c_box_memo c) (n, cr) = None"
  have le: "c_n c \<le> c_n c1" "c_n c1 \<le> c_n c2" using assms(3,4) by (auto simp: grows_def)
  show "\<exists>g t \<rho>. map_of env n = Some g \<and> project g cr = Ok t \<and>
      rep (picture_of r c2) {c_n c..<c_n c2} \<rho> True be t"
  proof (cases "map_of (c_box_memo c1) (n, cr)")
    case None
    then obtain g t \<rho> where "map_of env n = Some g" "project g cr = Ok t"
        "rep (picture_of r c2) {c_n c1..<c_n c2} \<rho> True be t"
      using assms(2)[unfolded memo_rep_def] be by blast
    moreover have "extends {c_n c1..<c_n c2} (picture_of r c2) (picture_of r c2)"
      by (simp add: extends_def)
    ultimately show ?thesis using rep_mono(1) le by (metis atLeastLessThan_iff order.trans subsetI)
  next
    case (Some be')
    then have "be' = be" using assms(4) be(1) by (auto simp: grows_def map_le_def dom_def)
    with Some obtain g t \<rho> where "map_of env n = Some g" "project g cr = Ok t"
        "rep (picture_of r c1) {c_n c..<c_n c1} \<rho> True be t"
      using assms(1)[unfolded memo_rep_def] be(2) by blast
    moreover have "extends {c_n c..<c_n c1} (picture_of r c1) (picture_of r c2)"
      using S by (intro grows_extends[OF assms(4)]) force
    ultimately show ?thesis using rep_mono(1) le by (metis atLeastLessThan_iff order.strict_trans2 subsetI)
  qed
qed

lemma extends_refl [simp]: "extends R P P"
  by (simp add: extends_def)

lemma memo_rep_weaken:
  "c_box_memo c1 = c_box_memo c \<Longrightarrow> c_n c \<le> c_n c1 \<Longrightarrow> memo_rep r env c1 c2 \<Longrightarrow> memo_rep r env c c2"
  unfolding memo_rep_def
  by (metis (no_types, lifting) atLeastLessThan_iff extends_refl order.trans rep_mono(1) subsetI)

section \<open>Correctness of the compiler\<close>

definition box_ok :: "nat \<Rightarrow> role \<Rightarrow> protocol_env \<Rightarrow> bool" where
  "box_ok fuel r env \<longleftrightarrow> (\<forall>sc n cr c be c'. sc_role sc = r \<longrightarrow> sc_penv sc = env \<longrightarrow>
     compile_callee_box fuel sc n cr c = Some (Ok (be, c')) \<longrightarrow> compiler_ok c \<longrightarrow>
     grows {} c c' \<and> memo_rep r env c c' \<and> map_of (c_box_memo c') (n, cr) = Some be)"

definition go_result :: "scope \<Rightarrow> nat option \<Rightarrow> compiler \<Rightarrow> nat \<Rightarrow> compiler \<Rightarrow> local_type \<Rightarrow> bool" where
  "go_result sc entry c s c' t \<longleftrightarrow> grows (set_option entry) c c' \<and>
     memo_rep (sc_role sc) (sc_penv sc) c c' \<and> (\<forall>e. entry = Some e \<longrightarrow> s = e) \<and>
     rep (picture_of (sc_role sc) c') (region entry c c') (sc_rec_env sc) (sc_box_exit_labels sc \<noteq> []) s t"

definition branches_result ::
  "scope \<Rightarrow> nat \<Rightarrow> (label \<Rightarrow> action) \<Rightarrow> compiler \<Rightarrow> compiler \<Rightarrow> local_branch list \<Rightarrow> bool" where
  "branches_result sc s act c c' bs \<longleftrightarrow> grows {s} c c' \<and>
     memo_rep (sc_role sc) (sc_penv sc) c c' \<and> (s \<in> c_terminals c' \<longleftrightarrow> s \<in> c_terminals c) \<and>
     (\<exists>ts. out c' s = out c s @ branch_edges s act bs ts \<and>
       rep_branches (picture_of (sc_role sc) c') {c_n c..<c_n c'} (sc_rec_env sc)
         (sc_box_exit_labels sc \<noteq> []) ts bs)"

text \<open>
  One outgoing edge, added after a continuation (\<open>c1\<close> to \<open>c2\<close>) and possibly a frame (\<open>c2\<close> to
  \<open>c3\<close>) have been compiled.
\<close>

lemma go_result_cont:
  assumes ent: "entry_or_fresh entry c = (s, c1)" "compiler_ok c" "entry_ready entry c"
    and cont: "go_result sc None c1 t c2 k"
    and frame: "grows {} c2 c3" "memo_rep (sc_role sc) (sc_penv sc) c2 c3"
    and d: "d = push_edge (edge s a q kd) c3"
  shows "grows (set_option entry) c d" "memo_rep (sc_role sc) (sc_penv sc) c d"
    "out d s = [edge s a q kd]" "s \<notin> c_terminals d" "s \<in> region entry c d"
    "rep (picture_of (sc_role sc) d) (region entry c d) (sc_rec_env sc) (sc_box_exit_labels sc \<noteq> []) t k"
    "extends {c_n c1..<c_n c3} (picture_of (sc_role sc) c3) (picture_of (sc_role sc) d)"
    "{c_n c1..<c_n c3} \<subseteq> region entry c d"
proof -
  note e = entry_or_freshD[OF ent]
  have g2: "grows {} c1 c2" and m2: "memo_rep (sc_role sc) (sc_penv sc) c1 c2"
    and r2: "rep (picture_of (sc_role sc) c2) {c_n c1..<c_n c2} (sc_rec_env sc)
      (sc_box_exit_labels sc \<noteq> []) t k"
    using cont by (auto simp: go_result_def region_def)
  have g3: "grows {} c1 c3" by (rule grows_trans[OF g2 frame(1)]) simp
  have m3: "memo_rep (sc_role sc) (sc_penv sc) c1 c3"
    by (rule memo_rep_trans[OF m2 frame(2) g2 frame(1)]) simp
  have gd: "grows {s} c3 d"
    unfolding d using grows_push_edge[of c3 "edge s a q kd"] g3 e(3) by (simp add: grows_def)
  show "s \<notin> c_terminals d" and "out d s = [edge s a q kd]"
    using g3 e(3-5) unfolding d by (auto simp: grows_def)
  show "s \<in> region entry c d" using e(8) g3 unfolding d by (auto simp: region_def grows_def)
  have g: "grows {} c c3" by (rule grows_trans[OF e(2) g3]) simp
  show "grows (set_option entry) c d"
    by (rule grows_trans[OF _ gd]) (use g e(7) in \<open>auto simp: grows_def\<close>)
  have "memo_rep (sc_role sc) (sc_penv sc) c1 d"
    by (rule memo_rep_trans[OF m3 memo_rep_same g3 gd]) (use e(3) d in auto)
  then show "memo_rep (sc_role sc) (sc_penv sc) c d"
    by (rule memo_rep_weaken[OF e(10) e(6)])
  show ext: "extends {c_n c1..<c_n c3} (picture_of (sc_role sc) c3) (picture_of (sc_role sc) d)"
    using e(3) by (intro grows_extends[OF gd]) auto
  show "{c_n c1..<c_n c3} \<subseteq> region entry c d" using e(6) by (auto simp: region_def d)
  have "extends {c_n c1..<c_n c2} (picture_of (sc_role sc) c2) (picture_of (sc_role sc) c3)"
    by (rule grows_extends[OF frame(1)]) auto
  then have "rep (picture_of (sc_role sc) c3) {c_n c1..<c_n c3} (sc_rec_env sc)
      (sc_box_exit_labels sc \<noteq> []) t k"
    by (rule rep_mono(1)[OF r2]) (use frame(1) in \<open>auto simp: grows_def\<close>)
  then show "rep (picture_of (sc_role sc) d) (region entry c d) (sc_rec_env sc)
      (sc_box_exit_labels sc \<noteq> []) t k"
    by (rule rep_mono(1)[OF _ ext]) (use e(6) in \<open>auto simp: region_def d\<close>)
qed

lemma go_result_ok: "go_result sc entry c s c' t \<Longrightarrow> compiler_ok c'"
  by (simp add: go_result_def grows_def)

lemma go_result_branches:
  assumes ent: "entry_or_fresh entry c = (s, c1)" "compiler_ok c" "entry_ready entry c"
  shows "branches_result sc s (Send p) c1 c' bs \<Longrightarrow> go_result sc entry c s c' (LSelect p bs)"
    and "branches_result sc s (Recv p) c1 c' bs \<Longrightarrow> go_result sc entry c s c' (LBranch p bs)"
proof -
  note e = entry_or_freshD[OF ent]
  have *: "grows (set_option entry) c c' \<and> memo_rep (sc_role sc) (sc_penv sc) c c' \<and>
    s \<in> region entry c c' \<and> s \<notin> c_terminals c' \<and>
    (\<exists>ts. out c' s = branch_edges s act bs ts \<and>
       rep_branches (picture_of (sc_role sc) c') (region entry c c') (sc_rec_env sc)
         (sc_box_exit_labels sc \<noteq> []) ts bs)" if "branches_result sc s act c1 c' bs" for act
  proof -
    have g: "grows {s} c1 c'" and mr: "memo_rep (sc_role sc) (sc_penv sc) c1 c'"
      using that by (auto simp: branches_result_def)
    have "grows (set_option entry) c c'"
      by (rule grows_trans[OF _ g]) (use e(2,7) in \<open>auto simp: grows_def\<close>)
    moreover have "s \<in> region entry c c'" "{c_n c1..<c_n c'} \<subseteq> region entry c c'"
      using e(6,8) g by (auto simp: region_def grows_def)
    ultimately show ?thesis
      using that e(4,5) memo_rep_weaken[OF e(10,6) mr] rep_mono(2)[OF _ extends_refl]
      by (auto simp: branches_result_def)
  qed
  show "branches_result sc s (Send p) c1 c' bs \<Longrightarrow> go_result sc entry c s c' (LSelect p bs)"
    and "branches_result sc s (Recv p) c1 c' bs \<Longrightarrow> go_result sc entry c s c' (LBranch p bs)"
    using *[of "Send p"] *[of "Recv p"] e(9) by (auto simp: go_result_def picture_of_def)
qed

lemma branches_result_Cons:
  assumes k: "go_result sc None c t c1 k" and s: "s < c_n c"
    and bs: "branches_result sc s act (push_edge (edge s (act l) t Internal) c1) c' bs"
  shows "branches_result sc s act c c' ((l, k) # bs)"
proof -
  let ?c2 = "push_edge (edge s (act l) t Internal) c1"
  have g1: "grows {} c c1" and m1: "memo_rep (sc_role sc) (sc_penv sc) c c1"
    and r1: "rep (picture_of (sc_role sc) c1) {c_n c..<c_n c1} (sc_rec_env sc)
      (sc_box_exit_labels sc \<noteq> []) t k" using k by (auto simp: go_result_def region_def)
  have n: "c_n c \<le> c_n c1" and "compiler_ok c1" using g1 by (auto simp: grows_def)
  then have g2: "grows {s} c1 ?c2" using grows_push_edge[of c1 "edge s (act l) t Internal"] s by simp
  obtain ts where g3: "grows {s} ?c2 c'" and m3: "memo_rep (sc_role sc) (sc_penv sc) ?c2 c'"
    and tm: "s \<in> c_terminals c' \<longleftrightarrow> s \<in> c_terminals c1"
    and o: "out c' s = out ?c2 s @ branch_edges s act bs ts"
    and r3: "rep_branches (picture_of (sc_role sc) c') {c_n c1..<c_n c'} (sc_rec_env sc)
         (sc_box_exit_labels sc \<noteq> []) ts bs"
    using bs by (auto simp: branches_result_def)
  have g13: "grows {s} c1 c'" by (rule grows_trans[OF g2 g3]) simp
  have "grows {s} c c'" by (rule grows_trans[OF _ g13]) (use g1 in \<open>auto simp: grows_def\<close>)
  moreover have "memo_rep (sc_role sc) (sc_penv sc) c1 c'"
    by (rule memo_rep_weaken[OF _ _ m3]) auto
  then have "memo_rep (sc_role sc) (sc_penv sc) c c'"
    by (rule memo_rep_trans[OF m1 _ g1 g13]) (use s in auto)
  moreover have "rep (picture_of (sc_role sc) c') {c_n c..<c_n c'} (sc_rec_env sc)
      (sc_box_exit_labels sc \<noteq> []) t k"
    by (rule rep_mono(1)[OF r1 grows_extends[OF g13]]) (use s g13 in \<open>auto simp: grows_def\<close>)
  moreover have "rep_branches (picture_of (sc_role sc) c') {c_n c..<c_n c'} (sc_rec_env sc)
         (sc_box_exit_labels sc \<noteq> []) ts bs"
    by (rule rep_mono(2)[OF r3 extends_refl]) (use n in auto)
  moreover have "out c' s = out c s @ branch_edges s act ((l, k) # bs) (t # ts)"
    using o g1 s by (auto simp: grows_def branch_edges_def)
  ultimately show ?thesis using tm g1 s by (auto simp: branches_result_def grows_def)
qed

lemma go_result_End:
  assumes "go fuel sc LEnd entry c = Some (Ok (s, c'))" "compiler_ok c" "entry_ready entry c"
  shows "go_result sc entry c s c' LEnd"
proof -
  obtain c1 where e: "entry_or_fresh entry c = (s, c1)" using assms(1)
    by (auto split: prod.splits list.splits)
  note ent = entry_or_freshD[OF e assms(2,3)]
  have grow: "grows (set_option entry) c c'" if "grows {s} c1 c'"
    by (rule grows_trans[OF _ that]) (use ent(2,7) in \<open>auto simp: grows_def\<close>)
  show ?thesis
  proof (cases "sc_box_exit_labels sc")
    case Nil
    with assms(1) e have c': "c' = c1\<lparr>c_terminals := insert s (c_terminals c1)\<rparr>" by simp
    then have "grows {s} c1 c'" using ent(1,3) by (auto simp: grows_def compiler_ok_def out_def)
    with grow c' Nil ent show ?thesis
      by (auto simp: go_result_def memo_rep_same region_def picture_of_def out_def)
  next
    case (Cons l ls)
    with assms(1) e have c': "c' = push_edge (edge s (Send (sc_role sc) l) s Return) c1" by simp
    then have "grows {s} c1 c'"
      using grows_push_edge[OF ent(1), of "edge s (Send (sc_role sc) l) s Return"] ent(3) by simp
    with grow c' Cons ent show ?thesis
      by (auto simp: go_result_def memo_rep_same region_def picture_of_def)
  qed
qed

lemma go_result_Rec:
  assumes ent: "entry_or_fresh entry c = (s, c1)" "compiler_ok c" "entry_ready entry c"
    and b: "go_result (sc\<lparr>sc_rec_env := (sc_rec_env sc)(x \<mapsto> s)\<rparr>) (Some s) c1 got c' b"
  shows "go_result sc entry c s c' (LRec x b)"
proof -
  note e = entry_or_freshD[OF ent]
  have g: "grows {s} c1 c'" and mr: "memo_rep (sc_role sc) (sc_penv sc) c1 c'" and "got = s"
    and rp: "rep (picture_of (sc_role sc) c') (region (Some s) c1 c') ((sc_rec_env sc)(x \<mapsto> s))
      (sc_box_exit_labels sc \<noteq> []) s b"
    using b by (auto simp: go_result_def)
  have "grows (set_option entry) c c'"
    by (rule grows_trans[OF _ g]) (use e(2,7) in \<open>auto simp: grows_def\<close>)
  moreover have "region (Some s) c1 c' \<subseteq> region entry c c'"
    using e(6,8) g by (auto simp: region_def grows_def)
  ultimately show ?thesis
    using rep_mono(1)[OF rp extends_refl] memo_rep_weaken[OF e(10,6) mr] e(9)
    by (simp add: go_result_def)
qed

text \<open>Entering a frame whose entry state is allocated first.\<close>

lemma go_result_frame:
  assumes "go_result (sc\<lparr>sc_box_exit_labels := l # ls\<rparr>) (Some (c_n c)) (c\<lparr>c_n := c_n c + 1\<rparr>) got c' b"
    and "compiler_ok c"
  shows "grows {} c c'" "memo_rep (sc_role sc) (sc_penv sc) c c'"
    "rep (picture_of (sc_role sc) c') {c_n c..<c_n c'} (sc_rec_env sc) True (c_n c) b"
proof -
  let ?c1 = "c\<lparr>c_n := c_n c + 1\<rparr>"
  have "entry_or_fresh None c = (c_n c, ?c1)" by (simp add: entry_or_fresh_def fresh_def)
  from entry_or_freshD(2)[OF this assms(2)] have e: "grows {} c ?c1" by (simp add: entry_ready_def)
  have g: "grows {c_n c} ?c1 c'" and mr: "memo_rep (sc_role sc) (sc_penv sc) ?c1 c'"
    and rb: "rep (picture_of (sc_role sc) c') (region (Some (c_n c)) ?c1 c') (sc_rec_env sc) True (c_n c) b"
    using assms(1) by (auto simp: go_result_def)
  show "grows {} c c'" by (rule grows_trans[OF e g]) simp
  show "memo_rep (sc_role sc) (sc_penv sc) c c'" by (rule memo_rep_weaken[OF _ _ mr]) simp_all
  have "region (Some (c_n c)) ?c1 c' \<subseteq> {c_n c..<c_n c'}" using g by (auto simp: region_def grows_def)
  then show "rep (picture_of (sc_role sc) c') {c_n c..<c_n c'} (sc_rec_env sc) True (c_n c) b"
    by (rule rep_mono(1)[OF rb extends_refl])
qed

lemma entry_ready_fresh: "compiler_ok c \<Longrightarrow> compiler_ok (c\<lparr>c_n := c_n c + 1\<rparr>)"
  "compiler_ok c \<Longrightarrow> entry_ready (Some (c_n c)) (c\<lparr>c_n := c_n c + 1\<rparr>)"
  using out_fresh_state[of c "c_n c"]
  by (auto simp: compiler_ok_def entry_ready_def out_def less_Suc_eq)

lemma go_result_Box:
  assumes ent: "entry_or_fresh entry c = (s, c1)" "compiler_ok c" "entry_ready entry c"
    and k: "go_result sc None c1 ret c2 k"
    and b: "go_result (sc\<lparr>sc_box_exit_labels := ex # sc_box_exit_labels sc\<rparr>) (Some (c_n c2))
      (c2\<lparr>c_n := c_n c2 + 1\<rparr>) got c3 b"
    and d: "c' = push_edge (edge s (Send (sc_role sc) en) (c_n c2) (Call ret)) c3"
  shows "go_result sc entry c s c' (LBox en b ex k)"
proof -
  note fr = go_result_frame[OF b go_result_ok[OF k]]
  note res = go_result_cont[OF ent k fr(1,2) d]
  have "{c_n c2..<c_n c3} \<subseteq> {c_n c1..<c_n c3}" using k by (auto simp: go_result_def grows_def)
  then have "rep (picture_of (sc_role sc) c') (region entry c c') (sc_rec_env sc) True (c_n c2) b"
    using rep_mono(1)[OF rep_mono(1)[OF fr(3) extends_refl] res(7) res(8)] by blast
  with res show ?thesis by (auto simp: go_result_def picture_of_def entry_or_freshD[OF ent] d)
qed

lemma go_result_message:
  assumes ent: "entry_or_fresh entry c = (s, c1)" "compiler_ok c" "entry_ready entry c"
    and k: "go_result sc None c1 t c2 k"
  shows "go_result sc entry c s (push_edge (edge s (Send p l) t Internal) c2) (LSend p l k)"
    and "go_result sc entry c s (push_edge (edge s (Recv p l) t Internal) c2) (LRecv p l k)"
  using go_result_cont[OF ent k grows_refl[OF go_result_ok[OF k]] memo_rep_same[OF refl] refl]
    entry_or_freshD(9)[OF ent]
  by (auto simp: go_result_def picture_of_def)

lemma go_correct:
  assumes box: "box_ok fuel r env"
  shows "go fuel sc t entry c = Some (Ok (s, c')) \<Longrightarrow> sc_role sc = r \<Longrightarrow> sc_penv sc = env \<Longrightarrow>
      compiler_ok c \<Longrightarrow> entry_ready entry c \<Longrightarrow> lheads m t \<Longrightarrow> mode_ok m entry (sc_rec_env sc) \<Longrightarrow>
      go_result sc entry c s c' t"
    and "go_branches fuel sc s act bs c = Some (Ok (u, c')) \<Longrightarrow> sc_role sc = r \<Longrightarrow> sc_penv sc = env \<Longrightarrow>
      compiler_ok c \<Longrightarrow> s < c_n c \<Longrightarrow> lheads_branches bs \<Longrightarrow> branches_result sc s act c c' bs"
proof (induction t and bs arbitrary: sc entry c s c' m and sc s act u c c' rule: local_induct)
  case (LSend p l k)
  then show ?case
    by (auto split: prod.splits simp: entry_ready_def mode_ok_def entry_or_freshD
        intro!: go_result_message)
next
  case (LRecv p l k)
  then show ?case
    by (auto split: prod.splits simp: entry_ready_def mode_ok_def entry_or_freshD
        intro!: go_result_message)
next
  case (LCall cl su k)
  then obtain c1 ret c2 cr v be c3 where e: "entry_or_fresh entry c = (s, c1)"
    and k: "go fuel sc k None c1 = Some (Ok (ret, c2))"
    and f: "find (\<lambda>kv. snd kv = sc_role sc) su = Some (cr, v)"
    and b: "compile_callee_box fuel sc (ref_name cl) cr c2 = Some (Ok (be, c3))"
    and d: "c' = push_edge (edge s (Send (sc_role sc) (call_label (ref_name cl))) be (Call ret)) c3"
    by (auto split: prod.splits option.splits simp del: compile_callee_box.simps)
  note ent = e LCall.prems(4,5)
  have k2: "go_result sc None c1 ret c2 k"
    using LCall.IH[OF k] LCall.prems entry_or_freshD[OF ent] by (simp add: entry_ready_def mode_ok_def)
  have b3: "grows {} c2 c3" "memo_rep (sc_role sc) (sc_penv sc) c2 c3"
      "map_of (c_box_memo c3) (ref_name cl, cr) = Some be"
    using box[unfolded box_ok_def] b go_result_ok[OF k2] LCall.prems(2,3) by blast+
  from go_result_cont[OF ent k2 b3(1,2) d] b3(3) f
  show ?case by (auto simp: go_result_def picture_of_def entry_or_freshD[OF ent] d)
next
  case (LVar x)
  then show ?case by (auto simp: go_result_def mode_ok_def grows_refl memo_rep_same split: option.splits)
next
  case LEnd
  then show ?case by (intro go_result_End)
next
  case (LRec x b)
  then obtain c1 got where e: "entry_or_fresh entry c = (s, c1)"
    and b: "go fuel (sc\<lparr>sc_rec_env := (sc_rec_env sc)(x \<mapsto> s)\<rparr>) b (Some s) c1 = Some (Ok (got, c'))"
    by (auto split: prod.splits)
  note ent = e LRec.prems(4,5)
  let ?m = "Some (insert x (case m of None \<Rightarrow> {} | Some X \<Rightarrow> X))"
  have "mode_ok ?m (Some s) ((sc_rec_env sc)(x \<mapsto> s))"
    using LRec.prems(7) entry_or_freshD(9)[OF ent] by (auto simp: mode_ok_def split: option.splits)
  then have "go_result (sc\<lparr>sc_rec_env := (sc_rec_env sc)(x \<mapsto> s)\<rparr>) (Some s) c1 got c' b"
    by (intro LRec.IH[OF b, of ?m])
      (use LRec.prems entry_or_freshD[OF ent] in \<open>auto simp: entry_ready_def fun_upd_def\<close>)
  then show ?case by (rule go_result_Rec[OF ent])
next
  case (LBox en b ex k)
  then obtain c1 ret c2 got c3 where e: "entry_or_fresh entry c = (s, c1)"
    and k: "go fuel sc k None c1 = Some (Ok (ret, c2))"
    and b: "go fuel (sc\<lparr>sc_box_exit_labels := ex # sc_box_exit_labels sc\<rparr>) b (Some (c_n c2))
      (c2\<lparr>c_n := c_n c2 + 1\<rparr>) = Some (Ok (got, c3))"
    and d: "c' = push_edge (edge s (Send (sc_role sc) en) (c_n c2) (Call ret)) c3"
    by (auto simp: fresh_def split: prod.splits)
  note ent = e LBox.prems(4,5)
  have k2: "go_result sc None c1 ret c2 k"
    using LBox.IH(2)[OF k] LBox.prems entry_or_freshD[OF ent] by (simp add: entry_ready_def mode_ok_def)
  have "go_result (sc\<lparr>sc_box_exit_labels := ex # sc_box_exit_labels sc\<rparr>) (Some (c_n c2))
      (c2\<lparr>c_n := c_n c2 + 1\<rparr>) got c3 b"
    using LBox.IH(1)[OF b, of "Some {}"] LBox.prems entry_ready_fresh[OF go_result_ok[OF k2]]
    by (simp add: mode_ok_def)
  then show ?case by (rule go_result_Box[OF ent k2 _ d])
next
  case (LSelect p bs)
  then show ?case
    by (auto split: prod.splits simp: entry_or_freshD intro!: go_result_branches)
next
  case (LBranch p bs)
  then show ?case
    by (auto split: prod.splits simp: entry_or_freshD intro!: go_result_branches)
next
  case Nil
  then show ?case by (auto simp: branches_result_def grows_refl memo_rep_same branch_edges_def)
next
  case (Cons l k bs)
  then obtain t c1 where k: "go fuel sc k None c = Some (Ok (t, c1))"
    and b: "go_branches fuel sc s act bs (push_edge (edge s (act l) t Internal) c1) = Some (Ok (u, c'))"
    by (auto split: prod.splits)
  have k1: "go_result sc None c t c1 k"
    using Cons.IH(1)[OF k] Cons.prems by (simp add: entry_ready_def mode_ok_def)
  have "c_n c \<le> c_n c1" using k1 by (simp add: go_result_def grows_def)
  then have "branches_result sc s act (push_edge (edge s (act l) t Internal) c1) c' bs"
    using Cons.IH(2)[OF b] Cons.prems compiler_ok_push_edge[OF go_result_ok[OF k1]] by simp
  then show ?case using branches_result_Cons[OF k1] Cons.prems(5) by blast
qed

definition callee_heads :: "protocol_env \<Rightarrow> bool" where
  "callee_heads env \<longleftrightarrow>
     (\<forall>n g cr t. map_of env n = Some g \<longrightarrow> project g cr = Ok t \<longrightarrow> lheads (Some {}) t)"

text \<open>A box that is compiled afresh, its entry memoised before its body.\<close>

lemma box_result:
  assumes sc: "sc_role sc = r" "sc_penv sc = env" and c: "compiler_ok c"
    and g: "map_of env n = Some g" "project g cr = Ok t"
    and new: "map_of (c_box_memo c) (n, cr) = None"
    and c1: "c1 = c\<lparr>c_n := c_n c + 1, c_box_memo := ((n, cr), c_n c) # c_box_memo c\<rparr>"
    and go: "go_result (sc\<lparr>sc_box_exit_labels := l # ls\<rparr>) (Some (c_n c)) c1 got c' t"
  shows "grows {} c c' \<and> memo_rep r env c c' \<and> map_of (c_box_memo c') (n, cr) = Some (c_n c)"
proof (intro conjI)
  have n1: "c_n c1 = Suc (c_n c)" and o1: "out c1 = out c" and t1: "c_terminals c1 = c_terminals c"
    by (simp_all add: c1 out_def fun_eq_iff)
  have g1: "grows {c_n c} c1 c'" and m1: "memo_rep r env c1 c'"
    and r1: "rep (picture_of r c') (region (Some (c_n c)) c1 c') (sc_rec_env sc) True (c_n c) t"
    using go sc by (auto simp: go_result_def)
  have "map_of (c_box_memo c) \<subseteq>\<^sub>m map_of (c_box_memo c1)"
    using new by (auto simp: c1 map_le_def dom_def)
  then have "grows {} c c1" using c n1 o1 t1 by (auto simp: grows_def compiler_ok_def c1)
  then show grow: "grows {} c c'" by (rule grows_trans[OF _ g1]) simp
  show memo: "map_of (c_box_memo c') (n, cr) = Some (c_n c)"
    using g1 by (auto simp: grows_def map_le_def dom_def c1)
  have sub: "region (Some (c_n c)) c1 c' \<subseteq> {c_n c..<c_n c'}" "{c_n c1..<c_n c'} \<subseteq> {c_n c..<c_n c'}"
    using g1 n1 by (auto simp: region_def grows_def)
  show "memo_rep r env c c'" unfolding memo_rep_def
  proof (intro allI impI)
    fix n' cr' be
    assume be: "map_of (c_box_memo c') (n', cr') = Some be" "map_of (c_box_memo c) (n', cr') = None"
    show "\<exists>g t \<rho>. map_of env n' = Some g \<and> project g cr' = Ok t \<and>
        rep (picture_of r c') {c_n c..<c_n c'} \<rho> True be t"
    proof (cases "(n', cr') = (n, cr)")
      case True
      then show ?thesis using g be(1) memo rep_mono(1)[OF r1 extends_refl sub(1)] by auto
    next
      case False
      then have "map_of (c_box_memo c1) (n', cr') = None" using be(2) by (auto simp: c1)
      then show ?thesis
        using m1[unfolded memo_rep_def] be(1) rep_mono(1)[OF _ extends_refl sub(2)] by blast
    qed
  qed
qed

lemma callee_box_hit:
  "map_of (c_box_memo c) (n, cr) = Some e \<Longrightarrow> compile_callee_box fuel sc n cr c = Some (Ok (e, c))"
  by simp

lemma callee_box_missE:
  assumes "compile_callee_box fuel sc n cr c = Some (Ok (be, c'))" "map_of (c_box_memo c) (n, cr) = None"
  obtains fuel' g t got where "fuel = Suc fuel'" "map_of (sc_penv sc) n = Some g" "project g cr = Ok t"
    "go fuel' (sc\<lparr>sc_box_exit_labels := ret_label n # sc_box_exit_labels sc\<rparr>) t (Some (c_n c))
       (c\<lparr>c_n := c_n c + 1, c_box_memo := ((n, cr), c_n c) # c_box_memo c\<rparr>) = Some (Ok (got, c'))"
    "be = c_n c"
proof -
  obtain g where g: "map_of (sc_penv sc) n = Some g"
    using assms by (cases "map_of (sc_penv sc) n") (simp_all add: env_resolve_def)
  obtain t where t: "project g cr = Ok t"
    using assms g by (cases "project g cr") (simp_all add: env_resolve_def)
  obtain fuel' where f: "fuel = Suc fuel'"
    using assms g t by (cases fuel) (simp_all add: env_resolve_def)
  let ?sc = "sc\<lparr>sc_box_exit_labels := ret_label n # sc_box_exit_labels sc\<rparr>"
    and ?c = "c\<lparr>c_n := c_n c + 1, c_box_memo := ((n, cr), c_n c) # c_box_memo c\<rparr>"
  have "and_then_opt (go fuel' ?sc t (Some (c_n c)) ?c) (\<lambda>(got, d). Some (Ok (c_n c, d))) =
      Some (Ok (be, c') :: (projection_error, _) outcome)"
    using assms g t f by (simp add: env_resolve_def fresh_def Let_def del: and_then_opt_eq_Ok)
  then obtain x where x: "go fuel' ?sc t (Some (c_n c)) ?c = Some (Ok x)"
    and y: "(case x of (got, d) \<Rightarrow> Some (Ok (c_n c, d))) = Some (Ok (be, c') :: (projection_error, _) outcome)"
    unfolding and_then_opt_eq_Ok by (elim exE conjE)
  obtain got where "x = (got, c')" "be = c_n c" using y by (cases x) simp
  with x show thesis by (intro that[OF f g t, of got]) simp_all
qed

declare compile_callee_box.simps [simp del]

lemma box_ok: "callee_heads env \<Longrightarrow> box_ok fuel r env"
proof (induction fuel)
  case 0
  show ?case unfolding box_ok_def
  proof (intro allI impI)
    fix sc n cr c be c'
    assume c: "compiler_ok c" and run: "compile_callee_box 0 sc n cr c = Some (Ok (be, c'))"
    have "map_of (c_box_memo c) (n, cr) \<noteq> None"
    proof
      assume "map_of (c_box_memo c) (n, cr) = None"
      from run this show False by (rule callee_box_missE) simp
    qed
    then obtain e where "map_of (c_box_memo c) (n, cr) = Some e" by blast
    with run c show "grows {} c c' \<and> memo_rep r env c c' \<and> map_of (c_box_memo c') (n, cr) = Some be"
      by (auto simp: grows_refl memo_rep_same callee_box_hit)
  qed
next
  case (Suc fuel)
  note IH = Suc.IH[OF Suc.prems]
  show ?case unfolding box_ok_def
  proof (intro allI impI)
    fix sc n cr c be c'
    assume sc: "sc_role sc = r" "sc_penv sc = env" and c: "compiler_ok c"
      and run: "compile_callee_box (Suc fuel) sc n cr c = Some (Ok (be, c'))"
    show "grows {} c c' \<and> memo_rep r env c c' \<and> map_of (c_box_memo c') (n, cr) = Some be"
    proof (cases "map_of (c_box_memo c) (n, cr)")
      case (Some e)
      with run c show ?thesis by (auto simp: grows_refl memo_rep_same callee_box_hit)
    next
      case None
      let ?c1 = "c\<lparr>c_n := c_n c + 1, c_box_memo := ((n, cr), c_n c) # c_box_memo c\<rparr>"
        and ?sc = "sc\<lparr>sc_box_exit_labels := ret_label n # sc_box_exit_labels sc\<rparr>"
      from run None obtain fuel' g t got where "Suc fuel = Suc fuel'"
        and g: "map_of (sc_penv sc) n = Some g" "project g cr = Ok t"
        and go: "go fuel' ?sc t (Some (c_n c)) ?c1 = Some (Ok (got, c'))" and be: "be = c_n c"
        by (rule callee_box_missE)
      then have fuel: "fuel' = fuel" by simp
      note g = g[unfolded sc] and go = go[unfolded fuel]
      have "compiler_ok ?c1" "entry_ready (Some (c_n c)) ?c1"
        using out_fresh_state[OF c, of "c_n c"] c
        by (auto simp: compiler_ok_def entry_ready_def out_def less_Suc_eq)
      then have "go_result ?sc (Some (c_n c)) ?c1 got c' t"
        using go_correct(1)[OF IH go, of "Some {}"] sc Suc.prems g
        by (auto simp: mode_ok_def callee_heads_def)
      from box_result[OF sc c g None refl this] be show ?thesis by simp
    qed
  qed
qed

text \<open>
  A compiled machine represents its local type, and the boxes its calls enter represent the
  projections of the callees.
\<close>

definition machine_picture :: "local_machine \<Rightarrow> (string \<times> role \<Rightarrow> nat option) \<Rightarrow> picture" where
  "machine_picture m memo =
     \<lparr>p_out = edges_from m, p_terminals = m_terminals m, p_memo = memo, p_role = m_role m\<rparr>"

definition machine_rep :: "protocol_env \<Rightarrow> local_machine \<Rightarrow> local_type \<Rightarrow> bool" where
  "machine_rep env m t \<longleftrightarrow> (\<exists>memo. rep (machine_picture m memo) UNIV Map.empty False (m_initial m) t \<and>
     (\<forall>n cr be. memo (n, cr) = Some be \<longrightarrow> (\<exists>g u \<rho>. map_of env n = Some g \<and> project g cr = Ok u \<and>
       rep (machine_picture m memo) UNIV \<rho> True be u)))"

lemma compile_in_correct:
  assumes "compile_in r t env = Some (Ok m)" "callee_heads env" "lheads None t"
  shows "machine_rep env m t" "m_role m = r"
proof -
  let ?sc = "\<lparr>sc_role = r, sc_penv = env, sc_rec_env = Map.empty, sc_box_exit_labels = []\<rparr>"
  obtain s c where go: "go (compile_fuel t env) ?sc t None empty_compiler = Some (Ok (s, c))"
    and m: "m = \<lparr>m_role = r, m_n_states = c_n c, m_initial = s, m_edges = c_edges c,
          m_terminals = c_terminals c\<rparr>"
    using assms(1) by (auto simp: compile_in_def)
  have "compiler_ok empty_compiler" by (simp add: compiler_ok_def empty_compiler_def)
  then have res: "go_result ?sc None empty_compiler s c t"
    using go_correct(1)[OF box_ok[OF assms(2)] go _ _ _ _ assms(3)]
    by (simp add: entry_ready_def mode_ok_def)
  have pic: "machine_picture m (map_of (c_box_memo c)) = picture_of r c"
    by (simp add: machine_picture_def picture_of_def m edges_from_def out_def fun_eq_iff)
  have "rep (picture_of r c) UNIV Map.empty False s t"
    using res by (auto simp: go_result_def intro: rep_mono(1)[OF _ extends_refl])
  moreover have "\<exists>g u \<rho>. map_of env n = Some g \<and> project g cr = Ok u \<and> rep (picture_of r c) UNIV \<rho> True be u"
    if "map_of (c_box_memo c) (n, cr) = Some be" for n cr be
    using that res rep_mono(1)[OF _ extends_refl subset_UNIV]
    by (simp add: go_result_def memo_rep_def empty_compiler_def) blast
  ultimately show "machine_rep env m t" unfolding machine_rep_def
    by (intro exI[of _ "map_of (c_box_memo c)"]) (simp add: pic, simp add: m)
  show "m_role m = r" by (simp add: m)
qed

section \<open>The fuel is enough\<close>

lemma entry_or_fresh_memo: "entry_or_fresh entry c = (s, c1) \<Longrightarrow> c_box_memo c1 = c_box_memo c"
  by (auto simp: entry_or_fresh_def fresh_def split: option.splits)

definition memo_keys :: "compiler \<Rightarrow> (string \<times> role) set" where
  "memo_keys c = fst ` set (c_box_memo c)"

lemma memo_keys_simps [simp]:
  "memo_keys (push_edge e c) = memo_keys c" "memo_keys (c\<lparr>c_n := k\<rparr>) = memo_keys c"
  "memo_keys (c\<lparr>c_terminals := T\<rparr>) = memo_keys c"
  by (simp_all add: memo_keys_def)

lemma memo_keys_entry: "entry_or_fresh entry c = (s, c1) \<Longrightarrow> memo_keys c1 = memo_keys c"
  by (simp add: memo_keys_def entry_or_fresh_memo)

definition box_keeps :: "nat \<Rightarrow> bool" where
  "box_keeps fuel \<longleftrightarrow> (\<forall>sc n cr c be c'. compile_callee_box fuel sc n cr c = Some (Ok (be, c')) \<longrightarrow>
     memo_keys c \<subseteq> memo_keys c')"

lemma go_keeps:
  assumes "box_keeps fuel"
  shows "go fuel sc t entry c = Some (Ok (s, c')) \<Longrightarrow> memo_keys c \<subseteq> memo_keys c'"
    and "go_branches fuel sc q act bs c = Some (Ok (u, c')) \<Longrightarrow> memo_keys c \<subseteq> memo_keys c'"
proof (induction t and bs arbitrary: sc entry c s c' and sc q act c c' u rule: local_induct)
  case (LCall cl su k)
  then obtain c1 ret c2 cr v be c3 where e: "entry_or_fresh entry c = (s, c1)"
    and k: "go fuel sc k None c1 = Some (Ok (ret, c2))"
    and b: "compile_callee_box fuel sc (ref_name cl) cr c2 = Some (Ok (be, c3))"
    and d: "c' = push_edge (edge s (Send (sc_role sc) (call_label (ref_name cl))) be (Call ret)) c3"
    by (auto split: prod.splits option.splits)
  have "memo_keys c2 \<subseteq> memo_keys c3" using b assms unfolding box_keeps_def by blast
  with LCall.IH[OF k] have "memo_keys c1 \<subseteq> memo_keys c3" by (rule order_trans)
  then show ?case by (simp add: d memo_keys_entry[OF e])
next
  case (LBox en b ex k)
  then obtain c1 ret c2 got c3 where e: "entry_or_fresh entry c = (s, c1)"
    and k: "go fuel sc k None c1 = Some (Ok (ret, c2))"
    and b: "go fuel (sc\<lparr>sc_box_exit_labels := ex # sc_box_exit_labels sc\<rparr>) b (Some (c_n c2))
      (c2\<lparr>c_n := c_n c2 + 1\<rparr>) = Some (Ok (got, c3))"
    and d: "c' = push_edge (edge s (Send (sc_role sc) en) (c_n c2) (Call ret)) c3"
    by (auto simp: fresh_def split: prod.splits)
  have "memo_keys c2 \<subseteq> memo_keys c3" using LBox.IH(1)[OF b] by simp
  with LBox.IH(2)[OF k] have "memo_keys c1 \<subseteq> memo_keys c3" by (rule order_trans)
  then show ?case by (simp add: d memo_keys_entry[OF e])
next
  case LEnd
  then show ?case by (auto split: prod.splits list.splits dest!: memo_keys_entry)
next
  case (Cons l k bs)
  then obtain t c1 where k: "go fuel sc k None c = Some (Ok (t, c1))"
    and b: "go_branches fuel sc q act bs (push_edge (edge q (act l) t Internal) c1) = Some (Ok (u, c'))"
    by (auto split: prod.splits)
  have "memo_keys c1 \<subseteq> memo_keys c'" using Cons.IH(2)[OF b] by simp
  with Cons.IH(1)[OF k] show ?case by (rule order_trans)
qed (auto del: subsetI split: prod.splits option.splits dest!: memo_keys_entry; metis)+

lemma box_keeps: "box_keeps fuel"
proof (induction fuel)
  case 0
  show ?case unfolding box_keeps_def
  proof (intro allI impI)
    fix sc n cr c be c'
    assume run: "compile_callee_box 0 sc n cr c = Some (Ok (be, c'))"
    show "memo_keys c \<subseteq> memo_keys c'"
    proof (cases "map_of (c_box_memo c) (n, cr)")
      case None
      from run None show ?thesis by (rule callee_box_missE) simp
    qed (use run in \<open>simp add: callee_box_hit\<close>)
  qed
next
  case (Suc fuel)
  show ?case unfolding box_keeps_def
  proof (intro allI impI)
    fix sc n cr c be c'
    assume run: "compile_callee_box (Suc fuel) sc n cr c = Some (Ok (be, c'))"
    show "memo_keys c \<subseteq> memo_keys c'"
    proof (cases "map_of (c_box_memo c) (n, cr)")
      case None
      from run None obtain fuel' g t got where f: "Suc fuel = Suc fuel'"
        and go: "go fuel' (sc\<lparr>sc_box_exit_labels := ret_label n # sc_box_exit_labels sc\<rparr>) t (Some (c_n c))
          (c\<lparr>c_n := c_n c + 1, c_box_memo := ((n, cr), c_n c) # c_box_memo c\<rparr>) = Some (Ok (got, c'))"
        by (rule callee_box_missE)
      have "box_keeps fuel'" using f Suc.IH by simp
      from go_keeps(1)[OF this go] show ?thesis by (simp add: memo_keys_def)
    qed (use run in \<open>simp add: callee_box_hit\<close>)
  qed
qed

text \<open>
  Every box the compiler opens has a new key, and the keys come from a finite set, so the number
  of keys bounds the nesting of callee boxes.
\<close>

definition box_returns :: "nat \<Rightarrow> protocol_env \<Rightarrow> role set \<Rightarrow> bool" where
  "box_returns fuel env ks \<longleftrightarrow> (\<forall>sc n cr c. sc_penv sc = env \<longrightarrow> cr \<in> ks \<longrightarrow>
     card (fst ` set env \<times> ks - memo_keys c) \<le> fuel \<longrightarrow> compile_callee_box fuel sc n cr c \<noteq> None)"

lemma unvisited_mono:
  "finite ks \<Longrightarrow> memo_keys c \<subseteq> memo_keys c' \<Longrightarrow> card (fst ` set env \<times> ks - memo_keys c) \<le> n \<Longrightarrow>
    card (fst ` set env \<times> ks - memo_keys c') \<le> n"
  by (rule order_trans[OF card_mono]) auto

lemma go_returns:
  assumes box: "box_returns fuel env ks" and ks: "finite ks"
  shows "sc_penv sc = env \<Longrightarrow> set (lsubst_keys t) \<subseteq> ks \<Longrightarrow>
      card (fst ` set env \<times> ks - memo_keys c) \<le> fuel \<Longrightarrow> go fuel sc t entry c \<noteq> None"
    and "sc_penv sc = env \<Longrightarrow> set (lsubst_keys_branches bs) \<subseteq> ks \<Longrightarrow>
      card (fst ` set env \<times> ks - memo_keys c) \<le> fuel \<Longrightarrow> go_branches fuel sc q act bs c \<noteq> None"
proof (induction t and bs arbitrary: sc entry c and sc q act c rule: local_induct)
  case (LCall cl su k)
  obtain s c1 where e: "entry_or_fresh entry c = (s, c1)" by fastforce
  note m1 = memo_keys_entry[OF e]
  have "compile_callee_box fuel sc (ref_name cl) cr c2 \<noteq> None"
    if "go fuel sc k None c1 = Some (Ok (ret, c2))" "find (\<lambda>kv. snd kv = sc_role sc) su = Some (cr, v)"
    for ret c2 cr v
  proof -
    have "fst (cr, v) \<in> set (map fst su)" using find_SomeD[OF that(2)] by (metis image_eqI set_map)
    with LCall.prems(2) have "cr \<in> ks" by auto
    moreover have "card (fst ` set env \<times> ks - memo_keys c2) \<le> fuel"
      using go_keeps(1)[OF box_keeps that(1)] m1 by (intro unvisited_mono[OF ks _ LCall.prems(3)]) simp
    ultimately show ?thesis using box LCall.prems(1) by (auto simp: box_returns_def)
  qed
  with LCall e m1 show ?case by (auto split: prod.splits option.splits simp del: not_None_eq)
next
  case (LBox en b ex k)
  obtain s c1 where e: "entry_or_fresh entry c = (s, c1)" by fastforce
  note m1 = memo_keys_entry[OF e]
  have "go fuel (sc\<lparr>sc_box_exit_labels := ex # sc_box_exit_labels sc\<rparr>) b (Some (c_n c2))
      (c2\<lparr>c_n := Suc (c_n c2)\<rparr>) \<noteq> None" if "go fuel sc k None c1 = Some (Ok (ret, c2))" for ret c2
  proof (rule LBox.IH(1))
    show "card (fst ` set env \<times> ks - memo_keys (c2\<lparr>c_n := Suc (c_n c2)\<rparr>)) \<le> fuel"
      using go_keeps(1)[OF box_keeps that] m1 by (intro unvisited_mono[OF ks _ LBox.prems(3)]) simp
  qed (use LBox.prems in auto)
  with LBox e m1 show ?case by (auto simp: fresh_def split: prod.splits simp del: not_None_eq)
next
  case (Cons l k bs)
  have "go_branches fuel sc q act bs (push_edge e c1) \<noteq> None"
    if "go fuel sc k None c = Some (Ok (t, c1))" for e t c1
  proof (rule Cons.IH(2))
    show "card (fst ` set env \<times> ks - memo_keys (push_edge e c1)) \<le> fuel"
      using go_keeps(1)[OF box_keeps that] by (intro unvisited_mono[OF ks _ Cons.prems(3)]) simp
  qed (use Cons.prems in auto)
  with Cons show ?case by (auto simp del: not_None_eq)
next
  case (LSend p l k)
  then show ?case by (simp del: not_None_eq split: prod.split) (auto dest!: memo_keys_entry)
next
  case (LRecv p l k)
  then show ?case by (simp del: not_None_eq split: prod.split) (auto dest!: memo_keys_entry)
next
  case (LSelect p bs)
  then show ?case by (simp del: not_None_eq split: prod.split) (auto dest!: memo_keys_entry)
next
  case (LBranch p bs)
  then show ?case by (simp del: not_None_eq split: prod.split) (auto dest!: memo_keys_entry)
next
  case (LRec x b)
  then show ?case by (simp del: not_None_eq split: prod.split) (auto dest!: memo_keys_entry)
qed (auto split: prod.splits option.splits list.splits)


definition keys_of :: "local_branch set \<Rightarrow> role set" where
  "keys_of B = (\<Union>b \<in> B. set (lsubst_keys (snd b)))"

lemma lsubst_keys_branches_set: "set (lsubst_keys_branches bs) = keys_of (set bs)"
  by (induction bs) (auto simp: keys_of_def)

lemma keys_of_insert: "keys_of (insert (l, c) B) = set (lsubst_keys c) \<union> keys_of B"
  by (simp add: keys_of_def)

lemma keys_of_mono: "A \<subseteq> B \<Longrightarrow> keys_of A \<subseteq> keys_of B"
  by (auto simp: keys_of_def)

lemma keys_of_member: "(l, c) \<in> B \<Longrightarrow> set (lsubst_keys c) \<subseteq> keys_of B"
  by (force simp: keys_of_def)

lemma as_offer_keys: "as_offer t = Some (f, bs) \<Longrightarrow> set (lsubst_keys t) = set (lsubst_keys_branches bs)"
  by (cases t) auto

lemma bt_insert_values: "snd ` set (bt_insert k v m) \<subseteq> insert v (snd ` set m)"
  by (induction k v m rule: bt_insert.induct) auto

lemma bt_replace_values: "snd ` set (bt_insert k v (bt_remove k m)) \<subseteq> insert v (snd ` set m)"
proof -
  have "snd ` set (bt_remove k m) \<subseteq> snd ` set m" by (auto simp: bt_remove_def)
  with bt_insert_values[of k v "bt_remove k m"] show ?thesis by blast
qed

lemma offer_map_values: "snd ` set (offer_map bs) \<subseteq> set bs"
proof -
  have "snd ` set (fold (\<lambda>b. bt_insert (lbl_name (fst b)) b) bs m) \<subseteq> set bs \<union> snd ` set m" for m
  proof (induction bs arbitrary: m)
    case (Cons b bs)
    from Cons[of "bt_insert (lbl_name (fst b)) b m"] bt_insert_values[of "lbl_name (fst b)" b m]
    show ?case by (simp only: fold_simps list.simps) blast
  qed simp
  from this[of "[]"] show ?thesis by (simp add: offer_map_def)
qed

lemma merges_keys:
  "merges a b c \<Longrightarrow> set (lsubst_keys c) \<subseteq> set (lsubst_keys a) \<union> set (lsubst_keys b)"
  "merges_into m bs m' \<Longrightarrow> keys_of (snd ` set m') \<subseteq> keys_of (snd ` set m) \<union> keys_of (set bs)"
proof (induction rule: merges_merges_into.inducts)
  case (offer a f ba b bb m)
  from keys_of_mono[OF offer_map_values[of ba]] offer show ?case
    by (auto simp: as_offer_keys lsubst_keys_branches_set)
next
  case (into_shared m l l' c' c d bb m')
  have "(l', c') \<in> snd ` set m" using map_of_SomeD[OF into_shared.hyps(1)] by force
  from keys_of_member[OF this] keys_of_mono[OF bt_replace_values[of "lbl_name l" "(l', d)" m]]
    into_shared.IH
  show ?case by (simp add: keys_of_insert) blast
next
  case (into_fresh m l c bb m')
  from keys_of_mono[OF bt_replace_values[of "lbl_name l" "(l, c)" m]] into_fresh.IH
  show ?case by (simp add: keys_of_insert) blast
qed auto

lemma project_keys:
  "project g r = Ok t \<Longrightarrow> set (lsubst_keys t) \<subseteq> set (gsubst_keys g)"
  "project_branches bs r = Ok ps \<Longrightarrow> set (lsubst_keys_branches ps) \<subseteq> set (gsubst_keys_branches bs)"
  "project_merge acc bs r = Ok t \<Longrightarrow>
    set (lsubst_keys t) \<subseteq> set (lsubst_keys acc) \<union> set (gsubst_keys_branches bs)"
proof (induction g r and bs r and acc bs r arbitrary: t and ps and t
    rule: project_project_branches_project_merge.induct)
  case (2 f to bs r)
  then show ?case by (cases bs) (auto split: if_splits, blast+)
next
  case (11 acc l c bs r)
  then obtain p acc' where p: "project c r = Ok p" and m: "merge acc p = Ok acc'"
    and rest: "project_merge acc' bs r = Ok t" by auto
  from 11(1)[OF p] 11(2)[OF p m rest] merges_keys(1)[OF m[unfolded merge_Ok_iff]]
  show ?case by auto
qed (auto split: if_splits, blast+)

lemma box_returns:
  assumes ks: "finite ks" and env: "\<forall>e \<in> set env. set (gsubst_keys (snd e)) \<subseteq> ks"
  shows "box_returns fuel env ks"
proof (induction fuel)
  case 0
  show ?case unfolding box_returns_def
  proof (intro allI impI)
    fix sc :: scope and n cr c
    assume sc: "sc_penv sc = env" and cr: "cr \<in> ks"
      and le: "card (fst ` set env \<times> ks - memo_keys c) \<le> 0"
    then have sub: "fst ` set env \<times> ks \<subseteq> memo_keys c" using ks by simp
    show "compile_callee_box 0 sc n cr c \<noteq> None"
    proof (cases "map_of env n")
      case None
      then show ?thesis using sc
        by (simp add: compile_callee_box.simps env_resolve_def split: option.split)
    next
      case (Some g)
      then have "(n, cr) \<in> memo_keys c" using map_of_SomeD[OF Some] cr sub by force
      then obtain e where "map_of (c_box_memo c) (n, cr) = Some e"
        by (metis memo_keys_def map_of_eq_None_iff not_None_eq)
      then show ?thesis by (simp add: callee_box_hit)
    qed
  qed
next
  case (Suc fuel)
  show ?case unfolding box_returns_def
  proof (intro allI impI)
    fix sc :: scope and n cr c
    assume sc: "sc_penv sc = env" and cr: "cr \<in> ks"
      and le: "card (fst ` set env \<times> ks - memo_keys c) \<le> Suc fuel"
    let ?sc = "sc\<lparr>sc_box_exit_labels := ret_label n # sc_box_exit_labels sc\<rparr>"
      and ?c = "c\<lparr>c_n := Suc (c_n c), c_box_memo := ((n, cr), c_n c) # c_box_memo c\<rparr>"
    have "go fuel ?sc t (Some (c_n c)) ?c \<noteq> None"
      if g: "map_of env n = Some g" and t: "project g cr = Ok t" and new: "map_of (c_box_memo c) (n, cr) = None"
      for g t
    proof (rule go_returns(1)[OF Suc.IH ks])
      have key: "(n, cr) \<in> fst ` set env \<times> ks - memo_keys c"
        using map_of_SomeD[OF g] cr new by (force simp: memo_keys_def map_of_eq_None_iff)
      have "memo_keys ?c = insert (n, cr) (memo_keys c)" by (simp add: memo_keys_def)
      then have "fst ` set env \<times> ks - memo_keys ?c \<subset> fst ` set env \<times> ks - memo_keys c"
        using key by auto
      then have "card (fst ` set env \<times> ks - memo_keys ?c) < card (fst ` set env \<times> ks - memo_keys c)"
        using ks by (intro psubset_card_mono) auto
      then show "card (fst ` set env \<times> ks - memo_keys ?c) \<le> fuel" using le by simp
      show "set (lsubst_keys t) \<subseteq> ks" using project_keys(1)[OF t] map_of_SomeD[OF g] env by fastforce
    qed (simp add: sc)
    then show "compile_callee_box (Suc fuel) sc n cr c \<noteq> None" using sc
      by (auto simp: compile_callee_box.simps env_resolve_def fresh_def Let_def simp del: not_None_eq
          split: option.split outcome.split)
  qed
qed

lemma compile_in_terminates: "compile_in r t env \<noteq> None"
proof -
  let ?L = "lsubst_keys t @ concat (map (\<lambda>e. gsubst_keys (snd e)) env)"
  have "card (fst ` set env \<times> set ?L - memo_keys empty_compiler) \<le> card (fst ` set env) * card (set ?L)"
    by (metis card_cartesian_product card_mono finite_SigmaI finite_imageI Diff_subset List.finite_set)
  also have "\<dots> \<le> compile_fuel t env"
    unfolding compile_fuel_def
    by (metis mult_le_mono card_length length_map set_map)
  finally have "go (compile_fuel t env)
      \<lparr>sc_role = r, sc_penv = env, sc_rec_env = Map.empty, sc_box_exit_labels = []\<rparr> t None
      empty_compiler \<noteq> None"
    by (intro go_returns(1)[OF box_returns, where ks = "set ?L"]) auto
  then show ?thesis by (auto simp: compile_in_def simp del: not_None_eq)
qed

end
