(* ===== verification/Csm_Conformance.thy ===== *)
theory Csm_Conformance
  imports Csm_Compile
begin

text \<open>
  The transition relation \<open>check_step\<close> (\<open>src/csm/transition.rs\<close>) and the pushdown replay
  (\<open>src/csm/conformance.rs\<close>): \<open>epsilon_close\<close>, \<open>advance_role\<close>, \<open>replay_to_configs\<close>,
  \<open>replay_to_states\<close> and \<open>check_conformance\<close>.

  The loop of \<open>epsilon_close\<close> need not end, so it is a partial function whose value is \<open>None\<close> when
  it does not return; everything above it has an \<open>outcome option\<close>. A stack (\<open>Vec\<close>) is a list with
  its top first. The lemmas relate the replay to the weak runs of each single machine: a trace
  replays exactly when every role accepts its own share of it.
\<close>

section \<open>One step\<close>

datatype step_error = NoEdge nat | RecvNotHead string string

text \<open>The loop over the edges of a state; \<open>recv_head\<close> is the field of \<open>StepContext\<close>.\<close>

fun check_edges ::
  "local_edge list \<Rightarrow> nat \<Rightarrow> action \<Rightarrow> label option \<Rightarrow> (step_error, nat) outcome" where
  "check_edges [] state action recv_head = Err (NoEdge state)"
| "check_edges (e # es) state action recv_head =
     (if e_kind e \<noteq> Internal then check_edges es state action recv_head
      else if e_action e = action then
        (case (action, recv_head) of
           (Recv _ l, Some head) \<Rightarrow>
             if lbl_name head \<noteq> lbl_name l
             then Err (RecvNotHead (lbl_name l) (lbl_name head)) else Ok (e_to e)
         | _ \<Rightarrow> Ok (e_to e))
      else check_edges es state action recv_head)"

definition check_step ::
  "local_machine \<Rightarrow> nat \<Rightarrow> action \<Rightarrow> label option \<Rightarrow> (step_error, nat) outcome" where
  "check_step m state action recv_head = check_edges (edges_from m state) state action recv_head"

section \<open>Replay\<close>

record event =
  ev_from :: role
  ev_to :: role
  ev_label :: label

definition event :: "role \<Rightarrow> role \<Rightarrow> label \<Rightarrow> event" where
  "event f t l = \<lparr>ev_from = f, ev_to = t, ev_label = l\<rparr>"

datatype conformance_error =
    UnknownRole string nat
  | StepFailed nat string step_error
  | Incomplete string nat
  | Unbalanced string nat
  | DepthExceeded string nat

record role_config =
  rc_state :: nat
  rc_stack :: "nat list"

datatype replay_err = RStep step_error | RUnbalanced | RDepthExceeded

fun map_replay_err :: "replay_err \<Rightarrow> role \<Rightarrow> nat \<Rightarrow> conformance_error" where
  "map_replay_err (RStep err) r ord = StepFailed ord (role_str r) err"
| "map_replay_err RUnbalanced r ord = Unbalanced (role_str r) 0"
| "map_replay_err RDepthExceeded r ord = DepthExceeded (role_str r) ord"

definition boundary :: "local_machine \<Rightarrow> nat \<Rightarrow> local_edge option" where
  "boundary m state = find (\<lambda>e. e_kind e \<noteq> Internal) (edges_from m state)"

partial_function (option) epsilon_close ::
  "local_machine \<Rightarrow> nat \<Rightarrow> nat list \<Rightarrow> (replay_err, role_config) outcome option" where
  "epsilon_close m state stack =
     (case boundary m state of
        None \<Rightarrow> Some (Ok \<lparr>rc_state = state, rc_stack = stack\<rparr>)
      | Some e \<Rightarrow>
          (case e_kind e of
             Call return_state \<Rightarrow>
               if length stack \<ge> MAX_STACK_DEPTH then Some (Err RDepthExceeded)
               else epsilon_close m (e_to e) (return_state # stack)
           | Return \<Rightarrow>
               (case stack of [] \<Rightarrow> Some (Err RUnbalanced) | r # rest \<Rightarrow> epsilon_close m r rest)
           | Internal \<Rightarrow> Some (Ok \<lparr>rc_state = state, rc_stack = stack\<rparr>)))"

fun map_err :: "('e \<Rightarrow> 'f) \<Rightarrow> ('e, 'a) outcome \<Rightarrow> ('f, 'a) outcome" where
  "map_err f (Ok x) = Ok x"
| "map_err f (Err e) = Err (f e)"
| "map_err f (Panic s) = Panic s"

definition advance_role ::
  "local_machine \<Rightarrow> role_config \<Rightarrow> action \<Rightarrow> label option
    \<Rightarrow> (replay_err, role_config) outcome option" where
  "advance_role m cfg action recv_head =
     and_then_opt (epsilon_close m (rc_state cfg) (rc_stack cfg)) (\<lambda>c.
       and_then_opt (Some (map_err RStep (check_step m (rc_state c) action recv_head))) (\<lambda>ns.
         epsilon_close m ns (rc_stack c)))"

type_synonym configs = "(role \<times> role_config) list"

text \<open>Assignment through \<open>configs.get_mut(role)\<close>.\<close>

definition set_config :: "role \<Rightarrow> role_config \<Rightarrow> configs \<Rightarrow> configs" where
  "set_config r c cfgs = map (\<lambda>e. if fst e = r then (r, c) else e) cfgs"

fun init_configs ::
  "(role \<times> local_machine) list \<Rightarrow> (conformance_error, configs) outcome option" where
  "init_configs [] = Some (Ok [])"
| "init_configs ((r, m) # ms) =
     and_then_opt (map_option (map_err (\<lambda>e. map_replay_err e r 0)) (epsilon_close m (m_initial m) []))
       (\<lambda>c. and_then_opt (init_configs ms) (\<lambda>cs. Some (Ok ((r, c) # cs))))"

definition step_role ::
  "network \<Rightarrow> nat \<Rightarrow> role \<Rightarrow> action \<Rightarrow> label option \<Rightarrow> configs
    \<Rightarrow> (conformance_error, configs) outcome option" where
  "step_role net ord r action recv_head cfgs =
     (case nw_machine net r of
        None \<Rightarrow> Some (Err (UnknownRole (role_str r) ord))
      | Some m \<Rightarrow>
          (case map_of cfgs r of
             None \<Rightarrow> Some (Panic (case action of Send _ _ \<Rightarrow> ''sender tracked at init''
               | Recv _ _ \<Rightarrow> ''receiver tracked at init''))
           | Some cfg \<Rightarrow>
               and_then_opt
                 (map_option (map_err (\<lambda>e. map_replay_err e r ord))
                   (advance_role m cfg action recv_head))
                 (\<lambda>cfg'. Some (Ok (set_config r cfg' cfgs)))))"

fun replay_events ::
  "network \<Rightarrow> nat \<Rightarrow> event list \<Rightarrow> configs \<Rightarrow> (conformance_error, configs) outcome option" where
  "replay_events net ord [] cfgs = Some (Ok cfgs)"
| "replay_events net ord (ev # evs) cfgs =
     and_then_opt (step_role net ord (ev_from ev) (Send (ev_to ev) (ev_label ev)) None cfgs) (\<lambda>cfgs.
       and_then_opt
         (step_role net ord (ev_to ev) (Recv (ev_from ev) (ev_label ev)) (Some (ev_label ev)) cfgs)
         (\<lambda>cfgs. replay_events net (ord + 1) evs cfgs))"

definition replay_to_configs ::
  "network \<Rightarrow> event list \<Rightarrow> (conformance_error, configs) outcome option" where
  "replay_to_configs net trace =
     and_then_opt (init_configs (nw_machines net)) (\<lambda>cfgs. replay_events net 0 trace cfgs)"

definition replay_to_states ::
  "network \<Rightarrow> event list \<Rightarrow> (conformance_error, (role \<times> nat) list) outcome option" where
  "replay_to_states net trace =
     and_then_opt (replay_to_configs net trace)
       (\<lambda>cfgs. Some (Ok (map (\<lambda>e. (fst e, rc_state (snd e))) cfgs)))"

fun check_final :: "network \<Rightarrow> configs \<Rightarrow> (conformance_error, unit) outcome" where
  "check_final net [] = Ok ()"
| "check_final net ((r, cfg) # cs) =
     (if rc_stack cfg \<noteq> [] then Err (Unbalanced (role_str r) (length (rc_stack cfg)))
      else case nw_machine net r of
        None \<Rightarrow> Panic ''machine for tracked role''
      | Some m \<Rightarrow>
          if \<not> is_terminal m (rc_state cfg) then Err (Incomplete (role_str r) (rc_state cfg))
          else check_final net cs)"

definition check_conformance ::
  "network \<Rightarrow> event list \<Rightarrow> (conformance_error, unit) outcome option" where
  "check_conformance net trace =
     and_then_opt (replay_to_configs net trace) (\<lambda>cfgs. Some (check_final net cfgs))"

section \<open>Closing\<close>

inductive eps :: "local_machine \<Rightarrow> role_config \<Rightarrow> role_config \<Rightarrow> bool" for m where
  push: "boundary m s = Some e \<Longrightarrow> e_kind e = Call ret \<Longrightarrow> length stk < MAX_STACK_DEPTH \<Longrightarrow>
    eps m \<lparr>rc_state = s, rc_stack = stk\<rparr> \<lparr>rc_state = e_to e, rc_stack = ret # stk\<rparr>"
| pop: "boundary m s = Some e \<Longrightarrow> e_kind e = Return \<Longrightarrow>
    eps m \<lparr>rc_state = s, rc_stack = r # stk\<rparr> \<lparr>rc_state = r, rc_stack = stk\<rparr>"

inductive_cases epsE: "eps m c c'"

abbreviation close :: "local_machine \<Rightarrow> role_config \<Rightarrow> (replay_err, role_config) outcome option" where
  "close m c \<equiv> epsilon_close m (rc_state c) (rc_stack c)"

abbreviation resting :: "local_machine \<Rightarrow> role_config \<Rightarrow> bool" where
  "resting m c \<equiv> boundary m (rc_state c) = None"

lemma close_resting: "resting m c \<Longrightarrow> close m c = Some (Ok c)"
  by (subst epsilon_close.simps) simp

lemma close_eps: "eps m c c' \<Longrightarrow> close m c = close m c'"
  by (erule epsE) (subst epsilon_close.simps, simp)+

lemma eps_not_resting: "eps m c c' \<Longrightarrow> \<not> resting m c"
  by (erule epsE) auto

lemma boundary_kind: "boundary m s = Some e \<Longrightarrow> e_kind e \<noteq> Internal"
  by (auto simp: boundary_def dest: find_SomeD)

lemma close_result:
  assumes "epsilon_close m s stk = Some res"
  shows "(\<forall>c. res = Ok c \<longrightarrow> (eps m)\<^sup>*\<^sup>* \<lparr>rc_state = s, rc_stack = stk\<rparr> c \<and> resting m c) \<and>
    (\<forall>msg. res \<noteq> Panic msg)"
  using assms
proof (rule epsilon_close.raw_induct[rotated])
  fix close' m s stk res
  assume IH: "\<And>m s stk res. close' m s stk = Some res \<Longrightarrow>
      (\<forall>c. res = Ok c \<longrightarrow> (eps m)\<^sup>*\<^sup>* \<lparr>rc_state = s, rc_stack = stk\<rparr> c \<and> resting m c) \<and>
      (\<forall>msg. res \<noteq> Panic msg)"
    and *: "(case boundary m s of None \<Rightarrow> Some (Ok \<lparr>rc_state = s, rc_stack = stk\<rparr>)
      | Some e \<Rightarrow> (case e_kind e of
          Internal \<Rightarrow> Some (Ok \<lparr>rc_state = s, rc_stack = stk\<rparr>)
        | Call ret \<Rightarrow> if MAX_STACK_DEPTH \<le> length stk then Some (Err RDepthExceeded)
            else close' m (e_to e) (ret # stk)
        | Return \<Rightarrow> (case stk of [] \<Rightarrow> Some (Err RUnbalanced) | r # rest \<Rightarrow> close' m r rest))) = Some res"
  show "(\<forall>c. res = Ok c \<longrightarrow> (eps m)\<^sup>*\<^sup>* \<lparr>rc_state = s, rc_stack = stk\<rparr> c \<and> resting m c) \<and>
      (\<forall>msg. res \<noteq> Panic msg)"
    using * by (auto simp: not_le split: option.splits edge_kind.splits if_splits list.splits
        dest!: IH dest: boundary_kind intro: converse_rtranclp_into_rtranclp push pop)
qed

lemmas close_OkD = close_result[THEN conjunct1, rule_format, OF _ refl]

lemma eps_deterministic: "eps m c c1 \<Longrightarrow> eps m c c2 \<Longrightarrow> c1 = c2"
  by (elim epsE) auto

section \<open>Runs of one machine\<close>

fun head_of :: "action \<Rightarrow> label option" where
  "head_of (Send _ _) = None"
| "head_of (Recv _ l) = Some l"

fun run_role :: "local_machine \<Rightarrow> role_config \<Rightarrow> action list \<Rightarrow> (replay_err, role_config) outcome option" where
  "run_role m c [] = Some (Ok c)"
| "run_role m c (a # as) = and_then_opt (advance_role m c a (head_of a)) (\<lambda>c. run_role m c as)"

definition run_machine :: "local_machine \<Rightarrow> action list \<Rightarrow> (replay_err, role_config) outcome option" where
  "run_machine m as = and_then_opt (epsilon_close m (m_initial m) []) (\<lambda>c. run_role m c as)"

definition accepts :: "local_machine \<Rightarrow> action list \<Rightarrow> bool" where
  "accepts m as \<longleftrightarrow> (\<exists>c. run_machine m as = Some (Ok c) \<and> rc_stack c = [] \<and> is_terminal m (rc_state c))"

lemma run_role_append:
  "run_role m c (as @ bs) = and_then_opt (run_role m c as) (\<lambda>c. run_role m c bs)"
  by (induction as arbitrary: c)
    (auto simp: and_then_opt_def split: option.splits outcome.splits)

lemma check_edges_own_head: "check_edges es s a (head_of a) = check_edges es s a None"
  by (induction es) (auto split: action.splits)

lemma check_step_own_head: "check_step m s a (head_of a) = check_step m s a None"
  by (simp add: check_step_def check_edges_own_head)

text \<open>Weak runs: silent frame moves between communications.\<close>

inductive wruns :: "local_machine \<Rightarrow> role_config \<Rightarrow> action list \<Rightarrow> role_config \<Rightarrow> bool" for m where
  idle: "wruns m c [] c"
| silent: "eps m c c1 \<Longrightarrow> wruns m c1 as c' \<Longrightarrow> wruns m c as c'"
| act: "resting m c \<Longrightarrow> check_step m (rc_state c) a None = Ok s \<Longrightarrow>
    wruns m \<lparr>rc_state = s, rc_stack = rc_stack c\<rparr> as c' \<Longrightarrow> wruns m c (a # as) c'"

lemma wruns_append: "wruns m c as c1 \<Longrightarrow> wruns m c1 bs c2 \<Longrightarrow> wruns m c (as @ bs) c2"
  by (induction rule: wruns.induct) (auto intro: wruns.intros)

lemma wruns_run:
  "wruns m c as c' \<Longrightarrow> resting m c' \<Longrightarrow> and_then_opt (close m c) (\<lambda>c. run_role m c as) = Some (Ok c')"
proof (induction rule: wruns.induct)
  case (idle c)
  then show ?case by (simp add: close_resting)
next
  case (silent c c1 as c')
  then show ?case by (simp add: close_eps)
next
  case (act c a s as c')
  then show ?case
    by (auto simp: close_resting advance_role_def check_step_own_head)
qed

lemma eps_star_wruns: "(eps m)\<^sup>*\<^sup>* c c1 \<Longrightarrow> wruns m c1 as c' \<Longrightarrow> wruns m c as c'"
  by (induction rule: converse_rtranclp_induct) (auto intro: silent)

lemma run_role_wruns:
  "run_role m c as = Some (Ok c') \<Longrightarrow> resting m c \<Longrightarrow> wruns m c as c' \<and> resting m c'"
proof (induction as arbitrary: c)
  case (Cons a as)
  then obtain s c1 where s: "check_step m (rc_state c) a None = Ok s"
    and c1: "epsilon_close m s (rc_stack c) = Some (Ok c1)" and rest: "run_role m c1 as = Some (Ok c')"
    by (cases "check_step m (rc_state c) a None")
      (auto simp: advance_role_def close_resting check_step_own_head)
  from close_OkD[OF c1] Cons.IH[OF rest] have "wruns m \<lparr>rc_state = s, rc_stack = rc_stack c\<rparr> as c'"
    "resting m c'" using eps_star_wruns by blast+
  with Cons.prems(2) s show ?case by (auto intro: act)
qed (auto intro: wruns.idle)

lemma accepts_iff:
  "accepts m as \<longleftrightarrow> (\<exists>s. wruns m \<lparr>rc_state = m_initial m, rc_stack = []\<rparr> as \<lparr>rc_state = s, rc_stack = []\<rparr> \<and>
     boundary m s = None \<and> is_terminal m s)"
proof
  assume "accepts m as"
  then obtain c0 c where c0: "epsilon_close m (m_initial m) [] = Some (Ok c0)"
    and c: "run_role m c0 as = Some (Ok c)" "rc_stack c = []" "is_terminal m (rc_state c)"
    by (auto simp: accepts_def run_machine_def)
  note star = close_OkD[OF c0]
  with run_role_wruns[OF c(1)] have "wruns m c0 as c" and rest: "resting m c" by simp_all
  then have "wruns m \<lparr>rc_state = m_initial m, rc_stack = []\<rparr> as c"
    using star by (auto intro: eps_star_wruns)
  moreover have "c = \<lparr>rc_state = rc_state c, rc_stack = []\<rparr>" using c(2) by simp
  ultimately show "\<exists>s. wruns m \<lparr>rc_state = m_initial m, rc_stack = []\<rparr> as \<lparr>rc_state = s, rc_stack = []\<rparr> \<and>
     boundary m s = None \<and> is_terminal m s" using c(3) rest by metis
next
  assume "\<exists>s. wruns m \<lparr>rc_state = m_initial m, rc_stack = []\<rparr> as \<lparr>rc_state = s, rc_stack = []\<rparr> \<and>
     boundary m s = None \<and> is_terminal m s"
  then show "accepts m as" using wruns_run by (fastforce simp: accepts_def run_machine_def)
qed

section \<open>Replay is local\<close>

text \<open>What an event asks of one role, and what a trace asks of it.\<close>

definition event_share :: "role \<Rightarrow> event \<Rightarrow> action list" where
  "event_share r ev =
     (if r = ev_from ev then [Send (ev_to ev) (ev_label ev)] else []) @
     (if r = ev_to ev then [Recv (ev_from ev) (ev_label ev)] else [])"

definition share :: "role \<Rightarrow> event list \<Rightarrow> action list" where
  "share r tr = concat (map (event_share r) tr)"

lemma share_simps [simp]:
  "share r [] = []" "share r (ev # tr) = event_share r ev @ share r tr"
  "share r (tr @ tr') = share r tr @ share r tr'"
  by (simp_all add: share_def)

definition event_roles :: "event \<Rightarrow> role set" where
  "event_roles ev = {ev_from ev, ev_to ev}"

lemma share_Nil_iff: "share r tr = [] \<longleftrightarrow> (\<forall>ev \<in> set tr. r \<notin> event_roles ev)"
  by (induction tr) (auto simp: event_share_def event_roles_def)

lemma map_of_set_config:
  "map_of (set_config r c cfgs) r' = (if r' = r \<and> map_of cfgs r \<noteq> None then Some c else map_of cfgs r')"
  by (induction cfgs) (auto simp: set_config_def)

lemma keys_set_config [simp]: "map fst (set_config r c cfgs) = map fst cfgs"
  by (auto simp: set_config_def)


lemma map_err_Ok [simp]: "map_err f x = Ok y \<longleftrightarrow> x = Ok y"
  by (cases x) auto

text \<open>The configurations of a network, one for each machine.\<close>

definition tracks :: "network \<Rightarrow> configs \<Rightarrow> bool" where
  "tracks net cfgs \<longleftrightarrow> map fst cfgs = map fst (nw_machines net) \<and> distinct (map fst (nw_machines net))"

lemma tracks_dom: "tracks net cfgs \<Longrightarrow> map_of cfgs r = None \<longleftrightarrow> nw_machine net r = None"
  by (metis tracks_def nw_machine_def map_of_eq_None_iff set_map)

lemma tracks_set_config: "tracks net cfgs \<Longrightarrow> tracks net (set_config r c cfgs)"
  by (simp add: tracks_def)

lemma step_role_Ok_iff:
  assumes "tracks net cfgs"
  shows "step_role net ord r a h cfgs = Some (Ok cfgs') \<longleftrightarrow>
    (\<exists>m c c'. nw_machine net r = Some m \<and> map_of cfgs r = Some c \<and>
      advance_role m c a h = Some (Ok c') \<and> cfgs' = set_config r c' cfgs)"
  by (auto simp: step_role_def split: option.splits)

text \<open>A replay succeeds exactly when every machine runs its share of the trace.\<close>

definition runs_share :: "network \<Rightarrow> configs \<Rightarrow> event list \<Rightarrow> configs \<Rightarrow> bool" where
  "runs_share net cfgs tr cfgs' \<longleftrightarrow> (\<forall>ev \<in> set tr. \<forall>r \<in> event_roles ev. nw_machine net r \<noteq> None) \<and>
     tracks net cfgs' \<and> (\<forall>r m c. nw_machine net r = Some m \<longrightarrow> map_of cfgs r = Some c \<longrightarrow>
       (\<exists>c'. run_role m c (share r tr) = Some (Ok c') \<and> map_of cfgs' r = Some c'))"

lemma step_role_runs:
  assumes "tracks net cfgs" "step_role net ord r a (head_of a) cfgs = Some (Ok cfgs')"
    and "nw_machine net r' = Some m" "map_of cfgs r' = Some c"
  shows "\<exists>c'. run_role m c (if r' = r then [a] else []) = Some (Ok c') \<and> map_of cfgs' r' = Some c'"
  using assms by (auto simp: step_role_Ok_iff map_of_set_config)

lemma step_role_possible:
  assumes "tracks net cfgs" "nw_machine net r = Some m" "map_of cfgs r = Some c"
    and "run_role m c (a # as) = Some (Ok c'')"
  shows "\<exists>cfgs'. step_role net ord r a (head_of a) cfgs = Some (Ok cfgs') \<and> tracks net cfgs'"
  using assms by (auto simp: step_role_Ok_iff intro: tracks_set_config)

lemma replay_events_runs:
  "replay_events net ord tr cfgs = Some (Ok cfgs') \<Longrightarrow> tracks net cfgs \<Longrightarrow> runs_share net cfgs tr cfgs'"
proof (induction tr arbitrary: ord cfgs)
  case Nil
  then show ?case by (auto simp: runs_share_def)
next
  case (Cons ev tr)
  let ?s = "Send (ev_to ev) (ev_label ev)" and ?r = "Recv (ev_from ev) (ev_label ev)"
  from Cons.prems(1) obtain c1 c2
    where 1: "step_role net ord (ev_from ev) ?s (head_of ?s) cfgs = Some (Ok c1)"
      and 2: "step_role net ord (ev_to ev) ?r (head_of ?r) c1 = Some (Ok c2)"
      and 3: "replay_events net (ord + 1) tr c2 = Some (Ok cfgs')" by auto
  have t1: "tracks net c1" using 1 Cons.prems(2) by (auto simp: step_role_Ok_iff intro: tracks_set_config)
  have t2: "tracks net c2" using 2 t1 by (auto simp: step_role_Ok_iff intro: tracks_set_config)
  note rest = Cons.IH[OF 3 t2]
  have "\<exists>c'. run_role m c (share r (ev # tr)) = Some (Ok c') \<and> map_of cfgs' r = Some c'"
    if r: "nw_machine net r = Some m" "map_of cfgs r = Some c" for r m c
  proof -
    from step_role_runs[OF Cons.prems(2) 1 r] obtain d
      where d: "run_role m c (if r = ev_from ev then [?s] else []) = Some (Ok d)" "map_of c1 r = Some d"
      by blast
    from step_role_runs[OF t1 2 r(1) d(2)] obtain e
      where e: "run_role m d (if r = ev_to ev then [?r] else []) = Some (Ok e)" "map_of c2 r = Some e"
      by blast
    from rest r(1) e(2) obtain f where "run_role m e (share r tr) = Some (Ok f)" "map_of cfgs' r = Some f"
      unfolding runs_share_def by blast
    with d e show ?thesis
      unfolding share_simps event_share_def append_assoc run_role_append by (simp split del: if_split)
  qed
  moreover have "\<forall>r \<in> event_roles ev. nw_machine net r \<noteq> None"
    using 1 2 Cons.prems(2) t1 by (auto simp: event_roles_def step_role_Ok_iff)
  ultimately show ?case using rest by (simp add: runs_share_def)
qed


lemma replay_events_possible:
  assumes "tracks net cfgs" "\<forall>ev \<in> set tr. \<forall>r \<in> event_roles ev. nw_machine net r \<noteq> None"
    and "\<forall>r m c. nw_machine net r = Some m \<longrightarrow> map_of cfgs r = Some c \<longrightarrow>
      (\<exists>c'. run_role m c (share r tr) = Some (Ok c'))"
  shows "\<exists>cfgs'. replay_events net ord tr cfgs = Some (Ok cfgs')"
  using assms
proof (induction tr arbitrary: ord cfgs)
  case (Cons ev tr)
  let ?s = "Send (ev_to ev) (ev_label ev)" and ?r = "Recv (ev_from ev) (ev_label ev)"
  note runs = Cons.prems(3)[rule_format]
  obtain m where m: "nw_machine net (ev_from ev) = Some m"
    using Cons.prems(2) by (auto simp: event_roles_def)
  then obtain c where c: "map_of cfgs (ev_from ev) = Some c" using tracks_dom[OF Cons.prems(1)] by force
  obtain as where "share (ev_from ev) (ev # tr) = ?s # as" by (simp add: event_share_def)
  with runs[OF m c] obtain c'' where "run_role m c (?s # as) = Some (Ok c'')" by metis
  from step_role_possible[OF Cons.prems(1) m c this]
  obtain c1 where 1: "step_role net ord (ev_from ev) ?s (head_of ?s) cfgs = Some (Ok c1)" "tracks net c1"
    by blast
  have runs1: "\<exists>c'. run_role m d ((if r = ev_to ev then [?r] else []) @ share r tr) = Some (Ok c')"
    if r: "nw_machine net r = Some m" "map_of c1 r = Some d" for r m d
  proof -
    obtain c where c: "map_of cfgs r = Some c" using tracks_dom[OF Cons.prems(1)] r(1) by force
    from step_role_runs[OF Cons.prems(1) 1(1) r(1) c] r(2)
    have "run_role m c (if r = ev_from ev then [?s] else []) = Some (Ok d)" by auto
    with runs[OF r(1) c] show ?thesis
      unfolding share_simps event_share_def append_assoc run_role_append[where as = "if _ = _ then [?s] else []"]
      by (simp split del: if_split)
  qed
  obtain m' where m': "nw_machine net (ev_to ev) = Some m'"
    using Cons.prems(2) by (auto simp: event_roles_def)
  then obtain d where d: "map_of c1 (ev_to ev) = Some d" using tracks_dom[OF 1(2)] by force
  from runs1[OF m' d] obtain d' where "run_role m' d (?r # share (ev_to ev) tr) = Some (Ok d')"
    unfolding append.simps if_P[OF refl] by blast
  from step_role_possible[OF 1(2) m' d this]
  obtain c2 where 2: "step_role net ord (ev_to ev) ?r (head_of ?r) c1 = Some (Ok c2)" "tracks net c2"
    by blast
  have "\<exists>c'. run_role m e (share r tr) = Some (Ok c')"
    if r: "nw_machine net r = Some m" "map_of c2 r = Some e" for r m e
  proof -
    obtain d where d: "map_of c1 r = Some d" using tracks_dom[OF 1(2)] r(1) by force
    from step_role_runs[OF 1(2) 2(1) r(1) d] r(2)
    have "run_role m d (if r = ev_to ev then [?r] else []) = Some (Ok e)" by auto
    with runs1[OF r(1) d] show ?thesis unfolding run_role_append by (simp split del: if_split)
  qed
  with Cons.IH[OF 2(2)] Cons.prems(2) have "\<exists>cfgs'. replay_events net (ord + 1) tr c2 = Some (Ok cfgs')"
    by simp
  with 1(1) 2(1) show ?case by auto
qed auto

lemma init_configs_Ok_iff:
  "init_configs ms = Some (Ok cfgs) \<longleftrightarrow>
     list_all2 (\<lambda>e c. fst c = fst e \<and> epsilon_close (snd e) (m_initial (snd e)) [] = Some (Ok (snd c))) ms cfgs"
  by (induction ms arbitrary: cfgs) (auto simp: list_all2_Cons1)

lemma check_final_Ok_iff:
  "check_final net cs = Ok () \<longleftrightarrow> (\<forall>e \<in> set cs. rc_stack (snd e) = [] \<and>
     (\<exists>m. nw_machine net (fst e) = Some m \<and> is_terminal m (rc_state (snd e))))"
proof (induction cs)
  case (Cons e cs)
  obtain r c where "e = (r, c)" by (cases e)
  with Cons show ?case by (cases "nw_machine net r") auto
qed simp


lemma init_configs_tracks:
  assumes "init_configs (nw_machines net) = Some (Ok cfgs)" "distinct (map fst (nw_machines net))"
  shows "tracks net cfgs"
    and "\<And>r m. nw_machine net r = Some m \<Longrightarrow>
      \<exists>c. epsilon_close m (m_initial m) [] = Some (Ok c) \<and> map_of cfgs r = Some c"
proof -
  note init = assms(1)[unfolded init_configs_Ok_iff]
  then have "map fst cfgs = map fst (nw_machines net)"
    by (auto simp: list_all2_conv_all_nth list_eq_iff_nth_eq)
  with assms(2) show t: "tracks net cfgs" by (simp add: tracks_def)
  fix r m assume r: "nw_machine net r = Some m"
  then obtain i where i: "i < length (nw_machines net)" "nw_machines net ! i = (r, m)"
    by (auto simp: nw_machine_def dest!: map_of_SomeD simp: in_set_conv_nth)
  with init have "fst (cfgs ! i) = r" "epsilon_close m (m_initial m) [] = Some (Ok (snd (cfgs ! i)))"
    "i < length cfgs" by (auto simp: list_all2_conv_all_nth)
  moreover from this have "(r, snd (cfgs ! i)) \<in> set cfgs" by (metis nth_mem prod.collapse)
  ultimately show "\<exists>c. epsilon_close m (m_initial m) [] = Some (Ok c) \<and> map_of cfgs r = Some c"
    using t by (auto simp: tracks_def)
qed

lemma init_configs_possible:
  assumes "\<forall>e \<in> set ms. \<exists>c. epsilon_close (snd e) (m_initial (snd e)) [] = Some (Ok c)"
  shows "\<exists>cfgs. init_configs ms = Some (Ok cfgs)"
  using assms by (induction ms) auto

text \<open>The configurations a tracked list ends with are those of its machines.\<close>

lemma tracks_entry:
  "tracks net cfgs \<Longrightarrow> (r, c) \<in> set cfgs \<longleftrightarrow> map_of cfgs r = Some c"
  by (simp add: tracks_def)

lemma conformance_accepts:
  assumes d: "distinct (map fst (nw_machines net))" and ok: "check_conformance net tr = Some (Ok ())"
  shows "(\<forall>ev \<in> set tr. \<forall>r \<in> event_roles ev. nw_machine net r \<noteq> None) \<and>
    (\<forall>r m. nw_machine net r = Some m \<longrightarrow> accepts m (share r tr))"
proof -
  obtain cfgs cfgs' where init: "init_configs (nw_machines net) = Some (Ok cfgs)"
    and rep: "replay_events net 0 tr cfgs = Some (Ok cfgs')" and fin: "check_final net cfgs' = Ok ()"
    using ok by (auto simp: check_conformance_def replay_to_configs_def)
  note t = init_configs_tracks[OF init d] and run = replay_events_runs[OF rep init_configs_tracks(1)[OF init d]]
  have "accepts m (share r tr)" if m: "nw_machine net r = Some m" for r m
  proof -
    from t(2)[OF m] obtain c where c: "epsilon_close m (m_initial m) [] = Some (Ok c)" "map_of cfgs r = Some c"
      by blast
    with run m obtain c' where c': "run_role m c (share r tr) = Some (Ok c')" "map_of cfgs' r = Some c'"
      unfolding runs_share_def by blast
    then have "(r, c') \<in> set cfgs'" by (simp add: map_of_SomeD)
    with fin m have "rc_stack c' = []" "is_terminal m (rc_state c')" by (auto simp: check_final_Ok_iff)
    with c(1) c'(1) show ?thesis by (auto simp: accepts_def run_machine_def)
  qed
  with run show ?thesis by (simp add: runs_share_def)
qed

lemma accepts_conformance:
  assumes d: "distinct (map fst (nw_machines net))"
    and R: "(\<forall>ev \<in> set tr. \<forall>r \<in> event_roles ev. nw_machine net r \<noteq> None) \<and>
      (\<forall>r m. nw_machine net r = Some m \<longrightarrow> accepts m (share r tr))"
  shows "check_conformance net tr = Some (Ok ())"
proof -
  have "\<exists>c. epsilon_close (snd e) (m_initial (snd e)) [] = Some (Ok c)" if "e \<in> set (nw_machines net)" for e
  proof -
    have "nw_machine net (fst e) = Some (snd e)" using that d by (simp add: nw_machine_def)
    then show ?thesis using R by (fastforce simp: accepts_def run_machine_def)
  qed
  then obtain cfgs where init: "init_configs (nw_machines net) = Some (Ok cfgs)"
    using init_configs_possible by blast
  note t = init_configs_tracks[OF init d]
  have runs: "\<exists>c'. run_role m c (share r tr) = Some (Ok c') \<and> rc_stack c' = [] \<and> is_terminal m (rc_state c')"
    if "nw_machine net r = Some m" "map_of cfgs r = Some c" for r m c
    using R t(2)[OF that(1)] that by (fastforce simp: accepts_def run_machine_def)
  have "\<exists>cfgs'. replay_events net 0 tr cfgs = Some (Ok cfgs')"
    by (rule replay_events_possible[OF t(1) conjunct1[OF R]]) (use runs in blast)
  then obtain cfgs' where rep: "replay_events net 0 tr cfgs = Some (Ok cfgs')" by blast
  note run = replay_events_runs[OF rep t(1), unfolded runs_share_def]
  have "rc_stack c = [] \<and> (\<exists>m. nw_machine net r = Some m \<and> is_terminal m (rc_state c))"
    if "(r, c) \<in> set cfgs'" for r c
  proof -
    have c: "map_of cfgs' r = Some c" using that tracks_entry run by blast
    then obtain m where m: "nw_machine net r = Some m" using tracks_dom[of net cfgs' r] run by force
    from t(2)[OF m] obtain c0 where c0: "map_of cfgs r = Some c0" by blast
    from runs[OF m c0] run m c0 c show ?thesis by fastforce
  qed
  then have "check_final net cfgs' = Ok ()" by (auto simp: check_final_Ok_iff)
  with init rep show ?thesis by (auto simp: check_conformance_def replay_to_configs_def)
qed

lemma conformance_is_local:
  assumes "distinct (map fst (nw_machines net))"
  shows "check_conformance net tr = Some (Ok ()) \<longleftrightarrow>
    (\<forall>ev \<in> set tr. \<forall>r \<in> event_roles ev. nw_machine net r \<noteq> None) \<and>
    (\<forall>r m. nw_machine net r = Some m \<longrightarrow> accepts m (share r tr))"
  using conformance_accepts[OF assms] accepts_conformance[OF assms] by blast

end
