(* ===== verification/Csm_Semantics.thy ===== *)
theory Csm_Semantics
  imports Csm_Conformance
begin

text \<open>
  What the pipeline of \<open>src/csm\<close> (projection, merge, compilation, replay) promises as a whole.
  The complete runs of a global type are the relation \<open>gtrace\<close> (an interaction or a chosen branch
  emits its message, \<open>Rec\<close> binds and \<open>Var\<close> goes back, a box or a call runs its frame and then its
  continuation). \<open>network_accepts_runs\<close> shows that the network built from a protocol accepts each
  of them, for the protocols of the fragment \<open>supported\<close>: one label per name, calls that rename
  no role and list all participants of the callee, and heads the compiler starts correctly.
  The proof follows a single machine (\<open>machine_follows_run\<close>), since replay is local.
\<close>

section \<open>Runs of a global type\<close>

text \<open>
  The recursion binders in scope, innermost first; \<open>unwind\<close> finds the body a variable goes back to,
  with the binders in scope there.
\<close>

type_synonym binders = "(string \<times> global_type) list"

fun unwind :: "binders \<Rightarrow> string \<Rightarrow> (global_type \<times> binders) option" where
  "unwind [] x = None"
| "unwind ((y, b) # \<gamma>) x = (if x = y then Some (b, (y, b) # \<gamma>) else unwind \<gamma> x)"

definition rename_role :: "role_subst \<Rightarrow> role \<Rightarrow> role" where
  "rename_role s r = (case map_of s r of Some r' \<Rightarrow> r' | None \<Rightarrow> r)"

definition rename_event :: "role_subst \<Rightarrow> event \<Rightarrow> event" where
  "rename_event s ev = event (rename_role s (ev_from ev)) (rename_role s (ev_to ev)) (ev_label ev)"

text \<open>
  \<open>gtrace env n \<gamma> g tr\<close>: \<open>tr\<close> is a complete run of \<open>g\<close> that nests at most \<open>n\<close> frames.
\<close>

inductive gtrace :: "protocol_env \<Rightarrow> nat \<Rightarrow> binders \<Rightarrow> global_type \<Rightarrow> event list \<Rightarrow> bool" for env where
  End: "gtrace env n \<gamma> End []"
| Interaction: "gtrace env n \<gamma> c tr \<Longrightarrow> gtrace env n \<gamma> (Interaction f t l c) (event f t l # tr)"
| Choice: "(l, c) \<in> set bs \<Longrightarrow> gtrace env n \<gamma> c tr \<Longrightarrow>
    gtrace env n \<gamma> (Choice f t bs) (event f t l # tr)"
| Rec: "gtrace env n ((x, b) # \<gamma>) b tr \<Longrightarrow> gtrace env n \<gamma> (Rec x b) tr"
| Var: "unwind \<gamma> x = Some (b, \<gamma>') \<Longrightarrow> gtrace env n \<gamma>' b tr \<Longrightarrow> gtrace env n \<gamma> (Var x) tr"
| Box: "gtrace env n [] b tr1 \<Longrightarrow> gtrace env (Suc n) \<gamma> c tr2 \<Longrightarrow>
    gtrace env (Suc n) \<gamma> (GlobalBox e b y c) (tr1 @ tr2)"
| Call: "map_of env (ref_name cl) = Some b \<Longrightarrow> gtrace env n [] b tr1 \<Longrightarrow>
    gtrace env (Suc n) \<gamma> c tr2 \<Longrightarrow>
    gtrace env (Suc n) \<gamma> (GlobalCall cl s c) (map (rename_event s) tr1 @ tr2)"

section \<open>Threaded protocols\<close>

text \<open>
  A call is threaded when it renames no role and its image contains every participant of the
  callee (the \<open>WF-THREAD\<close> condition, restricted to identity substitutions).
\<close>

fun threads :: "protocol_env \<Rightarrow> global_type \<Rightarrow> bool"
  and threads_branches :: "protocol_env \<Rightarrow> global_branch list \<Rightarrow> bool" where
  "threads env (Interaction _ _ _ c) \<longleftrightarrow> threads env c"
| "threads env (Choice _ _ bs) \<longleftrightarrow> threads_branches env bs"
| "threads env (Rec _ b) \<longleftrightarrow> threads env b"
| "threads env (Var _) \<longleftrightarrow> True"
| "threads env (GlobalCall cl s c) \<longleftrightarrow> (\<forall>kv \<in> set s. fst kv = snd kv) \<and>
     (case map_of env (ref_name cl) of None \<Rightarrow> False | Some b \<Rightarrow> participants b \<subseteq> snd ` set s) \<and>
     threads env c"
| "threads env (GlobalBox _ b _ c) \<longleftrightarrow> threads env b \<and> threads env c"
| "threads env End \<longleftrightarrow> True"
| "threads_branches env [] \<longleftrightarrow> True"
| "threads_branches env ((_, c) # bs) \<longleftrightarrow> threads env c \<and> threads_branches env bs"

lemma threads_branches_iff: "threads_branches env bs \<longleftrightarrow> (\<forall>b \<in> set bs. threads env (snd b))"
  by (induction bs) auto

lemma rename_identity: "\<forall>kv \<in> set s. fst kv = snd kv \<Longrightarrow> rename_event s ev = ev"
proof -
  assume s: "\<forall>kv \<in> set s. fst kv = snd kv"
  have "rename_role s r = r" for r
    using s by (auto simp: rename_role_def split: option.splits dest!: map_of_SomeD)
  then show ?thesis by (simp add: rename_event_def event_def)
qed

text \<open>Where a type stands: checked under its binders, one label per name, threaded.\<close>

definition sound :: "protocol_env \<Rightarrow> string list \<Rightarrow> global_type \<Rightarrow> bool" where
  "sound env bound g \<longleftrightarrow> check g bound = Ok () \<and> inj_on lbl_name (glabels g) \<and> threads env g"

definition sound_env :: "protocol_env \<Rightarrow> bool" where
  "sound_env env \<longleftrightarrow> (\<forall>e \<in> set env. sound env [] (snd e))"

lemma glabels_branches_set: "glabels_branches bs = (\<Union>b \<in> set bs. insert (fst b) (glabels (snd b)))"
proof (induction bs)
  case (Cons b bs)
  then show ?case by (cases b) simp
qed simp

lemma sound_simps:
  "sound env \<Gamma> (Interaction f t l c) \<Longrightarrow> f \<noteq> t \<and> sound env \<Gamma> c"
  "sound env \<Gamma> (Choice f t bs) \<Longrightarrow> f \<noteq> t \<and> (\<forall>b \<in> set bs. sound env \<Gamma> (snd b))"
  "sound env \<Gamma> (Rec x b) \<Longrightarrow> sound env (x # \<Gamma>) b"
  "sound env \<Gamma> (GlobalBox e b y c) \<Longrightarrow> sound env [] b \<and> sound env \<Gamma> c"
  "sound env \<Gamma> (GlobalCall cl s c) \<Longrightarrow> (\<forall>kv \<in> set s. fst kv = snd kv) \<and> sound env \<Gamma> c \<and>
     (\<exists>b. map_of env (ref_name cl) = Some b \<and> participants b \<subseteq> snd ` set s)"
  by (auto simp: sound_def threads_branches_iff glabels_branches_set split: option.splits
      elim: inj_on_subset)

lemma unwind_suffix: "unwind \<gamma> x = Some (b, \<gamma>') \<Longrightarrow> (x, b) \<in> set \<gamma>' \<and> set \<gamma>' \<subseteq> set \<gamma>"
  by (induction \<gamma> x rule: unwind.induct) (auto split: if_splits)

definition binders_sound :: "protocol_env \<Rightarrow> binders \<Rightarrow> bool" where
  "binders_sound env \<gamma> \<longleftrightarrow> (\<forall>e \<in> set \<gamma>. \<exists>\<Gamma>. sound env \<Gamma> (snd e))"

lemma gtrace_roles:
  assumes "gtrace env n \<gamma> g tr" "sound_env env" "sound env \<Gamma> g" "binders_sound env \<gamma>" "ev \<in> set tr"
  shows "event_roles ev \<subseteq> participants g \<union> (\<Union>e \<in> set \<gamma>. participants (snd e))"
  using assms
proof (induction arbitrary: \<Gamma> ev rule: gtrace.induct)
  case (Interaction n \<gamma> c tr f t l)
  then show ?case by (fastforce simp: event_roles_def event_def dest: sound_simps(1))
next
  case (Choice l c bs n \<gamma> tr f t)
  then show ?case by (fastforce simp: event_roles_def event_def dest: sound_simps(2))
next
  case (Rec n x b \<gamma> tr)
  then show ?case by (fastforce simp: binders_sound_def dest: sound_simps(3))
next
  case (Var \<gamma> x b \<gamma>' n tr)
  have "\<exists>\<Gamma>. sound env \<Gamma> b" "binders_sound env \<gamma>'"
    using unwind_suffix[OF Var.hyps(1)] Var.prems(3) by (fastforce simp: binders_sound_def)+
  then obtain \<Gamma>' where "sound env \<Gamma>' b" by blast
  from Var.IH[OF Var.prems(1) this \<open>binders_sound env \<gamma>'\<close> Var.prems(4)] unwind_suffix[OF Var.hyps(1)]
  show ?case by fastforce
next
  case (Box n b tr1 \<gamma> c tr2 e y)
  then show ?case by (fastforce simp: binders_sound_def dest: sound_simps(4))
next
  case (Call cl b n tr1 \<gamma> c tr2 s)
  note s = sound_simps(5)[OF Call.prems(2)]
  have "sound env [] b" using Call.prems(1) map_of_SomeD[OF Call.hyps(1)] by (fastforce simp: sound_env_def)
  then have "event_roles ev \<subseteq> participants b" if "ev \<in> set tr1"
    using Call.IH(1)[OF Call.prems(1) _ _ that] by (simp add: binders_sound_def)
  with s Call.hyps(1) Call.IH(2) Call.prems show ?case
    by (simp add: rename_identity) blast
qed simp


section \<open>Steps of a represented state\<close>

lemma out_picture [simp]: "p_out (machine_picture m memo) = edges_from m"
    "p_role (machine_picture m memo) = m_role m" "p_memo (machine_picture m memo) = memo"
    "p_terminals (machine_picture m memo) = m_terminals m"
  by (simp_all add: machine_picture_def)

abbreviation mrep :: "local_machine \<Rightarrow> (string \<times> role \<Rightarrow> nat option) \<Rightarrow> (string \<Rightarrow> nat option)
    \<Rightarrow> bool \<Rightarrow> nat \<Rightarrow> local_type \<Rightarrow> bool" where
  "mrep m memo \<equiv> rep (machine_picture m memo) UNIV"

lemma step_single:
  "edges_from m s = [edge s a t Internal] \<Longrightarrow> boundary m s = None \<and> check_step m s a None = Ok t"
  by (simp add: boundary_def check_step_def split: action.splits)

lemma rep_branches_nth:
  "rep_branches P R \<rho> bx ts bs \<longleftrightarrow> length ts = length bs \<and> (\<forall>i < length bs. rep P R \<rho> bx (ts ! i) (snd (bs ! i)))"
proof (induction bs arbitrary: ts)
  case (Cons b bs)
  obtain l c where b: "b = (l, c)" by (cases b)
  show ?case
  proof (cases ts)
    case (Cons t ts')
    with Cons.IH b show ?thesis by (auto simp: less_Suc_eq_0_disj)
  qed (simp add: b)
qed auto

lemma check_edges_branches:
  "inj act \<Longrightarrow> distinct (map fst bs) \<Longrightarrow> length ts = length bs \<Longrightarrow> i < length bs \<Longrightarrow>
    check_edges (branch_edges s act bs ts) q (act (fst (bs ! i))) None = Ok (ts ! i)"
proof (induction bs arbitrary: ts i)
  case (Cons b bs)
  then obtain t ts' where ts: "ts = t # ts'" by (cases ts) auto
  show ?case
  proof (cases i)
    case 0
    then show ?thesis by (auto simp: ts branch_edges_def split: action.splits)
  next
    case (Suc j)
    with Cons.prems ts have "fst (bs ! j) \<in> fst ` set bs" by simp
    moreover have "fst b \<notin> fst ` set bs" using Cons.prems(2) by simp
    ultimately have "fst b \<noteq> fst (bs ! j)" by metis
    with Cons.IH[of ts' j] Cons.prems ts Suc show ?thesis
      by (auto simp: branch_edges_def dest: injD)
  qed
qed simp

lemma step_branches:
  assumes "edges_from m s = branch_edges s act bs ts" "rep_branches P R \<rho> bx ts bs" "inj act"
    and "distinct (map (\<lambda>b. lbl_name (fst b)) bs)" "(l, k) \<in> set bs"
  shows "boundary m s = None" "\<exists>t. check_step m s (act l) None = Ok t \<and> rep P R \<rho> bx t k"
proof -
  have "\<forall>e \<in> set (branch_edges s act bs ts). e_kind e = Internal"
    by (auto simp: branch_edges_def)
  then show "boundary m s = None" using assms(1) by (simp add: boundary_def find_None_iff)
  obtain i where i: "i < length bs" "bs ! i = (l, k)" using assms(5) by (auto simp: in_set_conv_nth)
  have "distinct (map fst bs)" 
    using distinct_map[of lbl_name "map fst bs"] assms(4) by (simp add: comp_def)
  with check_edges_branches[OF assms(3) this _ i(1), of ts s s] i assms(1,2)
  show "\<exists>t. check_step m s (act l) None = Ok t \<and> rep P R \<rho> bx t k"
    by (auto simp: check_step_def rep_branches_nth)
qed

text \<open>From \<open>s\<close> the machine performs \<open>as\<close> and reaches the end of the current frame.\<close>

definition reaches :: "local_machine \<Rightarrow> (string \<times> role \<Rightarrow> nat option) \<Rightarrow> bool \<Rightarrow> nat \<Rightarrow> nat list
    \<Rightarrow> action list \<Rightarrow> bool" where
  "reaches m memo bx s stk as \<longleftrightarrow> (\<exists>s'. wruns m \<lparr>rc_state = s, rc_stack = stk\<rparr> as \<lparr>rc_state = s', rc_stack = stk\<rparr> \<and>
     mrep m memo Map.empty bx s' LEnd)"

lemma reaches_end: "mrep m memo \<rho> bx s LEnd \<Longrightarrow> reaches m memo bx s stk []"
  by (auto simp: reaches_def intro!: exI[of _ s] idle)

lemma reaches_act:
  "boundary m s = None \<Longrightarrow> check_step m s a None = Ok t \<Longrightarrow> reaches m memo bx t stk as \<Longrightarrow>
    reaches m memo bx s stk (a # as)"
  unfolding reaches_def by (metis act role_config.select_convs(1,2))

lemma reaches_message:
  assumes "\<And>t. mrep m memo \<rho> bx t k \<Longrightarrow> reaches m memo bx t stk as"
  shows "mrep m memo \<rho> bx s (LSend p l k) \<Longrightarrow> reaches m memo bx s stk (Send p l # as)"
    and "mrep m memo \<rho> bx s (LRecv p l k) \<Longrightarrow> reaches m memo bx s stk (Recv p l # as)"
  using assms by (auto dest!: step_single intro: reaches_act)

lemma reaches_branch:
  assumes "\<And>t. mrep m memo \<rho> bx t k \<Longrightarrow> reaches m memo bx t stk as"
    and "distinct (map (\<lambda>b. lbl_name (fst b)) bs)" "(l, k) \<in> set bs"
  shows "mrep m memo \<rho> bx s (LSelect p bs) \<Longrightarrow> reaches m memo bx s stk (Send p l # as)"
    and "mrep m memo \<rho> bx s (LBranch p bs) \<Longrightarrow> reaches m memo bx s stk (Recv p l # as)"
proof -
  have *: "reaches m memo bx s stk (act l # as)"
    if "edges_from m s = branch_edges s act bs ts"
      "rep_branches (machine_picture m memo) UNIV \<rho> bx ts bs" "inj act" for act ts
    using step_branches[OF that assms(2,3)] assms(1) reaches_act by blast
  show "mrep m memo \<rho> bx s (LSelect p bs) \<Longrightarrow> reaches m memo bx s stk (Send p l # as)"
    using *[where act = "Send p"] by (auto simp: inj_def)
  show "mrep m memo \<rho> bx s (LBranch p bs) \<Longrightarrow> reaches m memo bx s stk (Recv p l # as)"
    using *[where act = "Recv p"] by (auto simp: inj_def)
qed

lemma reaches_frame:
  assumes "edges_from m s = [edge s a be (Call ret)]" "length stk < MAX_STACK_DEPTH"
    and "reaches m memo True be (ret # stk) as" "reaches m memo bx ret stk bs"
  shows "reaches m memo bx s stk (as @ bs)"
proof -
  let ?c = "\<lambda>s stk. \<lparr>rc_state = s, rc_stack = stk\<rparr>"
  have push: "eps m (?c s stk) (?c be (ret # stk))"
    using eps.push[of m s "edge s a be (Call ret)" ret stk] assms(1,2) by (simp add: boundary_def)
  obtain s1 where s1: "wruns m (?c be (ret # stk)) as (?c s1 (ret # stk))" "mrep m memo Map.empty True s1 LEnd"
    using assms(3) by (auto simp: reaches_def)
  then obtain l where "edges_from m s1 = [edge s1 (Send (m_role m) l) s1 Return]" by auto
  then have "eps m (?c s1 (ret # stk)) (?c ret stk)"
    using eps.pop[of m s1 "edge s1 (Send (m_role m) l) s1 Return" ret stk] by (simp add: boundary_def)
  moreover obtain s2 where s2: "wruns m (?c ret stk) bs (?c s2 stk)" "mrep m memo Map.empty bx s2 LEnd"
    using assms(4) by (auto simp: reaches_def)
  ultimately have "wruns m (?c s stk) (as @ bs) (?c s2 stk)"
    using push s1(1) by (meson silent wruns_append)
  with s2(2) show ?thesis by (auto simp: reaches_def)
qed

section \<open>A machine follows the global type\<close>

inductive_simps covers_LSend: "covers t (LSend p l c)"
inductive_simps covers_LRecv: "covers t (LRecv p l c)"
inductive_simps covers_LSelect: "covers t (LSelect p bs)"
inductive_simps covers_LBranch: "covers t (LBranch p bs)"
inductive_simps covers_LRec: "covers t (LRec x b)"
inductive_simps covers_LVar: "covers t (LVar x)"
inductive_simps covers_LCall: "covers t (LCall cl s c)"
inductive_simps covers_LBox: "covers t (LBox e b y c)"
inductive_simps covers_LEnd: "covers t LEnd"

lemmas covers_shapes = covers_LSend covers_LSelect covers_LVar covers_LEnd

text \<open>
  State \<open>s\<close> of the machine of role \<open>r\<close> follows the global type \<open>g\<close>: it represents a local type
  above the projection of \<open>g\<close>.
\<close>

definition follows :: "protocol_env \<Rightarrow> role \<Rightarrow> local_machine \<Rightarrow> (string \<times> role \<Rightarrow> nat option) \<Rightarrow> bool
    \<Rightarrow> (string \<Rightarrow> nat option) \<Rightarrow> string list \<Rightarrow> nat \<Rightarrow> global_type \<Rightarrow> bool" where
  "follows env r m memo bx \<rho> \<Gamma> s g \<longleftrightarrow> sound env \<Gamma> g \<and>
     (\<exists>t p. mrep m memo \<rho> bx s t \<and> lgood UNIV t \<and> project g r = Ok p \<and> covers t p)"

lemma followsI:
  "sound env \<Gamma> g \<Longrightarrow> mrep m memo \<rho> bx s t \<Longrightarrow> lgood UNIV t \<Longrightarrow> project g r = Ok p \<Longrightarrow> covers t p \<Longrightarrow>
    follows env r m memo bx \<rho> \<Gamma> s g"
  unfolding follows_def by blast

inductive scoped :: "protocol_env \<Rightarrow> role \<Rightarrow> local_machine \<Rightarrow> (string \<times> role \<Rightarrow> nat option) \<Rightarrow> bool
    \<Rightarrow> (string \<Rightarrow> nat option) \<Rightarrow> binders \<Rightarrow> bool" for env r m memo bx where
  top: "scoped env r m memo bx \<rho> []"
| bind: "scoped env r m memo bx \<rho> \<gamma> \<Longrightarrow> follows env r m memo bx (\<rho>(x \<mapsto> s)) (x # map fst \<gamma>) s b \<Longrightarrow>
    scoped env r m memo bx (\<rho>(x \<mapsto> s)) ((x, b) # \<gamma>)"

lemma scoped_unwind:
  "scoped env r m memo bx \<rho> \<gamma> \<Longrightarrow> unwind \<gamma> x = Some (b, \<gamma>') \<Longrightarrow> \<rho> x = Some s \<Longrightarrow>
    \<exists>\<rho>'. scoped env r m memo bx \<rho>' \<gamma>' \<and> follows env r m memo bx \<rho>' (map fst \<gamma>') s b"
proof (induction rule: scoped.induct)
  case (bind \<rho> \<gamma> y s' b')
  then show ?case
  proof (cases "x = y")
    case True
    with bind.prems have "\<gamma>' = (y, b) # \<gamma>" "b' = b" "s' = s" by auto
    with bind.hyps show ?thesis by (auto intro!: exI[of _ "\<rho>(y \<mapsto> s)"] scoped.bind)
  next
    case False
    with bind show ?thesis by auto
  qed
qed simp

lemma project_branches_member:
  assumes "project_branches bs r = Ok ps" "(l, c) \<in> set bs"
  shows "\<exists>p. (l, p) \<in> set ps \<and> project c r = Ok p"
proof -
  from assms(2) obtain i where i: "i < length bs" "bs ! i = (l, c)" by (auto simp: in_set_conv_nth)
  with assms(1)[unfolded project_branches_iff] have "fst (ps ! i) = l" "project c r = Ok (snd (ps ! i))"
    "i < length ps" by (auto simp: list_all2_conv_all_nth)
  then show ?thesis by (metis nth_mem prod.collapse)
qed

lemma follows_Interaction:
  assumes "follows env r m memo bx \<rho> \<Gamma> s (Interaction f t l c)"
    and rest: "\<And>q. follows env r m memo bx \<rho> \<Gamma> q c \<Longrightarrow> reaches m memo bx q stk as"
  shows "reaches m memo bx s stk (event_share r (event f t l) @ as)"
proof -
  obtain T p where T: "mrep m memo \<rho> bx s T" "lgood UNIV T" "covers T p"
    and p: "project (Interaction f t l c) r = Ok p" and sd: "sound env \<Gamma> (Interaction f t l c)"
    using assms(1) by (auto simp: follows_def)
  note c = sound_simps(1)[OF sd]
  from p obtain pc where pc: "project c r = Ok pc" by auto
  have go: "reaches m memo bx q stk as" if "mrep m memo \<rho> bx q k" "lgood UNIV k" "covers k pc" for q k
    using rest followsI[OF _ that(1,2) pc that(3)] c by blast
  consider "r = f" | "r = t" "r \<noteq> f" | "r \<noteq> f" "r \<noteq> t" by blast
  then show ?thesis
  proof cases
    case 1
    with p pc T(3) c have "T = LSend t l pc" by (auto simp: covers_shapes)
    then have "reaches m memo bx s stk (Send t l # as)"
      using T by (intro reaches_message(1)[where k = pc, OF go]) (auto intro: covers.itself)
    with 1 c show ?thesis by (simp add: event_share_def event_def)
  next
    case 2
    with p pc have "p = LRecv f l pc" by auto
    with T(3) have "covers T (LRecv f l pc)" by simp
    then consider "T = LRecv f l pc" | k bs where "T = LBranch f bs" "(l, k) \<in> set bs" "covers k pc"
      by (auto simp: covers_LRecv)
    then have "reaches m memo bx s stk (Recv f l # as)"
    proof cases
      case 1
      with T show ?thesis
        by (intro reaches_message(2)[where k = pc, OF go]) (auto intro: covers.itself)
    next
      case 2
      with T show ?thesis by (intro reaches_branch(2)[where k = k and bs = bs, OF go]) auto
    qed
    with 2 show ?thesis by (simp add: event_share_def event_def)
  next
    case 3
    with p pc T go show ?thesis by (auto simp: event_share_def event_def)
  qed
qed

lemma follows_Choice:
  assumes "follows env r m memo bx \<rho> \<Gamma> s (Choice f t bs)" and lc: "(l, c) \<in> set bs"
    and rest: "\<And>q. follows env r m memo bx \<rho> \<Gamma> q c \<Longrightarrow> reaches m memo bx q stk as"
  shows "reaches m memo bx s stk (event_share r (event f t l) @ as)"
proof -
  obtain T p where T: "mrep m memo \<rho> bx s T" "lgood UNIV T" "covers T p"
    and p: "project (Choice f t bs) r = Ok p" and sd: "sound env \<Gamma> (Choice f t bs)"
    using assms(1) by (auto simp: follows_def)
  have c: "f \<noteq> t" "sound env \<Gamma> c" using sound_simps(2)[OF sd] lc by auto
  have go: "reaches m memo bx q stk as"
    if "project c r = Ok pc" "mrep m memo \<rho> bx q k" "lgood UNIV k" "covers k pc" for q k pc
    using rest followsI[OF c(2) that(2,3,1,4)] by blast
  consider "r = f" | "r = t" "r \<noteq> f" | "r \<noteq> f" "r \<noteq> t" by blast
  then show ?thesis
  proof cases
    case 1
    with p T(3) c obtain ps where ps: "project_branches bs r = Ok ps" "T = LSelect t ps"
      by (auto simp: covers_shapes)
    obtain pc where pc: "(l, pc) \<in> set ps" "project c r = Ok pc"
      using project_branches_member[OF ps(1) lc] by blast
    have "lgood UNIV pc" using T(2) ps(2) pc(1) by force
    note go' = go[OF pc(2) _ this covers.itself]
    have "reaches m memo bx s stk (Send t l # as)"
      by (rule reaches_branch(1)[OF go' _ pc(1)]) (use T ps(2) in auto)
    with 1 c show ?thesis by (simp add: event_share_def event_def)
  next
    case 2
    with p obtain ps where ps: "project_branches bs r = Ok ps" "p = LBranch f ps" by auto
    obtain pc where pc: "(l, pc) \<in> set ps" "project c r = Ok pc"
      using project_branches_member[OF ps(1) lc] by blast
    obtain k bs' where k: "T = LBranch f bs'" "(l, k) \<in> set bs'" "covers k pc"
      using T(3) pc(1) unfolding ps(2) covers_LBranch by (metis covers.itself)
    have "lgood UNIV k" using T(2) k by force
    note go' = go[OF pc(2) _ this k(3)]
    have "reaches m memo bx s stk (Recv f l # as)"
      by (rule reaches_branch(2)[OF go' _ k(2)]) (use T k in auto)
    with 2 show ?thesis by (simp add: event_share_def event_def)
  next
    case 3
    obtain l0 c0 bs0 where bs: "bs = (l0, c0) # bs0" using lc by (cases bs) auto
    with 3 p obtain acc where acc: "project c0 r = Ok acc" "project_merge acc bs0 r = Ok p" by auto
    let ?L = "glabels (Choice f t bs)"
    have L: "inj_on lbl_name ?L" and ck: "\<forall>b \<in> set bs. check (snd b) \<Gamma> = Ok ()"
      using sd by (auto simp: sound_def)
    have "lgood ?L acc" using project_lgood(1)[OF _ _ acc(1), of \<Gamma> ?L] ck bs by auto
    with project_merge_covers[OF L _ _ _ acc(2)] ck bs
    have "covers p acc" "\<forall>b \<in> set bs0. \<exists>p'. project (snd b) r = Ok p' \<and> covers p p'" by auto
    with lc bs acc(1) obtain pc where "project c r = Ok pc" "covers p pc" by fastforce
    with go T 3 show ?thesis by (auto simp: event_share_def event_def intro: covers_trans)
  qed
qed

lemma follows_Rec:
  assumes "follows env r m memo bx \<rho> \<Gamma> s (Rec x b)"
  shows "follows env r m memo bx (\<rho>(x \<mapsto> s)) (x # \<Gamma>) s b"
  using assms sound_simps(3) by (fastforce simp: follows_def covers_LRec intro: covers.itself)

definition boxes_rep :: "protocol_env \<Rightarrow> local_machine \<Rightarrow> (string \<times> role \<Rightarrow> nat option) \<Rightarrow> bool" where
  "boxes_rep env m memo \<longleftrightarrow> (\<forall>n cr be. memo (n, cr) = Some be \<longrightarrow>
     (\<exists>g u \<rho>. map_of env n = Some g \<and> project g cr = Ok u \<and> mrep m memo \<rho> True be u))"

lemma follows_Box:
  assumes "follows env r m memo bx \<rho> \<Gamma> s (GlobalBox e b y c)" "length stk < MAX_STACK_DEPTH"
    and body: "\<And>q ret. follows env r m memo True \<rho> [] q b \<Longrightarrow> reaches m memo True q (ret # stk) as"
    and out: "r \<notin> participants b \<Longrightarrow> as = []"
    and rest: "\<And>q. follows env r m memo bx \<rho> \<Gamma> q c \<Longrightarrow> reaches m memo bx q stk as'"
  shows "reaches m memo bx s stk (as @ as')"
proof -
  obtain T p where T: "mrep m memo \<rho> bx s T" "lgood UNIV T" "covers T p"
    and p: "project (GlobalBox e b y c) r = Ok p" and sd: "sound env \<Gamma> (GlobalBox e b y c)"
    using assms(1) by (auto simp: follows_def)
  note sd = sound_simps(4)[OF sd]
  show ?thesis
  proof (cases "r \<in> participants b")
    case True
    with p obtain pb pc where pb: "project b r = Ok pb" "project c r = Ok pc" "p = LBox e pb y pc" by auto
    then obtain tb tc where t: "T = LBox e tb y tc" "covers tb pb" "covers tc pc"
      using T(3) by (auto simp: covers_LBox intro: covers.itself)
    with T obtain ret be where q: "edges_from m s = [edge s (Send (m_role m) e) be (Call ret)]"
      "mrep m memo \<rho> bx ret tc" "mrep m memo \<rho> True be tb" by auto
    show ?thesis
      using T(2) t sd pb
      by (intro reaches_frame[OF q(1) assms(2)] body rest followsI[OF _ q(2)] followsI[OF _ q(3)]) auto
  next
    case False
    with p have "project c r = Ok p" by auto
    with False T sd out rest show ?thesis by (simp add: followsI)
  qed
qed

lemma follows_Call:
  assumes "follows env r m memo bx \<rho> \<Gamma> s (GlobalCall cl su c)" "length stk < MAX_STACK_DEPTH"
    and m: "boxes_rep env m memo" "m_role m = r" and env: "sound_env env" "map_of env (ref_name cl) = Some b"
    and body: "\<And>q ret \<rho>. follows env r m memo True \<rho> [] q b \<Longrightarrow> reaches m memo True q (ret # stk) as"
    and out: "r \<notin> participants b \<Longrightarrow> as = []"
    and rest: "\<And>q. follows env r m memo bx \<rho> \<Gamma> q c \<Longrightarrow> reaches m memo bx q stk as'"
  shows "reaches m memo bx s stk (as @ as')"
proof -
  obtain T p where T: "mrep m memo \<rho> bx s T" "lgood UNIV T" "covers T p"
    and p: "project (GlobalCall cl su c) r = Ok p" and sd: "sound env \<Gamma> (GlobalCall cl su c)"
    using assms(1) by (auto simp: follows_def)
  note sd = sound_simps(5)[OF sd]
  show ?thesis
  proof (cases "r \<in> snd ` set su")
    case True
    with p obtain pc where pc: "project c r = Ok pc" "p = LCall cl su pc" by auto
    then obtain tc where t: "T = LCall cl su tc" "covers tc pc"
      using T(3) by (auto simp: covers_LCall intro: covers.itself)
    with T m(2) obtain ret be cr v where q: "edges_from m s =
        [edge s (Send r (call_label (ref_name cl))) be (Call ret)]"
      "mrep m memo \<rho> bx ret tc" "find (\<lambda>kv. snd kv = r) su = Some (cr, v)"
      "memo (ref_name cl, cr) = Some be" by auto
    have "cr = r" using find_SomeD[OF q(3)] sd by force
    with m(1) q(4) env(2) obtain u \<rho>' where u: "project b r = Ok u" "mrep m memo \<rho>' True be u"
      by (fastforce simp: boxes_rep_def)
    have b: "sound env [] b" using env map_of_SomeD[OF env(2)] by (fastforce simp: sound_env_def)
    then have "lgood UNIV u" using project_lgood(1)[OF _ subset_UNIV u(1)] unfolding sound_def by blast
    then have "follows env r m memo True \<rho>' [] be b" by (rule followsI[OF b u(2) _ u(1) covers.itself])
    moreover have "follows env r m memo bx \<rho> \<Gamma> ret c"
      using T(2) t sd pc by (intro followsI[OF _ q(2)]) auto
    ultimately show ?thesis by (intro reaches_frame[OF q(1) assms(2)] body rest)
  next
    case False
    then have "r \<notin> participants b" using sd env(2) by auto
    moreover from False p have "project c r = Ok p" by auto
    ultimately show ?thesis using T sd out rest by (simp add: followsI)
  qed
qed

lemma event_simps [simp]: "ev_from (event f t l) = f" "ev_to (event f t l) = t" "ev_label (event f t l) = l"
  by (simp_all add: event_def)

lemma binders_sound_scoped:
  "scoped env r m memo bx \<rho> \<gamma> \<Longrightarrow> binders_sound env \<gamma>"
  by (induction rule: scoped.induct) (auto simp: binders_sound_def follows_def)

lemma bystander_share:
  assumes "gtrace env n [] b tr" "sound_env env" "sound env [] b" "r \<notin> participants b"
  shows "share r tr = []"
  using gtrace_roles[OF assms(1-3)] assms(4) unfolding share_Nil_iff by (fastforce simp: binders_sound_def)

lemma machine_follows_run:
  assumes "gtrace env n \<gamma> g tr" "sound_env env" "boxes_rep env m memo" "m_role m = r"
    and "follows env r m memo bx \<rho> (map fst \<gamma>) s g" "scoped env r m memo bx \<rho> \<gamma>"
    and "length stk + n \<le> MAX_STACK_DEPTH"
  shows "reaches m memo bx s stk (share r tr)"
  using assms
proof (induction arbitrary: bx \<rho> s stk rule: gtrace.induct)
  case (End n \<gamma>)
  then show ?case by (auto simp: follows_def covers_shapes intro: reaches_end)
next
  case (Interaction n \<gamma> c tr f t l)
  then show ?case by (simp, intro follows_Interaction) auto
next
  case (Choice l c bs n \<gamma> tr f t)
  then show ?case by (simp, intro follows_Choice) auto
next
  case (Rec n x b \<gamma> tr)
  note f = follows_Rec[OF Rec.prems(4)]
  show ?case
    by (rule Rec.IH[OF Rec.prems(1-3) _ scoped.bind[OF Rec.prems(5) f] Rec.prems(6)]) (simp only: list.map fst_conv f)
next
  case (Var \<gamma> x b \<gamma>' n tr)
  have "\<rho> x = Some s" using Var.prems(4) by (auto simp: follows_def covers_shapes)
  from scoped_unwind[OF Var.prems(5) Var.hyps(1) this] Var.IH[OF Var.prems(1-3)] Var.prems(6)
  show ?case by blast
next
  case (Box n b tr1 \<gamma> c tr2 e y)
  have sd: "sound env [] b" using Box.prems(4) sound_simps(4) by (auto simp: follows_def)
  show ?case unfolding share_simps
  proof (rule follows_Box[OF Box.prems(4)])
    show "length stk < MAX_STACK_DEPTH" using Box.prems(6) by simp
    show "r \<notin> participants b \<Longrightarrow> share r tr1 = []" by (rule bystander_share[OF Box.hyps(1) Box.prems(1) sd])
    show "reaches m memo True q (ret # stk) (share r tr1)" if "follows env r m memo True \<rho> [] q b" for q ret
      using Box.IH(1)[OF Box.prems(1-3) _ scoped.top] that Box.prems(6) by simp
    show "reaches m memo bx q stk (share r tr2)" if "follows env r m memo bx \<rho> (map fst \<gamma>) q c" for q
      by (rule Box.IH(2)[OF Box.prems(1-3) that Box.prems(5,6)])
  qed
next
  case (Call cl b n tr1 \<gamma> c tr2 su)
  have sd: "sound env [] b" using Call.prems(1) map_of_SomeD[OF Call.hyps(1)] by (fastforce simp: sound_env_def)
  have "map (rename_event su) tr1 = tr1"
    using Call.prems(4) by (intro map_idI rename_identity) (auto simp: follows_def dest: sound_simps(5))
  then show ?case unfolding share_simps
  proof (simp only:, intro follows_Call[OF Call.prems(4) _ Call.prems(2,3,1) Call.hyps(1)])
    show "length stk < MAX_STACK_DEPTH" using Call.prems(6) by simp
    show "r \<notin> participants b \<Longrightarrow> share r tr1 = []" by (rule bystander_share[OF Call.hyps(2) Call.prems(1) sd])
    show "reaches m memo True q (ret # stk) (share r tr1)" if "follows env r m memo True \<rho>' [] q b" for q ret \<rho>'
      using Call.IH(1)[OF Call.prems(1-3) _ scoped.top] that Call.prems(6) by simp
    show "reaches m memo bx q stk (share r tr2)" if "follows env r m memo bx \<rho> (map fst \<gamma>) q c" for q
      by (rule Call.IH(2)[OF Call.prems(1-3) that Call.prems(5,6)])
  qed
qed

section \<open>Networks accept the runs of their protocol\<close>

text \<open>
  The fragment in which the runs of a protocol and the replay of its network agree: every type is
  sound, and the head conditions under which the compiler starts a node in the state it is given.
\<close>

definition supported :: "protocol_env \<Rightarrow> global_type \<Rightarrow> bool" where
  "supported env g \<longleftrightarrow> sound env [] g \<and> sound_env env \<and> callee_heads env \<and>
     (\<forall>r \<in> participants g. \<forall>t. project g r = Ok t \<longrightarrow> lheads None t)"

lemma build_machines_OkD:
  "build_machines g env rs = Some (Ok ms) \<Longrightarrow> map fst ms = rs \<and>
    (\<forall>e \<in> set ms. \<exists>t. project g (fst e) = Ok t \<and> compile_in (fst e) t env = Some (Ok (snd e)))"
proof (induction rs arbitrary: ms)
  case (Cons r rs)
  then obtain t m ms' where "project g r = Ok t" "compile_in r t env = Some (Ok m)"
    "build_machines g env rs = Some (Ok ms')" "ms = (r, m) # ms'" by auto
  with Cons.IH[of ms'] show ?case by simp
qed simp

lemma build_in_OkD:
  assumes "build_in name g env = Some (Ok net)"
  shows "map fst (nw_machines net) = sorted_list_of_set (participants g)"
    "distinct (map fst (nw_machines net))"
    "\<And>r m. nw_machine net r = Some m \<Longrightarrow> r \<in> participants g \<and>
      (\<exists>t. project g r = Ok t \<and> compile_in r t env = Some (Ok m))"
    "\<And>r. nw_machine net r = None \<longleftrightarrow> r \<notin> participants g"
proof -
  obtain ms where ms: "build_machines g env (sorted_list_of_set (participants g)) = Some (Ok ms)"
    and net: "nw_machines net = ms" using assms by (auto simp: build_in_def)
  note b = build_machines_OkD[OF ms]
  show keys: "map fst (nw_machines net) = sorted_list_of_set (participants g)" using b net by simp
  then show "distinct (map fst (nw_machines net))" by simp
  have "fst ` set ms = participants g" using keys net by (metis finite_participants set_map set_sorted_list_of_set)
  then show "nw_machine net r = None \<longleftrightarrow> r \<notin> participants g" for r
    by (simp add: nw_machine_def net map_of_eq_None_iff)
  show "r \<in> participants g \<and> (\<exists>t. project g r = Ok t \<and> compile_in r t env = Some (Ok m))"
    if "nw_machine net r = Some m" for r m
  proof -
    have "(r, m) \<in> set ms" using that by (simp add: nw_machine_def net map_of_SomeD)
    with b \<open>fst ` set ms = participants g\<close> show ?thesis by (metis fst_conv snd_conv image_eqI)
  qed
qed

lemma network_machine_accepts:
  assumes sup: "supported env g" and net: "build_in name g env = Some (Ok net)"
    and run: "gtrace env MAX_STACK_DEPTH [] g tr" and m: "nw_machine net r = Some m"
  shows "accepts m (share r tr)"
proof -
  obtain t where t: "project g r = Ok t" "compile_in r t env = Some (Ok m)" "r \<in> participants g"
    using build_in_OkD(3)[OF net m] by blast
  have heads: "lheads None t" "callee_heads env" and sd: "sound env [] g" "sound_env env"
    using sup t by (auto simp: supported_def)
  obtain memo where memo: "mrep m memo Map.empty False (m_initial m) t" "boxes_rep env m memo"
    using compile_in_correct(1)[OF t(2) heads(2,1)] by (auto simp: machine_rep_def boxes_rep_def)
  have "lgood UNIV t" using project_lgood(1)[OF _ subset_UNIV t(1)] sd(1) unfolding sound_def by blast
  then have "follows env r m memo False Map.empty [] (m_initial m) g"
    by (rule followsI[OF sd(1) memo(1) _ t(1) covers.itself])
  then have "reaches m memo False (m_initial m) [] (share r tr)"
    using compile_in_correct(2)[OF t(2) heads(2,1)]
    by (intro machine_follows_run[OF run sd(2) memo(2) _ _ scoped.top]) simp_all
  then show ?thesis by (auto simp: reaches_def accepts_iff is_terminal_def boundary_def)
qed

lemma network_accepts_runs:
  assumes "supported env g" "build_in name g env = Some (Ok net)" "gtrace env MAX_STACK_DEPTH [] g tr"
  shows "check_conformance net tr = Some (Ok ())"
proof -
  have "event_roles ev \<subseteq> participants g" if "ev \<in> set tr" for ev
    using gtrace_roles[OF assms(3) _ _ _ that, of "[]"] assms(1) by (simp add: supported_def binders_sound_def)
  then show ?thesis
    using network_machine_accepts[OF assms] build_in_OkD(2,4)[OF assms(2)]
    by (simp add: conformance_is_local) blast
qed

end
