(* ===== verification/Csm_Build.thy ===== *)
theory Csm_Build
  imports Csm_Semantics
begin

text \<open>
  Building a network succeeds: the compiler of \<open>src/csm/machine.rs\<close> reports no error and does not
  panic on the projections of sound types, so \<open>Network::build_in\<close> fails only where projection does.
\<close>

section \<open>Compilation succeeds\<close>

text \<open>
  A local type the compiler can finish: its variables are bound, and each call names the role
  itself and a callee that projects onto it.
\<close>

fun lready :: "protocol_env \<Rightarrow> role \<Rightarrow> string set \<Rightarrow> local_type \<Rightarrow> bool"
  and lready_branches :: "protocol_env \<Rightarrow> role \<Rightarrow> string set \<Rightarrow> local_branch list \<Rightarrow> bool" where
  "lready env r X (LSend _ _ c) \<longleftrightarrow> lready env r X c"
| "lready env r X (LRecv _ _ c) \<longleftrightarrow> lready env r X c"
| "lready env r X (LSelect _ bs) \<longleftrightarrow> lready_branches env r X bs"
| "lready env r X (LBranch _ bs) \<longleftrightarrow> lready_branches env r X bs"
| "lready env r X (LRec x b) \<longleftrightarrow> lready env r (insert x X) b"
| "lready env r X (LVar x) \<longleftrightarrow> x \<in> X"
| "lready env r X (LCall cl s c) \<longleftrightarrow> find (\<lambda>kv. snd kv = r) s = Some (r, r) \<and>
     (\<exists>b lt. map_of env (ref_name cl) = Some b \<and> project b r = Ok lt) \<and> lready env r X c"
| "lready env r X (LBox _ b _ c) \<longleftrightarrow> lready env r X b \<and> lready env r X c"
| "lready env r X LEnd \<longleftrightarrow> True"
| "lready_branches env r X [] \<longleftrightarrow> True"
| "lready_branches env r X ((_, c) # bs) \<longleftrightarrow> lready env r X c \<and> lready_branches env r X bs"

lemma lready_branches_iff: "lready_branches env r X bs \<longleftrightarrow> (\<forall>b \<in> set bs. lready env r X (snd b))"
  by (induction bs) auto

lemma lready_mono:
  "lready env r X t \<Longrightarrow> X \<subseteq> Y \<Longrightarrow> lready env r Y t"
  "lready_branches env r X bs \<Longrightarrow> X \<subseteq> Y \<Longrightarrow> lready_branches env r Y bs"
proof (induction t and bs arbitrary: X Y and X Y rule: local_induct)
  case (LRec x b)
  then show ?case using insert_mono[of X Y x] by simp
qed auto

text \<open>
  Properties of local types that look through every constructor. Merging keeps them: the merge of two
  types holds nothing that neither of them holds.
\<close>

lemma ball_replaced: "S \<subseteq> insert v T \<Longrightarrow> \<forall>e \<in> T. P e \<Longrightarrow> P v \<Longrightarrow> \<forall>e \<in> S. P e"
  by blast

locale hereditary =
  fixes P :: "'c \<Rightarrow> local_type \<Rightarrow> bool"
    and bind :: "string \<Rightarrow> 'c \<Rightarrow> 'c"
    and call_ok :: "'c \<Rightarrow> protocol_ref \<Rightarrow> role_subst \<Rightarrow> bool"
    and box_ok :: "'c \<Rightarrow> bool"
  assumes recv: "P X (LRecv f l c) \<longleftrightarrow> P X c"
    and branch: "P X (LBranch f bs) \<longleftrightarrow> (\<forall>b \<in> set bs. P X (snd b))"
    and recursion: "P X (LRec v c) \<longleftrightarrow> P (bind v X) c"
    and call: "P X (LCall cl s c) \<longleftrightarrow> call_ok X cl s \<and> P X c"
    and nested: "P X (LBox e b y c) \<longleftrightarrow> box_ok X \<and> P X b \<and> P X c"
begin

lemma offer_iff: "as_offer t = Some (f, bs) \<Longrightarrow> P X t \<longleftrightarrow> (\<forall>b \<in> set bs. P X (snd b))"
  by (cases t) (auto simp: recv branch)

lemma merge_keeps:
  "merges a b c \<Longrightarrow> P X a \<Longrightarrow> P X b \<Longrightarrow> P X c"
  "merges_into m bs m' \<Longrightarrow> \<forall>e \<in> snd ` set m. P X (snd e) \<Longrightarrow>
    \<forall>b \<in> set bs. P X (snd b) \<Longrightarrow> \<forall>e \<in> snd ` set m'. P X (snd e)"
proof (induction arbitrary: X and X rule: merges_merges_into.inducts)
  case (offer a f ba b bb m)
  then have "\<forall>e \<in> snd ` set (offer_map ba). P X (snd e)" "\<forall>e \<in> set bb. P X (snd e)"
    using offer_map_values[of ba] by (auto simp: offer_iff)
  from offer.IH[OF this] show ?case by (auto simp: branch)
next
  case (into_shared m l l' c' c d bb m')
  have "(l', c') \<in> snd ` set m" using map_of_SomeD[OF into_shared.hyps(1)] by force
  then have "P X c'" using into_shared.prems(1) by fastforce
  then have "P X d" using into_shared.IH(1) into_shared.prems(2) by simp
  then have "\<forall>e \<in> snd ` set (bt_insert (lbl_name l) (l', d) (bt_remove (lbl_name l) m)). P X (snd e)"
    using into_shared.prems(1) by (intro ball_replaced[OF bt_replace_values]) simp_all
  from into_shared.IH(2)[OF this] into_shared.prems(2) show ?case by simp
next
  case (into_fresh m l c bb m')
  then have "\<forall>e \<in> snd ` set (bt_insert (lbl_name l) (l, c) (bt_remove (lbl_name l) m)). P X (snd e)"
    by (intro ball_replaced[OF bt_replace_values]) simp_all
  from into_fresh.IH[OF this] into_fresh.prems(2) show ?case by simp
qed (auto simp: recursion call nested)

end

interpretation lready: hereditary "lready env r" insert
  "\<lambda>X cl s. find (\<lambda>kv. snd kv = r) s = Some (r, r) \<and>
     (\<exists>b lt. map_of env (ref_name cl) = Some b \<and> project b r = Ok lt)" "\<lambda>X. True"
  for env r
  by unfold_locales (auto simp: lready_branches_iff)

definition projectable :: "protocol_env \<Rightarrow> role \<Rightarrow> bool" where
  "projectable env r \<longleftrightarrow> (\<forall>e \<in> set env. \<exists>t. project (snd e) r = Ok t)"

lemma identity_find:
  "\<forall>kv \<in> set s. fst kv = snd kv \<Longrightarrow> r \<in> snd ` set s \<Longrightarrow> find (\<lambda>kv. snd kv = r) s = Some (r, r)"
  by (induction s) auto

lemma project_lready:
  "project g r = Ok t \<Longrightarrow> check g bound = Ok () \<Longrightarrow> threads env g \<Longrightarrow> projectable env r \<Longrightarrow>
    lready env r (set bound) t"
  "project_branches bs r = Ok ps \<Longrightarrow> \<forall>b \<in> set bs. check (snd b) bound = Ok () \<Longrightarrow> threads_branches env bs \<Longrightarrow>
    projectable env r \<Longrightarrow> lready_branches env r (set bound) ps"
  "project_merge acc bs r = Ok t \<Longrightarrow> \<forall>b \<in> set bs. check (snd b) bound = Ok () \<Longrightarrow> threads_branches env bs \<Longrightarrow>
    projectable env r \<Longrightarrow> lready env r (set bound) acc \<Longrightarrow> lready env r (set bound) t"
proof (induction g r and bs r and acc bs r arbitrary: t bound and ps bound and t bound
    rule: project_project_branches_project_merge.induct)
  case (2 f to bs r)
  then show ?case by (cases bs) (auto split: if_splits)
next
  case (3 x b r)
  then obtain b' where b': "project b r = Ok b'" "t = LRec x b'" by auto
  with 3(1)[OF b'(1), of "x # bound"] 3(3-) show ?case by simp
next
  case (4 cl s c r)
  then obtain b where b: "map_of env (ref_name cl) = Some b" by (auto split: option.splits)
  moreover have "\<exists>lt. project b r = Ok lt"
    using map_of_SomeD[OF b] 4(5) by (fastforce simp: projectable_def)
  ultimately show ?case using 4 by (auto split: if_splits intro!: identity_find rev_image_eqI)
next
  case (5 e b x c r)
  have "lready env r (set bound) b'" if "project c r = Ok c'" "r \<in> participants b" "project b r = Ok b'" for c' b'
    using 5(2)[OF that, of "[]"] 5(4-6) by (auto intro: lready_mono(1))
  with 5 show ?case by (auto split: if_splits)
next
  case (11 acc l c bs r)
  then obtain p acc' where p: "project c r = Ok p" and m: "merge acc p = Ok acc'"
    and rest: "project_merge acc' bs r = Ok t" by auto
  from 11(1)[OF p] 11(2)[OF p m rest] lready.merge_keeps(1)[OF m[unfolded merge_Ok_iff]] 11(4-)
  show ?case by auto
qed (auto split: if_splits)

text \<open>A compilation that returns, returns no error.\<close>

definition unfailing :: "('e, 'a) outcome option \<Rightarrow> bool" where
  "unfailing x \<longleftrightarrow> (\<forall>y. x = Some y \<longrightarrow> (\<exists>v. y = Ok v))"

lemma unfailing_simps [simp]: "unfailing None" "unfailing (Some (Ok v))"
  by (simp_all add: unfailing_def)

lemma unfailing_bind:
  "unfailing x \<Longrightarrow> (\<And>v. x = Some (Ok v) \<Longrightarrow> unfailing (f v)) \<Longrightarrow> unfailing (and_then_opt x f)"
  by (cases x) (auto simp: unfailing_def and_then_opt_def split: outcome.splits)

definition box_unfailing :: "nat \<Rightarrow> protocol_env \<Rightarrow> role \<Rightarrow> bool" where
  "box_unfailing fuel env r \<longleftrightarrow> (\<forall>sc n b lt c. sc_role sc = r \<longrightarrow> sc_penv sc = env \<longrightarrow>
     map_of env n = Some b \<longrightarrow> project b r = Ok lt \<longrightarrow> unfailing (compile_callee_box fuel sc n r c))"

lemma go_unfailing:
  assumes box: "box_unfailing fuel env r"
  shows "sc_role sc = r \<Longrightarrow> sc_penv sc = env \<Longrightarrow> lready env r (dom (sc_rec_env sc)) t \<Longrightarrow>
      unfailing (go fuel sc t entry c)"
    and "sc_role sc = r \<Longrightarrow> sc_penv sc = env \<Longrightarrow> lready_branches env r (dom (sc_rec_env sc)) bs \<Longrightarrow>
      unfailing (go_branches fuel sc s act bs c)"
proof (induction t and bs arbitrary: sc entry c and sc s act c rule: local_induct)
  case (LRec x b)
  obtain s c1 where e: "entry_or_fresh entry c = (s, c1)" by fastforce
  have "unfailing (go fuel (sc\<lparr>sc_rec_env := (sc_rec_env sc)(x \<mapsto> s)\<rparr>) b (Some s) c1)"
  proof (rule LRec.IH)
    have "dom (sc_rec_env (sc\<lparr>sc_rec_env := (sc_rec_env sc)(x \<mapsto> s)\<rparr>)) = insert x (dom (sc_rec_env sc))"
      by (auto simp: dom_def)
    then show "lready env r (dom (sc_rec_env (sc\<lparr>sc_rec_env := (sc_rec_env sc)(x \<mapsto> s)\<rparr>))) b"
      using LRec.prems(3) by (simp only: lready.simps)
  qed (use LRec.prems in simp_all)
  with e show ?case by (auto intro!: unfailing_bind)
next
  case (LCall cl su k)
  obtain s c1 where e: "entry_or_fresh entry c = (s, c1)" by fastforce
  from LCall.prems obtain b lt where "map_of env (ref_name cl) = Some b" "project b r = Ok lt"
    and f: "find (\<lambda>kv. snd kv = r) su = Some (r, r)" by auto
  with box LCall.prems(1,2) have "unfailing (compile_callee_box fuel sc (ref_name cl) r c2)" for c2
    by (auto simp: box_unfailing_def)
  with LCall e f show ?case by (auto intro!: unfailing_bind split: prod.splits)
next
  case (LBox en b ex k)
  obtain s c1 where e: "entry_or_fresh entry c = (s, c1)" by fastforce
  with LBox show ?case by (auto simp: fresh_def intro!: unfailing_bind split: prod.splits)
next
  case (LVar x)
  then show ?case by auto
qed (auto intro!: unfailing_bind split: prod.splits list.splits)

lemma box_unfailing:
  assumes env: "\<And>n b lt. map_of env n = Some b \<Longrightarrow> project b r = Ok lt \<Longrightarrow> lready env r {} lt"
  shows "box_unfailing fuel env r"
proof (induction fuel)
  case 0
  show ?case
    by (auto simp: box_unfailing_def compile_callee_box.simps env_resolve_def split: option.split)
next
  case (Suc fuel)
  have "unfailing (go fuel (sc\<lparr>sc_box_exit_labels := ls\<rparr>) lt e c)"
    if "sc_role sc = r" "sc_penv sc = env" "map_of env n = Some b" "project b r = Ok lt" for sc ls n b lt e c
    using that lready_mono(1)[OF env[OF that(3,4)]] by (intro go_unfailing(1)[OF Suc]) simp_all
  then show ?case
    by (auto simp: box_unfailing_def compile_callee_box.simps env_resolve_def fresh_def Let_def
        intro!: unfailing_bind split: option.split)
qed

lemma compile_in_succeeds:
  assumes t: "project g r = Ok t" and sd: "sound env [] g" "sound_env env" "projectable env r"
  shows "\<exists>m. compile_in r t env = Some (Ok m)"
proof -
  have ready: "lready env r {} lt" if "project b r = Ok lt" "sound env [] b" for b lt
    using project_lready(1)[OF that(1), of "[]" env] that(2) sd(3) by (simp add: sound_def)
  have "unfailing (go (compile_fuel t env)
      \<lparr>sc_role = r, sc_penv = env, sc_rec_env = Map.empty, sc_box_exit_labels = []\<rparr> t None empty_compiler)"
  proof (rule go_unfailing(1)[OF box_unfailing])
    show "lready env r {} lt" if "map_of env n = Some b" "project b r = Ok lt" for n b lt
      using ready[OF that(2)] map_of_SomeD[OF that(1)] sd(2) by (fastforce simp: sound_env_def)
  qed (use ready[OF t sd(1)] in simp_all)
  then have "unfailing (compile_in r t env)" 
    unfolding compile_in_def by (rule unfailing_bind) (auto split: prod.splits)
  with compile_in_terminates[of r t env] show ?thesis by (auto simp: unfailing_def)
qed

lemma build_machines_possible:
  "\<forall>r \<in> set rs. \<exists>t m. project g r = Ok t \<and> compile_in r t env = Some (Ok m) \<Longrightarrow>
    \<exists>ms. build_machines g env rs = Some (Ok ms)"
  by (induction rs) auto

lemma build_in_possible:
  "\<forall>r \<in> participants g. \<exists>t m. project g r = Ok t \<and> compile_in r t env = Some (Ok m) \<Longrightarrow>
    \<exists>net. build_in name g env = Some (Ok net)"
  using build_machines_possible[of "sorted_list_of_set (participants g)" g env]
  by (auto simp: build_in_def)

text \<open>Projection is the only way a build can fail.\<close>

lemma build_in_succeeds:
  assumes "sound env [] g" "sound_env env"
    and "\<forall>r \<in> participants g. is_Ok (project g r) \<and> projectable env r"
  shows "\<exists>net. build_in name g env = Some (Ok net)"
  using assms compile_in_succeeds by (intro build_in_possible) (auto simp: is_Ok_iff)

end
