(* ===== verification/Csm_Registry.thy ===== *)
theory Csm_Registry
  imports Csm_Build
begin

text \<open>
  The protocols the program ships: the literals of \<open>src/csm/examples.rs\<close>, the registry of
  \<open>src/csm/registry.rs\<close> (identifiers, names, skill ids, the parametrised builders and the base
  environment) and the lifting of recorded transcripts into traces (\<open>src/csm/conformance.rs\<close>).
\<close>

section \<open>Constructors of protocol literals\<close>

definition interaction :: "string \<Rightarrow> string \<Rightarrow> label \<Rightarrow> global_type \<Rightarrow> global_type" where
  [csm_defs]: "interaction f t l c = Interaction (Role f) (Role t) l c"

definition choice :: "string \<Rightarrow> string \<Rightarrow> global_branch list \<Rightarrow> global_type" where
  [csm_defs]: "choice f t bs = Choice (Role f) (Role t) bs"

definition gbranch :: "label \<Rightarrow> global_type \<Rightarrow> global_branch" where
  [csm_defs]: "gbranch l c = (l, c)"

definition gcall :: "protocol_ref \<Rightarrow> role_subst \<Rightarrow> global_type \<Rightarrow> global_type" where
  [csm_defs]: "gcall callee subst c = GlobalCall callee subst c"

definition gbox :: "label \<Rightarrow> global_type \<Rightarrow> label \<Rightarrow> global_type \<Rightarrow> global_type" where
  [csm_defs]: "gbox enter body exit c = GlobalBox enter body exit c"

section \<open>Worked examples\<close>

definition deliberation :: global_type where
  [csm_defs]: "deliberation =
     Rec ''t'' (interaction ''O'' ''R'' (label_text ''reflect_req'')
       (choice ''R'' ''O''
         [gbranch (label_text ''converged'')
            (interaction ''O'' ''T'' (label_text ''finish'')
              (interaction ''T'' ''O'' (label_text ''final'') End)),
          gbranch (label_text ''continue'')
            (interaction ''O'' ''T'' (label_text ''act_req'')
              (interaction ''T'' ''O'' (label_text ''result'') (Var ''t'')))]))"

definition worktree_negotiation :: global_type where
  [csm_defs]: "worktree_negotiation =
     interaction ''R'' ''E'' (label_text ''request_worktree'')
       (choice ''E'' ''R''
         [gbranch (label_text ''accept'') (interaction ''E'' ''R'' (label_text ''moved'') End),
          gbranch (label_text ''decline'') End])"

definition looping_arm :: "string \<Rightarrow> string \<Rightarrow> global_branch" where
  [csm_defs]: "looping_arm verb ack =
     gbranch (label_text verb) (interaction ''Tape'' ''O'' (label_text ack) (Var ''loop''))"

definition tape_paging :: global_type where
  [csm_defs]: "tape_paging =
     Rec ''loop'' (interaction ''O'' ''Tape'' (label_text ''page_in_req'')
       (interaction ''Tape'' ''O'' (label_text ''page_in_ack'')
         (choice ''O'' ''Tape''
           [looping_arm ''get'' ''got'', looping_arm ''put'' ''put_ack'',
            looping_arm ''page_out'' ''evicted'', looping_arm ''demote'' ''demoted'',
            gbranch (label_text ''done'') End])))"

definition recursive_cf :: global_type where
  [csm_defs]: "recursive_cf =
     (let subst = bt_insert (Role ''Sub'') (Role ''Sub'') (bt_insert (Role ''O'') (Role ''O'') []) in
      interaction ''O'' ''Sub'' (label_text ''subcall'')
       (choice ''O'' ''Sub''
         [gbranch (label_text ''leaf'') (interaction ''Sub'' ''O'' (label_text ''subresult'') End),
          gbranch (label_text ''recurse'')
            (gcall \<lparr>ref_name = ''recursive_cf''\<rparr> subst
              (interaction ''Sub'' ''O'' (label_text ''subresult'') End))]))"

definition hsm_tool_box :: global_type where
  [csm_defs]: "hsm_tool_box =
     interaction ''O'' ''W'' (label_text ''task'')
       (gbox (label_text ''enter_tool'')
         (interaction ''W'' ''Tool'' (label_text ''invoke'')
           (interaction ''Tool'' ''W'' (label_text ''result'') End))
         (label_text ''exit_tool'')
         (interaction ''W'' ''O'' (label_text ''done'') End))"

section \<open>The registry\<close>

datatype protocol_id =
    Sequential | Mixture | Distillation | Deliberation | Recursive
  | WorktreeNegotiation | TapePaging | RecursiveCf

definition protocol_id_all :: "protocol_id list" where
  "protocol_id_all = [Sequential, Mixture, Distillation, Deliberation, Recursive,
     WorktreeNegotiation, TapePaging, RecursiveCf]"

fun protocol_name :: "protocol_id \<Rightarrow> string" where
  "protocol_name Sequential = ''sequential''"
| "protocol_name Mixture = ''mixture''"
| "protocol_name Distillation = ''distillation''"
| "protocol_name Deliberation = ''deliberation''"
| "protocol_name Recursive = ''recursive''"
| "protocol_name WorktreeNegotiation = ''worktree_negotiation''"
| "protocol_name TapePaging = ''tape_paging''"
| "protocol_name RecursiveCf = ''recursive_cf''"

fun pattern_skill_id :: "protocol_id \<Rightarrow> string" where
  "pattern_skill_id Sequential = ''a2a_pattern_sequential''"
| "pattern_skill_id Mixture = ''a2a_pattern_mixture''"
| "pattern_skill_id Distillation = ''a2a_pattern_distillation''"
| "pattern_skill_id Deliberation = ''a2a_pattern_deliberation''"
| "pattern_skill_id Recursive = ''a2a_pattern_recursive''"
| "pattern_skill_id WorktreeNegotiation = ''coordinate_dependency_block''"
| "pattern_skill_id TapePaging = ''tape_page''"
| "pattern_skill_id RecursiveCf = ''a2a_pattern_recursive_cf''"

definition protocol_from_name :: "string \<Rightarrow> protocol_id option" where
  "protocol_from_name s = find (\<lambda>p. protocol_name p = s) protocol_id_all"

definition protocol_from_skill_id :: "string \<Rightarrow> protocol_id option" where
  "protocol_from_skill_id s = find (\<lambda>p. pattern_skill_id p = s) protocol_id_all"

interpretation protocol_names: closed_vocabulary protocol_id_all protocol_name
proof
  show "set protocol_id_all = UNIV"
    unfolding protocol_id_all_def using protocol_id.exhaust by auto
  show "distinct protocol_id_all" by (simp add: protocol_id_all_def)
  show "inj protocol_name"
    by (rule injI, case_tac x; case_tac y; simp)
qed

interpretation protocol_skills: closed_vocabulary protocol_id_all pattern_skill_id
proof
  show "set protocol_id_all = UNIV" by (rule protocol_names.all_complete)
  show "distinct protocol_id_all" by (simp add: protocol_id_all_def)
  show "inj pattern_skill_id"
    by (rule injI, case_tac x; case_tac y; simp)
qed

record protocol_params =
  n_specialists :: nat
  recursion_rounds :: nat
  rlm_depth :: nat

definition default_params :: protocol_params where
  "default_params = \<lparr>n_specialists = 3, recursion_rounds = 1, rlm_depth = 2\<rparr>"

function seq_round :: "nat \<Rightarrow> nat \<Rightarrow> global_type" where
  "seq_round k rounds =
     (if k \<ge> rounds then End
      else
        interaction ''O'' ''P'' (label_text ''plan_req'')
         (interaction ''P'' ''O'' (label_text ''plan'')
          (interaction ''O'' ''C'' (label_text ''critique_req'')
           (interaction ''C'' ''O'' (label_text ''critique'')
            (interaction ''O'' ''S'' (label_text ''solve_req'')
             (interaction ''S'' ''O'' (label_text ''solution'') (seq_round (k + 1) rounds)))))))"
  by auto
termination by (relation "measure (\<lambda>(k, rounds). rounds - k)") auto

definition sequential :: "nat \<Rightarrow> global_type" where
  "sequential rounds = seq_round 0 rounds"

function mix_specialist :: "nat \<Rightarrow> nat \<Rightarrow> global_type" where
  "mix_specialist i n =
     (if i > n then
        interaction ''O'' ''Sum'' (label_text ''reduce_req'')
         (interaction ''Sum'' ''O'' (label_text ''summary'') End)
      else let role = ''Sp'' @ decimal i in
        interaction ''O'' role (label_text ''query'')
         (interaction role ''O'' (label_text ''answer'') (mix_specialist (i + 1) n)))"
  by auto
termination by (relation "measure (\<lambda>(i, n). n + 1 - i)") auto

definition mixture :: "nat \<Rightarrow> global_type" where
  "mixture n = mix_specialist 1 n"

definition distillation :: global_type where
  [csm_defs]: "distillation =
     interaction ''O'' ''E'' (label_text ''query'')
      (interaction ''E'' ''O'' (label_text ''expert'')
       (interaction ''O'' ''L'' (label_text ''distill_req'')
        (interaction ''L'' ''O'' (label_text ''learner'') End)))"

function rec_level :: "nat \<Rightarrow> nat \<Rightarrow> global_type" where
  "rec_level k depth =
     (if k > depth then End
      else let sub = ''Sub'' @ decimal k in
        interaction ''O'' sub (label_text ''subcall'')
         (interaction sub ''O'' (label_text ''subresult'') (rec_level (k + 1) depth)))"
  by auto
termination by (relation "measure (\<lambda>(k, d). d + 1 - k)") auto

declare seq_round.simps [simp del] mix_specialist.simps [simp del] rec_level.simps [simp del]

definition recursive :: "nat \<Rightarrow> global_type" where
  "recursive depth = rec_level 1 depth"

fun global_of :: "protocol_id \<Rightarrow> protocol_params \<Rightarrow> global_type" where
  "global_of Sequential p = sequential (max (recursion_rounds p) 1)"
| "global_of Mixture p = mixture (min (max (n_specialists p) 1) 8)"
| "global_of Distillation p = distillation"
| "global_of Deliberation p = deliberation"
| "global_of Recursive p = recursive (rlm_depth p)"
| "global_of WorktreeNegotiation p = worktree_negotiation"
| "global_of TapePaging p = tape_paging"
| "global_of RecursiveCf p = recursive_cf"

definition protocol_env :: protocol_env where
  "protocol_env = env_insert ''recursive_cf'' recursive_cf env_new"

section \<open>Lifting transcripts\<close>

record transcript_turn =
  tt_round :: nat
  tt_role :: string
  tt_converged :: bool

text \<open>
  An entry of the JSON transcript, as what \<open>get(..).and_then(as_str / as_u64)\<close> gives for its three
  keys.
\<close>

record transcript_entry =
  te_role :: "string option"
  te_round :: "nat option"
  te_output :: "string option"

fun unwrap_or :: "'a \<Rightarrow> 'a option \<Rightarrow> 'a" where
  "unwrap_or d None = d"
| "unwrap_or d (Some x) = x"

definition transcript_to_turns :: "transcript_entry list \<Rightarrow> transcript_turn list" where
  "transcript_to_turns transcript = map (\<lambda>e.
     let role = unwrap_or [] (te_role e);
         round = unwrap_or 0 (te_round e) mod 2 ^ 32;
         output = unwrap_or [] (te_output e)
     in \<lparr>tt_round = round, tt_role = role,
         tt_converged = str_contains (to_lowercase role) ''reflect'' \<and>
           str_contains output ''CONVERGED''\<rparr>) transcript"

definition msg :: "string \<Rightarrow> string \<Rightarrow> string \<Rightarrow> event" where
  [csm_defs]: "msg f t l = event (Role f) (Role t) (label_text l)"

definition lift_sequential :: "transcript_turn \<Rightarrow> event list" where
  "lift_sequential t =
     (let role = to_lowercase (tt_role t) in
      if str_contains role ''plan'' then [msg ''O'' ''P'' ''plan_req'', msg ''P'' ''O'' ''plan'']
      else if str_contains role ''crit'' then
        [msg ''O'' ''C'' ''critique_req'', msg ''C'' ''O'' ''critique'']
      else if str_contains role ''solv'' then
        [msg ''O'' ''S'' ''solve_req'', msg ''S'' ''O'' ''solution'']
      else [])"

fun lift_mixture :: "nat \<Rightarrow> transcript_turn list \<Rightarrow> event list" where
  "lift_mixture idx [] = []"
| "lift_mixture idx (t # ts) =
     (if str_contains (to_lowercase (tt_role t)) ''summ'' then
        [msg ''O'' ''Sum'' ''reduce_req'', msg ''Sum'' ''O'' ''summary''] @ lift_mixture idx ts
      else let idx = idx + 1; sp = ''Sp'' @ decimal idx in
        [msg ''O'' sp ''query'', msg sp ''O'' ''answer''] @ lift_mixture idx ts)"

definition lift_distillation :: "transcript_turn \<Rightarrow> event list" where
  "lift_distillation t =
     (let role = to_lowercase (tt_role t) in
      if str_contains role ''expert'' then [msg ''O'' ''E'' ''query'', msg ''E'' ''O'' ''expert'']
      else if str_contains role ''learn'' then
        [msg ''O'' ''L'' ''distill_req'', msg ''L'' ''O'' ''learner'']
      else [])"

fun lift_deliberation :: "transcript_turn list \<Rightarrow> event list" where
  "lift_deliberation [] = []"
| "lift_deliberation (t # ts) =
     (let role = to_lowercase (tt_role t) in
      if str_contains role ''reflect'' then
        [msg ''O'' ''R'' ''reflect_req'',
         msg ''R'' ''O'' (if tt_converged t then ''converged'' else ''continue'')] @
        (if tt_converged t then [] else lift_deliberation ts)
      else if str_contains role ''tool'' then
        [msg ''O'' ''T'' ''act_req'', msg ''T'' ''O'' ''result''] @ lift_deliberation ts
      else lift_deliberation ts)"

fun lift_recursive :: "nat \<Rightarrow> transcript_turn list \<Rightarrow> event list" where
  "lift_recursive k [] = []"
| "lift_recursive k (_ # ts) =
     (let k = k + 1; sub = ''Sub'' @ decimal k in
      [msg ''O'' sub ''subcall'', msg sub ''O'' ''subresult''] @ lift_recursive k ts)"

definition lift_recursive_cf :: "transcript_turn list \<Rightarrow> event list" where
  "lift_recursive_cf turns =
     (let depth = max (length turns) 1 in
      concat (replicate (depth - 1) [msg ''O'' ''Sub'' ''subcall'', msg ''O'' ''Sub'' ''recurse'']) @
      [msg ''O'' ''Sub'' ''subcall'', msg ''O'' ''Sub'' ''leaf'', msg ''Sub'' ''O'' ''subresult''] @
      replicate (depth - 1) (msg ''Sub'' ''O'' ''subresult''))"

definition lift_worktree :: "transcript_turn \<Rightarrow> event list" where
  "lift_worktree t =
     (let role = to_lowercase (tt_role t) in
      if str_contains role ''request'' then [msg ''R'' ''E'' ''request_worktree'']
      else if str_contains role ''accept'' then [msg ''E'' ''R'' ''accept'']
      else if str_contains role ''moved'' then [msg ''E'' ''R'' ''moved'']
      else if str_contains role ''decline'' then [msg ''E'' ''R'' ''decline'']
      else [])"

definition ack_of :: "string \<Rightarrow> string option" where
  "ack_of verb =
     (if verb = ''get'' then Some ''got'' else if verb = ''put'' then Some ''put_ack''
      else if verb = ''page_out'' then Some ''evicted''
      else if verb = ''demote'' then Some ''demoted'' else None)"

fun lift_tape :: "transcript_turn list \<Rightarrow> event list" where
  "lift_tape [] = []"
| "lift_tape (t # ts) =
     (let verb = to_lowercase (tt_role t) in
      if verb \<notin> set [''get'', ''put'', ''page_out'', ''demote'', ''done''] then lift_tape ts
      else [msg ''O'' ''Tape'' ''page_in_req'', msg ''Tape'' ''O'' ''page_in_ack'', msg ''O'' ''Tape'' verb] @
        (case ack_of verb of Some ack \<Rightarrow> msg ''Tape'' ''O'' ack # lift_tape ts | None \<Rightarrow> []))"

fun lift_transcript :: "protocol_id \<Rightarrow> transcript_turn list \<Rightarrow> event list" where
  "lift_transcript Sequential turns = concat (map lift_sequential turns)"
| "lift_transcript Mixture turns = lift_mixture 0 turns"
| "lift_transcript Distillation turns = concat (map lift_distillation turns)"
| "lift_transcript Deliberation turns = lift_deliberation turns"
| "lift_transcript Recursive turns = lift_recursive 0 turns"
| "lift_transcript RecursiveCf turns = lift_recursive_cf turns"
| "lift_transcript WorktreeNegotiation turns = concat (map lift_worktree turns)"
| "lift_transcript TapePaging turns = lift_tape turns"

end
