(* ===== verification/Csm_Linear.thy ===== *)
theory Csm_Linear
  imports Csm_Registry
begin

text \<open>
  Choice-free protocols (four of the patterns of the registry): which traces their networks accept.
\<close>

section \<open>Choice-free protocols\<close>

text \<open>
  A choice-free type is a list of text messages. Its network is built without an error, and replay
  accepts exactly the traces every role sees as the one run of the type.
\<close>

fun linear_global :: "global_type \<Rightarrow> bool" where
  "linear_global (Interaction f t l c) \<longleftrightarrow> f \<noteq> t \<and> lbl_medium l = Text \<and> linear_global c"
| "linear_global End \<longleftrightarrow> True"
| "linear_global _ \<longleftrightarrow> False"

fun linear_trace :: "global_type \<Rightarrow> event list" where
  "linear_trace (Interaction f t l c) = event f t l # linear_trace c"
| "linear_trace _ = []"

fun local_linear :: "local_type \<Rightarrow> bool" where
  "local_linear (LSend _ _ c) \<longleftrightarrow> local_linear c"
| "local_linear (LRecv _ _ c) \<longleftrightarrow> local_linear c"
| "local_linear LEnd \<longleftrightarrow> True"
| "local_linear _ \<longleftrightarrow> False"

fun local_actions :: "local_type \<Rightarrow> action list" where
  "local_actions (LSend p l c) = Send p l # local_actions c"
| "local_actions (LRecv p l c) = Recv p l # local_actions c"
| "local_actions _ = []"

lemma linear_project:
  "linear_global g \<Longrightarrow> \<exists>t. project g r = Ok t \<and> local_linear t \<and> local_actions t = share r (linear_trace g)"
  by (induction g rule: linear_global.induct) (auto simp: event_share_def)

lemma linear_check: "linear_global g \<Longrightarrow> check g bound = Ok ()"
  by (induction g rule: linear_global.induct) auto

lemma linear_labels: "linear_global g \<Longrightarrow> l \<in> glabels g \<Longrightarrow> lbl_medium l = Text"
  by (induction g rule: linear_global.induct) auto

lemma label_text_simps [simp]:
  "lbl_name (label_text n) = n" "lbl_medium (label_text n) = Text"
  "label_text n = label_text k \<longleftrightarrow> n = k"
  by (simp_all add: label_text_def)

lemma text_labels_inj: "\<forall>l \<in> L. lbl_medium l = Text \<Longrightarrow> inj_on lbl_name (L :: label set)"
  by (rule inj_onI) (auto intro: label.equality)

lemma linear_sound: "linear_global g \<Longrightarrow> sound env [] g"
proof -
  assume g: "linear_global g"
  have "inj_on lbl_name (glabels g)" using linear_labels[OF g] by (blast intro: text_labels_inj)
  moreover have "threads env g" using g by (induction g rule: linear_global.induct) auto
  ultimately show ?thesis using linear_check[OF g] by (simp add: sound_def)
qed

lemma linear_run: "linear_global g \<Longrightarrow> gtrace env n \<gamma> g (linear_trace g)"
  by (induction g rule: linear_global.induct) (auto intro: gtrace.intros)

lemma local_linear_heads: "local_linear t \<Longrightarrow> lheads None t"
  by (induction t rule: local_linear.induct) auto

lemma local_linear_go:
  "local_linear t \<Longrightarrow> \<exists>s c'. go fuel sc t entry c = Some (Ok (s, c') :: (projection_error, _) outcome)"
proof (induction t arbitrary: entry c rule: local_linear.induct)
  case (1 p l k)
  obtain s c1 where e: "entry_or_fresh entry c = (s, c1)" by fastforce
  with 1 obtain s' c' where "go fuel sc k None c1 = Some (Ok (s', c'))" by fastforce
  with e show ?case by simp
next
  case (2 p l k)
  obtain s c1 where e: "entry_or_fresh entry c = (s, c1)" by fastforce
  with 2 obtain s' c' where "go fuel sc k None c1 = Some (Ok (s', c'))" by fastforce
  with e show ?case by simp
qed (auto split: prod.splits list.splits)

lemma local_linear_compile:
  "local_linear t \<Longrightarrow> \<exists>m. compile_in r t env = Some (Ok m :: (projection_error, _) outcome)"
  using local_linear_go by (fastforce simp: compile_in_def)

lemma linear_builds: "linear_global g \<Longrightarrow> \<exists>net. build_in name g env = Some (Ok net)"
  by (rule build_in_possible) (meson linear_project local_linear_compile)

lemma single_edge_run:
  assumes "edges_from m s = [edge s a q Internal]" "s \<notin> m_terminals m" "is_terminal m (rc_state c')"
    and "wruns m \<lparr>rc_state = s, rc_stack = stk\<rparr> as c'"
  shows "\<exists>as'. as = a # as' \<and> wruns m \<lparr>rc_state = q, rc_stack = stk\<rparr> as' c'"
  using assms(4)
proof (cases rule: wruns.cases)
  case idle
  with assms(2,3) show ?thesis by (auto simp: is_terminal_def)
next
  case (silent c1)
  with assms(1) show ?thesis by (auto simp: boundary_def elim: eps.cases)
next
  case (act b u as')
  with assms(1) show ?thesis by (auto simp: check_step_def split: if_splits action.splits)
qed

lemma linear_machine_exact:
  assumes "local_linear t" "mrep m memo \<rho> False s t"
    and "wruns m \<lparr>rc_state = s, rc_stack = []\<rparr> as \<lparr>rc_state = s', rc_stack = []\<rparr>" "is_terminal m s'"
  shows "as = local_actions t"
  using assms(1-3)
proof (induction t arbitrary: s as rule: local_linear.induct)
  case (1 p l k)
  then obtain q where q: "edges_from m s = [edge s (Send p l) q Internal]" "s \<notin> m_terminals m"
    "mrep m memo \<rho> False q k" by auto
  with single_edge_run[OF q(1,2) _ 1(4)] assms(4) 1(1)[OF _ q(3)] 1(2) show ?case by auto
next
  case (2 p l k)
  then obtain q where q: "edges_from m s = [edge s (Recv p l) q Internal]" "s \<notin> m_terminals m"
    "mrep m memo \<rho> False q k" by auto
  with single_edge_run[OF q(1,2) _ 2(4)] assms(4) 2(1)[OF _ q(3)] 2(2) show ?case by auto
next
  case 3
  then have "edges_from m s = []" by simp
  with 3(3) show ?case
    by (cases rule: wruns.cases) (auto simp: boundary_def check_step_def elim: eps.cases)
qed simp_all

lemma protocol_env_simps [csm_defs]: "protocol_env = [(''recursive_cf'', recursive_cf)]"
  by (simp add: protocol_env_def env_insert_def env_new_def)

lemma recursive_cf_unfold: "recursive_cf =
  Interaction (Role ''O'') (Role ''Sub'') (label_text ''subcall'')
    (Choice (Role ''O'') (Role ''Sub'')
      [(label_text ''leaf'', Interaction (Role ''Sub'') (Role ''O'') (label_text ''subresult'') End),
       (label_text ''recurse'', GlobalCall \<lparr>ref_name = ''recursive_cf''\<rparr>
          [(Role ''O'', Role ''O''), (Role ''Sub'', Role ''Sub'')]
          (Interaction (Role ''Sub'') (Role ''O'') (label_text ''subresult'') End))])"
  by (simp add: csm_defs Let_def less_role_def)

lemma recursive_cf_sound: "sound protocol_env [] recursive_cf"
proof -
  have "inj_on lbl_name (glabels recursive_cf)"
    by (rule text_labels_inj) (simp add: recursive_cf_unfold)
  then show ?thesis
    by (simp add: sound_def recursive_cf_unfold protocol_env_simps)
qed

lemma protocol_env_sound: "sound_env protocol_env"
  using recursive_cf_sound by (simp add: sound_env_def protocol_env_simps)

lemma protocol_env_heads: "callee_heads protocol_env"
proof -
  have "lheads (Some {}) t" if "project recursive_cf r = Ok t" for r t
  proof -
    consider "r = Role ''O''" | "r = Role ''Sub''" | "r \<noteq> Role ''O''" "r \<noteq> Role ''Sub''" by blast
    then show ?thesis using that
    proof cases
      case 3
      then have "project recursive_cf r = Ok LEnd"
        by (simp add: recursive_cf_unfold merge.simps[of LEnd])
      with that show ?thesis by simp
    qed (auto simp: recursive_cf_unfold)
  qed
  then show ?thesis by (simp add: callee_heads_def protocol_env_simps)
qed

lemma linear_supported: "linear_global g \<Longrightarrow> supported protocol_env g"
  using linear_sound protocol_env_sound protocol_env_heads linear_project local_linear_heads
  by (auto simp: supported_def) (metis outcome.inject(1))

lemma linear_conformance_iff:
  assumes g: "linear_global g" and net: "build_in name g protocol_env = Some (Ok net)"
  shows "check_conformance net tr = Some (Ok ()) \<longleftrightarrow>
    (\<forall>e \<in> set tr. event_roles e \<subseteq> participants g) \<and>
    (\<forall>r \<in> participants g. share r tr = share r (linear_trace g))"
proof -
  note b = build_in_OkD[OF net]
  have run: "gtrace protocol_env MAX_STACK_DEPTH [] g (linear_trace g)" by (rule linear_run[OF g])
  have "accepts m as \<longleftrightarrow> as = share r (linear_trace g)" if m: "nw_machine net r = Some m" for r m as
  proof
    assume "accepts m as"
    then obtain s where s: "wruns m \<lparr>rc_state = m_initial m, rc_stack = []\<rparr> as \<lparr>rc_state = s, rc_stack = []\<rparr>"
      "is_terminal m s" by (auto simp: accepts_iff)
    obtain t where t: "project g r = Ok t" "compile_in r t protocol_env = Some (Ok m)"
      using b(3)[OF m] by blast
    with linear_project[OF g, of r] have lin: "local_linear t" "local_actions t = share r (linear_trace g)"
      by auto
    obtain memo where "mrep m memo Map.empty False (m_initial m) t"
      using compile_in_correct(1)[OF t(2) protocol_env_heads local_linear_heads[OF lin(1)]]
      by (auto simp: machine_rep_def)
    with linear_machine_exact[OF lin(1) _ s] lin(2) show "as = share r (linear_trace g)" by simp
  qed (use network_machine_accepts[OF linear_supported[OF g] net run m] in simp)
  then show ?thesis using b(2-4) by (auto simp: conformance_is_local)
qed

end
