(* ===== verification/Csm_Protocols.thy ===== *)
theory Csm_Protocols
  imports Csm_Linear
begin

text \<open>
  The registered protocols, for every choice of their parameters: they are well formed in the base
  environment, they project and build, and for the four choice-free patterns (every message has the
  orchestrator at one end) replay accepts exactly one trace.
\<close>

section \<open>Every registered protocol\<close>

text \<open>What the facade needs of a protocol: it is in the supported fragment and projects.\<close>

definition admitted :: "global_type \<Rightarrow> bool" where
  "admitted g \<longleftrightarrow> supported protocol_env g \<and> (\<forall>r \<in> participants g. is_Ok (project g r))"

lemma recursive_cf_projects: "is_Ok (project recursive_cf r)"
proof -
  consider "r = Role ''O''" | "r = Role ''Sub''" | "r \<noteq> Role ''O''" "r \<noteq> Role ''Sub''" by blast
  then show ?thesis
    by cases (auto simp: recursive_cf_unfold is_Ok_iff merge.simps[of LEnd])
qed

lemma protocol_env_projectable: "projectable protocol_env r"
  using recursive_cf_projects by (simp add: projectable_def protocol_env_simps is_Ok_iff)

lemma admitted_builds: "admitted g \<Longrightarrow> \<exists>net. build_in name g protocol_env = Some (Ok net)"
  using protocol_env_projectable
  by (intro build_in_succeeds) (auto simp: admitted_def supported_def)

lemma admittedI:
  assumes "\<forall>l \<in> glabels g. lbl_medium l = Text" "check g [] = Ok ()" "threads protocol_env g"
    and "\<forall>r \<in> participants g. \<exists>t. project g r = Ok t \<and> lheads None t"
  shows "admitted g"
  using assms text_labels_inj[OF assms(1)] protocol_env_sound protocol_env_heads
  by (auto simp: admitted_def supported_def sound_def is_Ok_iff)

lemma deliberation_admitted: "admitted deliberation"
proof (rule admittedI)
  have "participants deliberation = {Role ''O'', Role ''R'', Role ''T''}"
    by (auto simp: csm_defs)
  then show "\<forall>r \<in> participants deliberation. \<exists>t. project deliberation r = Ok t \<and> lheads None t"
    by (simp add: csm_defs merge.simps same_offer_def offer_map_def bt_remove_def)
qed (simp_all add: csm_defs)

lemma worktree_negotiation_admitted: "admitted worktree_negotiation"
proof (rule admittedI)
  have "participants worktree_negotiation = {Role ''R'', Role ''E''}"
    by (auto simp: csm_defs)
  then show "\<forall>r \<in> participants worktree_negotiation. \<exists>t. project worktree_negotiation r = Ok t \<and> lheads None t"
    by (simp add: csm_defs)
qed (simp_all add: csm_defs)

lemma tape_paging_admitted: "admitted tape_paging"
proof (rule admittedI)
  have "participants tape_paging = {Role ''O'', Role ''Tape''}"
    by (auto simp: csm_defs)
  then show "\<forall>r \<in> participants tape_paging. \<exists>t. project tape_paging r = Ok t \<and> lheads None t"
    by (simp add: csm_defs)
qed (simp_all add: csm_defs)

lemma hsm_tool_box_admitted: "admitted hsm_tool_box"
proof (rule admittedI)
  have "participants hsm_tool_box = {Role ''O'', Role ''W'', Role ''Tool''}"
    by (auto simp: csm_defs)
  then show "\<forall>r \<in> participants hsm_tool_box. \<exists>t. project hsm_tool_box r = Ok t \<and> lheads None t"
    by (simp add: csm_defs)
qed (simp_all add: csm_defs)

lemma recursive_cf_admitted: "admitted recursive_cf"
proof (rule admittedI)
  have "participants recursive_cf = {Role ''O'', Role ''Sub''}"
    by (auto simp: recursive_cf_unfold)
  then show "\<forall>r \<in> participants recursive_cf. \<exists>t. project recursive_cf r = Ok t \<and> lheads None t"
    by (simp add: recursive_cf_unfold)
qed (simp_all add: recursive_cf_unfold protocol_env_simps)


lemma linear_admitted: "linear_global g \<Longrightarrow> admitted g"
  unfolding admitted_def is_Ok_iff using linear_supported linear_project by blast

section \<open>Hub protocols\<close>

text \<open>
  Where every message of a choice-free protocol has the orchestrator at one end, the view of the
  orchestrator is the whole trace: replay accepts one trace only.
\<close>

definition hub_event :: "role \<Rightarrow> event \<Rightarrow> bool" where
  "hub_event hub e \<longleftrightarrow> (ev_from e = hub) \<noteq> (ev_to e = hub)"

lemma hub_share_inj:
  "\<forall>e \<in> set tr. hub_event hub e \<Longrightarrow> \<forall>e \<in> set tr'. hub_event hub e \<Longrightarrow>
    share hub tr = share hub tr' \<Longrightarrow> tr = tr'"
proof (induction tr arbitrary: tr')
  case Nil
  then show ?case by (cases tr') (auto simp: hub_event_def event_share_def split: if_splits)
next
  case (Cons e tr)
  show ?case
  proof (cases tr')
    case Nil
    with Cons.prems show ?thesis by (auto simp: hub_event_def event_share_def split: if_splits)
  next
    case t: (Cons e' tr'')
    have "e = e' \<and> share hub tr = share hub tr''"
      using Cons.prems unfolding t
      by (cases e; cases e') (auto simp: hub_event_def event_share_def split: if_splits)
    then have "tr = tr''" using Cons.IH[of tr''] Cons.prems(1,2) t by simp
    with \<open>e = e' \<and> _\<close> t show ?thesis by simp
  qed
qed

lemma share_member:
  "e \<in> set tr \<Longrightarrow> r \<in> event_roles e \<Longrightarrow>
    \<exists>a \<in> set (share r tr). (a = Send (ev_to e) (ev_label e) \<and> ev_from e = r) \<or>
      (a = Recv (ev_from e) (ev_label e) \<and> ev_to e = r)"
  by (auto simp: share_def event_share_def event_roles_def)

lemma share_memberD:
  "a \<in> set (share r tr) \<Longrightarrow> \<exists>e \<in> set tr. (a = Send (ev_to e) (ev_label e) \<and> ev_from e = r) \<or>
      (a = Recv (ev_from e) (ev_label e) \<and> ev_to e = r)"
  by (auto simp: share_def event_share_def split: if_splits)

lemma linear_trace_roles:
  "linear_global g \<Longrightarrow> (\<Union>e \<in> set (linear_trace g). event_roles e) = participants g"
  by (induction g rule: linear_global.induct) (auto simp: event_roles_def participants_simps)

lemma hub_conformance_iff:
  assumes g: "linear_global g" and net: "build_in name g protocol_env = Some (Ok net)"
    and hub: "\<forall>e \<in> set (linear_trace g). hub_event hub e"
  shows "check_conformance net tr = Some (Ok ()) \<longleftrightarrow> tr = linear_trace g"
proof
  assume "check_conformance net tr = Some (Ok ())"
  then have roles: "\<forall>e \<in> set tr. event_roles e \<subseteq> participants g"
    and sh: "\<forall>r \<in> participants g. share r tr = share r (linear_trace g)"
    by (simp_all add: linear_conformance_iff[OF g net])
  have "hub_event hub e" if "e \<in> set tr" for e
  proof -
    have "ev_from e \<in> event_roles e" "ev_from e \<in> participants g"
      using roles that by (auto simp: event_roles_def)
    with share_member[OF that] sh obtain a where "a \<in> set (share (ev_from e) (linear_trace g))"
      "a = Send (ev_to e) (ev_label e) \<or> (a = Recv (ev_from e) (ev_label e) \<and> ev_to e = ev_from e)" by metis
    then show ?thesis using share_memberD[of a] hub by (fastforce simp: hub_event_def)
  qed
  moreover have "share hub tr = share hub (linear_trace g)"
  proof (cases "hub \<in> participants g")
    case False
    then have "linear_trace g = []" using hub linear_trace_roles[OF g]
      by (cases "linear_trace g") (auto simp: hub_event_def event_roles_def)
    with linear_trace_roles[OF g] roles have "tr = []" by (cases tr) (auto simp: event_roles_def)
    with \<open>linear_trace g = []\<close> show ?thesis by simp
  qed (use sh in simp)
  ultimately show "tr = linear_trace g" using hub hub_share_inj by blast
qed (use linear_trace_roles[OF g] in \<open>auto simp: linear_conformance_iff[OF g net]\<close>)

section \<open>The runs of the registered patterns\<close>

lemma linear_csm [simp]:
  "linear_global (interaction f t l c) \<longleftrightarrow> f \<noteq> t \<and> lbl_medium l = Text \<and> linear_global c"
  "linear_trace (interaction f t l c) = event (Role f) (Role t) l # linear_trace c"
  by (simp_all add: interaction_def)

lemma seq_round_run:
  "linear_global (seq_round k rounds) \<and> linear_trace (seq_round k rounds) = concat (replicate (rounds - k)
     [msg ''O'' ''P'' ''plan_req'', msg ''P'' ''O'' ''plan'', msg ''O'' ''C'' ''critique_req'',
      msg ''C'' ''O'' ''critique'', msg ''O'' ''S'' ''solve_req'', msg ''S'' ''O'' ''solution''])"
proof (induction k rounds rule: seq_round.induct)
  case (1 k rounds)
  show ?case
  proof (cases "k \<ge> rounds")
    case False
    then have "rounds - k = Suc (rounds - (k + 1))" by simp
    with 1 False show ?thesis by (simp add: seq_round.simps[of k] msg_def)
  qed (simp add: seq_round.simps)
qed

lemma mix_specialist_run:
  "linear_global (mix_specialist i n) \<and> linear_trace (mix_specialist i n) =
     concat (map (\<lambda>j. [msg ''O'' (''Sp'' @ decimal j) ''query'', msg (''Sp'' @ decimal j) ''O'' ''answer''])
       [i ..< n + 1]) @ [msg ''O'' ''Sum'' ''reduce_req'', msg ''Sum'' ''O'' ''summary'']"
proof (induction i n rule: mix_specialist.induct)
  case (1 i n)
  show ?case
  proof (cases "i > n")
    case False
    then have "[i ..< n + 1] = i # [i + 1 ..< n + 1]" by (simp add: upt_conv_Cons)
    with 1 False show ?thesis by (simp add: mix_specialist.simps[of i] msg_def Let_def)
  qed (simp add: mix_specialist.simps msg_def)
qed

lemma rec_level_run:
  "linear_global (rec_level k d) \<and> linear_trace (rec_level k d) =
     concat (map (\<lambda>j. [msg ''O'' (''Sub'' @ decimal j) ''subcall'', msg (''Sub'' @ decimal j) ''O'' ''subresult''])
       [k ..< d + 1])"
proof (induction k d rule: rec_level.induct)
  case (1 k d)
  show ?case
  proof (cases "k > d")
    case False
    then have "[k ..< d + 1] = k # [k + 1 ..< d + 1]" by (simp add: upt_conv_Cons)
    with 1 False show ?thesis by (simp add: rec_level.simps[of k] msg_def Let_def)
  qed (simp add: rec_level.simps)
qed

definition choice_free :: "protocol_id \<Rightarrow> bool" where
  "choice_free pid \<longleftrightarrow> pid \<in> {Sequential, Mixture, Distillation, Recursive}"

lemma choice_free_linear: "choice_free pid \<Longrightarrow> linear_global (global_of pid p)"
  by (auto simp: choice_free_def sequential_def mixture_def recursive_def distillation_def
      seq_round_run mix_specialist_run rec_level_run)

lemma msg_hub [simp]: "hub_event (Role h) (msg f t l) \<longleftrightarrow> (f = h) \<noteq> (t = h)"
  by (simp add: msg_def hub_event_def)

lemma choice_free_hub:
  assumes "choice_free pid" and "e \<in> set (linear_trace (global_of pid p))"
  shows "hub_event (Role ''O'') e"
  using assms
  by (auto simp: choice_free_def sequential_def mixture_def recursive_def distillation_def
      seq_round_run mix_specialist_run rec_level_run simp flip: msg_def)


lemma registry_admitted: "admitted (global_of pid p)"
  using choice_free_linear[of pid p] linear_admitted deliberation_admitted
    worktree_negotiation_admitted tape_paging_admitted recursive_cf_admitted
  by (cases pid) (simp_all add: choice_free_def)

lemma linear_well_formed:
  assumes g: "linear_global g" and l: "\<forall>e \<in> set (linear_trace g). \<not> reserved (lbl_name (ev_label e))"
  shows "well_formed_in g env = Ok ()"
proof -
  have "alphabet g = map (\<lambda>e. (lbl_name (ev_label e), Neutral)) (linear_trace g)"
    using g by (induction g rule: linear_global.induct) auto
  then have "visible (set (alphabet g))" using l by (auto simp: visible_def)
  moreover have "check_callees g env V d = Ok ()" if "d \<le> MAX_STACK_DEPTH" for V d
    using g that by (induction g rule: linear_global.induct) auto
  ultimately show ?thesis using linear_check[OF g] by (simp add: well_formed_in_Ok_iff check_visibility_iff)
qed

lemma msg_label [simp]: "lbl_name (ev_label (msg f t l)) = l"
  by (simp add: msg_def event_def)

lemma choice_free_well_formed: "choice_free pid \<Longrightarrow> well_formed_in (global_of pid p) env = Ok ()"
  by (rule linear_well_formed[OF choice_free_linear])
    (auto simp: choice_free_def sequential_def mixture_def recursive_def distillation_def
      seq_round_run mix_specialist_run rec_level_run reserved_def starts_with_def simp flip: msg_def)

lemma deliberation_well_formed: "well_formed_in deliberation protocol_env = Ok ()"
  by (simp add: csm_defs well_formed_in_def check_visibility_def starts_with_def MAX_STACK_DEPTH_def)

lemma worktree_negotiation_well_formed: "well_formed_in worktree_negotiation protocol_env = Ok ()"
  by (simp add: csm_defs well_formed_in_def check_visibility_def starts_with_def MAX_STACK_DEPTH_def)

lemma tape_paging_well_formed: "well_formed_in tape_paging protocol_env = Ok ()"
  by (simp add: csm_defs well_formed_in_def check_visibility_def starts_with_def MAX_STACK_DEPTH_def)

lemma recursive_cf_well_formed: "well_formed_in recursive_cf protocol_env = Ok ()"
  by (simp add: recursive_cf_unfold protocol_env_simps well_formed_in_def check_visibility_def starts_with_def
     MAX_STACK_DEPTH_def env_resolve_def)

lemma registry_well_formed: "well_formed_in (global_of pid p) protocol_env = Ok ()"
  using choice_free_well_formed[of pid p] deliberation_well_formed
    worktree_negotiation_well_formed tape_paging_well_formed recursive_cf_well_formed
  by (cases pid) (simp_all add: choice_free_def)

end
