(* ===== verification/Csm_Finite.thy ===== *)
theory Csm_Finite
  imports Csm_Build
begin

text \<open>
  A protocol without calls and boxes compiles to machines without boundary edges, on which the
  silent closure returns at once: replay returns a verdict and does not panic.
\<close>

fun gframe_free :: "global_type \<Rightarrow> bool"
  and gframe_free_branches :: "global_branch list \<Rightarrow> bool" where
  "gframe_free (Interaction _ _ _ c) \<longleftrightarrow> gframe_free c"
| "gframe_free (Choice _ _ bs) \<longleftrightarrow> gframe_free_branches bs"
| "gframe_free (Rec _ b) \<longleftrightarrow> gframe_free b"
| "gframe_free (Var _) \<longleftrightarrow> True"
| "gframe_free (GlobalCall _ _ _) \<longleftrightarrow> False"
| "gframe_free (GlobalBox _ _ _ _) \<longleftrightarrow> False"
| "gframe_free End \<longleftrightarrow> True"
| "gframe_free_branches [] \<longleftrightarrow> True"
| "gframe_free_branches ((_, c) # bs) \<longleftrightarrow> gframe_free c \<and> gframe_free_branches bs"

fun frame_free :: "local_type \<Rightarrow> bool"
  and frame_free_branches :: "local_branch list \<Rightarrow> bool" where
  "frame_free (LSend _ _ c) \<longleftrightarrow> frame_free c"
| "frame_free (LRecv _ _ c) \<longleftrightarrow> frame_free c"
| "frame_free (LSelect _ bs) \<longleftrightarrow> frame_free_branches bs"
| "frame_free (LBranch _ bs) \<longleftrightarrow> frame_free_branches bs"
| "frame_free (LRec _ b) \<longleftrightarrow> frame_free b"
| "frame_free (LVar _) \<longleftrightarrow> True"
| "frame_free (LCall _ _ _) \<longleftrightarrow> False"
| "frame_free (LBox _ _ _ _) \<longleftrightarrow> False"
| "frame_free LEnd \<longleftrightarrow> True"
| "frame_free_branches [] \<longleftrightarrow> True"
| "frame_free_branches ((_, c) # bs) \<longleftrightarrow> frame_free c \<and> frame_free_branches bs"

lemma frame_free_branches_iff: "frame_free_branches bs \<longleftrightarrow> (\<forall>b \<in> set bs. frame_free (snd b))"
  by (induction bs) auto

interpretation frame_free: hereditary "\<lambda>_ :: unit. frame_free" "\<lambda>_ X. X" "\<lambda>_ _ _. False" "\<lambda>_. False"
  by unfold_locales (auto simp: frame_free_branches_iff)

lemma project_frame_free:
  "project g r = Ok t \<Longrightarrow> gframe_free g \<Longrightarrow> frame_free t"
  "project_branches bs r = Ok ps \<Longrightarrow> gframe_free_branches bs \<Longrightarrow> frame_free_branches ps"
  "project_merge acc bs r = Ok t \<Longrightarrow> gframe_free_branches bs \<Longrightarrow> frame_free acc \<Longrightarrow> frame_free t"
proof (induction g r and bs r and acc bs r arbitrary: t and ps and t
    rule: project_project_branches_project_merge.induct)
  case (2 f to bs r)
  then show ?case by (cases bs) (auto split: if_splits)
next
  case (11 acc l c bs r)
  then obtain p acc' where p: "project c r = Ok p" and m: "merge acc p = Ok acc'"
    and rest: "project_merge acc' bs r = Ok t" by auto
  from 11(1)[OF p] 11(2)[OF p m rest] frame_free.merge_keeps(1)[OF m[unfolded merge_Ok_iff]] 11(4-)
  show ?case by auto
qed (auto split: if_splits)

abbreviation internal :: "compiler \<Rightarrow> bool" where
  "internal c \<equiv> \<forall>e \<in> set (c_edges c). e_kind e = Internal"

lemma internal_entry: "entry_or_fresh entry c = (s, c1) \<Longrightarrow> c_edges c1 = c_edges c"
  by (auto simp: entry_or_fresh_def fresh_def split: option.splits)

lemma go_internal:
  "go fuel sc t entry c = Some (Ok (s, c')) \<Longrightarrow> frame_free t \<Longrightarrow> sc_box_exit_labels sc = [] \<Longrightarrow>
    internal c \<Longrightarrow> internal c'"
  "go_branches fuel sc q act bs c = Some (Ok (u, c')) \<Longrightarrow> frame_free_branches bs \<Longrightarrow>
    sc_box_exit_labels sc = [] \<Longrightarrow> internal c \<Longrightarrow> internal c'"
proof (induction t and bs arbitrary: sc entry c s c' and sc q act c c' u rule: local_induct)
  case (LRec x b)
  obtain s1 c1 where e: "entry_or_fresh entry c = (s1, c1)" by fastforce
  with LRec.prems(1) obtain got where
    "go fuel (sc\<lparr>sc_rec_env := (sc_rec_env sc)(x \<mapsto> s1)\<rparr>) b (Some s1) c1 = Some (Ok (got, c'))" by auto
  from LRec.IH[OF this] LRec.prems internal_entry[OF e] show ?case by simp
next
  case (LEnd)
  then show ?case by (auto simp: internal_entry split: prod.splits dest!: internal_entry)
next
  case (LSend p l k)
  obtain s1 c1 where e: "entry_or_fresh entry c = (s1, c1)" by fastforce
  with LSend internal_entry[OF e] show ?case by (fastforce simp: push_edge_def edge_def)
next
  case (LRecv p l k)
  obtain s1 c1 where e: "entry_or_fresh entry c = (s1, c1)" by fastforce
  with LRecv internal_entry[OF e] show ?case by (fastforce simp: push_edge_def edge_def)
next
  case (LSelect p bs)
  obtain s1 c1 where e: "entry_or_fresh entry c = (s1, c1)" by fastforce
  with LSelect internal_entry[OF e] show ?case by auto
next
  case (LBranch p bs)
  obtain s1 c1 where e: "entry_or_fresh entry c = (s1, c1)" by fastforce
  with LBranch internal_entry[OF e] show ?case by auto
next
  case (Cons l k bs)
  then obtain t c1 where k: "go fuel sc k None c = Some (Ok (t, c1))"
    and bs: "go_branches fuel sc q act bs (push_edge (edge q (act l) t Internal) c1) = Some (Ok (u, c'))"
    by (auto split: prod.splits)
  have "internal c1" using Cons.IH(1)[OF k] Cons.prems by simp
  with Cons.IH(2)[OF bs] Cons.prems show ?case by (simp add: push_edge_def edge_def)
qed (auto split: option.splits)

lemma compile_frame_free:
  assumes "compile_in r t env = Some (Ok m)" "frame_free t"
  shows "boundary m s = None"
proof -
  obtain s0 c where "go (compile_fuel t env)
      \<lparr>sc_role = r, sc_penv = env, sc_rec_env = Map.empty, sc_box_exit_labels = []\<rparr> t None empty_compiler = Some (Ok (s0, c))"
    and m: "m_edges m = c_edges c" using assms(1) by (auto simp: compile_in_def)
  from go_internal(1)[OF this(1) assms(2)] m show ?thesis
    by (auto simp: empty_compiler_def boundary_def edges_from_def find_None_iff)
qed

text \<open>A computation that returns and does not panic.\<close>

definition settles :: "('e, 'a) outcome option \<Rightarrow> bool" where
  "settles x \<longleftrightarrow> (\<exists>v. x = Some (Ok v)) \<or> (\<exists>e. x = Some (Err e))"

lemma settles_simps [simp]: "settles (Some (Ok v))" "settles (Some (Err e))" "\<not> settles None" "\<not> settles (Some (Panic s))"
  by (simp_all add: settles_def)

lemma settles_bind:
  "settles x \<Longrightarrow> (\<And>v. x = Some (Ok v) \<Longrightarrow> settles (f v)) \<Longrightarrow> settles (and_then_opt x f)"
  by (auto simp: settles_def)

lemma settles_map_err [simp]: "settles (map_option (map_err h) x) \<longleftrightarrow> settles x"
proof (cases x)
  case (Some y)
  then show ?thesis by (cases y) simp_all
qed simp

lemma advance_settles:
  assumes "\<And>s. boundary m s = None"
  shows "settles (advance_role m c a h)"
proof -
  have "epsilon_close m s st = Some (Ok \<lparr>rc_state = s, rc_stack = st\<rparr>)" for s st
    using close_resting[of m "\<lparr>rc_state = s, rc_stack = st\<rparr>"] assms by simp
  moreover have "check_edges es q a h \<noteq> Panic p" for es q p
    by (induction es) (auto split: action.splits option.splits)
  ultimately show ?thesis
    by (cases "check_step m (rc_state c) a h") (auto simp: advance_role_def check_step_def settles_def)
qed

lemma step_role_settles:
  assumes "tracks net cfgs" "\<And>r m s. nw_machine net r = Some m \<Longrightarrow> boundary m s = None"
  shows "settles (step_role net ord r a h cfgs)"
proof (cases "nw_machine net r")
  case (Some m)
  then obtain c where "map_of cfgs r = Some c" using tracks_dom[OF assms(1), of r] by auto
  with Some assms(2)[OF Some] show ?thesis
    by (auto simp: step_role_def intro!: settles_bind advance_settles)
qed (simp add: step_role_def)

lemma replay_events_settles:
  assumes "\<And>r m s. nw_machine net r = Some m \<Longrightarrow> boundary m s = None"
  shows "tracks net cfgs \<Longrightarrow> settles (replay_events net ord tr cfgs)"
proof (induction tr arbitrary: ord cfgs)
  case (Cons ev tr)
  have keep: "tracks net c'" if "tracks net c" "step_role net ord r a h c = Some (Ok c')" for r a h c c'
    using that by (auto simp: step_role_Ok_iff intro: tracks_set_config)
  have go: "settles (step_role net ord r a h c)" if "tracks net c" for r a h c
    by (rule step_role_settles[OF that assms])
  show ?case unfolding replay_events.simps
    by (intro settles_bind go Cons.IH Cons.prems) (use keep Cons.prems in blast)+
qed simp

lemma frame_free_replay_settles:
  assumes net: "build_in name g env = Some (Ok net)" and g: "gframe_free g"
  shows "settles (check_conformance net tr)"
proof -
  note b = build_in_OkD[OF net]
  have flat: "boundary m s = None" if "nw_machine net r = Some m" for r m s
    using b(3)[OF that] project_frame_free(1)[OF _ g] compile_frame_free by blast
  have "\<exists>cfgs. init_configs (nw_machines net) = Some (Ok cfgs)"
  proof (rule init_configs_possible, rule ballI)
    fix e assume "e \<in> set (nw_machines net)"
    then have "nw_machine net (fst e) = Some (snd e)" using b(2) by (simp add: nw_machine_def)
    from flat[OF this] show "\<exists>c. epsilon_close (snd e) (m_initial (snd e)) [] = Some (Ok c)"
      using close_resting[of "snd e" "\<lparr>rc_state = m_initial (snd e), rc_stack = []\<rparr>"] by auto
  qed
  then obtain cfgs where init: "init_configs (nw_machines net) = Some (Ok cfgs)" ..
  note tr = init_configs_tracks(1)[OF init b(2)]
  have "settles (Some (check_final net cs))" if "tracks net c" "set cs \<subseteq> set c" for cs c
    using that(2)
  proof (induction cs)
    case (Cons e cs)
    then have "nw_machine net (fst e) \<noteq> None"
      using tracks_dom[OF that(1), of "fst e"] by (cases e) (auto simp: map_of_eq_None_iff image_iff)
    with Cons show ?case by (cases e) auto
  qed simp
  moreover have "tracks net c" if "replay_events net 0 tr cfgs = Some (Ok c)" for c
    using replay_events_runs[OF that tr] by (simp add: runs_share_def)
  ultimately show ?thesis
    using replay_events_settles[OF flat tr] 
    by (auto simp: check_conformance_def replay_to_configs_def init intro!: settles_bind)
qed

end
