(* ===== verification/Csm_Driver.thy ===== *)
theory Csm_Driver
  imports Complex_Main Csm_Protocols Csm_Finite
begin

text \<open>
  The users of conformance: the error messages, the trajectory encoding (\<open>src/csm/trajectory.rs\<close>),
  the validation of recorded runs and coordination threads (\<open>src/csm/validate.rs\<close>) and the protocol
  driver (\<open>src/csm/driver.rs\<close>). The lemmas say which transcripts are reported conformant and that
  the plan of a choice-free pattern is its one run.
\<close>

section \<open>Error messages\<close>

definition utf8_meet :: string where "utf8_meet = [CHR 0xE2, CHR 0x8A, CHR 0x93]"
definition utf8_dash :: string where "utf8_dash = [CHR 0xE2, CHR 0x80, CHR 0x94]"

fun projection_error_message :: "projection_error \<Rightarrow> string" where
  "projection_error_message (Unmergeable left right) =
     ''cannot merge projections: '' @ left @ ''  '' @ utf8_meet @ ''  '' @ right"
| "projection_error_message (UnresolvedCallee name) =
     ''cannot compile call: sub-protocol '' @ quote name @ '' is not in the environment''"

fun step_error_message :: "step_error \<Rightarrow> string" where
  "step_error_message (NoEdge state) = ''no legal action from state '' @ decimal state"
| "step_error_message (RecvNotHead expected head) =
     ''receive expected '' @ quote expected @ '' but channel head is '' @ quote head"

fun conformance_error_message :: "conformance_error \<Rightarrow> string" where
  "conformance_error_message (UnknownRole role ord) =
     ''event '' @ decimal ord @ '' names unknown role '' @ quote role"
| "conformance_error_message (StepFailed ord role err) =
     ''event '' @ decimal ord @ '': role '' @ quote role @ '': '' @ step_error_message err"
| "conformance_error_message (Incomplete role state) =
     ''run incomplete: role '' @ quote role @ '' stalled at non-terminal state '' @ decimal state"
| "conformance_error_message (Unbalanced role depth) =
     ''run unbalanced: role '' @ quote role @ '' ended with '' @ decimal depth @
     '' unreturned call frame(s) (or popped an empty stack) '' @ utf8_dash @
     '' the run is not well-nested''"
| "conformance_error_message (DepthExceeded role ord) =
     ''event '' @ decimal ord @ '': role '' @ quote role @ '' would push past MAX_STACK_DEPTH='' @
     decimal MAX_STACK_DEPTH @ '' (call nesting exceeds the bound)''"

section \<open>Encoded series\<close>

text \<open>The trajectory encoding, with \<open>f64\<close> read as the real numbers; the sum of the bytes wraps.\<close>

definition encode_event :: "event \<Rightarrow> real" where
  "encode_event e =
     (let dir = (if role_str (ev_from e) = ''O'' then 2 else 4);
          name = lbl_name (ev_label e);
          fp = real (sum_list (map of_char name) mod 2 ^ 32 mod 97) * 0.02
      in dir + fp + ln (1 + real (length name)) * 0.1)"

definition encoded_series :: "event list \<Rightarrow> real list" where
  "encoded_series trace = map encode_event trace"

section \<open>The verdict on a run\<close>

text \<open>
  The build-and-check step \<open>prepare_validation\<close>, \<open>validate_coordination\<close> and \<open>driver_report\<close> share:
  \<open>None\<close> where the replay does not return.
\<close>

definition conformance_verdict ::
  "network \<Rightarrow> event list \<Rightarrow> (string, bool \<times> string option) outcome option" where
  "conformance_verdict net trace =
     (case check_conformance net trace of
        None \<Rightarrow> None
      | Some (Ok _) \<Rightarrow> Some (Ok (True, None))
      | Some (Err e) \<Rightarrow> Some (Ok (False, Some (conformance_error_message e)))
      | Some (Panic s) \<Rightarrow> Some (Panic s))"

text \<open>
  \<open>prepare_validation\<close>: the two database reads are arguments (\<open>read_run\<close> and
  \<open>find_trajectory_for_task\<close>, each with its error string).
\<close>

record ready =
  rd_protocol :: protocol_id
  rd_conformant :: bool
  rd_conformance_error :: "string option"
  rd_trace :: "event list"
  rd_encoded :: "real list"
  rd_trajectory_id :: "int option"
  rd_n_turns :: nat

datatype prepared = NotFound | Skip "protocol_id option" string | Ready ready

definition no_trajectory :: string where
  "no_trajectory = ''no RLM trajectory recorded for this recursive task''"

definition no_transcript :: string where
  "no_transcript = ''no csm_transcript recorded on this task (predates transcript capture, or recording failed)''"

definition finish_validation ::
  "protocol_id \<Rightarrow> nat \<Rightarrow> global_type \<Rightarrow> event list \<Rightarrow> real list \<Rightarrow> int option
    \<Rightarrow> (string, prepared) outcome option" where
  "finish_validation pid n_turns g trace encoded trajectory_id =
     and_then_opt
       (map_option (map_err (\<lambda>e. ''projection failed: '' @ projection_error_message e))
         (build_in (protocol_name pid) g protocol_env)) (\<lambda>net.
       and_then_opt (conformance_verdict net trace) (\<lambda>(conformant, err).
         Some (Ok (Ready \<lparr>rd_protocol = pid, rd_conformant = conformant, rd_conformance_error = err,
           rd_trace = trace, rd_encoded = encoded, rd_trajectory_id = trajectory_id,
           rd_n_turns = n_turns\<rparr>))))"

definition prepare_validation ::
  "(string, (string option \<times> transcript_turn list) option) outcome
    \<Rightarrow> (string, (int \<times> int \<times> real list) option) outcome \<Rightarrow> (string, prepared) outcome option" where
  "prepare_validation read_run find_trajectory =
     and_then_opt (Some (map_err (\<lambda>e. ''read_run failed: '' @ e) read_run)) (\<lambda>run.
       case run of
         None \<Rightarrow> Some (Ok NotFound)
       | Some (skill, turns) \<Rightarrow>
           let skill = unwrap_or [] skill in
           (case protocol_from_skill_id skill of
              None \<Rightarrow> Some (Ok (Skip None
                (''skill '' @ quote skill @ '' is not an a2a_pattern_* run'')))
            | Some pid \<Rightarrow>
                if pid = Recursive then
                  and_then_opt (Some (map_err (\<lambda>e. ''trajectory lookup failed: '' @ e) find_trajectory))
                    (\<lambda>tr. case tr of
                       None \<Rightarrow> Some (Ok (Skip (Some pid) no_trajectory))
                     | Some (tid, subcalls, rlm_series) \<Rightarrow>
                         let depth = nat (max subcalls 0);
                             g = global_of Recursive (default_params\<lparr>rlm_depth := depth\<rparr>);
                             synth = replicate depth
                               \<lparr>tt_round = 0, tt_role = ''Sub'', tt_converged = False\<rparr>;
                             trace = lift_transcript Recursive synth;
                             encoded = (if rlm_series = [] then encoded_series trace else rlm_series)
                         in finish_validation pid (length turns) g trace encoded (Some tid))
                else if turns = [] then Some (Ok (Skip (Some pid) no_transcript))
                else let g = global_of pid default_params; trace = lift_transcript pid turns
                  in finish_validation pid (length turns) g trace (encoded_series trace) None))"

text \<open>
  \<open>validate_coordination\<close> after its two queries: \<open>row\<close> is the \<open>coordination_requests\<close> row and
  \<open>kinds\<close> the kinds of the messages of the thread, in time order.
\<close>

definition signed_decimal :: "int \<Rightarrow> string" where
  "signed_decimal i = (if i < 0 then ''-'' @ decimal (nat (- i)) else decimal (nat i))"

record coordination_verdict =
  cv_coordination_id :: int
  cv_status :: string
  cv_n_turns :: nat
  cv_conformant :: bool
  cv_conformance_error :: "string option"
  cv_trace :: "event list"

definition coordination_turns :: "string list \<Rightarrow> transcript_turn list" where
  "coordination_turns kinds =
     map (\<lambda>k. \<lparr>tt_round = 0, tt_role = k, tt_converged = False\<rparr>)
       (filter (\<lambda>k. k \<in> set [''request_worktree'', ''accept'', ''decline'', ''moved'']) kinds)"

definition validate_coordination ::
  "int \<Rightarrow> (string, (int option \<times> string) option) outcome \<Rightarrow> (string, string list) outcome
    \<Rightarrow> (string, coordination_verdict) outcome option" where
  "validate_coordination coordination_id row thread =
     and_then_opt (Some (map_err (\<lambda>e. ''read coordination failed: '' @ e) row)) (\<lambda>r.
       case r of
         None \<Rightarrow> Some (Err (''coordination #'' @ signed_decimal coordination_id @ '' not found''))
       | Some (message_id, status) \<Rightarrow>
           and_then_opt (Some (case message_id of
               Some _ \<Rightarrow> map_err (\<lambda>e. ''read thread failed: '' @ e) thread
             | None \<Rightarrow> Ok [])) (\<lambda>kinds.
             let turns = coordination_turns kinds;
                 trace = lift_transcript WorktreeNegotiation turns in
             and_then_opt
               (map_option (map_err (\<lambda>e. ''projection failed: '' @ projection_error_message e))
                 (build_in (protocol_name WorktreeNegotiation)
                   (global_of WorktreeNegotiation default_params) protocol_env)) (\<lambda>net.
               and_then_opt (conformance_verdict net trace) (\<lambda>(conformant, err).
                 Some (Ok \<lparr>cv_coordination_id = coordination_id, cv_status = status,
                   cv_n_turns = length turns, cv_conformant = conformant,
                   cv_conformance_error = err, cv_trace = trace\<rparr>)))))"

section \<open>The protocol driver\<close>

record planned_step =
  ps_peer :: role
  ps_request :: label
  ps_response :: label

text \<open>
  One iteration of the loop of \<open>plan\<close> at a state that is not terminal, which is also the body of
  \<open>next_step_from\<close>: the planned step and the state after it.
\<close>

definition step_at :: "local_machine \<Rightarrow> nat \<Rightarrow> (planned_step \<times> nat) option" where
  "step_at m state =
     (case edges_from m state of
        [send] \<Rightarrow>
          if e_kind send \<noteq> Internal then None
          else (case e_action send of
              Recv _ _ \<Rightarrow> None
            | Send peer request \<Rightarrow>
                (case edges_from m (e_to send) of
                   [recv] \<Rightarrow>
                     if e_kind recv \<noteq> Internal then None
                     else (case e_action recv of
                         Recv from response \<Rightarrow>
                           if from = peer then
                             Some (\<lparr>ps_peer = peer, ps_request = request, ps_response = response\<rparr>,
                               e_to recv)
                           else None
                       | Send _ _ \<Rightarrow> None)
                 | _ \<Rightarrow> None))
      | _ \<Rightarrow> None)"

text \<open>The bounded loop of \<open>plan\<close>; the first argument counts the iterations left.\<close>

fun plan_loop :: "nat \<Rightarrow> local_machine \<Rightarrow> nat \<Rightarrow> planned_step list \<Rightarrow> planned_step list option" where
  "plan_loop 0 m state steps = None"
| "plan_loop (Suc n) m state steps =
     (if is_terminal m state then Some steps
      else case step_at m state of
        None \<Rightarrow> None
      | Some (st, state') \<Rightarrow> plan_loop n m state' (steps @ [st]))"

definition plan :: "network \<Rightarrow> role \<Rightarrow> planned_step list option" where
  "plan net orchestrator =
     (case nw_machine net orchestrator of
        None \<Rightarrow> None
      | Some m \<Rightarrow> plan_loop (length (m_edges m) + 2) m (m_initial m) [])"

definition next_step_from :: "network \<Rightarrow> role \<Rightarrow> nat \<Rightarrow> planned_step option" where
  "next_step_from net orchestrator state =
     (case nw_machine net orchestrator of
        None \<Rightarrow> None
      | Some m \<Rightarrow>
          if is_terminal m state then None else map_option fst (step_at m state))"

definition plan_trace :: "role \<Rightarrow> planned_step list \<Rightarrow> event list" where
  "plan_trace orchestrator steps = concat (map (\<lambda>s.
     [event orchestrator (ps_peer s) (ps_request s), event (ps_peer s) orchestrator (ps_response s)])
     steps)"

datatype report_block = Inert | Report string bool "string option"

definition driver_report ::
  "protocol_id \<Rightarrow> transcript_entry list \<Rightarrow> bool \<Rightarrow> (string, report_block) outcome option" where
  "driver_report pattern transcript interpreter_on =
     (if \<not> interpreter_on then Some (Ok Inert)
      else let turns = transcript_to_turns transcript; g = global_of pattern default_params in
        (case build_in (protocol_name pattern) g protocol_env of
           None \<Rightarrow> None
         | Some (Panic s) \<Rightarrow> Some (Panic s)
         | Some (Err e) \<Rightarrow>
             Some (Ok (Report (protocol_name pattern) False (Some (projection_error_message e))))
         | Some (Ok net) \<Rightarrow>
             and_then_opt (conformance_verdict net (lift_transcript pattern turns))
               (\<lambda>(conformant, err). Some (Ok (Report (protocol_name pattern) conformant err)))))"

section \<open>Verdicts on recorded runs\<close>

lemma count_from: "[Suc k ..< Suc (Suc (k + n))] = Suc k # [Suc (Suc k) ..< Suc (Suc (k + n))]"
  by (rule upt_conv_Cons) simp

lemma lift_recursive_run:
  "lift_recursive k turns = concat (map (\<lambda>j. [msg ''O'' (''Sub'' @ decimal j) ''subcall'',
     msg (''Sub'' @ decimal j) ''O'' ''subresult'']) [k + 1 ..< k + length turns + 1])"
proof (induction turns arbitrary: k)
  case (Cons t ts)
  from Cons[of "k + 1"] show ?case
    by (simp add: Let_def count_from del: upt_Suc)
qed simp

lemma recursive_lift_iff:
  "lift_transcript Recursive turns = linear_trace (global_of Recursive p) \<longleftrightarrow> length turns = rlm_depth p"
proof
  have len: "length (concat (map (\<lambda>j. [f j, g j]) xs)) = 2 * length xs" for f g :: "nat \<Rightarrow> event" and xs
    by (induction xs) auto
  assume "lift_transcript Recursive turns = linear_trace (global_of Recursive p)"
  from arg_cong[where f = length, OF this] show "length turns = rlm_depth p"
    by (simp add: lift_recursive_run recursive_def rec_level_run len del: upt_Suc)
qed (simp add: lift_recursive_run recursive_def rec_level_run)

text \<open>The turns of one round of the sequential pattern, and of a mixture.\<close>

definition sequential_round :: "transcript_turn list \<Rightarrow> bool" where
  "sequential_round ts \<longleftrightarrow> map (\<lambda>t. to_lowercase (tt_role t)) ts = [''planner'', ''critic'', ''solver'']"

definition specialist_turn :: "transcript_turn \<Rightarrow> bool" where
  "specialist_turn t \<longleftrightarrow> \<not> str_contains (to_lowercase (tt_role t)) ''summ''"

lemma sequential_lift:
  "\<forall>ts \<in> set rs. sequential_round ts \<Longrightarrow> length rs = max (recursion_rounds p) 1 \<Longrightarrow>
    lift_transcript Sequential (concat rs) = linear_trace (global_of Sequential p)"
proof -
  let ?round = "[msg ''O'' ''P'' ''plan_req'', msg ''P'' ''O'' ''plan'', msg ''O'' ''C'' ''critique_req'',
      msg ''C'' ''O'' ''critique'', msg ''O'' ''S'' ''solve_req'', msg ''S'' ''O'' ''solution'']"
  have one: "concat (map lift_sequential ts) = ?round" if "sequential_round ts" for ts
    using that by (auto simp: sequential_round_def map_eq_Cons_conv lift_sequential_def)
  assume rs: "\<forall>ts \<in> set rs. sequential_round ts" and len: "length rs = max (recursion_rounds p) 1"
  from rs have "concat (map lift_sequential (concat rs)) = concat (replicate (length rs) ?round)"
    by (induction rs) (simp_all add: one)
  with len show ?thesis by (simp add: sequential_def seq_round_run)
qed

lemma mixture_lift_specialists:
  "\<forall>t \<in> set ts. specialist_turn t \<Longrightarrow> lift_mixture k (ts @ us) =
    concat (map (\<lambda>j. [msg ''O'' (''Sp'' @ decimal j) ''query'', msg (''Sp'' @ decimal j) ''O'' ''answer''])
      [k + 1 ..< k + length ts + 1]) @ lift_mixture (k + length ts) us"
proof (induction ts arbitrary: k)
  case (Cons t ts)
  with Cons.IH[of "k + 1"] show ?case
    by (simp add: Let_def specialist_turn_def count_from del: upt_Suc)
qed simp

lemma mixture_lift:
  "\<forall>t \<in> set ts. specialist_turn t \<Longrightarrow> \<not> specialist_turn u \<Longrightarrow> length ts = min (max (n_specialists p) 1) 8 \<Longrightarrow>
    lift_transcript Mixture (ts @ [u]) = linear_trace (global_of Mixture p)"
  using mixture_lift_specialists[of ts 0 "[u]"]
  by (simp add: mixture_def mix_specialist_run specialist_turn_def)

lemma built_network:
  obtains net where "build_in (protocol_name pid) (global_of pid p) protocol_env = Some (Ok net)"
  using admitted_builds[OF registry_admitted] by blast

lemma choice_free_conformance_iff:
  assumes "choice_free pid" "build_in name (global_of pid p) protocol_env = Some (Ok net)"
  shows "check_conformance net tr = Some (Ok ()) \<longleftrightarrow> tr = linear_trace (global_of pid p)"
  using assms choice_free_linear choice_free_hub by (intro hub_conformance_iff) auto

lemma admitted_run_conforms:
  assumes "admitted g" "build_in name g protocol_env = Some (Ok net)" "gtrace protocol_env MAX_STACK_DEPTH [] g tr"
  shows "check_conformance net tr = Some (Ok ())"
  using assms network_accepts_runs by (auto simp: admitted_def)

text \<open>The pushdown pattern: a run of \<open>recursive_cf\<close> that nests \<open>d\<close> calls.\<close>

fun cf_run :: "nat \<Rightarrow> event list" where
  "cf_run 0 = [msg ''O'' ''Sub'' ''subcall'', msg ''O'' ''Sub'' ''leaf'', msg ''Sub'' ''O'' ''subresult'']"
| "cf_run (Suc d) = [msg ''O'' ''Sub'' ''subcall'', msg ''O'' ''Sub'' ''recurse''] @ cf_run d @
     [msg ''Sub'' ''O'' ''subresult'']"

lemma lift_recursive_cf_run: "lift_recursive_cf turns = cf_run (max (length turns) 1 - 1)"
proof -
  have "cf_run d = concat (replicate d [msg ''O'' ''Sub'' ''subcall'', msg ''O'' ''Sub'' ''recurse'']) @
      [msg ''O'' ''Sub'' ''subcall'', msg ''O'' ''Sub'' ''leaf'', msg ''Sub'' ''O'' ''subresult''] @
      replicate d (msg ''Sub'' ''O'' ''subresult'')" for d
    by (induction d) (simp_all add: replicate_append_same)
  then show ?thesis by (simp add: lift_recursive_cf_def Let_def)
qed

lemma cf_run_gtrace: "d \<le> n \<Longrightarrow> gtrace protocol_env n [] recursive_cf (cf_run d)"
proof (induction d arbitrary: n)
  case 0
  show ?case unfolding recursive_cf_unfold cf_run.simps msg_def
    by (intro gtrace.Interaction gtrace.End
        gtrace.Choice[of _ "Interaction (Role ''Sub'') (Role ''O'') (label_text ''subresult'') End"]) simp
next
  case (Suc d)
  then obtain k where n: "n = Suc k" and k: "d \<le> k" by (cases n) auto
  let ?s = "[(Role ''O'', Role ''O''), (Role ''Sub'', Role ''Sub'')]"
  have "gtrace protocol_env (Suc k) [] (GlobalCall \<lparr>ref_name = ''recursive_cf''\<rparr> ?s
      (Interaction (Role ''Sub'') (Role ''O'') (label_text ''subresult'') End))
      (map (rename_event ?s) (cf_run d) @ [msg ''Sub'' ''O'' ''subresult''])"
    using Suc.IH[OF k] unfolding msg_def
    by (intro gtrace.Call[where b = recursive_cf] gtrace.Interaction gtrace.End)
      (simp_all add: protocol_env_simps)
  moreover have "map (rename_event ?s) (cf_run d) = cf_run d"
    by (rule map_idI) (simp add: rename_identity)
  ultimately show ?case
    unfolding n by (subst recursive_cf_unfold)
      (auto simp: msg_def intro!: gtrace.Interaction gtrace.Choice[of "label_text ''recurse''"])
qed

section \<open>Plans\<close>

text \<open>Request/response chains driven by one role, globally and in its projection.\<close>

fun rpc_chain :: "role \<Rightarrow> global_type \<Rightarrow> bool" where
  "rpc_chain hub (Interaction f t l (Interaction f' t' l' c)) \<longleftrightarrow>
     f = hub \<and> t \<noteq> hub \<and> f' = t \<and> t' = hub \<and> rpc_chain hub c"
| "rpc_chain hub End \<longleftrightarrow> True"
| "rpc_chain hub _ \<longleftrightarrow> False"

fun rpc_steps :: "local_type \<Rightarrow> planned_step list option" where
  "rpc_steps (LSend p l (LRecv q l' c)) =
     (if p = q then map_option (Cons \<lparr>ps_peer = p, ps_request = l, ps_response = l'\<rparr>) (rpc_steps c) else None)"
| "rpc_steps LEnd = Some []"
| "rpc_steps _ = None"

lemma rpc_project:
  "rpc_chain hub g \<Longrightarrow> project g hub = Ok t \<Longrightarrow>
    \<exists>ss. rpc_steps t = Some ss \<and> plan_trace hub ss = linear_trace g"
proof (induction hub g arbitrary: t rule: rpc_chain.induct)
  case (1 hub f to l f' t' l' c)
  then obtain t1 where t1: "project c hub = Ok t1" "t = LSend to l (LRecv to l' t1)"
    by (auto split: if_splits)
  with 1 obtain ss where "rpc_steps t1 = Some ss" "plan_trace hub ss = linear_trace c" by auto
  with 1(2) t1(2) show ?case by (auto simp: plan_trace_def)
qed (auto simp: plan_trace_def)

lemma rpc_steps_actions: "rpc_steps t = Some ss \<Longrightarrow> local_linear t \<and> length (local_actions t) = 2 * length ss"
  by (induction t arbitrary: ss rule: rpc_steps.induct) (auto split: if_splits)

lemma local_linear_edges:
  "local_linear t \<Longrightarrow> go fuel sc t entry c = Some (Ok (s, c')) \<Longrightarrow>
    length (c_edges c') \<ge> length (c_edges c) + length (local_actions t)"
proof (induction t arbitrary: entry c s c' rule: local_linear.induct)
  case (1 p l k)
  obtain s1 c1 where e: "entry_or_fresh entry c = (s1, c1)" by fastforce
  then have "c_edges c1 = c_edges c" by (auto simp: entry_or_fresh_def fresh_def split: option.splits)
  with 1 e show ?case by (fastforce simp: push_edge_def)
next
  case (2 p l k)
  obtain s1 c1 where e: "entry_or_fresh entry c = (s1, c1)" by fastforce
  then have "c_edges c1 = c_edges c" by (auto simp: entry_or_fresh_def fresh_def split: option.splits)
  with 2 e show ?case by (fastforce simp: push_edge_def)
qed (auto simp: push_edge_def entry_or_fresh_def fresh_def split: prod.splits list.splits option.splits)

lemma plan_loop_rpc:
  "mrep m memo \<rho> False s t \<Longrightarrow> rpc_steps t = Some ss \<Longrightarrow> length ss < n \<Longrightarrow>
    plan_loop n m s acc = Some (acc @ ss)"
proof (induction t arbitrary: s ss n acc rule: rpc_steps.induct)
  case (1 p l q l' c)
  then obtain s1 s2 ss' where e: "edges_from m s = [edge s (Send p l) s1 Internal]" "s \<notin> m_terminals m"
      "edges_from m s1 = [edge s1 (Recv p l') s2 Internal]" "mrep m memo \<rho> False s2 c"
    and ss: "rpc_steps c = Some ss'" "ss = \<lparr>ps_peer = p, ps_request = l, ps_response = l'\<rparr> # ss'" "p = q"
    by (auto split: if_splits)
  obtain k where n: "n = Suc k" "length ss' < k" using 1(4) ss(2) by (cases n) auto
  from 1(1)[OF ss(3) e(4) ss(1) n(2)] e n ss(2) show ?case
    by (simp add: is_terminal_def step_at_def)
next
  case 2
  then show ?case by (cases n) (auto simp: is_terminal_def)
qed simp_all

lemma rpc_plan:
  assumes g: "linear_global g" "rpc_chain hub g" and net: "build_in name g protocol_env = Some (Ok net)"
    and hub: "hub \<in> participants g"
  shows "\<exists>ss. plan net hub = Some ss \<and> plan_trace hub ss = linear_trace g"
proof -
  obtain m where m: "nw_machine net hub = Some m" using build_in_OkD(4)[OF net, of hub] hub by auto
  obtain t where t: "project g hub = Ok t" "compile_in hub t protocol_env = Some (Ok m)"
    using build_in_OkD(3)[OF net m] by blast
  obtain ss where ss: "rpc_steps t = Some ss" "plan_trace hub ss = linear_trace g"
    using rpc_project[OF g(2) t(1)] by blast
  note lin = rpc_steps_actions[OF ss(1)]
  obtain memo where rep: "mrep m memo Map.empty False (m_initial m) t"
    using compile_in_correct(1)[OF t(2) protocol_env_heads local_linear_heads] lin
    by (auto simp: machine_rep_def)
  have "length (m_edges m) \<ge> length ss"
    using t(2) lin local_linear_edges[of t] by (fastforce simp: compile_in_def)
  with plan_loop_rpc[OF rep ss(1), of "length (m_edges m) + 2" "[]"] m ss(2)
  show ?thesis by (simp add: plan_def)
qed

lemma rpc_interaction [simp]:
  "rpc_chain (Role h) (interaction f t l (interaction f' t' l' c)) \<longleftrightarrow>
     f = h \<and> t \<noteq> h \<and> f' = t \<and> t' = h \<and> rpc_chain (Role h) c"
  by (auto simp: interaction_def)

lemma choice_free_rpc: "choice_free pid \<Longrightarrow> rpc_chain (Role ''O'') (global_of pid p)"
proof -
  have "rpc_chain (Role ''O'') (seq_round k n)" for k n
    by (induction k n rule: seq_round.induct) (subst seq_round.simps, simp)
  moreover have "rpc_chain (Role ''O'') (mix_specialist k n)" for k n
    by (induction k n rule: mix_specialist.induct) (subst mix_specialist.simps, simp add: Let_def)
  moreover have "rpc_chain (Role ''O'') (rec_level k n)" for k n
    by (induction k n rule: rec_level.induct) (subst rec_level.simps, simp add: Let_def)
  ultimately show "choice_free pid \<Longrightarrow> ?thesis"
    by (auto simp: choice_free_def sequential_def mixture_def recursive_def distillation_def)
qed

section \<open>The paging and worktree protocols\<close>

text \<open>The transcripts that are a paging session: verbs (and noise) up to a \<open>done\<close>.\<close>

fun paging_session :: "transcript_turn list \<Rightarrow> bool" where
  "paging_session [] \<longleftrightarrow> False"
| "paging_session (t # ts) \<longleftrightarrow> to_lowercase (tt_role t) = ''done'' \<or> paging_session ts"

definition paging_arms :: "global_branch list" where
  "paging_arms = [looping_arm ''get'' ''got'', looping_arm ''put'' ''put_ack'',
     looping_arm ''page_out'' ''evicted'', looping_arm ''demote'' ''demoted'',
     gbranch (label_text ''done'') End]"

definition paging_body :: global_type where
  "paging_body = Interaction (Role ''O'') (Role ''Tape'') (label_text ''page_in_req'')
     (Interaction (Role ''Tape'') (Role ''O'') (label_text ''page_in_ack'')
       (Choice (Role ''O'') (Role ''Tape'') paging_arms))"

lemma tape_paging_unfold: "tape_paging = Rec ''loop'' paging_body"
  by (simp add: paging_body_def paging_arms_def csm_defs)

lemma paging_pass:
  assumes "(label_text verb, c) \<in> set paging_arms" "gtrace env n \<gamma> c tr"
  shows "gtrace env n \<gamma> paging_body
    (msg ''O'' ''Tape'' ''page_in_req'' # msg ''Tape'' ''O'' ''page_in_ack'' # msg ''O'' ''Tape'' verb # tr)"
  unfolding paging_body_def msg_def by (intro gtrace.Interaction gtrace.Choice[OF assms])

lemma paging_verb:
  assumes "ack_of verb = Some ack" "gtrace env n [(''loop'', paging_body)] paging_body tr"
  shows "gtrace env n [(''loop'', paging_body)] paging_body
    (msg ''O'' ''Tape'' ''page_in_req'' # msg ''Tape'' ''O'' ''page_in_ack'' # msg ''O'' ''Tape'' verb #
     msg ''Tape'' ''O'' ack # tr)"
proof (rule paging_pass)
  show "(label_text verb, Interaction (Role ''Tape'') (Role ''O'') (label_text ack) (Var ''loop'')) \<in> set paging_arms"
    using assms(1) by (auto simp: ack_of_def paging_arms_def csm_defs split: if_splits)
  have "gtrace env n [(''loop'', paging_body)] (Var ''loop'') tr"
    by (rule gtrace.Var[OF _ assms(2)]) simp
  then show "gtrace env n [(''loop'', paging_body)]
      (Interaction (Role ''Tape'') (Role ''O'') (label_text ack) (Var ''loop'')) (msg ''Tape'' ''O'' ack # tr)"
    unfolding msg_def by (rule gtrace.Interaction)
qed

lemma paging_done:
  "gtrace env n \<gamma> paging_body
    [msg ''O'' ''Tape'' ''page_in_req'', msg ''Tape'' ''O'' ''page_in_ack'', msg ''O'' ''Tape'' ''done'']"
  by (rule paging_pass[OF _ gtrace.End]) (simp add: paging_arms_def csm_defs)

lemma ack_of_None: "ack_of v = None \<longleftrightarrow> v \<notin> set [''get'', ''put'', ''page_out'', ''demote'']"
  by (auto simp: ack_of_def)

lemma paging_session_run:
  "paging_session turns \<Longrightarrow> gtrace env n [] tape_paging (lift_tape turns)"
proof -
  assume "paging_session turns"
  then have "gtrace env n [(''loop'', paging_body)] paging_body (lift_tape turns)"
  proof (induction turns)
    case (Cons t ts)
    let ?v = "to_lowercase (tt_role t)"
    show ?case
    proof (cases "?v = ''done''")
      case True
      then show ?thesis using paging_done by (simp add: ack_of_def)
    next
      case False
      then have IH: "gtrace env n [(''loop'', paging_body)] paging_body (lift_tape ts)" using Cons by simp
      show ?thesis
      proof (cases "ack_of ?v")
        case None
        with False IH show ?thesis unfolding ack_of_None by simp
      next
        case (Some ack)
        then have "?v \<in> set [''get'', ''put'', ''page_out'', ''demote'']" using ack_of_None[of ?v] by auto
        with paging_verb[OF Some IH] Some show ?thesis by (auto simp: Let_def)
      qed
    qed
  qed simp
  then show ?thesis unfolding tape_paging_unfold by (rule gtrace.Rec)
qed

text \<open>The three message sequences a coordination thread may hold.\<close>

lemma worktree_runs:
  "gtrace env n [] worktree_negotiation
    [msg ''R'' ''E'' ''request_worktree'', msg ''E'' ''R'' ''accept'', msg ''E'' ''R'' ''moved'']"
  "gtrace env n [] worktree_negotiation [msg ''R'' ''E'' ''request_worktree'', msg ''E'' ''R'' ''decline'']"
  unfolding worktree_negotiation_def choice_def interaction_def gbranch_def msg_def
  by (intro gtrace.Interaction gtrace.End
      gtrace.Choice[of _ "Interaction (Role ''E'') (Role ''R'') (label_text ''moved'') End"], simp)
    (intro gtrace.Interaction gtrace.End gtrace.Choice[of _ End], simp)

section \<open>Deliberation runs are never complete\<close>

lemma last_edge_taken:
  assumes "wruns m c as c'" "\<forall>e \<in> set (m_edges m). e_kind e = Internal" "rc_state c \<noteq> rc_state c'"
  shows "\<exists>e \<in> set (m_edges m). e_to e = rc_state c' \<and> e_action e \<in> set as"
  using assms
proof (induction rule: wruns.induct)
  case (silent c c1 as c')
  have "boundary m s = None" for s
    using silent.prems(1) by (auto simp: boundary_def find_None_iff edges_from_def)
  with silent.hyps(1) show ?case by (auto elim: eps.cases)
next
  case (act c a s as c')
  have "\<exists>e \<in> set es. e_action e = a \<and> e_to e = s" if "check_edges es q a None = Ok s" for es q
    using that by (induction es) (auto split: if_splits action.splits)
  then have "\<exists>e \<in> set (m_edges m). e_action e = a \<and> e_to e = s"
    using act.hyps(2) by (fastforce simp: check_step_def edges_from_def)
  with act show ?case by (cases "s = rc_state c'") auto
qed simp

lemma deliberation_tool_machine:
  assumes "project deliberation (Role ''T'') = Ok t" "compile_in (Role ''T'') t protocol_env = Some (Ok m)"
  shows "(\<forall>e \<in> set (m_edges m). e_kind e = Internal) \<and> m_initial m \<notin> m_terminals m \<and>
    (\<forall>e \<in> set (m_edges m). e_to e \<in> m_terminals m \<longrightarrow> e_action e = Send (Role ''O'') (label_text ''final''))"
proof -
  have "t = LRec ''t'' (LBranch (Role ''O'')
      [(label_text ''act_req'', LSend (Role ''O'') (label_text ''result'') (LVar ''t'')),
       (label_text ''finish'', LSend (Role ''O'') (label_text ''final'') LEnd)])"
    using assms(1) by (simp add: csm_defs merge.simps same_offer_def offer_map_def bt_remove_def)
  with assms(2) show ?thesis
    by (auto simp: compile_in_def empty_compiler_def entry_or_fresh_def fresh_def push_edge_def)
qed

lemma deliberation_lift_labels:
  "e \<in> set (lift_deliberation turns) \<Longrightarrow> lbl_name (ev_label e) \<noteq> ''final''"
  by (induction turns) (auto simp: Let_def split: if_splits)

lemma deliberation_incomplete:
  assumes net: "build_in name deliberation protocol_env = Some (Ok net)"
  shows "check_conformance net (lift_transcript Deliberation turns) \<noteq> Some (Ok ())"
proof
  assume "check_conformance net (lift_transcript Deliberation turns) = Some (Ok ())"
  then have acc: "accepts m (share r (lift_deliberation turns))" if "nw_machine net r = Some m" for r m
    using that by (simp add: conformance_is_local[OF build_in_OkD(2)[OF net]])
  have "Role ''T'' \<in> participants deliberation" by (simp add: csm_defs)
  then obtain m where m: "nw_machine net (Role ''T'') = Some m"
    using build_in_OkD(4)[OF net, of "Role ''T''"] by auto
  then obtain t where t: "project deliberation (Role ''T'') = Ok t" "compile_in (Role ''T'') t protocol_env = Some (Ok m)"
    using build_in_OkD(3)[OF net m] by blast
  note mach = deliberation_tool_machine[OF t]
  from acc[OF m] obtain s where s: "is_terminal m s"
    "wruns m \<lparr>rc_state = m_initial m, rc_stack = []\<rparr> (share (Role ''T'') (lift_deliberation turns)) \<lparr>rc_state = s, rc_stack = []\<rparr>"
    by (auto simp: accepts_iff)
  with last_edge_taken[OF s(2)] mach
  have "Send (Role ''O'') (label_text ''final'') \<in> set (share (Role ''T'') (lift_deliberation turns))"
    by (fastforce simp: is_terminal_def)
  from share_memberD[OF this] obtain e where "e \<in> set (lift_deliberation turns)"
    "ev_label e = label_text ''final''" by auto
  with deliberation_lift_labels[of e turns] show False by simp
qed

text \<open>
  What \<open>driver_report\<close> and \<open>prepare_validation\<close> say of a choice-free pattern: they compare the lifted
  transcript with the one run of the protocol under the parameters they pick.
\<close>

lemma verdict_choice_free:
  assumes "choice_free pid" "build_in name (global_of pid p) protocol_env = Some (Ok net)"
    and "conformance_verdict net tr = Some (Ok (b, err))"
  shows "b \<longleftrightarrow> tr = linear_trace (global_of pid p)"
proof -
  have "(check_conformance net tr = Some (Ok ())) = b"
    using assms(3) by (auto simp: conformance_verdict_def split: option.splits outcome.splits)
  with choice_free_conformance_iff[OF assms(1,2), of tr] show ?thesis by simp
qed

lemma driver_report_choice_free:
  assumes "choice_free pid" "driver_report pid transcript True = Some (Ok (Report n b err))"
  shows "b \<longleftrightarrow> lift_transcript pid (transcript_to_turns transcript) = linear_trace (global_of pid default_params)"
proof -
  let ?tr = "lift_transcript pid (transcript_to_turns transcript)"
  obtain net where net: "build_in (protocol_name pid) (global_of pid default_params) protocol_env = Some (Ok net)"
    by (rule built_network)
  have "\<exists>err. conformance_verdict net ?tr = Some (Ok (b, err))"
    using assms(2) unfolding driver_report_def Let_def net by auto
  with verdict_choice_free[OF assms(1) net] show ?thesis by blast
qed

end
