(* ===== verification/Csm_Results.thy ===== *)
theory Csm_Results
  imports Csm_Driver
begin

text \<open>
  The theorems on the communicating-state-machine layer: completeness and locality of conformance,
  composition and projection, termination and success of building, the verdicts on the recorded runs
  of the registered patterns, and three protocols on which the code does not do what it documents.
\<close>

section \<open>A protocol whose replay does not return\<close>

definition idle_loop :: global_type where
  "idle_loop = Rec ''t'' (GlobalCall \<lparr>ref_name = ''c''\<rparr>
     [(Role ''A'', Role ''A''), (Role ''B'', Role ''B'')] (Var ''t''))"

definition idle_env :: protocol_env where
  "idle_env = env_insert ''c'' End env_new"

definition spinning :: "local_machine \<Rightarrow> bool" where
  "spinning m \<longleftrightarrow> (\<exists>e f. boundary m 0 = Some e \<and> e_kind e = Call 0 \<and> e_to e = 1 \<and>
     boundary m 1 = Some f \<and> e_kind f = Return)"

lemma spinning_diverges: "spinning m \<Longrightarrow> epsilon_close m 0 [] = None"
proof (rule ccontr)
  assume m: "spinning m" and "epsilon_close m 0 [] \<noteq> None"
  then obtain r where r: "epsilon_close m 0 [] = Some r" by auto
  have "\<not> (spinning m' \<and> (s = 0 \<and> st = [] \<or> s = 1 \<and> st = [0]))"
    if "epsilon_close m' s st = Some r" for m' s st
    by (rule epsilon_close.raw_induct[OF _ that])
      (auto simp: spinning_def MAX_STACK_DEPTH_def split: option.splits edge_kind.splits list.splits if_splits, fastforce+)
  with r m show False by blast
qed

lemma idle_machine:
  assumes "project idle_loop r = Ok t" "compile_in r t idle_env = Some (Ok m)" "r \<in> {Role ''A'', Role ''B''}"
  shows "spinning m \<and> m_initial m = 0"
  using assms
  by (auto simp: idle_loop_def idle_env_def env_insert_def env_new_def compile_in_def compile_fuel_def
      empty_compiler_def entry_or_fresh_def fresh_def push_edge_def compile_callee_box.simps env_resolve_def
      spinning_def boundary_def edges_from_def edge_def)

lemma idle_loop_diverges:
  "well_formed_in idle_loop idle_env = Ok ()"
  "\<exists>net. build_in name idle_loop idle_env = Some (Ok net)"
  "build_in name idle_loop idle_env = Some (Ok net) \<Longrightarrow> check_conformance net [] = None"
proof -
  show "well_formed_in idle_loop idle_env = Ok ()"
    by (simp add: idle_loop_def idle_env_def env_insert_def env_new_def well_formed_in_def
        check_visibility_def starts_with_def MAX_STACK_DEPTH_def env_resolve_def less_char_def)
  have parts: "participants idle_loop = {Role ''A'', Role ''B''}" by (auto simp: idle_loop_def)
  have "sound idle_env [] idle_loop" "sound_env idle_env"
    by (auto simp: sound_def sound_env_def idle_loop_def idle_env_def env_insert_def env_new_def)
  moreover have "is_Ok (project idle_loop r) \<and> projectable idle_env r" for r
    by (auto simp: projectable_def idle_loop_def idle_env_def env_insert_def env_new_def)
  ultimately show "\<exists>net. build_in name idle_loop idle_env = Some (Ok net)"
    by (intro build_in_succeeds) auto
  assume net: "build_in name idle_loop idle_env = Some (Ok net)"
  note b = build_in_OkD[OF net]
  have "nw_machines net \<noteq> []" using b(1) parts by (auto split: if_splits)
  then obtain r m ms where ms: "nw_machines net = (r, m) # ms" by (cases "nw_machines net") auto
  then have "nw_machine net r = Some m" by (simp add: nw_machine_def)
  with b(3) parts idle_machine have "spinning m \<and> m_initial m = 0" by blast
  then show "check_conformance net [] = None"
    using ms by (simp add: check_conformance_def replay_to_configs_def spinning_diverges)
qed

section \<open>A recursion under a binder without communication\<close>

text \<open>
  The projection onto \<open>C\<close> of the inner \<open>\<mu>y\<close> is \<open>\<mu>y. x\<close>: the compiler gives the inner binder a state
  of its own, which has no edge and is not terminal.
\<close>

definition nested_rec :: global_type where
  "nested_rec = Rec ''x'' (Choice (Role ''A'') (Role ''C'')
     [(label_text ''go'', Interaction (Role ''A'') (Role ''B'') (label_text ''w'')
        (Rec ''y'' (Interaction (Role ''A'') (Role ''B'') (label_text ''z'') (Var ''x'')))),
      (label_text ''stop'', Interaction (Role ''A'') (Role ''B'') (label_text ''s'') End)])"

definition nested_run :: "event list" where
  "nested_run = [msg ''A'' ''C'' ''go'', msg ''A'' ''B'' ''w'', msg ''A'' ''B'' ''z'',
     msg ''A'' ''C'' ''stop'', msg ''A'' ''B'' ''s'']"

lemma nested_rec_run: "gtrace env n [] nested_rec nested_run"
proof -
  let ?b = "case nested_rec of Rec _ b \<Rightarrow> b | g \<Rightarrow> g"
  have "gtrace env n [(''x'', ?b)] ?b [msg ''A'' ''C'' ''stop'', msg ''A'' ''B'' ''s'']"
    unfolding msg_def
    by (simp add: nested_rec_def, rule gtrace.Choice[of _ "Interaction (Role ''A'') (Role ''B'') (label_text ''s'') End"])
      (auto intro: gtrace.Interaction gtrace.End)
  then have "gtrace env n [(''y'', Interaction (Role ''A'') (Role ''B'') (label_text ''z'') (Var ''x'')), (''x'', ?b)]
      (Var ''x'') [msg ''A'' ''C'' ''stop'', msg ''A'' ''B'' ''s'']"
    by (auto intro: gtrace.Var)
  then show ?thesis
    unfolding nested_run_def msg_def
    by (simp add: nested_rec_def, intro gtrace.Rec,
        intro gtrace.Choice[of _ "Interaction (Role ''A'') (Role ''B'') (label_text ''w'')
          (Rec ''y'' (Interaction (Role ''A'') (Role ''B'') (label_text ''z'') (Var ''x'')))"])
      (auto intro!: gtrace.Interaction gtrace.Rec)
qed

lemma nested_rec_machine:
  assumes "project nested_rec (Role ''C'') = Ok t" "compile_in (Role ''C'') t env = Some (Ok m)"
  shows "boundary m (m_initial m) = None \<and> (\<forall>k. check_step m (m_initial m)
    (Recv (Role ''A'') (label_text ''go'')) None = Ok k \<longrightarrow> edges_from m k = [])"
  using assms
  by (auto simp: nested_rec_def compile_in_def empty_compiler_def entry_or_fresh_def fresh_def push_edge_def
    check_step_def edges_from_def edge_def boundary_def)

lemma stuck_after_first:
  assumes "wruns m c (a # b # as) c'" "boundary m (rc_state c) = None"
    and "\<forall>k. check_step m (rc_state c) a None = Ok k \<longrightarrow> edges_from m k = []"
  shows False
  using assms(1)
proof (cases rule: wruns.cases)
  case (silent c1)
  with assms(2) show False by (auto elim: eps.cases)
next
  case (act k)
  with assms(3) have "edges_from m k = []" by blast
  with act(3) show False
    by (cases rule: wruns.cases) (auto simp: boundary_def check_step_def elim: eps.cases)
qed

lemma nested_rec_rejected:
  "well_formed nested_rec = Ok ()"
  "\<exists>net. build_in name nested_rec protocol_env = Some (Ok net)"
  "build_in name nested_rec protocol_env = Some (Ok net) \<Longrightarrow> check_conformance net nested_run \<noteq> Some (Ok ())"
proof -
  show "well_formed nested_rec = Ok ()"
    by (simp add: nested_rec_def well_formed_def well_formed_in_def
        check_visibility_def starts_with_def MAX_STACK_DEPTH_def env_new_def)
  have parts: "participants nested_rec = {Role ''A'', Role ''B'', Role ''C''}" by (auto simp: nested_rec_def)
  have "inj_on lbl_name (glabels nested_rec)" by (rule text_labels_inj) (simp add: nested_rec_def)
  then have "sound protocol_env [] nested_rec" by (simp add: sound_def nested_rec_def)
  moreover have "\<forall>r \<in> participants nested_rec. is_Ok (project nested_rec r)"
    unfolding parts by (simp add: nested_rec_def merge.simps same_offer_def offer_map_def bt_remove_def)
  ultimately show "\<exists>net. build_in name nested_rec protocol_env = Some (Ok net)"
    using protocol_env_sound protocol_env_projectable by (intro build_in_succeeds) auto
  assume net: "build_in name nested_rec protocol_env = Some (Ok net)"
  note b = build_in_OkD[OF net]
  obtain m where m: "nw_machine net (Role ''C'') = Some m" using b(4)[of "Role ''C''"] parts by auto
  then obtain t where t: "project nested_rec (Role ''C'') = Ok t" "compile_in (Role ''C'') t protocol_env = Some (Ok m)"
    using b(3)[OF m] by blast
  have "\<not> accepts m (share (Role ''C'') nested_run)"
    using stuck_after_first[of m] nested_rec_machine[OF t]
    by (fastforce simp: accepts_iff nested_run_def msg_def event_share_def)
  with m show "check_conformance net nested_run \<noteq> Some (Ok ())"
    by (auto simp: conformance_is_local[OF b(2)])
qed

lemma linear_frame_free: "linear_global g \<Longrightarrow> gframe_free g"
  by (induction g rule: linear_global.induct) auto

definition two_rounds :: "transcript_entry list" where
  "two_rounds = [\<lparr>te_role = Some ''Planner'', te_round = Some 1, te_output = Some ''p''\<rparr>,
     \<lparr>te_role = Some ''Critic'', te_round = Some 1, te_output = Some ''c''\<rparr>,
     \<lparr>te_role = Some ''Solver'', te_round = Some 1, te_output = Some ''s''\<rparr>,
     \<lparr>te_role = Some ''Planner'', te_round = Some 2, te_output = Some ''p''\<rparr>,
     \<lparr>te_role = Some ''Critic'', te_round = Some 2, te_output = Some ''c''\<rparr>,
     \<lparr>te_role = Some ''Solver'', te_round = Some 2, te_output = Some ''s''\<rparr>]"

lemma verdict_settles:
  assumes "settles (check_conformance net tr)"
  shows "\<exists>b err. conformance_verdict net tr = Some (Ok (b, err))"
  using assms by (auto simp: settles_def conformance_verdict_def)

section \<open>Conformance is complete\<close>

text \<open>
  C3: replay is complete. In the supported fragment (every type checked, one label per name, calls
  that rename no role, heads the compiler starts in their own state) the network built from a global
  type accepts every complete run of the type that nests at most \<open>MAX_STACK_DEPTH\<close> frames.
\<close>

theorem network_accepts_protocol_runs:
  assumes "supported env g" and "build_in name g env = Some (Ok net)"
    and "gtrace env MAX_STACK_DEPTH [] g tr"
  shows "check_conformance net tr = Some (Ok ())"
  using assms by (rule network_accepts_runs)

theorem network_accepts_protocol_runs_witness:
  "\<exists>net. build_in ''recursive_cf'' recursive_cf protocol_env = Some (Ok net) \<and>
     check_conformance net (cf_run 2) = Some (Ok ())"
proof -
  obtain net where net: "build_in ''recursive_cf'' recursive_cf protocol_env = Some (Ok net)"
    using admitted_builds[OF recursive_cf_admitted] by blast
  have "supported protocol_env recursive_cf" using recursive_cf_admitted by (simp add: admitted_def)
  moreover have "gtrace protocol_env MAX_STACK_DEPTH [] recursive_cf (cf_run 2)"
    by (rule cf_run_gtrace) (simp add: MAX_STACK_DEPTH_def)
  ultimately show ?thesis using network_accepts_protocol_runs[OF _ net] net by blast
qed

text \<open>
  C11: conformance is local. A trace conforms to a built network exactly when it names participants
  only and the machine of every participant accepts its share of the trace.
\<close>

theorem conformance_per_role:
  assumes "build_in name g env = Some (Ok net)"
  shows "check_conformance net tr = Some (Ok ()) \<longleftrightarrow>
    (\<forall>e \<in> set tr. event_roles e \<subseteq> participants g) \<and>
    (\<forall>r m. nw_machine net r = Some m \<longrightarrow> accepts m (share r tr))"
  using conformance_is_local[OF build_in_OkD(2)[OF assms]] build_in_OkD(4)[OF assms] by blast

theorem conformance_per_role_witness:
  "\<exists>net. build_in ''d'' deliberation protocol_env = Some (Ok net) \<and>
    check_conformance net [msg ''O'' ''X'' ''m''] \<noteq> Some (Ok ())"
proof -
  obtain net where net: "build_in ''d'' deliberation protocol_env = Some (Ok net)"
    using admitted_builds[OF deliberation_admitted] by blast
  have "Role ''X'' \<notin> participants deliberation" by (simp add: csm_defs)
  then have "\<not> event_roles (msg ''O'' ''X'' ''m'') \<subseteq> participants deliberation"
    by (simp add: msg_def event_roles_def event_def)
  with conformance_per_role[OF net, of "[msg ''O'' ''X'' ''m'']"] net show ?thesis by auto
qed

text \<open>
  the order of adjacent messages between disjoint pairs of roles is not observed: swapping them
  does not change whether a trace conforms.
\<close>

theorem independent_events_commute:
  assumes "build_in name g env = Some (Ok net)" and "event_roles a \<inter> event_roles b = {}"
  shows "check_conformance net (xs @ a # b # ys) = Some (Ok ()) \<longleftrightarrow>
    check_conformance net (xs @ b # a # ys) = Some (Ok ())"
proof -
  have "share r [a, b] = share r [b, a]" for r
    using assms(2) by (auto simp: event_share_def event_roles_def)
  then have "share r (xs @ a # b # ys) = share r (xs @ b # a # ys)" for r by simp
  then show ?thesis
    using conformance_is_local[OF build_in_OkD(2)[OF assms(1)]] by (simp only: ) auto
qed

theorem independent_events_commute_witness:
  "\<exists>net. build_in ''d'' nested_rec protocol_env = Some (Ok net) \<and>
    (check_conformance net ([] @ msg ''A'' ''C'' ''go'' # msg ''B'' ''D'' ''w'' # []) = Some (Ok ()) \<longleftrightarrow>
     check_conformance net ([] @ msg ''B'' ''D'' ''w'' # msg ''A'' ''C'' ''go'' # []) = Some (Ok ()))"
proof -
  obtain net where net: "build_in ''d'' nested_rec protocol_env = Some (Ok net)"
    using nested_rec_rejected(2) by blast
  have "event_roles (msg ''A'' ''C'' ''go'') \<inter> event_roles (msg ''B'' ''D'' ''w'') = {}"
    by (simp add: msg_def event_roles_def event_def)
  from independent_events_commute[OF net this] net show ?thesis by blast
qed

section \<open>Composition, projection and compilation\<close>

text \<open>
  C35: sequential composition of well-formed protocols is well formed, provided the two alphabets do
  not disagree on the stack action of a label.
\<close>

theorem composition_well_formed:
  assumes "well_formed_in p env = Ok ()" and "well_formed_in q env = Ok ()"
    and "visible (set (alphabet p) \<union> set (alphabet q))"
  shows "well_formed_in (gthen p q) env = Ok ()"
  using assms by (rule well_formed_in_gthen)

theorem composition_well_formed_witness:
  "well_formed_in (gthen worktree_negotiation worktree_negotiation) protocol_env = Ok ()"
proof (rule composition_well_formed)
  show "visible (set (alphabet worktree_negotiation) \<union> set (alphabet worktree_negotiation))"
    by (auto simp: csm_defs visible_def reserved_def starts_with_def)
qed (simp_all add: worktree_negotiation_well_formed)

text \<open>
  C16: composing before or after projection is the same: the projection of a composed protocol is the
  composition of the projections.
\<close>

theorem projection_of_composition:
  assumes "check g [] = Ok ()" and "project g r = Ok t" and "project k r = Ok u"
  shows "project (gthen g k) r = Ok (lthen t u)"
  using project_gthen(1)[OF assms(1,3,2)] .

theorem projection_of_composition_witness:
  "project (gthen hsm_tool_box worktree_negotiation) (Role ''R'') =
     Ok (lthen LEnd (LSend (Role ''E'') (label_text ''request_worktree'')
       (LBranch (Role ''E'') [(label_text ''accept'', LRecv (Role ''E'') (label_text ''moved'') LEnd),
          (label_text ''decline'', LEnd)])))"
  by (rule projection_of_composition) (simp_all add: csm_defs)

text \<open>
  a bystander of a choice can follow every branch: its merged projection covers the projection of
  each branch (it offers at least what the branch needs, under the same labels).
\<close>

theorem bystander_covers_branches:
  assumes "check (Choice f to bs) [] = Ok ()" and "inj_on lbl_name (glabels (Choice f to bs))"
    and "r \<noteq> f" and "r \<noteq> to" and "project (Choice f to bs) r = Ok t" and "(l, c) \<in> set bs"
  shows "\<exists>p. project c r = Ok p \<and> covers t p"
proof -
  obtain l0 c0 rest where bs: "bs = (l0, c0) # rest" using assms(1) by (cases bs) auto
  obtain acc where acc: "project c0 r = Ok acc" "project_merge acc rest r = Ok t"
    using assms(3-5) bs by auto
  have ck: "\<forall>b \<in> set bs. check (snd b) [] = Ok ()" using assms(1) by simp
  let ?L = "glabels (Choice f to bs)"
  have "lgood ?L acc" using project_lgood(1)[OF _ _ acc(1), of "[]" ?L] ck bs by auto
  with project_merge_covers[OF assms(2) _ _ _ acc(2), of "[]"] ck bs
  have "covers t acc \<and> (\<forall>b \<in> set rest. \<exists>p. project (snd b) r = Ok p \<and> covers t p)" by auto
  with acc(1) bs assms(6) show ?thesis by auto
qed

theorem bystander_covers_branches_witness:
  "\<exists>p. project (Interaction (Role ''O'') (Role ''T'') (label_text ''finish'')
       (Interaction (Role ''T'') (Role ''O'') (label_text ''final'') End)) (Role ''T'') = Ok p \<and>
     covers (LBranch (Role ''O'')
       [(label_text ''act_req'', LSend (Role ''O'') (label_text ''result'') LEnd),
        (label_text ''finish'', LSend (Role ''O'') (label_text ''final'') LEnd)]) p"
proof (rule bystander_covers_branches[of "Role ''R''" "Role ''O''"
    "[(label_text ''converged'', Interaction (Role ''O'') (Role ''T'') (label_text ''finish'')
         (Interaction (Role ''T'') (Role ''O'') (label_text ''final'') End)),
      (label_text ''continue'', Interaction (Role ''O'') (Role ''T'') (label_text ''act_req'')
         (Interaction (Role ''T'') (Role ''O'') (label_text ''result'') End))]" _ _ "label_text ''converged''"])
  show "inj_on lbl_name (glabels (Choice (Role ''R'') (Role ''O'')
    [(label_text ''converged'', Interaction (Role ''O'') (Role ''T'') (label_text ''finish'')
         (Interaction (Role ''T'') (Role ''O'') (label_text ''final'') End)),
      (label_text ''continue'', Interaction (Role ''O'') (Role ''T'') (label_text ''act_req'')
         (Interaction (Role ''T'') (Role ''O'') (label_text ''result'') End))]))"
    by (rule text_labels_inj) simp
qed (simp_all add: merge.simps same_offer_def offer_map_def bt_remove_def)

text \<open>
  the callee pass is sound for recursion through names: every protocol reachable from a
  well-formed one by calls is in the environment, passes the structural checks and keeps the visibly
  pushdown discipline.
\<close>

theorem reachable_callees_checked:
  assumes "well_formed_in g env = Ok ()" and "n \<in> callee_names g" and "(call_edge env)\<^sup>*\<^sup>* n m"
  shows "\<exists>b. map_of env m = Some b \<and> check b [] = Ok () \<and> check_visibility b = Ok ()"
  using check_callees_reachable[OF _ assms(2,3)] assms(1)
  by (auto simp: well_formed_in_Ok_iff sound_callee_def simp del: check_callees.simps)

theorem reachable_callees_checked_witness:
  "\<exists>b. map_of protocol_env ''recursive_cf'' = Some b \<and> check b [] = Ok () \<and> check_visibility b = Ok ()"
  by (rule reachable_callees_checked[OF recursive_cf_well_formed, of "''recursive_cf''"])
    (simp_all add: recursive_cf_unfold)

text \<open>
  the visibly pushdown check accepts a protocol exactly when no message label is reserved for a
  boundary and no label is used with two stack actions.
\<close>

theorem visibility_check_exact:
  "check_visibility g = Ok () \<longleftrightarrow>
    \<not> (\<exists>l. (l, Neutral) \<in> set (alphabet g) \<and> (starts_with ''call:'' l \<or> starts_with ''ret:'' l)) \<and>
    \<not> (\<exists>l a b. (l, a) \<in> set (alphabet g) \<and> (l, b) \<in> set (alphabet g) \<and> a \<noteq> b)"
  by (auto simp: check_visibility_iff visible_def reserved_def)

text \<open>
  C22: building a network terminates for every protocol and every environment, also where callees
  call themselves or each other: the memo of opened callee boxes bounds the nesting.
\<close>

theorem build_terminates: "build_in name g env \<noteq> None"
proof -
  have "build_machines g env rs \<noteq> None" for rs
    by (induction rs) (auto simp: compile_in_terminates split: outcome.splits)
  then show ?thesis by (simp add: build_in_def)
qed



text \<open>
  C24: every registered protocol, for every choice of its parameters, is well formed in the base
  environment, lies in the supported fragment and builds.
\<close>

theorem registry_sound:
  "well_formed_in (global_of pid p) protocol_env = Ok () \<and> supported protocol_env (global_of pid p) \<and>
   (\<exists>net. build_in (protocol_name pid) (global_of pid p) protocol_env = Some (Ok net))"
  using registry_well_formed admitted_builds[OF registry_admitted] registry_admitted
  by (auto simp: admitted_def)

section \<open>Verdicts\<close>

text \<open>
  replay of a protocol without calls and boxes returns a verdict for every trace; it neither
  loops nor panics.
\<close>

theorem call_free_replay_returns:
  assumes "build_in name g env = Some (Ok net)" and "gframe_free g"
  shows "(\<exists>e. check_conformance net tr = Some (Err e)) \<or> check_conformance net tr = Some (Ok ())"
  using frame_free_replay_settles[OF assms, of tr] by (auto simp: settles_def)

theorem call_free_replay_returns_witness:
  "\<exists>net e. build_in ''d'' deliberation protocol_env = Some (Ok net) \<and>
     check_conformance net (lift_transcript Deliberation []) = Some (Err e)"
proof -
  obtain net where net: "build_in ''d'' deliberation protocol_env = Some (Ok net)"
    using admitted_builds[OF deliberation_admitted] by blast
  have "gframe_free deliberation" by (simp add: csm_defs)
  from call_free_replay_returns[OF net this, of "lift_transcript Deliberation []"]
    deliberation_incomplete[OF net, of "[]"] net show ?thesis by auto
qed

text \<open>
  the silent closure of replay does not always return, although its documentation says the depth
  bound makes it terminate: a well-formed protocol that calls an empty callee in a loop is built, and
  the replay of the empty trace never returns.
\<close>

theorem silent_loop_diverges:
  "well_formed_in idle_loop idle_env = Ok () \<and>
   (\<exists>net. build_in ''idle'' idle_loop idle_env = Some (Ok net) \<and> check_conformance net [] = None)"
  using idle_loop_diverges by blast

text \<open>
  C38: a recursion whose body is, for one role, only the variable of an outer recursion is compiled to
  a state without exits: a run of a well-formed protocol is rejected.
\<close>

theorem nested_recursion_rejects_run:
  "well_formed nested_rec = Ok () \<and> gtrace protocol_env MAX_STACK_DEPTH [] nested_rec nested_run \<and>
   (\<exists>net. build_in ''nested'' nested_rec protocol_env = Some (Ok net) \<and>
      check_conformance net nested_run \<noteq> Some (Ok ()))"
  using nested_rec_rejected nested_rec_run by blast

text \<open>
  C7: for the choice-free patterns (Sequential, Mixture, Distillation, Recursive) conformance is
  equality with the one run of the protocol, for all parameters; in particular no other interleaving
  of the specialists of a mixture conforms.
\<close>

theorem choice_free_conformance_exact:
  assumes "choice_free pid" and "build_in name (global_of pid p) protocol_env = Some (Ok net)"
  shows "check_conformance net tr = Some (Ok ()) \<longleftrightarrow> tr = linear_trace (global_of pid p)"
  using assms by (rule choice_free_conformance_iff)

theorem choice_free_conformance_exact_witness:
  "\<exists>net. build_in ''m'' (global_of Mixture (default_params\<lparr>n_specialists := 2\<rparr>)) protocol_env = Some (Ok net) \<and>
    check_conformance net [msg ''O'' ''Sp2'' ''query'', msg ''Sp2'' ''O'' ''answer'',
      msg ''O'' ''Sp1'' ''query'', msg ''Sp1'' ''O'' ''answer'',
      msg ''O'' ''Sum'' ''reduce_req'', msg ''Sum'' ''O'' ''summary''] \<noteq> Some (Ok ())"
proof -
  let ?g = "global_of Mixture (default_params\<lparr>n_specialists := 2\<rparr>)"
  let ?tr = "[msg ''O'' ''Sp2'' ''query'', msg ''Sp2'' ''O'' ''answer'',
      msg ''O'' ''Sp1'' ''query'', msg ''Sp1'' ''O'' ''answer'',
      msg ''O'' ''Sum'' ''reduce_req'', msg ''Sum'' ''O'' ''summary'']"
  obtain net where net: "build_in ''m'' ?g protocol_env = Some (Ok net)"
    using admitted_builds[OF registry_admitted] by blast
  have cf: "choice_free Mixture" by (simp add: choice_free_def)
  have "decimal (Suc 0) = ''1''" by code_simp
  then have "hd (linear_trace ?g) = msg ''O'' ''Sp1'' ''query''"
    by (simp add: mixture_def mix_specialist_run default_params_def upt_rec)
  moreover have "msg ''O'' ''Sp2'' ''query'' \<noteq> msg ''O'' ''Sp1'' ''query''"
    by (simp add: msg_def event_def)
  ultimately have "hd ?tr \<noteq> hd (linear_trace ?g)" by simp
  then have "?tr \<noteq> linear_trace ?g" by (rule contrapos_nn) (rule arg_cong[where f = hd])
  with choice_free_conformance_exact[OF cf net, of ?tr] net show ?thesis by blast
qed

text \<open>
  a Recursive run of any number of sub-calls conforms exactly when that number is the depth the
  protocol was unrolled to, and \<open>prepare_validation\<close> unrolls it to the recorded number.
\<close>

theorem recursive_run_verdict:
  assumes "build_in name (global_of Recursive p) protocol_env = Some (Ok net)"
  shows "check_conformance net (lift_transcript Recursive turns) = Some (Ok ()) \<longleftrightarrow>
    length turns = rlm_depth p"
proof -
  have "choice_free Recursive" by (simp add: choice_free_def)
  from choice_free_conformance_iff[OF this assms] show ?thesis by (simp only: recursive_lift_iff)
qed

theorem recursive_run_verdict_witness:
  "\<exists>net. build_in ''r'' (global_of Recursive default_params) protocol_env = Some (Ok net) \<and>
    check_conformance net (lift_transcript Recursive
      [\<lparr>tt_round = 0, tt_role = ''Sub'', tt_converged = False\<rparr>,
       \<lparr>tt_round = 0, tt_role = ''Sub'', tt_converged = False\<rparr>]) = Some (Ok ())"
proof -
  obtain net where net: "build_in ''r'' (global_of Recursive default_params) protocol_env = Some (Ok net)"
    using admitted_builds[OF registry_admitted] by blast
  have "length [\<lparr>tt_round = 0, tt_role = ''Sub'', tt_converged = False\<rparr>,
       \<lparr>tt_round = 0, tt_role = ''Sub'', tt_converged = False\<rparr>] = rlm_depth default_params"
    by (simp add: default_params_def)
  with recursive_run_verdict[OF net] net show ?thesis by blast
qed

text \<open>
  the pushdown pattern: a transcript of any length up to \<open>MAX_STACK_DEPTH + 1\<close> lifts to a run that
  the network of \<open>recursive_cf\<close> accepts (the depth is carried by the stack, not by the type).
\<close>

theorem recursive_cf_conforms:
  assumes "build_in name (global_of RecursiveCf p) protocol_env = Some (Ok net)"
    and "length turns \<le> MAX_STACK_DEPTH + 1"
  shows "check_conformance net (lift_transcript RecursiveCf turns) = Some (Ok ())"
proof -
  have "gtrace protocol_env MAX_STACK_DEPTH [] recursive_cf (lift_transcript RecursiveCf turns)"
    using assms(2) by (simp add: lift_recursive_cf_run cf_run_gtrace)
  then show ?thesis using assms(1) by (intro admitted_run_conforms[OF recursive_cf_admitted]) simp_all
qed

theorem recursive_cf_conforms_witness:
  "\<exists>net. build_in ''r'' (global_of RecursiveCf default_params) protocol_env = Some (Ok net) \<and>
    check_conformance net (lift_transcript RecursiveCf
      (replicate 3 \<lparr>tt_round = 0, tt_role = ''Sub'', tt_converged = False\<rparr>)) = Some (Ok ())"
proof -
  obtain net where net: "build_in ''r'' (global_of RecursiveCf default_params) protocol_env = Some (Ok net)"
    using admitted_builds[OF registry_admitted] by blast
  have "length (replicate 3 \<lparr>tt_round = 0, tt_role = ''Sub'', tt_converged = False\<rparr>) \<le> MAX_STACK_DEPTH + 1"
    by (simp add: MAX_STACK_DEPTH_def)
  from recursive_cf_conforms[OF net this] net show ?thesis by blast
qed

text \<open>
  a paging transcript conforms whenever it reaches a \<open>done\<close>: each verb is lifted with its
  handshake and acknowledgement, other turns are dropped, and turns after \<open>done\<close> are ignored.
\<close>

theorem paging_session_conforms:
  assumes "build_in name (global_of TapePaging p) protocol_env = Some (Ok net)" and "paging_session turns"
  shows "check_conformance net (lift_transcript TapePaging turns) = Some (Ok ())"
  using assms paging_session_run[OF assms(2)]
  by (intro admitted_run_conforms[OF tape_paging_admitted]) simp_all

theorem paging_session_conforms_witness:
  "\<exists>net. build_in ''t'' (global_of TapePaging default_params) protocol_env = Some (Ok net) \<and>
    check_conformance net (lift_transcript TapePaging
      [\<lparr>tt_round = 0, tt_role = ''Get'', tt_converged = False\<rparr>,
       \<lparr>tt_round = 0, tt_role = ''noise'', tt_converged = False\<rparr>,
       \<lparr>tt_round = 0, tt_role = ''done'', tt_converged = False\<rparr>]) = Some (Ok ())"
proof -
  obtain net where net: "build_in ''t'' (global_of TapePaging default_params) protocol_env = Some (Ok net)"
    using admitted_builds[OF registry_admitted] by blast
  have "paging_session [\<lparr>tt_round = 0, tt_role = ''Get'', tt_converged = False\<rparr>,
       \<lparr>tt_round = 0, tt_role = ''noise'', tt_converged = False\<rparr>,
       \<lparr>tt_round = 0, tt_role = ''done'', tt_converged = False\<rparr>]"
    by (simp add: to_lowercase_def lower_char_def)
  from paging_session_conforms[OF net this] net show ?thesis by blast
qed

text \<open>
  no Deliberation transcript is ever reported conformant: the lifting never emits the final
  exchange with the Tool-Caller, so the run is incomplete whether or not the Reflector converged.
\<close>

theorem deliberation_never_conforms:
  assumes "build_in name (global_of Deliberation p) protocol_env = Some (Ok net)"
  shows "\<exists>e. check_conformance net (lift_transcript Deliberation turns) = Some (Err e)"
proof -
  have "gframe_free deliberation" by (simp add: csm_defs)
  with frame_free_replay_settles[of name deliberation protocol_env net] assms
    deliberation_incomplete[of name net turns] show ?thesis by (auto simp: settles_def)
qed

theorem deliberation_never_conforms_witness:
  "\<exists>net e. build_in ''d'' (global_of Deliberation default_params) protocol_env = Some (Ok net) \<and>
    check_conformance net (lift_transcript Deliberation
      [\<lparr>tt_round = 1, tt_role = ''Reflector'', tt_converged = True\<rparr>]) = Some (Err e)"
proof -
  obtain net where net: "build_in ''d'' (global_of Deliberation default_params) protocol_env = Some (Ok net)"
    using admitted_builds[OF registry_admitted] by blast
  from deliberation_never_conforms[OF net] net show ?thesis by blast
qed

text \<open>
  C33: the plan of a choice-free pattern with at least one message exists, and the trace it induces is
  a conforming run: the orchestrator that executes the plan conforms.
\<close>

theorem plan_conforms:
  assumes "choice_free pid" and "build_in name (global_of pid p) protocol_env = Some (Ok net)"
    and "global_of pid p \<noteq> End"
  shows "\<exists>steps. plan net (Role ''O'') = Some steps \<and>
    check_conformance net (plan_trace (Role ''O'') steps) = Some (Ok ())"
proof -
  have "Role ''O'' \<in> participants (global_of pid p)"
    using choice_free_rpc[OF assms(1), of p] assms(3)
    by (cases "(Role ''O'', global_of pid p)" rule: rpc_chain.cases) auto
  from rpc_plan[OF choice_free_linear[OF assms(1)] choice_free_rpc[OF assms(1)] assms(2) this]
  show ?thesis using choice_free_conformance_iff[OF assms(1,2)] by auto
qed

theorem plan_conforms_witness:
  "\<exists>net steps. build_in ''d'' (global_of Distillation default_params) protocol_env = Some (Ok net) \<and>
    plan net (Role ''O'') = Some steps \<and> check_conformance net (plan_trace (Role ''O'') steps) = Some (Ok ())"
proof -
  obtain net where net: "build_in ''d'' (global_of Distillation default_params) protocol_env = Some (Ok net)"
    using admitted_builds[OF registry_admitted] by blast
  from plan_conforms[OF _ net] net show ?thesis by (auto simp: choice_free_def csm_defs)
qed

text \<open>
  the report on a Sequential run of any number of rounds is computed against the default
  parameters: it says conformant exactly for a single round, although the same transcript conforms to
  the protocol of its own number of rounds.
\<close>

theorem sequential_report_default_rounds:
  assumes "transcript_to_turns transcript = concat rs" and "\<forall>ts \<in> set rs. sequential_round ts" and "rs \<noteq> []"
    and "build_in name (global_of Sequential (default_params\<lparr>recursion_rounds := length rs\<rparr>)) protocol_env = Some (Ok net)"
  shows "(\<exists>err. driver_report Sequential transcript True =
      Some (Ok (Report ''sequential'' (length rs = 1) err))) \<and>
    check_conformance net (lift_transcript Sequential (concat rs)) = Some (Ok ())"
proof
  let ?tr = "lift_transcript Sequential (concat rs)"
  have cf: "choice_free Sequential" by (simp add: choice_free_def)
  have len: "length (linear_trace (global_of Sequential p)) = 6 * max (recursion_rounds p) 1" for p
    by (simp add: sequential_def seq_round_run length_concat sum_list_replicate)
  have own: "?tr = linear_trace (global_of Sequential (default_params\<lparr>recursion_rounds := length rs\<rparr>))"
    using assms(2,3) by (intro sequential_lift) (simp_all add: max_absorb1 Suc_leI)
  from choice_free_conformance_iff[OF cf assms(4)] own
  show "check_conformance net ?tr = Some (Ok ())" by blast
  obtain dn where dn: "build_in (protocol_name Sequential) (global_of Sequential default_params) protocol_env = Some (Ok dn)"
    by (rule built_network)
  have "settles (check_conformance dn ?tr)"
    by (rule frame_free_replay_settles[OF dn linear_frame_free[OF choice_free_linear[OF cf]]])
  from verdict_settles[OF this] obtain b err where v: "conformance_verdict dn ?tr = Some (Ok (b, err))"
    by blast
  have "?tr = linear_trace (global_of Sequential default_params) \<longleftrightarrow> length rs = 1"
  proof
    assume "?tr = linear_trace (global_of Sequential default_params)"
    then have "length (linear_trace (global_of Sequential (default_params\<lparr>recursion_rounds := length rs\<rparr>))) =
        length (linear_trace (global_of Sequential default_params))" using own by metis
    then show "length rs = 1" using assms(3) unfolding len by (cases rs) (auto simp: default_params_def max_def split: if_splits)
  next
    assume "length rs = 1"
    with own show "?tr = linear_trace (global_of Sequential default_params)"
      by (simp add: default_params_def)
  qed
  with verdict_choice_free[OF cf dn v] have "b = (length rs = 1)" by blast
  with v dn show "\<exists>err. driver_report Sequential transcript True = Some (Ok (Report ''sequential'' (length rs = 1) err))"
    unfolding driver_report_def Let_def assms(1) dn by (simp del: lift_transcript.simps global_of.simps)
qed

theorem sequential_report_default_rounds_witness:
  "\<exists>err. driver_report Sequential two_rounds True = Some (Ok (Report ''sequential'' False err))"
proof -
  let ?ts = "transcript_to_turns two_rounds"
  let ?rs = "[take 3 ?ts, drop 3 ?ts]"
  obtain net where "build_in ''s'' (global_of Sequential (default_params\<lparr>recursion_rounds := length ?rs\<rparr>))
      protocol_env = Some (Ok net)"
    using admitted_builds[OF registry_admitted] by blast
  moreover have "char_of (112 :: nat) = CHR ''p''" "char_of (99 :: nat) = CHR ''c''" "char_of (115 :: nat) = CHR ''s''"
    by code_simp+
  then have "\<forall>ts \<in> set ?rs. sequential_round ts"
    by (simp add: sequential_round_def two_rounds_def transcript_to_turns_def Let_def to_lowercase_def lower_char_def)
  ultimately show ?thesis
    using sequential_report_default_rounds[of two_rounds ?rs "''s''" net] by simp
qed

text \<open>
  protocol names and skill identifiers are read back as the protocol they were printed from, and
  nothing else is read as a protocol.
\<close>

theorem protocol_names_roundtrip:
  "(protocol_from_name s = Some pid \<longleftrightarrow> protocol_name pid = s) \<and>
   (protocol_from_skill_id s = Some pid \<longleftrightarrow> pattern_skill_id pid = s)"
  using protocol_names.parse_Some_iff[of s pid] protocol_skills.parse_Some_iff[of s pid]
  by (simp add: parse_in_def protocol_from_name_def protocol_from_skill_id_def)

end
