(* ===== verification/Tracker_Vocab.thy ===== *)
theory Tracker_Vocab
  imports Prelude
begin

text \<open>
  The closed vocabularies of the work-item tracker: \<open>src/tracker/status.rs\<close>, \<open>kind.rs\<close>,
  \<open>severity.rs\<close> and \<open>views.rs\<close>. Each is an interpretation of \<open>closed_vocabulary\<close>, so that the
  round trip of \<open>as_str\<close> and \<open>parse\<close>, and that nothing else parses, hold of all of them.
\<close>

section \<open>Statuses\<close>

datatype work_item_status =
    Pending | Triage | Confirmed | Ready | InProgress | Blocked | ClaimedDone | Verifying
    | Verified | Rejected | Deferred | Cancelled

definition work_item_status_all :: "work_item_status list" where
  "work_item_status_all =
     [Pending, Triage, Confirmed, Ready, InProgress, Blocked, ClaimedDone, Verifying, Verified,
      Rejected, Deferred, Cancelled]"

fun work_item_status_str :: "work_item_status \<Rightarrow> string" where
  "work_item_status_str Pending = ''pending''"
| "work_item_status_str Triage = ''triage''"
| "work_item_status_str Confirmed = ''confirmed''"
| "work_item_status_str Ready = ''ready''"
| "work_item_status_str InProgress = ''in_progress''"
| "work_item_status_str Blocked = ''blocked''"
| "work_item_status_str ClaimedDone = ''claimed_done''"
| "work_item_status_str Verifying = ''verifying''"
| "work_item_status_str Verified = ''verified''"
| "work_item_status_str Rejected = ''rejected''"
| "work_item_status_str Deferred = ''deferred''"
| "work_item_status_str Cancelled = ''cancelled''"

definition work_item_status_parse :: "string \<Rightarrow> work_item_status option" where
  "work_item_status_parse = parse_in work_item_status_all work_item_status_str"

definition status_sql_in_list :: string where
  "status_sql_in_list = join_quoted (map work_item_status_str work_item_status_all)"

interpretation work_item_status_vocab: closed_vocabulary work_item_status_all work_item_status_str
proof
  show "set work_item_status_all = UNIV"
    unfolding work_item_status_all_def using work_item_status.exhaust by auto
  show "distinct work_item_status_all" by (simp add: work_item_status_all_def)
  show "inj work_item_status_str"
    by (rule injI, case_tac x; case_tac y; simp)
qed

fun is_verified :: "work_item_status \<Rightarrow> bool" where
  "is_verified Verified \<longleftrightarrow> True"
| "is_verified _ \<longleftrightarrow> False"

fun is_excluded_from_rollup :: "work_item_status \<Rightarrow> bool" where
  "is_excluded_from_rollup Deferred \<longleftrightarrow> True"
| "is_excluded_from_rollup Cancelled \<longleftrightarrow> True"
| "is_excluded_from_rollup _ \<longleftrightarrow> False"

lemma is_verified_iff: "is_verified s \<longleftrightarrow> s = Verified"
  by (cases s) auto

lemma is_excluded_from_rollup_iff: "is_excluded_from_rollup s \<longleftrightarrow> s \<in> {Deferred, Cancelled}"
  by (cases s) auto

text \<open>The stored text of a status determines the status.\<close>

lemma status_parse_str [simp]: "work_item_status_parse (work_item_status_str s) = Some s"
  by (simp add: work_item_status_parse_def work_item_status_vocab.parse_as_str)

lemma status_parse_SomeD: "work_item_status_parse t = Some s \<Longrightarrow> t = work_item_status_str s"
  by (simp add: work_item_status_parse_def work_item_status_vocab.parse_Some_iff)

lemma status_str_inject [simp]: "work_item_status_str s = work_item_status_str t \<longleftrightarrow> s = t"
  using work_item_status_vocab.as_str_inj by (auto dest: injD)

section \<open>Kinds\<close>

datatype work_item_kind =
    Plan | Goal | Epic | Task | SubTask | Todo | Fixme | Bug | Idea | Brainstorm | Note
    | Question | NiceToHave | ActionItem | Experiment

definition work_item_kind_all :: "work_item_kind list" where
  "work_item_kind_all =
     [Plan, Goal, Epic, Task, SubTask, Todo, Fixme, Bug, Idea, Brainstorm, Note, Question,
      NiceToHave, ActionItem, Experiment]"

fun work_item_kind_str :: "work_item_kind \<Rightarrow> string" where
  "work_item_kind_str Plan = ''plan''"
| "work_item_kind_str Goal = ''goal''"
| "work_item_kind_str Epic = ''epic''"
| "work_item_kind_str Task = ''task''"
| "work_item_kind_str SubTask = ''sub_task''"
| "work_item_kind_str Todo = ''todo''"
| "work_item_kind_str Fixme = ''fixme''"
| "work_item_kind_str Bug = ''bug''"
| "work_item_kind_str Idea = ''idea''"
| "work_item_kind_str Brainstorm = ''brainstorm''"
| "work_item_kind_str Note = ''note''"
| "work_item_kind_str Question = ''question''"
| "work_item_kind_str NiceToHave = ''nice_to_have''"
| "work_item_kind_str ActionItem = ''action_item''"
| "work_item_kind_str Experiment = ''experiment''"

definition work_item_kind_parse :: "string \<Rightarrow> work_item_kind option" where
  "work_item_kind_parse = parse_in work_item_kind_all work_item_kind_str"

definition kind_sql_in_list :: string where
  "kind_sql_in_list = join_quoted (map work_item_kind_str work_item_kind_all)"

interpretation work_item_kind_vocab: closed_vocabulary work_item_kind_all work_item_kind_str
proof
  show "set work_item_kind_all = UNIV"
    unfolding work_item_kind_all_def using work_item_kind.exhaust by auto
  show "distinct work_item_kind_all" by (simp add: work_item_kind_all_def)
  show "inj work_item_kind_str"
    by (rule injI, case_tac x; case_tac y; simp)
qed

section \<open>Severities and bug resolutions\<close>

datatype severity =
    Critical | High | Medium | Low

definition severity_all :: "severity list" where
  "severity_all =
     [Critical, High, Medium, Low]"

fun severity_str :: "severity \<Rightarrow> string" where
  "severity_str Critical = ''critical''"
| "severity_str High = ''high''"
| "severity_str Medium = ''medium''"
| "severity_str Low = ''low''"

definition severity_parse :: "string \<Rightarrow> severity option" where
  "severity_parse = parse_in severity_all severity_str"

definition severity_sql_in_list :: string where
  "severity_sql_in_list = join_quoted (map severity_str severity_all)"

interpretation severity_vocab: closed_vocabulary severity_all severity_str
proof
  show "set severity_all = UNIV"
    unfolding severity_all_def using severity.exhaust by auto
  show "distinct severity_all" by (simp add: severity_all_def)
  show "inj severity_str"
    by (rule injI, case_tac x; case_tac y; simp)
qed

fun severity_rank :: "severity \<Rightarrow> nat" where
  "severity_rank Critical = 4"
| "severity_rank High = 3"
| "severity_rank Medium = 2"
| "severity_rank Low = 1"

fun default_priority :: "severity \<Rightarrow> int" where
  "default_priority Critical = 90"
| "default_priority High = 70"
| "default_priority Medium = 40"
| "default_priority Low = 20"

lemma default_priority_rank: "default_priority a < default_priority b \<longleftrightarrow> severity_rank a < severity_rank b"
  by (cases a; cases b) auto

lemma default_priority_range: "0 \<le> default_priority s \<and> default_priority s \<le> 100"
  by (cases s) auto

datatype bug_resolution =
    Fixed | WontFix | Duplicate | CannotReproduce | ByDesign

definition bug_resolution_all :: "bug_resolution list" where
  "bug_resolution_all =
     [Fixed, WontFix, Duplicate, CannotReproduce, ByDesign]"

fun bug_resolution_str :: "bug_resolution \<Rightarrow> string" where
  "bug_resolution_str Fixed = ''fixed''"
| "bug_resolution_str WontFix = ''wont_fix''"
| "bug_resolution_str Duplicate = ''duplicate''"
| "bug_resolution_str CannotReproduce = ''cannot_reproduce''"
| "bug_resolution_str ByDesign = ''by_design''"

definition bug_resolution_parse :: "string \<Rightarrow> bug_resolution option" where
  "bug_resolution_parse = parse_in bug_resolution_all bug_resolution_str"

definition resolution_sql_in_list :: string where
  "resolution_sql_in_list = join_quoted (map bug_resolution_str bug_resolution_all)"

interpretation bug_resolution_vocab: closed_vocabulary bug_resolution_all bug_resolution_str
proof
  show "set bug_resolution_all = UNIV"
    unfolding bug_resolution_all_def using bug_resolution.exhaust by auto
  show "distinct bug_resolution_all" by (simp add: bug_resolution_all_def)
  show "inj bug_resolution_str"
    by (rule injI, case_tac x; case_tac y; simp)
qed

fun is_user_settable :: "bug_resolution \<Rightarrow> bool" where
  "is_user_settable Fixed \<longleftrightarrow> False"
| "is_user_settable _ \<longleftrightarrow> True"

section \<open>Smart views and bulk operations\<close>

text \<open>\<open>BlockedView\<close> is \<open>SmartView::Blocked\<close>.\<close>

datatype smart_view =
    MyWork | NeedsTriage | Overdue | BlockedView | NextActionable

definition smart_view_all :: "smart_view list" where
  "smart_view_all =
     [MyWork, NeedsTriage, Overdue, BlockedView, NextActionable]"

fun smart_view_str :: "smart_view \<Rightarrow> string" where
  "smart_view_str MyWork = ''my-work''"
| "smart_view_str NeedsTriage = ''needs-triage''"
| "smart_view_str Overdue = ''overdue''"
| "smart_view_str BlockedView = ''blocked''"
| "smart_view_str NextActionable = ''next-actionable''"

definition smart_view_parse :: "string \<Rightarrow> smart_view option" where
  "smart_view_parse = parse_in smart_view_all smart_view_str"

interpretation smart_view_vocab: closed_vocabulary smart_view_all smart_view_str
proof
  show "set smart_view_all = UNIV"
    unfolding smart_view_all_def using smart_view.exhaust by auto
  show "distinct smart_view_all" by (simp add: smart_view_all_def)
  show "inj smart_view_str"
    by (rule injI, case_tac x; case_tac y; simp)
qed

datatype bulk_op =
    SetStatus | Tag | Untag | Reprioritize | Assign

definition bulk_op_all :: "bulk_op list" where
  "bulk_op_all =
     [SetStatus, Tag, Untag, Reprioritize, Assign]"

fun bulk_op_str :: "bulk_op \<Rightarrow> string" where
  "bulk_op_str SetStatus = ''set_status''"
| "bulk_op_str Tag = ''tag''"
| "bulk_op_str Untag = ''untag''"
| "bulk_op_str Reprioritize = ''reprioritize''"
| "bulk_op_str Assign = ''assign''"

definition bulk_op_parse :: "string \<Rightarrow> bulk_op option" where
  "bulk_op_parse = parse_in bulk_op_all bulk_op_str"

interpretation bulk_op_vocab: closed_vocabulary bulk_op_all bulk_op_str
proof
  show "set bulk_op_all = UNIV"
    unfolding bulk_op_all_def using bulk_op.exhaust by auto
  show "distinct bulk_op_all" by (simp add: bulk_op_all_def)
  show "inj bulk_op_str"
    by (rule injI, case_tac x; case_tac y; simp)
qed

end
