(* ===== verification/Tracker_Transition.thy ===== *)
theory Tracker_Transition
  imports Tracker_Vocab
begin

text \<open>
  The work-item state machine of \<open>src/tracker/transition.rs\<close> (who may move an item from which
  status to which, and with what evidence) and the policy of \<open>src/tracker/auto_transition.rs\<close> for
  commits that mention an item.

  The lemmas characterise \<open>check_transition\<close> exactly, and the columns of the matrix that are a
  judgment on the work: \<open>Verified\<close> and \<open>Rejected\<close> belong to the gatekeeper, \<open>Deferred\<close> and
  \<open>Confirmed\<close> to the user.
\<close>

named_theorems transition_defs \<open>definitions of the transition matrix\<close>

section \<open>Actors and contexts\<close>

datatype actor = User | Agent | Gatekeeper | System

fun actor_str :: "actor \<Rightarrow> string" where
  "actor_str User = ''user''"
| "actor_str Agent = ''agent''"
| "actor_str Gatekeeper = ''gatekeeper''"
| "actor_str System = ''system''"

definition actor_parse :: "string \<Rightarrow> actor option" where
  "actor_parse s =
     (if s = ''user'' then Some User
      else if s = ''agent'' then Some Agent
      else if s = ''gatekeeper'' then Some Gatekeeper
      else if s = ''system'' then Some System
      else None)"

lemma actor_parse_Some_iff: "actor_parse s = Some a \<longleftrightarrow> s = actor_str a"
  by (cases a) (auto simp: actor_parse_def)

lemma actor_str_inject [simp]: "actor_str a = actor_str b \<longleftrightarrow> a = b"
  by (metis actor_parse_Some_iff option.inject)

record transition_context =
  evidence_passing :: bool
  evidence_present :: bool
  user_negotiation :: bool

text \<open>\<open>TransitionContext::default()\<close>.\<close>

definition no_context :: transition_context where
  "no_context = \<lparr>evidence_passing = False, evidence_present = False, user_negotiation = False\<rparr>"

datatype transition_error =
    NoOp work_item_status
  | Illegal work_item_status work_item_status
  | Unauthorized work_item_status work_item_status actor
  | EvidenceRequired work_item_status
  | EvidenceMissingForRejection
  | NegotiationRequired

text \<open>The messages; \<open>arrow_text\<close> is the UTF-8 encoding of the arrow they contain.\<close>

definition arrow_text :: string where
  "arrow_text = [CHR 0xE2, CHR 0x86, CHR 0x92]"

definition in_quotes :: "string \<Rightarrow> string" where
  "in_quotes s = [CHR 0x27] @ s @ [CHR 0x27]"

fun transition_message :: "transition_error \<Rightarrow> string" where
  "transition_message (NoOp status) = ''item is already '' @ in_quotes (work_item_status_str status)"
| "transition_message (Illegal from to) =
     ''no transition '' @ in_quotes (work_item_status_str from) @ '' '' @ arrow_text @ '' '' @
     in_quotes (work_item_status_str to) @ '' exists''"
| "transition_message (Unauthorized from to actor) =
     ''actor '' @ in_quotes (actor_str actor) @ '' may not transition '' @
     in_quotes (work_item_status_str from) @ '' '' @ arrow_text @ '' '' @
     in_quotes (work_item_status_str to)"
| "transition_message (EvidenceRequired to) =
     in_quotes (work_item_status_str to) @
     '' is reached only by submitting passing acceptance evidence '' @
     ''via record_evidence (agents cannot self-verify)''"
| "transition_message EvidenceMissingForRejection =
     in_quotes ''rejected'' @ '' requires a failing verification_evidence row''"
| "transition_message NegotiationRequired =
     in_quotes ''deferred'' @ '' requires a user scope negotiation; agents cannot self-defer''"

section \<open>The matrix\<close>

definition UAS :: "actor list" where [transition_defs]: "UAS = [User, Agent, System]"
definition UA :: "actor list" where [transition_defs]: "UA = [User, Agent]"
definition AU :: "actor list" where [transition_defs]: "AU = [Agent, User]"
definition U :: "actor list" where [transition_defs]: "U = [User]"
definition G :: "actor list" where [transition_defs]: "G = [Gatekeeper]"

text \<open>One equation per source status, in the order of the match arms.\<close>

fun legal_actors :: "work_item_status \<Rightarrow> work_item_status \<Rightarrow> actor list" where
  "legal_actors Pending to = (case to of
       Ready \<Rightarrow> UAS | InProgress \<Rightarrow> UA | Blocked \<Rightarrow> UA | Triage \<Rightarrow> UA
     | Deferred \<Rightarrow> U | Cancelled \<Rightarrow> U | _ \<Rightarrow> [])"
| "legal_actors Triage to = (case to of
       Confirmed \<Rightarrow> U | Blocked \<Rightarrow> UA | Deferred \<Rightarrow> U | Cancelled \<Rightarrow> U | _ \<Rightarrow> [])"
| "legal_actors Confirmed to = (case to of
       InProgress \<Rightarrow> UA | Ready \<Rightarrow> UAS | Blocked \<Rightarrow> UAS | Deferred \<Rightarrow> U | Cancelled \<Rightarrow> U | _ \<Rightarrow> [])"
| "legal_actors Ready to = (case to of
       InProgress \<Rightarrow> UA | Blocked \<Rightarrow> UAS | Deferred \<Rightarrow> U | Cancelled \<Rightarrow> U | _ \<Rightarrow> [])"
| "legal_actors InProgress to = (case to of
       Blocked \<Rightarrow> UAS | ClaimedDone \<Rightarrow> AU | Verifying \<Rightarrow> UA | Deferred \<Rightarrow> U | Cancelled \<Rightarrow> U | _ \<Rightarrow> [])"
| "legal_actors Blocked to = (case to of
       Ready \<Rightarrow> UAS | InProgress \<Rightarrow> UAS | Deferred \<Rightarrow> U | Cancelled \<Rightarrow> U | _ \<Rightarrow> [])"
| "legal_actors ClaimedDone to = (case to of
       InProgress \<Rightarrow> UA | Verifying \<Rightarrow> UAS | Verified \<Rightarrow> G | Rejected \<Rightarrow> G
     | Deferred \<Rightarrow> U | Cancelled \<Rightarrow> U | _ \<Rightarrow> [])"
| "legal_actors Verifying to = (case to of
       InProgress \<Rightarrow> UA | Verified \<Rightarrow> G | Rejected \<Rightarrow> G | Deferred \<Rightarrow> U | Cancelled \<Rightarrow> U | _ \<Rightarrow> [])"
| "legal_actors Verified to = (case to of
       InProgress \<Rightarrow> UA | Triage \<Rightarrow> UA | Cancelled \<Rightarrow> U | _ \<Rightarrow> [])"
| "legal_actors Rejected to = (case to of
       InProgress \<Rightarrow> UA | Blocked \<Rightarrow> UA | ClaimedDone \<Rightarrow> AU | Verifying \<Rightarrow> UA
     | Deferred \<Rightarrow> U | Cancelled \<Rightarrow> U | _ \<Rightarrow> [])"
| "legal_actors Deferred to = (case to of InProgress \<Rightarrow> U | Cancelled \<Rightarrow> U | _ \<Rightarrow> [])"
| "legal_actors Cancelled to = (case to of InProgress \<Rightarrow> U | Triage \<Rightarrow> U | _ \<Rightarrow> [])"

definition check_transition ::
  "work_item_status \<Rightarrow> work_item_status \<Rightarrow> actor \<Rightarrow> transition_context
     \<Rightarrow> (transition_error, unit) outcome" where
  "check_transition from to actor ctx =
     (if from = to then Err (NoOp from)
      else let allowed = legal_actors from to in
        if allowed = [] then Err (Illegal from to)
        else if actor \<notin> set allowed then Err (Unauthorized from to actor)
        else (case to of
            Verified \<Rightarrow> if \<not> evidence_passing ctx then Err (EvidenceRequired to) else Ok ()
          | Rejected \<Rightarrow> if \<not> evidence_present ctx then Err EvidenceMissingForRejection else Ok ()
          | Deferred \<Rightarrow> if \<not> user_negotiation ctx then Err NegotiationRequired else Ok ()
          | _ \<Rightarrow> Ok ()))"

definition next_auto_status :: "work_item_status \<Rightarrow> bool \<Rightarrow> work_item_status option" where
  "next_auto_status from is_closing =
     (case (from, is_closing) of
        (InProgress, True) \<Rightarrow> Some ClaimedDone
      | (InProgress, False) \<Rightarrow> None
      | (Pending, _) \<Rightarrow> Some InProgress
      | (Confirmed, _) \<Rightarrow> Some InProgress
      | (Ready, _) \<Rightarrow> Some InProgress
      | (Blocked, _) \<Rightarrow> Some InProgress
      | _ \<Rightarrow> None)"

section \<open>What the gate admits\<close>

lemma no_self_loop [simp]: "legal_actors s s = []"
  by (cases s) auto

lemma legal_Verified: "a \<in> set (legal_actors s Verified) \<longleftrightarrow> a = Gatekeeper \<and> s \<in> {ClaimedDone, Verifying}"
  by (cases s) (auto simp: transition_defs)

lemma legal_Rejected: "a \<in> set (legal_actors s Rejected) \<longleftrightarrow> a = Gatekeeper \<and> s \<in> {ClaimedDone, Verifying}"
  by (cases s) (auto simp: transition_defs)

lemma legal_Deferred:
  "a \<in> set (legal_actors s Deferred) \<longleftrightarrow> a = User \<and> s \<notin> {Verified, Deferred, Cancelled}"
  by (cases s) (auto simp: transition_defs)

lemma legal_Confirmed: "a \<in> set (legal_actors s Confirmed) \<longleftrightarrow> a = User \<and> s = Triage"
  by (cases s) (auto simp: transition_defs)

lemma legal_Cancelled: "a \<in> set (legal_actors s Cancelled) \<longleftrightarrow> a = User \<and> s \<noteq> Cancelled"
  by (cases s) (auto simp: transition_defs)

text \<open>An agent moves work along; it never judges it, and it never reopens what the user closed.\<close>

lemma legal_Agent:
  "Agent \<in> set (legal_actors s t) \<Longrightarrow>
     t \<in> {Ready, InProgress, Blocked, Triage, ClaimedDone, Verifying} \<and> s \<notin> {Deferred, Cancelled}"
  by (cases s; cases t) (auto simp: transition_defs)

lemma legal_System: "System \<in> set (legal_actors s t) \<Longrightarrow> t \<in> {Ready, InProgress, Blocked, Verifying}"
  by (cases s; cases t) (auto simp: transition_defs)

text \<open>The evidence and negotiation gates, as a predicate of the target.\<close>

definition gate_open :: "work_item_status \<Rightarrow> transition_context \<Rightarrow> bool" where
  "gate_open to ctx \<longleftrightarrow>
     (to = Verified \<longrightarrow> evidence_passing ctx) \<and>
     (to = Rejected \<longrightarrow> evidence_present ctx) \<and>
     (to = Deferred \<longrightarrow> user_negotiation ctx)"

lemma check_transition_Ok_iff:
  "check_transition from to a ctx = Ok () \<longleftrightarrow> a \<in> set (legal_actors from to) \<and> gate_open to ctx"
  by (cases to) (auto simp: check_transition_def gate_open_def Let_def)

lemma check_transition_no_panic: "check_transition from to a ctx \<noteq> Panic p"
  by (cases to) (auto simp: check_transition_def Let_def)

lemma next_auto_status_cases:
  "next_auto_status s c = Some t \<longleftrightarrow>
     (s \<in> {Pending, Confirmed, Ready, Blocked} \<and> t = InProgress) \<or>
     (s = InProgress \<and> c \<and> t = ClaimedDone)"
  by (cases s; cases c) (auto simp: next_auto_status_def)

lemma next_auto_status_agent_legal:
  "next_auto_status s c = Some t \<Longrightarrow> check_transition s t Agent ctx = Ok ()"
  by (auto simp: next_auto_status_cases check_transition_Ok_iff gate_open_def transition_defs)

end
