(* ===== verification/Tracker_Store.thy ===== *)
theory Tracker_Store
  imports Complex_Main Tracker_Transition
begin

text \<open>
  The tables of the work-item tracker (\<open>src/db/migrations/v4_work_items.rs\<close>,
  \<open>v5_work_items_collab.rs\<close>) as a record of row lists, and the statements of
  \<open>src/db/queries/work_items.rs\<close> that create items and move their status.

  \<^item> A table is the list of its rows in insertion order; \<open>UPDATE\<close> maps over it, \<open>INSERT\<close> appends.
    A nullable column is an \<open>option\<close>; SQL comparisons with \<open>NULL\<close> are written out as not true.
  \<^item> \<open>NOW()\<close> is an argument: it is constant within a transaction. Times are microseconds.
  \<^item> \<open>REAL\<close> and \<open>DOUBLE PRECISION\<close> columns are exact rationals.
  \<^item> A function that opens its own transaction returns the database after commit or rollback next
    to its result; an \<open>_in_tx\<close> function returns the new database inside its result, and an error
    discards it.
\<close>

type_synonym time = int

definition seconds :: "int \<Rightarrow> time" where
  "seconds n = n * 1000000"

section \<open>Rows\<close>

record work_item =
  wi_id :: int
  wi_public_id :: string
  wi_parent_id :: "int option"
  wi_project_id :: "int option"
  wi_definition_id :: "int option"
  wi_root_id :: "int option"
  wi_kind :: string
  wi_status :: string
  wi_title :: string
  wi_body :: "string option"
  wi_parametric :: bool
  wi_parametric_corpus :: "string option"
  wi_parametric_expected :: "int option"
  wi_priority :: int
  wi_weight :: rat
  wi_computed_score :: "rat option"
  wi_claimed_percent :: int
  wi_origin :: string
  wi_created_by :: "string option"
  wi_created_at :: time
  wi_updated_at :: time
  wi_started_at :: "time option"
  wi_completed_at :: "time option"
  wi_verified_at :: "time option"
  wi_due_at :: "time option"
  wi_snooze_until :: "time option"
  wi_severity :: "string option"
  wi_claimed_by :: "string option"
  wi_claimed_at :: "time option"
  wi_lease_expires_at :: "time option"
  wi_claim_count :: int
  wi_assignee :: "string option"
  wi_assigned_at :: "time option"
  wi_assigned_by :: "string option"

record status_history =
  sh_item_id :: int
  sh_from_status :: "string option"
  sh_to_status :: string
  sh_actor_kind :: string
  sh_actor_id :: "string option"
  sh_evidence_id :: "int option"
  sh_negotiation_id :: "int option"
  sh_reason :: "string option"
  sh_created_at :: time

record acceptance_criterion =
  ac_id :: int
  ac_item_id :: int
  ac_criterion_kind :: string
  ac_description :: string
  ac_acceptance_uri :: "string option"
  ac_expect_exit :: "int option"
  ac_coverage_mode :: string
  ac_gate :: "string option"
  ac_required :: bool
  ac_created_at :: time

record verification_evidence =
  ve_id :: int
  ve_criterion_id :: int
  ve_item_id :: int
  ve_verdict :: string
  ve_source :: string
  ve_exit_code :: "int option"
  ve_coverage_count :: "int option"
  ve_coverage_total :: "int option"
  ve_runner_identity :: "string option"
  ve_commit_sha :: "string option"
  ve_created_at :: time

record scope_negotiation =
  sn_id :: int
  sn_item_id :: int
  sn_action :: string
  sn_granted_by :: string
  sn_actor_kind :: string
  sn_reason :: string
  sn_created_at :: time

record item_relation =
  ir_id :: int
  ir_from_item_id :: int
  ir_to_item_id :: int
  ir_relation_type :: string
  ir_created_by :: "string option"

record claim_event =
  ce_work_item_id :: int
  ce_agent_id :: string
  ce_action :: string
  ce_to_agent_id :: "string option"
  ce_lease_expires_at :: "time option"
  ce_created_at :: time

record agent_presence =
  ap_agent_id :: string
  ap_last_active_at :: time
  ap_status :: string
  ap_current_work_item_id :: "int option"
  ap_updated_at :: time

text \<open>The sidecar of a bug, with the columns of \<open>v12\<close> and of \<open>v44\<close>.\<close>

record bug_details =
  bd_item_id :: int
  bd_reproduction_steps :: "string option"
  bd_expected_behavior :: "string option"
  bd_actual_behavior :: "string option"
  bd_environment :: "string option"
  bd_affected_version :: "string option"
  bd_fixed_in_version :: "string option"
  bd_root_cause :: "string option"
  bd_is_regression :: bool
  bd_reported_by :: "string option"
  bd_reported_at :: time
  bd_triaged_by :: "string option"
  bd_triaged_at :: "time option"
  bd_resolution :: "string option"
  bd_verification_command :: "string option"
  bd_expected_signal :: "string option"
  bd_criterion_locked_at :: "time option"
  bd_updated_at :: time

text \<open>The payload of \<open>RealtimeEvent::tracker_status\<close> (\<open>src/realtime/event.rs\<close>).\<close>

record tracker_status_event =
  ts_public_id :: string
  ts_title :: string
  ts_from_status :: string
  ts_to_status :: string
  ts_actor :: string
  ts_kind :: string
  ts_project_id :: "int option"

record tracker_db =
  work_items :: "work_item list"
  criteria :: "acceptance_criterion list"
  evidence :: "verification_evidence list"
  negotiations :: "scope_negotiation list"
  relations :: "item_relation list"
  bug_sidecar :: "bug_details list"
  history :: "status_history list"
  claims :: "claim_event list"
  presence :: "agent_presence list"
  realtime_events :: "tracker_status_event list"
  next_work_item_id :: int
  next_criterion_id :: int
  next_evidence_id :: int
  next_negotiation_id :: int
  next_relation_id :: int

datatype db_error =
    RowNotFound
  | Decode string
  | UniqueViolation
  | ForeignKeyViolation
  | CheckViolation

datatype work_item_op_error =
    Db db_error
  | Transition transition_error
  | NotFound

section \<open>Access by key\<close>

definition get_work_item :: "tracker_db \<Rightarrow> int \<Rightarrow> work_item option" where
  "get_work_item db i = find (\<lambda>w. wi_id w = i) (work_items db)"

definition get_work_item_by_public_id :: "tracker_db \<Rightarrow> string \<Rightarrow> work_item option" where
  "get_work_item_by_public_id db p = find (\<lambda>w. wi_public_id w = p) (work_items db)"

definition update_item :: "int \<Rightarrow> (work_item \<Rightarrow> work_item) \<Rightarrow> tracker_db \<Rightarrow> tracker_db" where
  "update_item i f db = db\<lparr>work_items := map (\<lambda>w. if wi_id w = i then f w else w) (work_items db)\<rparr>"

section \<open>Creating items\<close>

record new_work_item =
  nw_public_id :: string
  nw_parent_id :: "int option"
  nw_project_id :: "int option"
  nw_definition_id :: "int option"
  nw_kind :: string
  nw_status :: string
  nw_title :: string
  nw_body :: "string option"
  nw_priority :: int
  nw_weight :: rat
  nw_parametric :: bool
  nw_parametric_corpus :: "string option"
  nw_parametric_expected :: "int option"
  nw_origin :: string
  nw_created_by :: "string option"
  nw_severity :: "string option"

definition new_work_item_default :: new_work_item where
  "new_work_item_default =
     \<lparr>nw_public_id = [], nw_parent_id = None, nw_project_id = None, nw_definition_id = None,
      nw_kind = ''task'', nw_status = ''pending'', nw_title = [], nw_body = None, nw_priority = 0,
      nw_weight = 1, nw_parametric = False, nw_parametric_corpus = None,
      nw_parametric_expected = None, nw_origin = ''user_explicit'', nw_created_by = None,
      nw_severity = None\<rparr>"

text \<open>The \<open>CHECK\<close> constraints of \<open>work_items\<close>: the inline ones and the vocabularies.\<close>

definition inline_checks :: "work_item \<Rightarrow> bool" where
  "inline_checks w \<longleftrightarrow>
     wi_parent_id w \<noteq> Some (wi_id w) \<and>
     0 \<le> wi_claimed_percent w \<and> wi_claimed_percent w \<le> 100 \<and>
     0 \<le> wi_priority w \<and> wi_priority w \<le> 100 \<and>
     wi_weight w > 0"

definition vocabulary_checks :: "work_item \<Rightarrow> bool" where
  "vocabulary_checks w \<longleftrightarrow>
     wi_kind w \<in> set (map work_item_kind_str work_item_kind_all) \<and>
     wi_status w \<in> set (map work_item_status_str work_item_status_all) \<and>
     wi_origin w \<in> {''user_explicit'', ''agent_write'', ''ingest_plan'', ''ingest_marker'', ''migration''} \<and>
     (case wi_severity w of None \<Rightarrow> True | Some s \<Rightarrow> s \<in> set (map severity_str severity_all))"

text \<open>The defaults of the columns an \<open>INSERT\<close> leaves out are those of the schema.\<close>

definition new_row :: "time \<Rightarrow> int \<Rightarrow> int option \<Rightarrow> new_work_item \<Rightarrow> work_item" where
  "new_row now i root_id n =
     \<lparr>wi_id = i, wi_public_id = nw_public_id n, wi_parent_id = nw_parent_id n,
      wi_project_id = nw_project_id n, wi_definition_id = nw_definition_id n, wi_root_id = root_id,
      wi_kind = nw_kind n, wi_status = nw_status n, wi_title = nw_title n, wi_body = nw_body n,
      wi_parametric = nw_parametric n, wi_parametric_corpus = nw_parametric_corpus n,
      wi_parametric_expected = nw_parametric_expected n, wi_priority = nw_priority n,
      wi_weight = nw_weight n, wi_computed_score = None, wi_claimed_percent = 0,
      wi_origin = nw_origin n, wi_created_by = nw_created_by n, wi_created_at = now,
      wi_updated_at = now, wi_started_at = None, wi_completed_at = None, wi_verified_at = None,
      wi_due_at = None, wi_snooze_until = None, wi_severity = nw_severity n,
      wi_claimed_by = None, wi_claimed_at = None, wi_lease_expires_at = None, wi_claim_count = 0,
      wi_assignee = None, wi_assigned_at = None, wi_assigned_by = None\<rparr>"

text \<open>\<open>SELECT COALESCE(root_id, id) FROM work_items WHERE id = $1\<close>.\<close>

definition coalesced_root :: "work_item \<Rightarrow> int" where
  "coalesced_root w = (case wi_root_id w of None \<Rightarrow> wi_id w | Some r \<Rightarrow> r)"

definition root_of_parent :: "tracker_db \<Rightarrow> int option \<Rightarrow> (db_error, int option) outcome" where
  "root_of_parent db p =
     (case p of None \<Rightarrow> Ok None
      | Some i \<Rightarrow> (case get_work_item db i of None \<Rightarrow> Err RowNotFound
                  | Some w \<Rightarrow> Ok (Some (coalesced_root w))))"

definition insert_work_item_in_tx ::
  "time \<Rightarrow> tracker_db \<Rightarrow> new_work_item \<Rightarrow> (db_error, tracker_db \<times> int) outcome" where
  "insert_work_item_in_tx now db item =
     and_then (root_of_parent db (nw_parent_id item)) (\<lambda>root_id.
       let i = next_work_item_id db; w = new_row now i root_id item in
       if \<not> (inline_checks w \<and> vocabulary_checks w) then Err CheckViolation
       else if get_work_item_by_public_id db (nw_public_id item) \<noteq> None then Err UniqueViolation
       else Ok (db\<lparr>work_items := work_items db @ [w], next_work_item_id := i + 1\<rparr>, i))"

definition insert_work_item ::
  "time \<Rightarrow> tracker_db \<Rightarrow> new_work_item \<Rightarrow> tracker_db \<times> (db_error, int) outcome" where
  "insert_work_item now db item =
     (case insert_work_item_in_tx now db item of
        Ok (db', i) \<Rightarrow> (db', Ok i)
      | Err e \<Rightarrow> (db, Err e)
      | Panic s \<Rightarrow> (db, Panic s))"

text \<open>
  \<open>INSERT ... ON CONFLICT (public_id) DO UPDATE\<close>: a re-ingested node keeps its status. The flag is
  \<open>xmax = 0\<close>, true of a fresh row only.
\<close>

definition upsert_ingested_item_in_tx ::
  "time \<Rightarrow> tracker_db \<Rightarrow> new_work_item \<Rightarrow> (db_error, tracker_db \<times> int \<times> bool) outcome" where
  "upsert_ingested_item_in_tx now db item =
     and_then (root_of_parent db (nw_parent_id item)) (\<lambda>root_id.
       let i = next_work_item_id db;
           w = new_row now i root_id (item\<lparr>nw_origin := ''ingest_plan'', nw_priority := 0, nw_weight := 1,
                 nw_parametric_expected := None, nw_created_by := None, nw_severity := None\<rparr>) in
       if \<not> (inline_checks w \<and> vocabulary_checks w) then Err CheckViolation
       else case get_work_item_by_public_id db (nw_public_id item) of
         None \<Rightarrow> Ok (db\<lparr>work_items := work_items db @ [w], next_work_item_id := i + 1\<rparr>, i, True)
       | Some old \<Rightarrow>
           if nw_parent_id item = Some (wi_id old) then Err CheckViolation
           else Ok (update_item (wi_id old) (\<lambda>r. r\<lparr>wi_title := nw_title item, wi_body := nw_body item,
                      wi_parametric := nw_parametric item,
                      wi_parametric_corpus := nw_parametric_corpus item,
                      wi_parent_id := nw_parent_id item, wi_root_id := root_id,
                      wi_definition_id := nw_definition_id item, wi_updated_at := now\<rparr>)
                    (db\<lparr>next_work_item_id := i + 1\<rparr>), wi_id old, False))"

section \<open>Editing items\<close>

definition coalesce :: "'a option \<Rightarrow> 'a option \<Rightarrow> 'a option" where
  "coalesce a b = (case a of None \<Rightarrow> b | Some x \<Rightarrow> Some x)"

definition update_work_item_fields_in_tx ::
  "time \<Rightarrow> tracker_db \<Rightarrow> int \<Rightarrow> string option \<Rightarrow> string option \<Rightarrow> int option \<Rightarrow> rat option \<Rightarrow> time option
     \<Rightarrow> bool \<Rightarrow> time option \<Rightarrow> bool \<Rightarrow> string option \<Rightarrow> (work_item_op_error, tracker_db \<times> work_item) outcome" where
  "update_work_item_fields_in_tx now db i title body priority weight due_at clear_due snooze_until
       clear_snooze severity =
     (let f = (\<lambda>w. w\<lparr>
         wi_title := (case title of None \<Rightarrow> wi_title w | Some t \<Rightarrow> t),
         wi_body := coalesce body (wi_body w),
         wi_priority := (case priority of None \<Rightarrow> wi_priority w | Some p \<Rightarrow> p),
         wi_weight := (case weight of None \<Rightarrow> wi_weight w | Some x \<Rightarrow> x),
         wi_due_at := (if clear_due then None else coalesce due_at (wi_due_at w)),
         wi_snooze_until := (if clear_snooze then None else coalesce snooze_until (wi_snooze_until w)),
         wi_severity := coalesce severity (wi_severity w),
         wi_updated_at := now\<rparr>) in
      case get_work_item db i of
        None \<Rightarrow> Err NotFound
      | Some w \<Rightarrow> if inline_checks (f w) \<and> vocabulary_checks (f w) then Ok (update_item i f db, f w)
                  else Err (Db CheckViolation))"

definition update_work_item_fields ::
  "time \<Rightarrow> tracker_db \<Rightarrow> int \<Rightarrow> string option \<Rightarrow> string option \<Rightarrow> int option \<Rightarrow> rat option \<Rightarrow> time option
     \<Rightarrow> bool \<Rightarrow> time option \<Rightarrow> bool \<Rightarrow> string option \<Rightarrow> tracker_db \<times> (work_item_op_error, work_item) outcome" where
  "update_work_item_fields now db i title body priority weight due_at clear_due snooze_until
       clear_snooze severity =
     (case update_work_item_fields_in_tx now db i title body priority weight due_at clear_due
             snooze_until clear_snooze severity of
        Ok (db', w) \<Rightarrow> (db', Ok w)
      | Err e \<Rightarrow> (db, Err e)
      | Panic s \<Rightarrow> (db, Panic s))"

section \<open>Criteria, evidence, negotiations, relations\<close>

definition insert_acceptance_criterion_in_tx ::
  "time \<Rightarrow> tracker_db \<Rightarrow> int \<Rightarrow> string \<Rightarrow> string \<Rightarrow> string option \<Rightarrow> int option \<Rightarrow> string \<Rightarrow> string option
     \<Rightarrow> bool \<Rightarrow> (db_error, tracker_db \<times> int) outcome" where
  "insert_acceptance_criterion_in_tx now db item_id criterion_kind description acceptance_uri
       expect_exit coverage_mode gate required =
     (if get_work_item db item_id = None then Err ForeignKeyViolation
      else if criterion_kind \<notin> {''test'', ''build'', ''lint'', ''proof'', ''model_check'', ''smt'', ''script'',
          ''auditor_verdict'', ''manual_user_signoff'', ''experiment_verdict''}
        \<or> coverage_mode \<notin> {''single'', ''universal''}
        \<or> gate \<notin> {None, Some ''alpha_antistub'', Some ''beta_verify'', Some ''gamma_audit'', Some ''formal''}
      then Err CheckViolation
      else let i = next_criterion_id db in
        Ok (db\<lparr>criteria := criteria db @
               [\<lparr>ac_id = i, ac_item_id = item_id, ac_criterion_kind = criterion_kind,
                 ac_description = description, ac_acceptance_uri = acceptance_uri,
                 ac_expect_exit = expect_exit, ac_coverage_mode = coverage_mode, ac_gate = gate,
                 ac_required = required, ac_created_at = now\<rparr>],
               next_criterion_id := i + 1\<rparr>, i))"

text \<open>\<open>INSERT ... SELECT ... FROM acceptance_criteria ac WHERE ac.id = $1\<close>: no criterion, no row.\<close>

definition record_verification_evidence ::
  "time \<Rightarrow> tracker_db \<Rightarrow> int \<Rightarrow> string \<Rightarrow> string \<Rightarrow> int option \<Rightarrow> int option \<Rightarrow> int option
     \<Rightarrow> string option \<Rightarrow> string option \<Rightarrow> tracker_db \<times> (db_error, int) outcome" where
  "record_verification_evidence now db criterion_id verdict source exit_code coverage_count
       coverage_total runner_identity commit_sha =
     (case find (\<lambda>c. ac_id c = criterion_id) (criteria db) of
        None \<Rightarrow> (db, Err RowNotFound)
      | Some c \<Rightarrow>
          if verdict \<notin> {''pass'', ''fail'', ''unknown'', ''error''}
            \<or> source \<notin> {''ci'', ''stop_hook'', ''subagent_audit'', ''external_auditor'', ''user_signoff'',
                ''experiment'', ''manual''}
          then (db, Err CheckViolation)
          else let i = next_evidence_id db in
            (db\<lparr>evidence := evidence db @
                [\<lparr>ve_id = i, ve_criterion_id = criterion_id, ve_item_id = ac_item_id c,
                  ve_verdict = verdict, ve_source = source, ve_exit_code = exit_code,
                  ve_coverage_count = coverage_count, ve_coverage_total = coverage_total,
                  ve_runner_identity = runner_identity, ve_commit_sha = commit_sha,
                  ve_created_at = now\<rparr>],
                next_evidence_id := i + 1\<rparr>, Ok i))"

definition trusted_sources :: "string list" where
  "trusted_sources =
     [''ci'', ''stop_hook'', ''subagent_audit'', ''external_auditor'', ''user_signoff'', ''experiment'']"

definition trusted_pass :: "verification_evidence \<Rightarrow> bool" where
  "trusted_pass e \<longleftrightarrow> ve_verdict e = ''pass'' \<and> ve_source e \<in> set trusted_sources"

text \<open>\<open>ORDER BY created_at DESC LIMIT 1\<close>; of rows with the same time the first is taken.\<close>

fun latest :: "verification_evidence list \<Rightarrow> verification_evidence option" where
  "latest [] = None"
| "latest (e # es) = (case latest es of None \<Rightarrow> Some e
     | Some e' \<Rightarrow> if ve_created_at e' > ve_created_at e then Some e' else Some e)"

definition latest_passing_evidence_id :: "tracker_db \<Rightarrow> int \<Rightarrow> int option" where
  "latest_passing_evidence_id db item_id =
     map_option ve_id (latest (filter (\<lambda>e. ve_item_id e = item_id \<and> trusted_pass e) (evidence db)))"

definition record_scope_negotiation_in_tx ::
  "time \<Rightarrow> tracker_db \<Rightarrow> int \<Rightarrow> string \<Rightarrow> string \<Rightarrow> string \<Rightarrow> (db_error, tracker_db \<times> int) outcome" where
  "record_scope_negotiation_in_tx now db item_id action granted_by reason =
     (if get_work_item db item_id = None then Err ForeignKeyViolation
      else if action \<notin> {''defer'', ''reinstate'', ''cancel'', ''scope_cut''} then Err CheckViolation
      else let i = next_negotiation_id db in
        Ok (db\<lparr>negotiations := negotiations db @
               [\<lparr>sn_id = i, sn_item_id = item_id, sn_action = action, sn_granted_by = granted_by,
                 sn_actor_kind = ''user'', sn_reason = reason, sn_created_at = now\<rparr>],
               next_negotiation_id := i + 1\<rparr>, i))"

definition insert_relation ::
  "tracker_db \<Rightarrow> int \<Rightarrow> int \<Rightarrow> string \<Rightarrow> string option \<Rightarrow> tracker_db \<times> (db_error, int) outcome" where
  "insert_relation db from_id to_id relation_type created_by =
     (if from_id = to_id \<or> relation_type \<notin> {''blocks'', ''depends_on'', ''relates_to'', ''duplicates'',
          ''supersedes'', ''derived_from''}
      then (db, Err CheckViolation)
      else case find (\<lambda>r. ir_from_item_id r = from_id \<and> ir_to_item_id r = to_id
                          \<and> ir_relation_type r = relation_type) (relations db) of
        Some r \<Rightarrow>
          (db\<lparr>relations := map (\<lambda>x. if ir_id x = ir_id r
                 then x\<lparr>ir_created_by := (case created_by of None \<Rightarrow> ir_created_by x | Some c \<Rightarrow> Some c)\<rparr>
                 else x) (relations db), next_relation_id := next_relation_id db + 1\<rparr>, Ok (ir_id r))
      | None \<Rightarrow>
          if get_work_item db from_id = None \<or> get_work_item db to_id = None
          then (db, Err ForeignKeyViolation)
          else let i = next_relation_id db in
            (db\<lparr>relations := relations db @ [\<lparr>ir_id = i, ir_from_item_id = from_id, ir_to_item_id = to_id,
                 ir_relation_type = relation_type, ir_created_by = created_by\<rparr>],
                next_relation_id := i + 1\<rparr>, Ok i))"

definition delete_relation :: "tracker_db \<Rightarrow> int \<Rightarrow> int \<Rightarrow> string \<Rightarrow> tracker_db \<times> bool" where
  "delete_relation db from_id to_id relation_type =
     (let hit = (\<lambda>r. ir_from_item_id r = from_id \<and> ir_to_item_id r = to_id
                     \<and> ir_relation_type r = relation_type) in
      (db\<lparr>relations := filter (\<lambda>r. \<not> hit r) (relations db)\<rparr>, list_ex hit (relations db)))"

section \<open>Status transitions\<close>

text \<open>The two \<open>EXISTS\<close> queries that fill the transition context.\<close>

definition evidence_present_for :: "tracker_db \<Rightarrow> int \<Rightarrow> bool" where
  "evidence_present_for db i \<longleftrightarrow> list_ex (\<lambda>e. ve_item_id e = i) (evidence db)"

definition evidence_passing_for :: "tracker_db \<Rightarrow> int \<Rightarrow> bool" where
  "evidence_passing_for db i \<longleftrightarrow>
     list_ex (\<lambda>c. ac_item_id c = i \<and> ac_required c) (criteria db) \<and>
     list_all (\<lambda>c. ac_item_id c = i \<and> ac_required c \<longrightarrow>
       list_ex (\<lambda>e. ve_criterion_id e = ac_id c \<and> trusted_pass e) (evidence db)) (criteria db)"

definition gate_context :: "tracker_db \<Rightarrow> int \<Rightarrow> int option \<Rightarrow> transition_context" where
  "gate_context db i negotiation_id = \<lparr>evidence_passing = evidence_passing_for db i,
     evidence_present = evidence_present_for db i, user_negotiation = negotiation_id \<noteq> None\<rparr>"

text \<open>The \<open>UPDATE work_items SET status = $2 ...\<close>, with its timestamps.\<close>

definition apply_status :: "time \<Rightarrow> work_item_status \<Rightarrow> work_item \<Rightarrow> work_item" where
  "apply_status now to w = w\<lparr>
     wi_status := work_item_status_str to,
     wi_updated_at := now,
     wi_started_at := (if to = InProgress \<and> wi_started_at w = None then Some now else wi_started_at w),
     wi_verified_at := (if to = Verified then Some now else wi_verified_at w),
     wi_completed_at := (if to \<in> {Verified, Cancelled} then Some now else wi_completed_at w)\<rparr>"

text \<open>
  The join shared by the unblock cascade and by \<open>NOT_BLOCKED\<close>: relation \<open>r\<close> makes item \<open>b\<close> a
  blocker of item \<open>w\<close>; a blocker is unresolved until it is verified, claimed done, deferred or
  cancelled.
\<close>

definition relation_blocks :: "item_relation \<Rightarrow> int \<Rightarrow> int \<Rightarrow> bool" where
  "relation_blocks r w b \<longleftrightarrow>
     (ir_relation_type r = ''depends_on'' \<and> ir_from_item_id r = w \<and> ir_to_item_id r = b) \<or>
     (ir_relation_type r = ''blocks'' \<and> ir_to_item_id r = w \<and> ir_from_item_id r = b)"

definition blocker_of :: "tracker_db \<Rightarrow> int \<Rightarrow> int \<Rightarrow> bool" where
  "blocker_of db w b \<longleftrightarrow> list_ex (\<lambda>r. relation_blocks r w b) (relations db)"

definition unresolved :: "work_item \<Rightarrow> bool" where
  "unresolved b \<longleftrightarrow> wi_status b \<notin> {''verified'', ''claimed_done'', ''deferred'', ''cancelled''}"

definition still_blocked :: "tracker_db \<Rightarrow> int \<Rightarrow> bool" where
  "still_blocked db w \<longleftrightarrow> list_ex (\<lambda>b. blocker_of db w (wi_id b) \<and> unresolved b) (work_items db)"

text \<open>The candidates of the cascade, and the step for one of them.\<close>

definition unblock_candidates :: "tracker_db \<Rightarrow> int \<Rightarrow> int list" where
  "unblock_candidates db i =
     map wi_id (filter (\<lambda>w. wi_status w = ''blocked'' \<and> blocker_of db (wi_id w) i) (work_items db))"

definition unblock_one :: "time \<Rightarrow> tracker_db \<Rightarrow> int \<Rightarrow> (work_item_op_error, tracker_db) outcome" where
  "unblock_one now db dep_id =
     (if still_blocked db dep_id then Ok db
      else case check_transition Blocked Ready System no_context of
        Err e \<Rightarrow> Err (Transition e)
      | Panic s \<Rightarrow> Panic s
      | Ok _ \<Rightarrow>
          Ok ((update_item dep_id (\<lambda>w. if wi_status w = ''blocked''
                  then w\<lparr>wi_status := ''ready'', wi_updated_at := now\<rparr> else w) db)
              \<lparr>history := history db @ [\<lparr>sh_item_id = dep_id, sh_from_status = Some ''blocked'',
                 sh_to_status = ''ready'', sh_actor_kind = ''system'', sh_actor_id = Some ''system'',
                 sh_evidence_id = None, sh_negotiation_id = None,
                 sh_reason = Some ''auto-unblocked: last blocker verified'', sh_created_at = now\<rparr>]\<rparr>))"

primrec unblock_all :: "time \<Rightarrow> tracker_db \<Rightarrow> int list \<Rightarrow> (work_item_op_error, tracker_db) outcome" where
  "unblock_all now db [] = Ok db"
| "unblock_all now db (d # ds) = and_then (unblock_one now db d) (\<lambda>db'. unblock_all now db' ds)"

definition missing_reference :: "tracker_db \<Rightarrow> int option \<Rightarrow> int option \<Rightarrow> bool" where
  "missing_reference db evidence_id negotiation_id \<longleftrightarrow>
     (case evidence_id of None \<Rightarrow> False | Some e \<Rightarrow> \<not> list_ex (\<lambda>r. ve_id r = e) (evidence db)) \<or>
     (case negotiation_id of None \<Rightarrow> False | Some n \<Rightarrow> \<not> list_ex (\<lambda>r. sn_id r = n) (negotiations db))"

text \<open>What one accepted transition writes, before the cascade.\<close>

definition write_status ::
  "time \<Rightarrow> tracker_db \<Rightarrow> work_item \<Rightarrow> work_item_status \<Rightarrow> work_item_status \<Rightarrow> actor \<Rightarrow> string option
     \<Rightarrow> string option \<Rightarrow> int option \<Rightarrow> int option \<Rightarrow> tracker_db" where
  "write_status now db current from to actor actor_id reason evidence_id negotiation_id =
     (update_item (wi_id current) (apply_status now to) db)
     \<lparr>history := history db @ [\<lparr>sh_item_id = wi_id current,
        sh_from_status = Some (work_item_status_str from), sh_to_status = work_item_status_str to,
        sh_actor_kind = actor_str actor, sh_actor_id = actor_id, sh_evidence_id = evidence_id,
        sh_negotiation_id = negotiation_id, sh_reason = reason, sh_created_at = now\<rparr>],
      realtime_events := realtime_events db @ [\<lparr>ts_public_id = wi_public_id current,
        ts_title = wi_title current, ts_from_status = work_item_status_str from,
        ts_to_status = work_item_status_str to, ts_actor = actor_str actor,
        ts_kind = wi_kind current, ts_project_id = wi_project_id current\<rparr>]\<rparr>"

definition set_work_item_status_in_tx ::
  "time \<Rightarrow> tracker_db \<Rightarrow> int \<Rightarrow> work_item_status \<Rightarrow> actor \<Rightarrow> string option \<Rightarrow> string option
     \<Rightarrow> int option \<Rightarrow> int option \<Rightarrow> (work_item_op_error, tracker_db \<times> work_item) outcome" where
  "set_work_item_status_in_tx now db i to actor actor_id reason evidence_id negotiation_id =
     (case get_work_item db i of
        None \<Rightarrow> Err NotFound
      | Some current \<Rightarrow>
        (case work_item_status_parse (wi_status current) of
           None \<Rightarrow> Err (Db (Decode (''unknown stored status '' @ in_quotes (wi_status current))))
         | Some from \<Rightarrow>
           (case check_transition from to actor (gate_context db i negotiation_id) of
              Err e \<Rightarrow> Err (Transition e)
            | Panic s \<Rightarrow> Panic s
            | Ok _ \<Rightarrow>
                if missing_reference db evidence_id negotiation_id then Err (Db ForeignKeyViolation)
                else let db1 = write_status now db current from to actor actor_id reason evidence_id
                                 negotiation_id in
                  and_then (if to = Verified then unblock_all now db1 (unblock_candidates db1 i) else Ok db1)
                    (\<lambda>db2. Ok (db2, apply_status now to current)))))"

definition set_work_item_status ::
  "time \<Rightarrow> tracker_db \<Rightarrow> int \<Rightarrow> work_item_status \<Rightarrow> actor \<Rightarrow> string option \<Rightarrow> string option
     \<Rightarrow> int option \<Rightarrow> int option \<Rightarrow> tracker_db \<times> (work_item_op_error, work_item) outcome" where
  "set_work_item_status now db i to actor actor_id reason evidence_id negotiation_id =
     (case set_work_item_status_in_tx now db i to actor actor_id reason evidence_id negotiation_id of
        Ok (db', w) \<Rightarrow> (db', Ok w)
      | Err e \<Rightarrow> (db, Err e)
      | Panic s \<Rightarrow> (db, Panic s))"

definition assign_work_item ::
  "time \<Rightarrow> tracker_db \<Rightarrow> int \<Rightarrow> string option \<Rightarrow> string option \<Rightarrow> tracker_db \<times> (work_item_op_error, work_item) outcome" where
  "assign_work_item now db i assignee assigned_by =
     (let f = (\<lambda>w. w\<lparr>wi_assignee := assignee, wi_assigned_at := (if assignee = None then None else Some now),
                wi_assigned_by := assigned_by, wi_updated_at := now\<rparr>) in
      case get_work_item db i of
        None \<Rightarrow> (db, Err NotFound)
      | Some w \<Rightarrow> (update_item i f db, Ok (f w)))"

section \<open>The bug sidecar\<close>

record bug_detail_fields =
  bf_reproduction_steps :: "string option"
  bf_expected_behavior :: "string option"
  bf_actual_behavior :: "string option"
  bf_environment :: "string option"
  bf_affected_version :: "string option"
  bf_fixed_in_version :: "string option"
  bf_root_cause :: "string option"
  bf_is_regression :: "bool option"
  bf_reported_by :: "string option"
  bf_triaged_by :: "string option"
  bf_set_triaged_at :: bool
  bf_resolution :: "string option"

definition bug_detail_fields_default :: bug_detail_fields where
  "bug_detail_fields_default =
     \<lparr>bf_reproduction_steps = None, bf_expected_behavior = None, bf_actual_behavior = None,
      bf_environment = None, bf_affected_version = None, bf_fixed_in_version = None,
      bf_root_cause = None, bf_is_regression = None, bf_reported_by = None, bf_triaged_by = None,
      bf_set_triaged_at = False, bf_resolution = None\<rparr>"

definition fetch_bug_details :: "tracker_db \<Rightarrow> int \<Rightarrow> bug_details option" where
  "fetch_bug_details db i = find (\<lambda>d. bd_item_id d = i) (bug_sidecar db)"

definition blank_bug_details :: "time \<Rightarrow> int \<Rightarrow> bug_details" where
  "blank_bug_details now i =
     \<lparr>bd_item_id = i, bd_reproduction_steps = None, bd_expected_behavior = None,
      bd_actual_behavior = None, bd_environment = None, bd_affected_version = None,
      bd_fixed_in_version = None, bd_root_cause = None, bd_is_regression = False,
      bd_reported_by = None, bd_reported_at = now, bd_triaged_by = None, bd_triaged_at = None,
      bd_resolution = None, bd_verification_command = None, bd_expected_signal = None,
      bd_criterion_locked_at = None, bd_updated_at = now\<rparr>"

text \<open>\<open>INSERT ... ON CONFLICT (item_id) DO UPDATE\<close> with a value for a fresh row and an update for an old one.\<close>

definition upsert_sidecar ::
  "int \<Rightarrow> bug_details \<Rightarrow> (bug_details \<Rightarrow> bug_details) \<Rightarrow> tracker_db \<Rightarrow> tracker_db" where
  "upsert_sidecar i row f db =
     (if fetch_bug_details db i = None then db\<lparr>bug_sidecar := bug_sidecar db @ [row]\<rparr>
      else db\<lparr>bug_sidecar := map (\<lambda>d. if bd_item_id d = i then f d else d) (bug_sidecar db)\<rparr>)"

definition upsert_bug_details_in_tx ::
  "time \<Rightarrow> tracker_db \<Rightarrow> int \<Rightarrow> bug_detail_fields \<Rightarrow> (db_error, tracker_db) outcome" where
  "upsert_bug_details_in_tx now db i f =
     (let up = (\<lambda>d. d\<lparr>
          bd_reproduction_steps := coalesce (bf_reproduction_steps f) (bd_reproduction_steps d),
          bd_expected_behavior := coalesce (bf_expected_behavior f) (bd_expected_behavior d),
          bd_actual_behavior := coalesce (bf_actual_behavior f) (bd_actual_behavior d),
          bd_environment := coalesce (bf_environment f) (bd_environment d),
          bd_affected_version := coalesce (bf_affected_version f) (bd_affected_version d),
          bd_fixed_in_version := coalesce (bf_fixed_in_version f) (bd_fixed_in_version d),
          bd_root_cause := coalesce (bf_root_cause f) (bd_root_cause d),
          bd_is_regression := (case bf_is_regression f of None \<Rightarrow> bd_is_regression d | Some b \<Rightarrow> b),
          bd_reported_by := coalesce (bf_reported_by f) (bd_reported_by d),
          bd_triaged_by := coalesce (bf_triaged_by f) (bd_triaged_by d),
          bd_triaged_at := (if bf_set_triaged_at f then Some now else bd_triaged_at d),
          bd_resolution := coalesce (bf_resolution f) (bd_resolution d),
          bd_updated_at := now\<rparr>) in
      if get_work_item db i = None then Err ForeignKeyViolation
      else if (case bf_resolution f of None \<Rightarrow> False
               | Some r \<Rightarrow> r \<notin> set (map bug_resolution_str bug_resolution_all)) then Err CheckViolation
      else Ok (upsert_sidecar i (up (blank_bug_details now i)) up db))"

definition freeze_bug_criterion ::
  "time \<Rightarrow> tracker_db \<Rightarrow> int \<Rightarrow> string \<Rightarrow> string option \<Rightarrow> tracker_db \<times> (db_error, unit) outcome" where
  "freeze_bug_criterion now db i verification_command expected_signal =
     (if get_work_item db i = None then (db, Err ForeignKeyViolation)
      else (upsert_sidecar i
              ((blank_bug_details now i)\<lparr>bd_verification_command := Some verification_command,
                 bd_expected_signal := expected_signal, bd_criterion_locked_at := Some now\<rparr>)
              (\<lambda>d. d\<lparr>bd_verification_command := Some verification_command,
                 bd_expected_signal := coalesce expected_signal (bd_expected_signal d),
                 bd_criterion_locked_at := coalesce (bd_criterion_locked_at d) (Some now),
                 bd_updated_at := now\<rparr>) db, Ok ()))"

end
