(* ===== verification/Tracker_Status.thy ===== *)
theory Tracker_Status
  imports Tracker_Store
begin

text \<open>
  What \<open>set_work_item_status\<close> does to the tables: an exact account of an accepted transition, of the
  unblock cascade that follows a verification, and of every refusal.
\<close>

section \<open>Keys\<close>

definition keys_distinct :: "tracker_db \<Rightarrow> bool" where
  "keys_distinct db \<longleftrightarrow> distinct (map wi_id (work_items db))"

lemma get_work_item_SomeD: "get_work_item db i = Some w \<Longrightarrow> w \<in> set (work_items db) \<and> wi_id w = i"
  by (auto simp: get_work_item_def dest: find_SomeD)

lemma get_work_item_None_iff: "get_work_item db i = None \<longleftrightarrow> i \<notin> wi_id ` set (work_items db)"
  by (auto simp: get_work_item_def find_None_iff)

lemma get_work_item_eq:
  "keys_distinct db \<Longrightarrow> get_work_item db i = Some w \<longleftrightarrow> w \<in> set (work_items db) \<and> wi_id w = i"
proof -
  assume d: "keys_distinct db"
  have "get_work_item db i = Some w" if "w \<in> set (work_items db)" "wi_id w = i"
  proof (cases "get_work_item db i")
    case None
    then show ?thesis using that by (auto simp: get_work_item_None_iff)
  next
    case (Some v)
    then have "v \<in> set (work_items db)" "wi_id v = wi_id w" using that get_work_item_SomeD by auto
    with d that have "v = w" unfolding keys_distinct_def by (meson distinct_map inj_onD)
    with Some show ?thesis by simp
  qed
  then show ?thesis using get_work_item_SomeD by blast
qed

definition keeps_key :: "(work_item \<Rightarrow> work_item) \<Rightarrow> bool" where
  "keeps_key f \<longleftrightarrow> (\<forall>w. wi_id (f w) = wi_id w)"

lemma keeps_keyI [intro]: "(\<And>w. wi_id (f w) = wi_id w) \<Longrightarrow> keeps_key f"
  by (simp add: keeps_key_def)

lemma update_item_ids [simp]:
  "keeps_key f \<Longrightarrow> map wi_id (work_items (update_item i f db)) = map wi_id (work_items db)"
  by (auto simp: update_item_def keeps_key_def)

lemma update_item_fields [simp]:
  "criteria (update_item i f db) = criteria db" "evidence (update_item i f db) = evidence db"
  "negotiations (update_item i f db) = negotiations db" "relations (update_item i f db) = relations db"
  "bug_sidecar (update_item i f db) = bug_sidecar db"
  "history (update_item i f db) = history db" "claims (update_item i f db) = claims db"
  "presence (update_item i f db) = presence db"
  "realtime_events (update_item i f db) = realtime_events db"
  "next_work_item_id (update_item i f db) = next_work_item_id db"
  "next_criterion_id (update_item i f db) = next_criterion_id db"
  "next_evidence_id (update_item i f db) = next_evidence_id db"
  by (simp_all add: update_item_def)

lemma apply_status_key [simp]: "wi_id (apply_status now to w) = wi_id w"
  by (simp add: apply_status_def)

lemma apply_status_status [simp]: "wi_status (apply_status now to w) = work_item_status_str to"
  by (simp add: apply_status_def)

section \<open>The cascade\<close>

definition make_ready :: "time \<Rightarrow> work_item \<Rightarrow> work_item" where
  "make_ready now w = w\<lparr>wi_status := ''ready'', wi_updated_at := now\<rparr>"

lemma make_ready_simps [simp]: "wi_id (make_ready now w) = wi_id w" "wi_status (make_ready now w) = ''ready''"
  by (simp_all add: make_ready_def)

definition unblock_row :: "time \<Rightarrow> int \<Rightarrow> status_history" where
  "unblock_row now d = \<lparr>sh_item_id = d, sh_from_status = Some ''blocked'',
     sh_to_status = ''ready'', sh_actor_kind = ''system'', sh_actor_id = Some ''system'',
     sh_evidence_id = None, sh_negotiation_id = None,
     sh_reason = Some ''auto-unblocked: last blocker verified'', sh_created_at = now\<rparr>"

definition ready_rows :: "time \<Rightarrow> (int \<Rightarrow> bool) \<Rightarrow> work_item list \<Rightarrow> work_item list" where
  "ready_rows now P ws = map (\<lambda>w. if wi_status w = ''blocked'' \<and> P (wi_id w) then make_ready now w else w) ws"

lemma ready_rows_compose:
  "ready_rows now P (ready_rows now Q ws) = ready_rows now (\<lambda>i. P i \<or> Q i) ws"
  by (auto simp: ready_rows_def)

lemma ready_rows_ids [simp]: "map wi_id (ready_rows now P ws) = map wi_id ws"
  by (auto simp: ready_rows_def)

text \<open>Leaving \<open>blocked\<close> for \<open>ready\<close> resolves nothing, so the cascade's test does not depend on its order.\<close>

lemma still_blocked_ready_rows:
  assumes "relations db' = relations db" "work_items db' = ready_rows now P (work_items db)"
  shows "still_blocked db' x \<longleftrightarrow> still_blocked db x"
proof -
  define f where "f w = (if wi_status w = ''blocked'' \<and> P (wi_id w) then make_ready now w else w)" for w
  have "unresolved (f w) \<longleftrightarrow> unresolved w" "wi_id (f w) = wi_id w" for w
    by (auto simp: f_def unresolved_def)
  moreover have "work_items db' = map f (work_items db)"
    using assms(2) by (simp add: ready_rows_def f_def)
  ultimately show ?thesis
    using assms(1) by (simp add: still_blocked_def blocker_of_def list_ex_iff)
qed

lemma unblock_one_eq:
  "unblock_one now db d = Ok (if still_blocked db d then db else db\<lparr>
     work_items := ready_rows now (\<lambda>i. i = d) (work_items db),
     history := history db @ [unblock_row now d]\<rparr>)"
proof -
  have "check_transition Blocked Ready System no_context = Ok ()"
    by (simp add: check_transition_Ok_iff gate_open_def transition_defs)
  moreover have "update_item d (\<lambda>w. if wi_status w = ''blocked''
      then w\<lparr>wi_status := ''ready'', wi_updated_at := now\<rparr> else w) db =
      db\<lparr>work_items := ready_rows now (\<lambda>i. i = d) (work_items db)\<rparr>"
    by (auto simp: update_item_def ready_rows_def make_ready_def)
  ultimately show ?thesis
    by (simp add: unblock_one_def unblock_row_def)
qed

lemma unblock_all_eq:
  "unblock_all now db ds = Ok (db\<lparr>
     work_items := ready_rows now (\<lambda>i. i \<in> set ds \<and> \<not> still_blocked db i) (work_items db),
     history := history db @ map (unblock_row now) (filter (\<lambda>d. \<not> still_blocked db d) ds)\<rparr>)"
proof (induction ds arbitrary: db)
  case Nil
  show ?case by (simp add: ready_rows_def)
next
  case (Cons d ds)
  show ?case
  proof (cases "still_blocked db d")
    case True
    then have "(\<lambda>i. i \<in> set (d # ds) \<and> \<not> still_blocked db i) = (\<lambda>i. i \<in> set ds \<and> \<not> still_blocked db i)"
      by auto
    with True show ?thesis by (simp add: unblock_one_eq Cons.IH del: list.set)
  next
    case False
    let ?db = "db\<lparr>work_items := ready_rows now (\<lambda>i. i = d) (work_items db),
      history := history db @ [unblock_row now d]\<rparr>"
    have s: "still_blocked ?db = still_blocked db"
      by (rule ext, rule still_blocked_ready_rows) simp_all
    have "(\<lambda>i. i \<in> set ds \<and> \<not> still_blocked db i \<or> i = d) = (\<lambda>i. i \<in> set (d # ds) \<and> \<not> still_blocked db i)"
      using False by auto
    then show ?thesis
      using False Cons.IH[of ?db] by (simp add: unblock_one_eq s ready_rows_compose del: list.set)
  qed
qed

section \<open>Accepted transitions\<close>

definition cascade :: "time \<Rightarrow> int \<Rightarrow> tracker_db \<Rightarrow> tracker_db" where
  "cascade now i db = (let ds = unblock_candidates db i in db\<lparr>
     work_items := ready_rows now (\<lambda>j. j \<in> set ds \<and> \<not> still_blocked db j) (work_items db),
     history := history db @ map (unblock_row now) (filter (\<lambda>d. \<not> still_blocked db d) ds)\<rparr>)"

lemma set_work_item_status_in_tx_Ok_iff:
  "set_work_item_status_in_tx now db i to a aid rsn eid nid = Ok (db', w') \<longleftrightarrow>
     (\<exists>w s. get_work_item db i = Some w \<and> wi_status w = work_item_status_str s \<and>
        a \<in> set (legal_actors s to) \<and> gate_open to (gate_context db i nid) \<and>
        \<not> missing_reference db eid nid \<and> w' = apply_status now to w \<and>
        db' = (let db1 = write_status now db w s to a aid rsn eid nid in
                 if to = Verified then cascade now i db1 else db1))"
  (is "?l \<longleftrightarrow> ?r")
proof (cases "get_work_item db i")
  case None
  then show ?thesis by (simp add: set_work_item_status_in_tx_def)
next
  case (Some w)
  show ?thesis
  proof (cases "work_item_status_parse (wi_status w)")
    case None
    then have "\<And>s. wi_status w \<noteq> work_item_status_str s" by auto
    with Some None show ?thesis by (simp add: set_work_item_status_in_tx_def)
  next
    case p: (Some s)
    then have ws: "wi_status w = work_item_status_str s" by (rule status_parse_SomeD)
    have c: "check_transition s to a (gate_context db i nid) = Ok () \<longleftrightarrow>
        a \<in> set (legal_actors s to) \<and> gate_open to (gate_context db i nid)"
      by (rule check_transition_Ok_iff)
    show ?thesis
      using c by (cases "check_transition s to a (gate_context db i nid)")
        (auto simp: set_work_item_status_in_tx_def Some ws Let_def
          unblock_all_eq cascade_def)
  qed
qed

lemma set_work_item_status_Ok_iff:
  "set_work_item_status now db i to a aid rsn eid nid = (db', Ok w') \<longleftrightarrow>
     set_work_item_status_in_tx now db i to a aid rsn eid nid = Ok (db', w')"
  by (auto simp: set_work_item_status_def split: outcome.splits prod.splits)

lemma set_work_item_status_refused:
  "set_work_item_status now db i to a aid rsn eid nid = (db', r) \<Longrightarrow> \<not> is_Ok r \<Longrightarrow> db' = db"
  by (auto simp: set_work_item_status_def split: outcome.splits prod.splits)

lemma write_status_simps [simp]:
  "work_items (write_status now db w s to a aid rsn eid nid) =
     map (\<lambda>v. if wi_id v = wi_id w then apply_status now to v else v) (work_items db)"
  "criteria (write_status now db w s to a aid rsn eid nid) = criteria db"
  "evidence (write_status now db w s to a aid rsn eid nid) = evidence db"
  "relations (write_status now db w s to a aid rsn eid nid) = relations db"
  "negotiations (write_status now db w s to a aid rsn eid nid) = negotiations db"
  "claims (write_status now db w s to a aid rsn eid nid) = claims db"
  by (simp_all add: write_status_def update_item_def)

lemma cascade_simps [simp]:
  "criteria (cascade now i db) = criteria db" "evidence (cascade now i db) = evidence db"
  "relations (cascade now i db) = relations db" "negotiations (cascade now i db) = negotiations db"
  "claims (cascade now i db) = claims db" "realtime_events (cascade now i db) = realtime_events db"
  by (simp_all add: cascade_def Let_def)

text \<open>The items after an accepted transition to any status.\<close>

definition cleared_by :: "tracker_db \<Rightarrow> int \<Rightarrow> int \<Rightarrow> bool" where
  "cleared_by db i j \<longleftrightarrow> blocker_of db j i \<and>
     (\<forall>b \<in> set (work_items db). blocker_of db j (wi_id b) \<longrightarrow> wi_id b = i \<or> \<not> unresolved b)"

lemma verified_resolves:
  assumes "keys_distinct db" "get_work_item db i = Some w"
  shows "still_blocked (write_status now db w s Verified a aid rsn eid nid) j \<longleftrightarrow>
    (\<exists>b \<in> set (work_items db). blocker_of db j (wi_id b) \<and> wi_id b \<noteq> i \<and> unresolved b)"
proof -
  have "wi_id w = i" using assms get_work_item_SomeD by auto
  moreover have "\<not> unresolved (apply_status now Verified v)" for v by (simp add: unresolved_def)
  ultimately show ?thesis
    by (auto simp: still_blocked_def blocker_of_def list_ex_iff)
qed

lemma verified_items:
  assumes "keys_distinct db" "get_work_item db i = Some w" "wi_status w \<noteq> ''blocked''"
  shows "work_items (cascade now i (write_status now db w s Verified a aid rsn eid nid)) =
    map (\<lambda>v. if wi_id v = i then apply_status now Verified v
             else if wi_status v = ''blocked'' \<and> cleared_by db i (wi_id v) then make_ready now v
             else v) (work_items db)"
proof -
  let ?db1 = "write_status now db w s Verified a aid rsn eid nid"
  have wi: "wi_id w = i" using assms(2) get_work_item_SomeD by auto
  have cand: "j \<in> set (unblock_candidates ?db1 i) \<longleftrightarrow>
      (\<exists>v \<in> set (work_items db). wi_id v = j \<and> j \<noteq> i \<and> wi_status v = ''blocked'' \<and> blocker_of db j i)" for j
    by (auto simp: unblock_candidates_def wi blocker_of_def)
  have "v \<in> set (work_items db) \<Longrightarrow> wi_status v = ''blocked'' \<Longrightarrow> wi_id v \<noteq> i \<Longrightarrow>
      wi_id v \<in> set (unblock_candidates ?db1 i) \<and> \<not> still_blocked ?db1 (wi_id v) \<longleftrightarrow> cleared_by db i (wi_id v)" for v
    unfolding cand verified_resolves[OF assms(1,2)] cleared_by_def by blast
  then show ?thesis
    by (auto simp: cascade_def Let_def ready_rows_def wi)
qed

lemma verified_history:
  assumes "keys_distinct db" "get_work_item db i = Some w"
  shows "map sh_item_id (history (cascade now i (write_status now db w s Verified a aid rsn eid nid))) =
    map sh_item_id (history db) @ i #
      map wi_id (filter (\<lambda>v. wi_id v \<noteq> i \<and> wi_status v = ''blocked'' \<and> cleared_by db i (wi_id v)) (work_items db))"
proof -
  let ?db1 = "write_status now db w s Verified a aid rsn eid nid"
  have wi: "wi_id w = i" using assms(2) get_work_item_SomeD by auto
  define u where "u v = (if wi_id v = i then apply_status now Verified v else v)" for v
  have u: "wi_id (u v) = wi_id v" "wi_status (u v) = ''blocked'' \<longleftrightarrow> wi_id v \<noteq> i \<and> wi_status v = ''blocked''" for v
    by (simp_all add: u_def)
  have "work_items ?db1 = map u (work_items db)" by (simp add: wi u_def[abs_def])
  moreover have "blocker_of ?db1 = blocker_of db" by (simp add: blocker_of_def fun_eq_iff)
  ultimately have "filter (\<lambda>d. \<not> still_blocked ?db1 d) (unblock_candidates ?db1 i) =
      map wi_id (filter (\<lambda>v. (wi_id v \<noteq> i \<and> wi_status v = ''blocked'' \<and> blocker_of db (wi_id v) i)
        \<and> \<not> still_blocked ?db1 (wi_id v)) (work_items db))"
    by (simp add: unblock_candidates_def filter_map comp_def u conj_ac del: write_status_simps)
  also have "\<dots> = map wi_id (filter (\<lambda>v. wi_id v \<noteq> i \<and> wi_status v = ''blocked'' \<and> cleared_by db i (wi_id v)) (work_items db))"
    by (rule arg_cong[where f = "map wi_id"], rule filter_cong[OF refl])
      (unfold verified_resolves[OF assms] cleared_by_def, blast)
  finally have "filter (\<lambda>d. \<not> still_blocked ?db1 d) (unblock_candidates ?db1 i) = \<dots>" .
  moreover have "history ?db1 = history db @ [last (history ?db1)]" "sh_item_id (last (history ?db1)) = i"
    by (simp_all add: write_status_def wi)
  moreover have "sh_item_id (unblock_row now d) = d" for d by (simp add: unblock_row_def)
  ultimately show ?thesis by (simp add: cascade_def Let_def comp_def write_status_def wi)
qed

end
