(* ===== verification/Tracker_Rollup.thy ===== *)
theory Tracker_Rollup
  imports Complex_Main Tracker_Vocab
begin

text \<open>
  The completion roll-up of \<open>src/tracker/rollup.rs\<close>, with \<open>f64\<close> as exact rationals: the loop of
  \<open>aggregate\<close> as a left fold over its six accumulators, a closed form of what it computes, and its
  bounds and monotonicity.
\<close>

record leaf_contribution =
  lc_status :: work_item_status
  lc_weight :: rat
  lc_parametric :: bool
  lc_universal_satisfied :: bool

record rollup_result =
  verified_fraction :: rat
  claimed_fraction :: rat
  leaf_count :: int
  verified_leaves :: int
  claimed_leaves :: int

definition is_verified_done :: "leaf_contribution \<Rightarrow> bool" where
  "is_verified_done l \<longleftrightarrow> (if lc_parametric l then lc_universal_satisfied l else is_verified (lc_status l))"

definition is_claimed_done :: "leaf_contribution \<Rightarrow> bool" where
  "is_claimed_done l \<longleftrightarrow> is_verified_done l \<or> lc_status l = ClaimedDone"

record rollup_acc =
  total_w :: rat
  verified_w :: rat
  claimed_w :: rat
  verified_n :: int
  claimed_n :: int
  counted_n :: int

definition rollup_start :: rollup_acc where
  "rollup_start = \<lparr>total_w = 0, verified_w = 0, claimed_w = 0, verified_n = 0, claimed_n = 0, counted_n = 0\<rparr>"

definition rollup_leaf :: "rollup_acc \<Rightarrow> leaf_contribution \<Rightarrow> rollup_acc" where
  "rollup_leaf a leaf =
     (if is_excluded_from_rollup (lc_status leaf) then a
      else let w = max (lc_weight leaf) 0;
               a1 = a\<lparr>counted_n := counted_n a + 1, total_w := total_w a + w\<rparr>;
               a2 = (if is_verified_done leaf
                     then a1\<lparr>verified_w := verified_w a1 + w, verified_n := verified_n a1 + 1\<rparr> else a1)
           in if is_claimed_done leaf
              then a2\<lparr>claimed_w := claimed_w a2 + w, claimed_n := claimed_n a2 + 1\<rparr> else a2)"

definition aggregate :: "leaf_contribution list \<Rightarrow> rollup_result" where
  "aggregate leaves =
     (let a = foldl rollup_leaf rollup_start leaves;
          frac = (\<lambda>num. if total_w a > 0 then num / total_w a else 0) in
      \<lparr>verified_fraction = frac (verified_w a), claimed_fraction = frac (claimed_w a),
       leaf_count = counted_n a, verified_leaves = verified_n a, claimed_leaves = claimed_n a\<rparr>)"

section \<open>A closed form\<close>

definition countable :: "leaf_contribution list \<Rightarrow> leaf_contribution list" where
  "countable ls = filter (\<lambda>l. \<not> is_excluded_from_rollup (lc_status l)) ls"

definition weight_of :: "(leaf_contribution \<Rightarrow> bool) \<Rightarrow> leaf_contribution list \<Rightarrow> rat" where
  "weight_of P ls = sum_list (map (\<lambda>l. max (lc_weight l) 0) (filter P (countable ls)))"

definition share_of :: "(leaf_contribution \<Rightarrow> bool) \<Rightarrow> leaf_contribution list \<Rightarrow> rat" where
  "share_of P ls = (let t = weight_of (\<lambda>_. True) ls in if t > 0 then weight_of P ls / t else 0)"

lemma weight_of_Nil [simp]: "weight_of P [] = 0"
  by (simp add: weight_of_def countable_def)

lemma weight_of_Cons: "weight_of P (l # ls) =
  (if \<not> is_excluded_from_rollup (lc_status l) \<and> P l then max (lc_weight l) 0 else 0) + weight_of P ls"
  by (simp add: weight_of_def countable_def)

lemma fold_rollup:
  "foldl rollup_leaf a ls = \<lparr>total_w = total_w a + weight_of (\<lambda>_. True) ls,
     verified_w = verified_w a + weight_of is_verified_done ls,
     claimed_w = claimed_w a + weight_of is_claimed_done ls,
     verified_n = verified_n a + int (length (filter is_verified_done (countable ls))),
     claimed_n = claimed_n a + int (length (filter is_claimed_done (countable ls))),
     counted_n = counted_n a + int (length (countable ls)), \<dots> = rollup_acc.more a\<rparr>"
proof (induction ls arbitrary: a)
  case Nil
  show ?case by (simp add: countable_def)
next
  case (Cons l ls)
  show ?case
    unfolding foldl_Cons Cons.IH[of "rollup_leaf a l"]
    by (simp add: rollup_leaf_def weight_of_Cons countable_def Let_def)
qed

lemma aggregate_closed_form:
  "aggregate ls = \<lparr>verified_fraction = share_of is_verified_done ls,
     claimed_fraction = share_of is_claimed_done ls,
     leaf_count = int (length (countable ls)),
     verified_leaves = int (length (filter is_verified_done (countable ls))),
     claimed_leaves = int (length (filter is_claimed_done (countable ls)))\<rparr>"
  by (simp add: aggregate_def fold_rollup rollup_start_def share_of_def Let_def)

section \<open>Bounds and monotonicity\<close>

lemma weight_of_nonneg: "0 \<le> weight_of P ls"
  by (induction ls) (auto simp: weight_of_Cons)

lemma weight_of_mono: "(\<And>l. P l \<Longrightarrow> Q l) \<Longrightarrow> weight_of P ls \<le> weight_of Q ls"
  by (induction ls) (auto simp: weight_of_Cons add_mono add_increasing)

lemma share_of_bounds: "0 \<le> share_of P ls" "share_of P ls \<le> 1"
proof -
  have "weight_of P ls \<le> weight_of (\<lambda>_. True) ls" by (rule weight_of_mono) simp
  with weight_of_nonneg[of P ls] show "0 \<le> share_of P ls" "share_of P ls \<le> 1"
    by (auto simp: share_of_def Let_def)
qed

lemma share_of_mono: "(\<And>l. P l \<Longrightarrow> Q l) \<Longrightarrow> share_of P ls \<le> share_of Q ls"
  using weight_of_mono[of P Q ls] by (auto simp: share_of_def Let_def divide_right_mono)

lemma weight_of_eq_all_iff:
  assumes "\<And>l. l \<in> set ls \<Longrightarrow> lc_weight l > 0"
  shows "weight_of P ls = weight_of (\<lambda>_. True) ls \<longleftrightarrow> (\<forall>l \<in> set (countable ls). P l)"
  using assms
proof (induction ls)
  case Nil
  show ?case by (simp add: countable_def)
next
  case (Cons l ls)
  have le: "weight_of P ls \<le> weight_of (\<lambda>_. True) ls" by (rule weight_of_mono) simp
  have "0 < lc_weight l" using Cons.prems by simp
  moreover have "weight_of P ls = weight_of (\<lambda>_. True) ls \<longleftrightarrow> (\<forall>l \<in> set (countable ls). P l)"
    using Cons.IH Cons.prems by simp
  ultimately show ?case using le
    by (auto simp: weight_of_Cons countable_def)
qed

text \<open>With positive weights (a \<open>CHECK\<close> of the table) the fraction is one exactly when all is done.\<close>

lemma share_of_full_iff:
  assumes "\<And>l. l \<in> set ls \<Longrightarrow> lc_weight l > 0"
  shows "share_of P ls = 1 \<longleftrightarrow> countable ls \<noteq> [] \<and> (\<forall>l \<in> set (countable ls). P l)"
proof -
  have t: "weight_of (\<lambda>_. True) ls > 0 \<longleftrightarrow> countable ls \<noteq> []"
    using assms
  proof (induction ls)
    case (Cons l ls)
    then show ?case using weight_of_nonneg[of "\<lambda>_. True" ls]
      by (auto simp: weight_of_Cons countable_def add_pos_nonneg)
  qed (simp add: countable_def)
  show ?thesis
    using weight_of_eq_all_iff[of ls P, OF assms] t by (auto simp: share_of_def Let_def)
qed

end
