(* ===== verification/Tracker_Tree.thy ===== *)
theory Tracker_Tree
  imports Tracker_Status Tracker_Rollup "HOL-Library.Product_Lexorder"
begin

text \<open>
  The parent tree of work items: the recursive queries of \<open>src/db/queries/work_items.rs\<close>, moving a
  subtree (\<open>reparent_work_item\<close> and its guarded tool), and the roll-up of a subtree.

  \<open>WITH RECURSIVE ... UNION ALL\<close> evaluates a working table: emit it, replace it by the rows its
  recursive term derives from it, stop when it is empty. On a cyclic parent relation it does not
  stop, so \<open>cte_rows\<close> is a partial function whose \<open>None\<close> is "does not return".
\<close>

section \<open>Recursive queries\<close>

definition children_of :: "work_item list \<Rightarrow> work_item list \<Rightarrow> work_item list" where
  "children_of all work = concat (map (\<lambda>s. filter (\<lambda>c. wi_parent_id c = Some (wi_id s)) all) work)"

partial_function (option) cte_rows :: "work_item list \<Rightarrow> work_item list \<Rightarrow> work_item list option" where
  "cte_rows all work =
     (if work = [] then Some []
      else Option.bind (cte_rows all (children_of all work)) (\<lambda>rest. Some (work @ rest)))"

declare cte_rows.simps [code]

definition subtree_rows :: "tracker_db \<Rightarrow> int \<Rightarrow> work_item list option" where
  "subtree_rows db i = cte_rows (work_items db) (filter (\<lambda>w. wi_id w = i) (work_items db))"

text \<open>
  \<open>get_work_item_subtree\<close> carries the path of each row, skips a child that is already on it, and
  stops at paths of \<open>cap\<close> items; \<open>d\<close> is the length of the paths in the working table.
\<close>

definition path_children ::
  "work_item list \<Rightarrow> (work_item \<times> int list) list \<Rightarrow> (work_item \<times> int list) list" where
  "path_children all work = concat (map (\<lambda>(s, path).
     map (\<lambda>c. (c, path @ [wi_id c]))
       (filter (\<lambda>c. wi_parent_id c = Some (wi_id s) \<and> wi_id c \<notin> set path) all)) work)"

function path_rows ::
  "work_item list \<Rightarrow> nat \<Rightarrow> nat \<Rightarrow> (work_item \<times> int list) list \<Rightarrow> (nat \<times> work_item) list" where
  "path_rows all cap d work =
     map (\<lambda>(w, _). (d, w)) work @
     (if work = [] \<or> cap \<le> d then [] else path_rows all cap (Suc d) (path_children all work))"
  by pat_completeness auto
termination
  by (relation "measure (\<lambda>(all, cap, d, work). cap - d)") auto

declare path_rows.simps [simp del]

definition clamp :: "int \<Rightarrow> int \<Rightarrow> int \<Rightarrow> int" where
  "clamp lo hi x = (if x < lo then lo else if x > hi then hi else x)"

definition get_work_item_subtree :: "tracker_db \<Rightarrow> int \<Rightarrow> int \<Rightarrow> work_item list" where
  "get_work_item_subtree db root_id max_rows =
     (let cap = nat (clamp 1 100000 max_rows);
          start = map (\<lambda>w. (w, [wi_id w])) (filter (\<lambda>w. wi_id w = root_id) (work_items db)) in
      map snd (take cap (sort_key (\<lambda>(d, w). (d, - wi_priority w, wi_id w))
        (path_rows (work_items db) cap 1 start))))"

section \<open>Moving a subtree\<close>

definition reparent_work_item ::
  "time \<Rightarrow> tracker_db \<Rightarrow> int \<Rightarrow> int option \<Rightarrow> (tracker_db \<times> (work_item_op_error, unit) outcome) option" where
  "reparent_work_item now db i new_parent_id =
     (if new_parent_id = Some i \<and> get_work_item db i \<noteq> None then Some (db, Err (Db CheckViolation))
      else if get_work_item db i \<noteq> None \<and>
              (case new_parent_id of None \<Rightarrow> False | Some p \<Rightarrow> get_work_item db p = None)
      then Some (db, Err (Db ForeignKeyViolation))
      else let new_root = (case new_parent_id of None \<Rightarrow> None
                           | Some p \<Rightarrow> map_option coalesced_root (get_work_item db p));
               db1 = update_item i (\<lambda>w. w\<lparr>wi_parent_id := new_parent_id, wi_root_id := new_root,
                       wi_updated_at := now\<rparr>) db in
        case subtree_rows db1 i of
          None \<Rightarrow> None
        | Some moved \<Rightarrow>
            Some (db1\<lparr>work_items := map (\<lambda>w.
                if wi_id w \<in> wi_id ` set moved \<and> wi_id w \<noteq> i
                then w\<lparr>wi_root_id := Some (case new_root of None \<Rightarrow> i | Some r \<Rightarrow> r), wi_updated_at := now\<rparr>
                else w) (work_items db1)\<rparr>, Ok ()))"

section \<open>Roll-up of a subtree\<close>

record rollup_leaf_row =
  rl_status :: string
  rl_weight :: rat
  rl_parametric :: bool
  rl_universal_satisfied :: bool

definition universal_covered :: "tracker_db \<Rightarrow> work_item \<Rightarrow> bool" where
  "universal_covered db s \<longleftrightarrow>
     list_ex (\<lambda>c. ac_item_id c = wi_id s \<and> ac_coverage_mode c = ''universal'' \<and>
       list_ex (\<lambda>e. ve_criterion_id e = ac_id c \<and> ve_verdict e = ''pass'' \<and>
         (case (wi_parametric_expected s, ve_coverage_count e) of
            (Some n, Some k) \<Rightarrow> k \<ge> n | _ \<Rightarrow> False)) (evidence db)) (criteria db)"

definition rollup_rows :: "tracker_db \<Rightarrow> work_item list \<Rightarrow> rollup_leaf_row list" where
  "rollup_rows db subtree =
     map (\<lambda>s. \<lparr>rl_status = wi_status s, rl_weight = wi_weight s, rl_parametric = wi_parametric s,
               rl_universal_satisfied = (wi_parametric s \<and> universal_covered db s)\<rparr>)
       (filter (\<lambda>s. \<not> list_ex (\<lambda>c. wi_parent_id c = Some (wi_id s)) (work_items db)
                    \<and> wi_status s \<notin> {''deferred'', ''cancelled''}) subtree)"

definition fetch_rollup_leaves :: "tracker_db \<Rightarrow> int \<Rightarrow> rollup_leaf_row list option" where
  "fetch_rollup_leaves db root_id = map_option (rollup_rows db) (subtree_rows db root_id)"

definition leaf_of_row :: "rollup_leaf_row \<Rightarrow> leaf_contribution" where
  "leaf_of_row r =
     \<lparr>lc_status = (case work_item_status_parse (rl_status r) of None \<Rightarrow> Pending | Some s \<Rightarrow> s),
      lc_weight = rl_weight r, lc_parametric = rl_parametric r,
      lc_universal_satisfied = rl_universal_satisfied r\<rparr>"

definition compute_rollup :: "tracker_db \<Rightarrow> int \<Rightarrow> rollup_result option" where
  "compute_rollup db root_id =
     map_option (\<lambda>rows. aggregate (map leaf_of_row rows)) (fetch_rollup_leaves db root_id)"

section \<open>Trees\<close>

text \<open>The parent relation, child first, and what lies below an item.\<close>

definition parent_rel :: "tracker_db \<Rightarrow> (int \<times> int) set" where
  "parent_rel db = {(wi_id c, p) |c p. c \<in> set (work_items db) \<and> wi_parent_id c = Some p}"

definition below :: "tracker_db \<Rightarrow> int \<Rightarrow> int set" where
  "below db i = {j. (j, i) \<in> (parent_rel db)\<^sup>*}"

definition acyclic_tree :: "tracker_db \<Rightarrow> bool" where
  "acyclic_tree db \<longleftrightarrow> acyclic (parent_rel db)"

lemma finite_parent_rel [simp]: "finite (parent_rel db)"
proof -
  have "parent_rel db \<subseteq> (\<lambda>c. (wi_id c, the (wi_parent_id c))) ` set (work_items db)"
    by (force simp: parent_rel_def)
  then show ?thesis by (rule finite_subset) simp
qed

lemma cte_rows_Nil [simp]: "cte_rows all [] = Some []"
  by (simp add: cte_rows.simps)

lemma cte_rows_step: "work \<noteq> [] \<Longrightarrow> cte_rows all work = map_option ((@) work) (cte_rows all (children_of all work))"
  by (subst cte_rows.simps) (auto split: option.splits bind_splits)

lemma cte_rows_induct [consumes 1, case_names Nil Step]:
  assumes "cte_rows all work = Some rows" and Nil: "P [] []"
    and Step: "\<And>work rest. work \<noteq> [] \<Longrightarrow> cte_rows all (children_of all work) = Some rest \<Longrightarrow>
      P (children_of all work) rest \<Longrightarrow> P work (work @ rest)"
  shows "P work rows"
proof -
  have "all' = all \<longrightarrow> cte_rows all work = Some rows \<and> P work rows" if "cte_rows all' work = Some rows" for all'
    using that
  proof (induction rule: cte_rows.raw_induct[rotated, consumes 1, case_names step])
    case (step cte all' work rows)
    show ?case
    proof (cases "work = []")
      case True
      with step(2) Nil show ?thesis by simp
    next
      case False
      with step(2) obtain rest where r: "cte all' (children_of all' work) = Some rest" "rows = work @ rest"
        by (auto split: bind_splits)
      with step(1)[OF r(1)] False Step[OF False] show ?thesis by (simp add: cte_rows_step)
    qed
  qed
  with assms(1) show ?thesis by blast
qed

text \<open>An acyclic finite relation has a rank that decreases from a parent to its children.\<close>

lemma acyclic_rank:
  fixes R :: "('a \<times> 'a) set"
  assumes "finite R" "acyclic R"
  obtains h :: "'a \<Rightarrow> nat" where "\<And>c p. (c, p) \<in> R \<Longrightarrow> h c < h p"
proof
  let ?h = "\<lambda>x. card {y. (y, x) \<in> R\<^sup>+}"
  fix c p assume cp: "(c, p) \<in> R"
  have fin: "finite {y. (y, x) \<in> R\<^sup>+}" for x
  proof (rule finite_subset)
    show "{y. (y, x) \<in> R\<^sup>+} \<subseteq> Domain R" by (auto dest: tranclD)
  qed (simp add: assms(1) finite_Domain)
  have "{y. (y, c) \<in> R\<^sup>+} \<subset> {y. (y, p) \<in> R\<^sup>+}"
  proof
    show "{y. (y, c) \<in> R\<^sup>+} \<subseteq> {y. (y, p) \<in> R\<^sup>+}" using cp by (auto intro: trancl_into_trancl)
    have "c \<in> {y. (y, p) \<in> R\<^sup>+}" "c \<notin> {y. (y, c) \<in> R\<^sup>+}" using cp assms(2) by (auto simp: acyclic_def)
    then show "{y. (y, c) \<in> R\<^sup>+} \<noteq> {y. (y, p) \<in> R\<^sup>+}" by auto
  qed
  then show "?h c < ?h p" by (rule psubset_card_mono[OF fin])
qed

lemma set_children_of:
  "set (children_of (work_items db) work) =
     {c \<in> set (work_items db). \<exists>s \<in> set work. wi_parent_id c = Some (wi_id s)}"
  by (auto simp: children_of_def)

lemma cte_rows_returns:
  assumes "\<And>c p. (c, p) \<in> parent_rel db \<Longrightarrow> h c < (h p :: nat)"
  shows "\<forall>w \<in> set work. h (wi_id w) < n \<Longrightarrow> \<exists>rows. cte_rows (work_items db) work = Some rows"
proof (induction n arbitrary: work)
  case 0
  then show ?case by (cases work) auto
next
  case (Suc n)
  have "h (wi_id c) < n" if "c \<in> set (children_of (work_items db) work)" for c
  proof -
    from that obtain s where s: "c \<in> set (work_items db)" "s \<in> set work" "wi_parent_id c = Some (wi_id s)"
      by (auto simp: set_children_of)
    then have "(wi_id c, wi_id s) \<in> parent_rel db" by (auto simp: parent_rel_def)
    with assms[of "wi_id c" "wi_id s"] Suc.prems s show ?thesis by fastforce
  qed
  then obtain rows where "cte_rows (work_items db) (children_of (work_items db) work) = Some rows"
    using Suc.IH[of "children_of (work_items db) work"] by blast
  then show ?case by (cases "work = []") (auto simp: cte_rows_step)
qed

lemma subtree_rows_returns: "acyclic_tree db \<Longrightarrow> \<exists>rows. subtree_rows db i = Some rows"
proof -
  assume "acyclic_tree db"
  then obtain h :: "int \<Rightarrow> nat" where h: "\<And>c p. (c, p) \<in> parent_rel db \<Longrightarrow> h c < h p"
    using acyclic_rank[of "parent_rel db"] by (auto simp: acyclic_tree_def)
  show ?thesis
    unfolding subtree_rows_def by (rule cte_rows_returns[where h = h and n = "Suc (h i)", OF h]) auto
qed

text \<open>When the query returns, it returns exactly the items below its start.\<close>

lemma below_step:
  "j \<in> below db (wi_id w) \<longleftrightarrow> j = wi_id w \<or> (\<exists>c \<in> set (work_items db).
     wi_parent_id c = Some (wi_id w) \<and> j \<in> below db (wi_id c))"
proof -
  have "(j, wi_id w) \<in> (parent_rel db)\<^sup>* \<longleftrightarrow>
      j = wi_id w \<or> (\<exists>c. (j, c) \<in> (parent_rel db)\<^sup>* \<and> (c, wi_id w) \<in> parent_rel db)"
    by (auto elim: rtranclE intro: rtrancl.rtrancl_into_rtrancl)
  then show ?thesis unfolding below_def parent_rel_def by auto
qed

lemma cte_rows_ids:
  assumes "cte_rows (work_items db) work = Some rows" "set work \<subseteq> set (work_items db)"
  shows "wi_id ` set rows = (\<Union>w \<in> set work. below db (wi_id w))"
  using assms
proof (induction rule: cte_rows_induct)
  case (Step work rest)
  let ?ch = "children_of (work_items db) work"
  have rest: "wi_id ` set rest = (\<Union>w \<in> set ?ch. below db (wi_id w))"
    using Step.IH by (auto simp: set_children_of)
  show ?case
  proof (rule set_eqI)
    fix j
    have "j \<in> wi_id ` set (work @ rest) \<longleftrightarrow>
        (\<exists>w \<in> set work. j = wi_id w) \<or> (\<exists>c \<in> set ?ch. j \<in> below db (wi_id c))"
      unfolding set_append image_Un rest by (auto simp: image_iff)
    also have "\<dots> \<longleftrightarrow> (\<exists>w \<in> set work. j = wi_id w \<or> (\<exists>c \<in> set (work_items db).
        wi_parent_id c = Some (wi_id w) \<and> j \<in> below db (wi_id c)))"
      by (auto simp: set_children_of)
    also have "\<dots> \<longleftrightarrow> j \<in> (\<Union>w \<in> set work. below db (wi_id w))"
      by (simp only: UN_iff below_step[of j db, symmetric])
    finally show "j \<in> wi_id ` set (work @ rest) \<longleftrightarrow> j \<in> (\<Union>w \<in> set work. below db (wi_id w))" .
  qed
qed simp

lemma subtree_rows_ids:
  "subtree_rows db i = Some rows \<Longrightarrow> i \<in> wi_id ` set (work_items db) \<Longrightarrow> wi_id ` set rows = below db i"
  using cte_rows_ids[of db "filter (\<lambda>w. wi_id w = i) (work_items db)" rows]
  by (force simp: subtree_rows_def)

lemma subtree_rows_absent: "i \<notin> wi_id ` set (work_items db) \<Longrightarrow> subtree_rows db i = Some []"
proof -
  assume "i \<notin> wi_id ` set (work_items db)"
  then have "filter (\<lambda>w. wi_id w = i) (work_items db) = []" by (auto simp: filter_empty_conv)
  then show ?thesis by (simp add: subtree_rows_def)
qed

text \<open>A set of items each of which has a child in the set keeps the query running.\<close>

lemma cte_rows_diverges:
  assumes "cte_rows all work = Some rows"
    and "\<forall>i \<in> S. \<exists>c \<in> set all. wi_parent_id c = Some i \<and> wi_id c \<in> S"
  shows "\<forall>w \<in> set work. wi_id w \<notin> S"
  using assms
proof (induction rule: cte_rows_induct)
  case (Step work rest)
  show ?case
  proof
    fix w assume w: "w \<in> set work"
    show "wi_id w \<notin> S"
    proof
      assume "wi_id w \<in> S"
      with assms(2) obtain c where "c \<in> set all" "wi_parent_id c = Some (wi_id w)" "wi_id c \<in> S" by blast
      with w Step.IH[OF assms(2)] show False by (auto simp: children_of_def)
    qed
  qed
qed simp

end
