(* ===== verification/Tracker_Move.thy ===== *)
theory Tracker_Move
  imports Tracker_Tree
begin

text \<open>
  Moving a subtree keeps the parent relation a forest and the denormalised \<open>root_id\<close> of every item
  right, as long as the new parent is not below the moved item; the guard of the reparent tool
  decides exactly that. Without the guard the statement that recomputes \<open>root_id\<close> does not return.
\<close>

section \<open>The invariant\<close>

definition roots_ok :: "tracker_db \<Rightarrow> bool" where
  "roots_ok db \<longleftrightarrow> (\<forall>w \<in> set (work_items db). case wi_parent_id w of None \<Rightarrow> wi_root_id w = None
     | Some p \<Rightarrow> \<exists>v \<in> set (work_items db). wi_id v = p \<and> wi_root_id w = Some (coalesced_root v))"

definition tree_wf :: "tracker_db \<Rightarrow> bool" where
  "tree_wf db \<longleftrightarrow> keys_distinct db \<and> acyclic_tree db \<and> roots_ok db \<and>
     (\<forall>w \<in> set (work_items db). wi_id w < next_work_item_id db)"

lemma roots_ok_parent:
  "roots_ok db \<Longrightarrow> w \<in> set (work_items db) \<Longrightarrow> wi_parent_id w = Some p \<Longrightarrow>
     \<exists>v \<in> set (work_items db). wi_id v = p \<and> wi_root_id w = Some (coalesced_root v)"
  unfolding roots_ok_def by (drule (1) bspec) simp

lemma parent_rel_Field:
  "tree_wf db \<Longrightarrow> (c, p) \<in> parent_rel db \<Longrightarrow> c < next_work_item_id db \<and> p < next_work_item_id db"
  unfolding tree_wf_def parent_rel_def using roots_ok_parent by fastforce

section \<open>Inserting\<close>

lemma root_of_parent_Ok_iff:
  "root_of_parent db p = Ok r \<longleftrightarrow> (case p of None \<Rightarrow> r = None
     | Some i \<Rightarrow> \<exists>v. get_work_item db i = Some v \<and> r = Some (coalesced_root v))"
  by (auto simp: root_of_parent_def split: option.splits)

lemma parent_rel_append:
  "parent_rel (db\<lparr>work_items := work_items db @ [w], next_work_item_id := n\<rparr>) =
     parent_rel db \<union> {(wi_id w, q) |q. wi_parent_id w = Some q}"
  by (auto simp: parent_rel_def)

lemma tree_wf_append:
  assumes wf: "tree_wf db" and r: "root_of_parent db (wi_parent_id w) = Ok (wi_root_id w)"
    and i: "wi_id w = next_work_item_id db" "wi_parent_id w \<noteq> Some (wi_id w)"
  shows "tree_wf (db\<lparr>work_items := work_items db @ [w], next_work_item_id := next_work_item_id db + 1\<rparr>)"
    (is "tree_wf ?db")
proof -
  let ?n = "next_work_item_id db"
  have lt: "\<And>v. v \<in> set (work_items db) \<Longrightarrow> wi_id v < ?n" using wf by (simp add: tree_wf_def)
  have "acyclic (parent_rel ?db)"
  proof (cases "wi_parent_id w")
    case None
    then have "parent_rel ?db = parent_rel db" by (simp add: parent_rel_append)
    with wf show ?thesis by (simp add: tree_wf_def acyclic_tree_def)
  next
    case (Some p)
    then have "parent_rel ?db = insert (?n, p) (parent_rel db)"
      using i(1) by (auto simp: parent_rel_append)
    moreover have "(p, ?n) \<notin> (parent_rel db)\<^sup>*"
    proof
      assume "(p, ?n) \<in> (parent_rel db)\<^sup>*"
      then show False using i Some parent_rel_Field[OF wf] by (auto elim: rtranclE)
    qed
    ultimately show ?thesis using wf by (simp add: tree_wf_def acyclic_tree_def acyclic_insert)
  qed
  moreover have "roots_ok ?db"
  proof -
    have "case wi_parent_id w of None \<Rightarrow> wi_root_id w = None
       | Some p \<Rightarrow> \<exists>v \<in> set (work_items db). wi_id v = p \<and> wi_root_id w = Some (coalesced_root v)"
      using r by (auto simp: root_of_parent_Ok_iff dest: get_work_item_SomeD split: option.splits)
    then show ?thesis using wf unfolding tree_wf_def roots_ok_def by (auto split: option.splits)
  qed
  moreover have "keys_distinct ?db"
  proof -
    have "wi_id w \<notin> wi_id ` set (work_items db)" using lt i(1) by fastforce
    with wf show ?thesis by (simp add: tree_wf_def keys_distinct_def)
  qed
  ultimately show ?thesis using lt i unfolding tree_wf_def acyclic_tree_def by force
qed

lemma insert_work_item_in_tx_tree_wf:
  assumes "tree_wf db" "insert_work_item_in_tx now db item = Ok (db', i)"
  shows "tree_wf db'"
proof -
  obtain r where r: "root_of_parent db (nw_parent_id item) = Ok r"
    and ok: "inline_checks (new_row now (next_work_item_id db) r item)"
    and db': "db' = db\<lparr>work_items := work_items db @ [new_row now (next_work_item_id db) r item],
                 next_work_item_id := next_work_item_id db + 1\<rparr>"
    using assms(2) by (auto simp: insert_work_item_in_tx_def Let_def split: if_splits)
  show ?thesis unfolding db'
    by (rule tree_wf_append) (use assms(1) r ok in \<open>auto simp: new_row_def inline_checks_def\<close>)
qed

section \<open>Moving\<close>

text \<open>What lies below an item does not depend on the item's own parent.\<close>

lemma rtrancl_into_ignores:
  "(j, i) \<in> R\<^sup>* \<longleftrightarrow> (j, i) \<in> (R - {i} \<times> UNIV)\<^sup>*"
proof
  assume "(j, i) \<in> R\<^sup>*"
  then show "(j, i) \<in> (R - {i} \<times> UNIV)\<^sup>*"
  proof (induction rule: converse_rtrancl_induct)
    case (step j k)
    show ?case
    proof (cases "j = i")
      case False
      with step(1) have "(j, k) \<in> R - {i} \<times> UNIV" by simp
      then show ?thesis using step(3) by (rule converse_rtrancl_into_rtrancl)
    qed simp
  qed simp
qed (rule rtrancl_mono[THEN subsetD], auto)

definition moved_to :: "time \<Rightarrow> int \<Rightarrow> int option \<Rightarrow> int option \<Rightarrow> tracker_db \<Rightarrow> tracker_db" where
  "moved_to now i p r db =
     update_item i (\<lambda>w. w\<lparr>wi_parent_id := p, wi_root_id := r, wi_updated_at := now\<rparr>) db"

lemma moved_keys: "map wi_id (work_items (moved_to now i p r db)) = map wi_id (work_items db)"
  unfolding moved_to_def by (rule update_item_ids) auto

lemma moved_ids: "wi_id ` set (work_items (moved_to now i p r db)) = wi_id ` set (work_items db)"
  using arg_cong[OF moved_keys, of set] by (simp only: set_map)

lemma parent_rel_moved:
  "parent_rel (moved_to now i p r db) = (parent_rel db - {i} \<times> UNIV) \<union>
     (if i \<in> wi_id ` set (work_items db) then {(i, q) |q. p = Some q} else {})"
proof -
  define f where "f w = (if wi_id w = i then w\<lparr>wi_parent_id := p, wi_root_id := r, wi_updated_at := now\<rparr> else w)"
    for w :: work_item
  have f: "wi_id (f w) = wi_id w"
    "wi_parent_id (f w) = (if wi_id w = i then p else wi_parent_id w)" for w by (simp_all add: f_def)
  have "work_items (moved_to now i p r db) = map f (work_items db)"
    by (simp add: moved_to_def update_item_def f_def)
  then have "parent_rel (moved_to now i p r db) =
      {(wi_id (f w), q) |w q. w \<in> set (work_items db) \<and> wi_parent_id (f w) = Some q}"
    unfolding parent_rel_def by auto
  also have "\<dots> = {(wi_id w, q) |w q. w \<in> set (work_items db) \<and>
      (if wi_id w = i then p else wi_parent_id w) = Some q}"
    by (simp only: f)
  also have "\<dots> = (parent_rel db - {i} \<times> UNIV) \<union>
     (if i \<in> wi_id ` set (work_items db) then {(i, q) |q. p = Some q} else {})"
    by (auto simp: parent_rel_def split: if_splits)
  finally show ?thesis .
qed

lemma below_moved: "below (moved_to now i p r db) i = below db i"
proof -
  have "parent_rel (moved_to now i p r db) - {i} \<times> UNIV = parent_rel db - {i} \<times> UNIV"
    by (auto simp: parent_rel_moved)
  then show ?thesis unfolding below_def
    using rtrancl_into_ignores[of _ i "parent_rel db"]
      rtrancl_into_ignores[of _ i "parent_rel (moved_to now i p r db)"] by auto
qed

lemma acyclic_moved:
  assumes "acyclic_tree db" "\<And>q. p = Some q \<Longrightarrow> q \<notin> below db i"
  shows "acyclic_tree (moved_to now i p r db)"
proof -
  let ?R = "parent_rel db - {i} \<times> UNIV"
  have a: "acyclic ?R" using assms(1) unfolding acyclic_tree_def by (rule acyclic_subset) auto
  show ?thesis
  proof (cases p)
    case None
    with a show ?thesis by (simp add: acyclic_tree_def parent_rel_moved)
  next
    case (Some q)
    have "(q, i) \<notin> ?R\<^sup>*" using assms(2)[OF Some] unfolding below_def
      using rtrancl_into_ignores[of q i "parent_rel db"] by simp
    with a Some have "acyclic (insert (i, q) ?R)" by (simp add: acyclic_insert)
    moreover have "parent_rel (moved_to now i p r db) \<subseteq> insert (i, q) ?R"
      using Some by (auto simp: parent_rel_moved)
    ultimately show ?thesis unfolding acyclic_tree_def by (rule acyclic_subset)
  qed
qed

text \<open>Under one of its own descendants the recursive statement never ends.\<close>

lemma subtree_rows_moved_cycle:
  assumes "i \<in> wi_id ` set (work_items db)" "q \<in> below db i"
  shows "subtree_rows (moved_to now i (Some q) r db) i = None"
proof (rule ccontr)
  let ?db = "moved_to now i (Some q) r db"
  define S where "S = {k. (q, k) \<in> (parent_rel ?db)\<^sup>* \<and> (k, i) \<in> (parent_rel ?db)\<^sup>*}"
  have qi: "(q, i) \<in> (parent_rel ?db)\<^sup>*" using assms(2) below_moved[of now i "Some q" r db]
    by (auto simp: below_def)
  have iq: "(i, q) \<in> parent_rel ?db" using assms(1) by (simp add: parent_rel_moved)
  have "\<exists>c. (c, k) \<in> parent_rel ?db \<and> c \<in> S" if "k \<in> S" for k
  proof (cases "k = q")
    case True
    with iq qi show ?thesis by (auto simp: S_def)
  next
    case False
    with that obtain c where "(q, c) \<in> (parent_rel ?db)\<^sup>*" "(c, k) \<in> parent_rel ?db"
      unfolding S_def by (auto elim: rtranclE)
    with that show ?thesis unfolding S_def by (auto intro: converse_rtrancl_into_rtrancl)
  qed
  then have S: "\<forall>k \<in> S. \<exists>c \<in> set (work_items ?db). wi_parent_id c = Some k \<and> wi_id c \<in> S"
    by (fastforce simp: parent_rel_def)
  assume "subtree_rows ?db i \<noteq> None"
  then obtain rows where "cte_rows (work_items ?db) (filter (\<lambda>w. wi_id w = i) (work_items ?db)) = Some rows"
    by (auto simp: subtree_rows_def)
  from cte_rows_diverges[OF this S] have "\<forall>w \<in> set (work_items ?db). wi_id w = i \<longrightarrow> i \<notin> S" by auto
  moreover have "i \<in> wi_id ` set (work_items ?db)" using assms(1) by (simp only: moved_ids)
  ultimately show False using qi by (auto simp: S_def)
qed

text \<open>The new \<open>root_id\<close>s: of the moved item, and of what lies below it.\<close>

definition root_under :: "tracker_db \<Rightarrow> int option \<Rightarrow> int option" where
  "root_under db p = (case p of None \<Rightarrow> None | Some q \<Rightarrow> map_option coalesced_root (get_work_item db q))"

definition rerooted :: "time \<Rightarrow> int \<Rightarrow> int \<Rightarrow> int set \<Rightarrow> tracker_db \<Rightarrow> tracker_db" where
  "rerooted now i r B db = db\<lparr>work_items := map (\<lambda>w. if wi_id w \<in> B \<and> wi_id w \<noteq> i
     then w\<lparr>wi_root_id := Some r, wi_updated_at := now\<rparr> else w) (work_items db)\<rparr>"

definition valid_move :: "tracker_db \<Rightarrow> int \<Rightarrow> int option \<Rightarrow> bool" where
  "valid_move db i p \<longleftrightarrow> i \<in> wi_id ` set (work_items db) \<and>
     (\<forall>q. p = Some q \<longrightarrow> q \<in> wi_id ` set (work_items db) \<and> q \<notin> below db i)"

lemma below_self [simp]: "i \<in> below db i"
  by (simp add: below_def)

lemma reparent_work_item_eq:
  assumes "acyclic_tree db" "valid_move db i p"
  shows "reparent_work_item now db i p = Some (rerooted now i
    (case root_under db p of None \<Rightarrow> i | Some r \<Rightarrow> r) (below db i) (moved_to now i p (root_under db p) db), Ok ())"
proof -
  let ?db = "moved_to now i p (root_under db p) db"
  have nb: "\<And>q. p = Some q \<Longrightarrow> q \<notin> below db i" using assms(2) by (auto simp: valid_move_def)
  then have ni: "p \<noteq> Some i" by auto
  have present: "get_work_item db i \<noteq> None" "\<And>q. p = Some q \<Longrightarrow> get_work_item db q \<noteq> None"
    using assms(2) by (auto simp: valid_move_def get_work_item_None_iff)
  obtain rows where rows: "subtree_rows ?db i = Some rows"
    using subtree_rows_returns[OF acyclic_moved[OF assms(1) nb]] by blast
  have "i \<in> wi_id ` set (work_items ?db)" using assms(2) by (simp only: valid_move_def moved_ids)
  with rows have "wi_id ` set rows = below db i" using subtree_rows_ids below_moved by metis
  with rows ni present show ?thesis
    by (auto simp: reparent_work_item_def moved_to_def[symmetric] root_under_def rerooted_def Let_def
        split: option.splits)
qed

lemma reparent_work_item_diverges:
  assumes "i \<in> wi_id ` set (work_items db)" "q \<in> below db i" "q \<noteq> i" "q \<in> wi_id ` set (work_items db)"
  shows "reparent_work_item now db i (Some q) = None"
proof -
  have "get_work_item db i \<noteq> None" "get_work_item db q \<noteq> None"
    using assms by (auto simp: get_work_item_None_iff)
  then show ?thesis
    using assms(3) subtree_rows_moved_cycle[OF assms(1,2), of now "map_option coalesced_root (get_work_item db q)"]
    by (auto simp: reparent_work_item_def moved_to_def Let_def)
qed

lemma rerooted_keys: "map wi_id (work_items (rerooted now i r B db)) = map wi_id (work_items db)"
  by (auto simp: rerooted_def)

lemma parent_rel_rerooted: "parent_rel (rerooted now i r B db) = parent_rel db"
proof -
  define f where "f w = (if wi_id w \<in> B \<and> wi_id w \<noteq> i
     then w\<lparr>wi_root_id := Some r, wi_updated_at := now\<rparr> else w)" for w :: work_item
  have f: "wi_id (f w) = wi_id w" "wi_parent_id (f w) = wi_parent_id w" for w by (simp_all add: f_def)
  have "parent_rel (rerooted now i r B db) =
      {(wi_id (f w), q) |w q. w \<in> set (work_items db) \<and> wi_parent_id (f w) = Some q}"
    unfolding parent_rel_def rerooted_def f_def[symmetric] by auto
  then show ?thesis by (simp only: f parent_rel_def)
qed

lemma parent_rel_iff:
  assumes "keys_distinct db" "w \<in> set (work_items db)"
  shows "(wi_id w, k) \<in> parent_rel db \<longleftrightarrow> wi_parent_id w = Some k"
proof
  assume "(wi_id w, k) \<in> parent_rel db"
  then obtain c where "c \<in> set (work_items db)" "wi_id c = wi_id w" "wi_parent_id c = Some k"
    by (auto simp: parent_rel_def)
  moreover from this assms have "c = w" unfolding keys_distinct_def by (meson distinct_map inj_onD)
  ultimately show "wi_parent_id w = Some k" by simp
qed (use assms in \<open>auto simp: parent_rel_def\<close>)

lemma below_iff:
  assumes "keys_distinct db" "w \<in> set (work_items db)"
  shows "wi_id w \<in> below db i \<longleftrightarrow> wi_id w = i \<or> (\<exists>q. wi_parent_id w = Some q \<and> q \<in> below db i)"
proof -
  have "(wi_id w, i) \<in> (parent_rel db)\<^sup>* \<longleftrightarrow>
      wi_id w = i \<or> (\<exists>q. (wi_id w, q) \<in> parent_rel db \<and> (q, i) \<in> (parent_rel db)\<^sup>*)"
    by (auto elim: converse_rtranclE intro: converse_rtrancl_into_rtrancl)
  then show ?thesis by (simp add: below_def parent_rel_iff[OF assms])
qed

text \<open>The row of an item after the move.\<close>

definition move_row :: "time \<Rightarrow> int \<Rightarrow> int option \<Rightarrow> int option \<Rightarrow> int set \<Rightarrow> work_item \<Rightarrow> work_item" where
  "move_row now i p r B w =
     (if wi_id w = i then w\<lparr>wi_parent_id := p, wi_root_id := r, wi_updated_at := now\<rparr>
      else if wi_id w \<in> B then w\<lparr>wi_root_id := Some (case r of None \<Rightarrow> i | Some r \<Rightarrow> r), wi_updated_at := now\<rparr>
      else w)"

lemma move_row_simps:
  "wi_id (move_row now i p r B w) = wi_id w"
  "wi_parent_id (move_row now i p r B w) = (if wi_id w = i then p else wi_parent_id w)"
  "wi_root_id (move_row now i p r B w) = (if wi_id w = i then r
     else if wi_id w \<in> B then Some (case r of None \<Rightarrow> i | Some r \<Rightarrow> r) else wi_root_id w)"
  "coalesced_root (move_row now i p r B w) =
     (if wi_id w = i \<or> wi_id w \<in> B then (case r of None \<Rightarrow> i | Some r \<Rightarrow> r) else coalesced_root w)"
  by (auto simp: move_row_def coalesced_root_def split: option.splits)

lemma moved_items:
  "work_items (rerooted now i (case r of None \<Rightarrow> i | Some r \<Rightarrow> r) B (moved_to now i p r db)) =
     map (move_row now i p r B) (work_items db)"
  by (auto simp: rerooted_def moved_to_def update_item_def move_row_def)

lemma roots_ok_moved:
  assumes wf: "tree_wf db" and v: "valid_move db i p" and r: "r = root_under db p"
    and items: "work_items db' = map (move_row now i p r (below db i)) (work_items db)"
  shows "roots_ok db'"
proof -
  let ?g = "move_row now i p r (below db i)"
  have kd: "keys_distinct db" and ro: "roots_ok db" using wf by (auto simp: tree_wf_def)
  have "case wi_parent_id (?g w) of None \<Rightarrow> wi_root_id (?g w) = None
     | Some q \<Rightarrow> \<exists>u \<in> set (work_items db). wi_id u = q \<and> wi_root_id (?g w) = Some (coalesced_root (?g u))"
    if w: "w \<in> set (work_items db)" for w
  proof (cases "wi_id w = i")
    case True
    show ?thesis
    proof (cases p)
      case None
      with True r show ?thesis by (simp add: move_row_simps root_under_def)
    next
      case (Some q)
      with v obtain u where u: "get_work_item db q = Some u" and nb: "q \<notin> below db i"
        by (auto simp: valid_move_def get_work_item_None_iff dest: not_None_eq[THEN iffD1])
          (metis get_work_item_None_iff not_None_eq image_eqI)
      have "q \<noteq> i" using nb by auto
      with get_work_item_SomeD[OF u] nb True Some r u show ?thesis
        by (auto simp: move_row_simps root_under_def intro!: bexI[of _ u])
    qed
  next
    case False
    show ?thesis
    proof (cases "wi_parent_id w")
      case None
      then have "wi_id w \<notin> below db i" using False by (simp add: below_iff[OF kd w])
      with False None ro w show ?thesis by (auto simp: move_row_simps roots_ok_def split: option.splits)
    next
      case (Some q)
      with roots_ok_parent[OF ro w] obtain u where u: "u \<in> set (work_items db)" "wi_id u = q"
        "wi_root_id w = Some (coalesced_root u)" by blast
      have "wi_id w \<in> below db i \<longleftrightarrow> q \<in> below db i" using Some False by (simp add: below_iff[OF kd w])
      with u False Some show ?thesis by (auto simp: move_row_simps intro!: bexI[of _ u])
    qed
  qed
  then show ?thesis unfolding roots_ok_def items by (simp add: move_row_simps(1) cong: option.case_cong)
qed

lemma reparent_tree_wf:
  assumes "tree_wf db" "valid_move db i p"
  shows "\<exists>db'. reparent_work_item now db i p = Some (db', Ok ()) \<and> tree_wf db'"
proof -
  let ?r = "root_under db p"
  let ?db = "rerooted now i (case ?r of None \<Rightarrow> i | Some r \<Rightarrow> r) (below db i) (moved_to now i p ?r db)"
  have a: "acyclic_tree db" using assms(1) by (simp add: tree_wf_def)
  have "acyclic_tree ?db"
    using acyclic_moved[OF a, of p i now ?r] assms(2)
    by (auto simp: acyclic_tree_def parent_rel_rerooted valid_move_def)
  moreover have "keys_distinct ?db"
    using assms(1) by (simp add: keys_distinct_def rerooted_keys moved_keys tree_wf_def)
  moreover have "roots_ok ?db" by (rule roots_ok_moved[OF assms refl moved_items])
  moreover have "\<forall>w \<in> set (work_items ?db). wi_id w < next_work_item_id ?db"
    using assms(1) unfolding moved_items
    by (auto simp: move_row_simps tree_wf_def rerooted_def moved_to_def update_item_def)
  ultimately show ?thesis using reparent_work_item_eq[OF a assms(2)] by (auto simp: tree_wf_def)
qed

section \<open>The guard\<close>

text \<open>Rows of the plain recursive query are distinct when the tree is acyclic.\<close>

lemma distinct_concat_filter:
  "distinct xs \<Longrightarrow> distinct (map f ys) \<Longrightarrow> distinct (concat (map (\<lambda>s. filter (\<lambda>c. g c = Some (f s)) xs) ys))"
  by (induction ys) (auto simp: image_iff)

definition antichain :: "tracker_db \<Rightarrow> work_item list \<Rightarrow> bool" where
  "antichain db ws \<longleftrightarrow> (\<forall>v \<in> set ws. \<forall>w \<in> set ws. (wi_id v, wi_id w) \<notin> (parent_rel db)\<^sup>+)"

lemma antichain_children:
  assumes "keys_distinct db" "antichain db work" "set work \<subseteq> set (work_items db)"
  shows "antichain db (children_of (work_items db) work)"
proof -
  have False if v: "v \<in> set (work_items db)" "s \<in> set work" "wi_parent_id v = Some (wi_id s)"
    and w: "w \<in> set (work_items db)" "t \<in> set work" "wi_parent_id w = Some (wi_id t)"
    and r: "(wi_id v, wi_id w) \<in> (parent_rel db)\<^sup>+" for v w s t
  proof -
    obtain k where k: "(wi_id v, k) \<in> parent_rel db" "(k, wi_id w) \<in> (parent_rel db)\<^sup>*"
      using r by (auto dest: tranclD)
    then have "k = wi_id s" using parent_rel_iff[OF assms(1) v(1), of k] v(3) by simp
    moreover have "(wi_id w, wi_id t) \<in> parent_rel db" using parent_rel_iff[OF assms(1) w(1)] w(3) by simp
    ultimately have "(wi_id s, wi_id t) \<in> (parent_rel db)\<^sup>+" using k(2) by simp
    with v(2) w(2) assms(2) show False by (auto simp: antichain_def)
  qed
  then show ?thesis unfolding antichain_def set_children_of by blast
qed

lemma cte_rows_distinct:
  assumes "cte_rows (work_items db) work = Some rows" "tree_wf db"
    "set work \<subseteq> set (work_items db)" "distinct (map wi_id work)" "antichain db work"
  shows "distinct (map wi_id rows)"
  using assms(1,3-)
proof (induction rule: cte_rows_induct)
  case (Step work rest)
  let ?ch = "children_of (work_items db) work"
  have kd: "keys_distinct db" using assms(2) by (simp add: tree_wf_def)
  have sub: "set ?ch \<subseteq> set (work_items db)" by (auto simp: set_children_of)
  have "distinct ?ch" unfolding children_of_def
    by (rule distinct_concat_filter) (use kd Step.prems in \<open>auto simp: keys_distinct_def distinct_map\<close>)
  then have "distinct (map wi_id ?ch)"
    using kd sub unfolding keys_distinct_def distinct_map by (auto intro: inj_on_subset)
  then have "distinct (map wi_id rest)"
    using Step.IH[OF sub _ antichain_children[OF kd Step.prems(3,1)]] by blast
  moreover have "wi_id w \<notin> wi_id ` set rest" if w: "w \<in> set work" for w
  proof
    assume "wi_id w \<in> wi_id ` set rest"
    then obtain c s where "wi_id w \<in> below db (wi_id c)" "c \<in> set (work_items db)" "s \<in> set work"
      "wi_parent_id c = Some (wi_id s)"
      using cte_rows_ids[OF Step.hyps(2) sub] by (auto simp: set_children_of)
    moreover from this have "(wi_id c, wi_id s) \<in> parent_rel db" by (auto simp: parent_rel_def)
    ultimately have "(wi_id w, wi_id s) \<in> (parent_rel db)\<^sup>+" by (auto simp: below_def)
    with w \<open>s \<in> set work\<close> Step.prems(3) show False by (auto simp: antichain_def)
  qed
  ultimately show ?case using Step.prems(2) by auto
qed simp

text \<open>With room for every row, the query that carries paths gives the rows of the plain one.\<close>

definition paths_ok :: "tracker_db \<Rightarrow> (work_item \<times> int list) list \<Rightarrow> bool" where
  "paths_ok db work \<longleftrightarrow> (\<forall>(w, path) \<in> set work. \<forall>j \<in> set path. (wi_id w, j) \<in> (parent_rel db)\<^sup>*)"

lemma path_children_eq:
  assumes "acyclic_tree db" "paths_ok db work"
  shows "map fst (path_children (work_items db) work) = children_of (work_items db) (map fst work)"
proof -
  have "filter (\<lambda>c. wi_parent_id c = Some (wi_id s) \<and> wi_id c \<notin> set path) (work_items db) =
      filter (\<lambda>c. wi_parent_id c = Some (wi_id s)) (work_items db)" if "(s, path) \<in> set work" for s path
  proof (rule filter_cong[OF refl])
    fix c assume c: "c \<in> set (work_items db)"
    have False if "wi_parent_id c = Some (wi_id s)" "wi_id c \<in> set path"
    proof -
      have "(wi_id s, wi_id c) \<in> (parent_rel db)\<^sup>*" using assms(2) \<open>(s, path) \<in> set work\<close> that(2)
        by (auto simp: paths_ok_def)
      moreover have "(wi_id c, wi_id s) \<in> parent_rel db" using c that(1) by (auto simp: parent_rel_def)
      ultimately have "(wi_id c, wi_id c) \<in> (parent_rel db)\<^sup>+" by (meson rtrancl_into_trancl2)
      with assms(1) show False by (simp add: acyclic_tree_def acyclic_def)
    qed
    then show "(wi_parent_id c = Some (wi_id s) \<and> wi_id c \<notin> set path) = (wi_parent_id c = Some (wi_id s))"
      by blast
  qed
  then show ?thesis
    by (auto simp: path_children_def children_of_def map_concat comp_def intro!: arg_cong[of _ _ concat])
qed

lemma paths_ok_children: "paths_ok db work \<Longrightarrow> paths_ok db (path_children (work_items db) work)"
  unfolding paths_ok_def path_children_def
  by (fastforce simp: parent_rel_def intro: converse_rtrancl_into_rtrancl)

lemma path_rows_eq:
  assumes "acyclic_tree db"
  shows "cte_rows (work_items db) ws = Some rows \<Longrightarrow> ws = map fst work \<Longrightarrow> paths_ok db work \<Longrightarrow>
    d + length rows \<le> Suc cap \<Longrightarrow> map snd (path_rows (work_items db) cap d work) = rows"
proof (induction arbitrary: work d rule: cte_rows_induct)
  case Nil
  then show ?case by (simp add: path_rows.simps)
next
  case (Step ws rest)
  let ?ch = "path_children (work_items db) work"
  have ws: "map snd (map (\<lambda>(w, p). (d, w)) work) = ws" using Step.prems(1) by (simp add: case_prod_beta comp_def)
  have ch: "map fst ?ch = children_of (work_items db) ws"
    using path_children_eq[OF assms Step.prems(2)] Step.prems(1) by simp
  show ?case
  proof (cases "cap \<le> d")
    case True
    with Step.prems(3) Step.hyps(1) have "rest = []" by (cases ws; cases rest) auto
    then show ?thesis using True ws by (subst path_rows.simps) simp
  next
    case False
    have "map snd (path_rows (work_items db) cap (Suc d) ?ch) = rest"
      using Step.IH[OF ch[symmetric] paths_ok_children[OF Step.prems(2)], of "Suc d"] Step.prems(3) Step.hyps(1)
      by (cases ws) auto
    then show ?thesis using False ws Step.hyps(1) Step.prems(1) by (subst path_rows.simps) auto
  qed
qed

lemma get_work_item_subtree_ids:
  assumes "tree_wf db" "i \<in> wi_id ` set (work_items db)" "length (work_items db) \<le> 100000"
  shows "wi_id ` set (get_work_item_subtree db i 100000) = below db i"
proof -
  let ?start = "filter (\<lambda>w. wi_id w = i) (work_items db)"
  let ?paths = "map (\<lambda>w. (w, [wi_id w])) ?start"
  have wf: "keys_distinct db" "acyclic_tree db" using assms(1) by (auto simp: tree_wf_def)
  obtain rows where rows: "cte_rows (work_items db) ?start = Some rows"
    using subtree_rows_returns[OF wf(2), of i] by (auto simp: subtree_rows_def)
  have "distinct (map wi_id ?start)" using wf(1) by (simp add: keys_distinct_def distinct_map_filter)
  moreover have "antichain db ?start"
    using wf(2) by (auto simp: antichain_def acyclic_tree_def acyclic_def)
  ultimately have d: "distinct (map wi_id rows)" using cte_rows_distinct[OF rows assms(1)] by simp
  have ids: "wi_id ` set rows = below db i"
    using subtree_rows_ids[OF _ assms(2)] rows by (simp add: subtree_rows_def)
  have "wi_id ` set rows \<subseteq> wi_id ` set (work_items db)"
    unfolding ids below_def using assms(2) by (auto simp: parent_rel_def elim: converse_rtranclE)
  then have "card (wi_id ` set rows) \<le> card (wi_id ` set (work_items db))" by (simp add: card_mono)
  then have len: "length rows \<le> 100000"
    using distinct_card[OF d] card_length[of "map wi_id (work_items db)"] assms(3) by simp
  have "map fst ?paths = ?start" by (simp add: comp_def)
  moreover have "paths_ok db ?paths" by (auto simp: paths_ok_def)
  ultimately have m: "map snd (path_rows (work_items db) 100000 1 ?paths) = rows"
    using path_rows_eq[OF wf(2) rows] len by simp
  have r: "length (path_rows (work_items db) 100000 1 ?paths) = length rows"
    using arg_cong[OF m, of length] by (simp only: length_map)
  have s: "snd ` set (path_rows (work_items db) 100000 1 ?paths) = set rows"
    using arg_cong[OF m, of set] by (simp only: set_map)
  have "take 100000 xs = xs" if "length xs = length rows" for xs :: "(nat \<times> work_item) list"
    using that len by simp
  with r s have "set (get_work_item_subtree db i 100000) = set rows"
    by (simp add: get_work_item_subtree_def clamp_def Let_def)
  with ids show ?thesis by simp
qed

end
