(* ===== verification/Tracker_Claims.thy ===== *)
theory Tracker_Claims
  imports Tracker_Tree
begin

text \<open>
  Claiming work (\<open>src/db/queries/work_items.rs\<close>, the A2A part): claim and claim-next, release,
  hand-off, lease renewal, the sweep of expired leases, and presence. Every operation runs in one
  transaction and is a function of the tables and of \<open>NOW()\<close>.

  \<open>claim_next_work_item\<close> reads its candidates \<open>FOR UPDATE SKIP LOCKED\<close>: the rows that concurrent
  transactions hold locked are the argument \<open>locked\<close>.
\<close>

section \<open>The operations\<close>

definition claimable_statuses :: "string list" where
  "claimable_statuses = [''pending'', ''confirmed'', ''ready'', ''in_progress'', ''blocked'']"

definition lease_of :: "int \<Rightarrow> time" where
  "lease_of lease_secs = seconds (clamp 10 86400 lease_secs)"

text \<open>\<open>lease_expires_at < NOW()\<close>, which is not true of a \<open>NULL\<close> lease.\<close>

definition lease_expired :: "time \<Rightarrow> work_item \<Rightarrow> bool" where
  "lease_expired now w \<longleftrightarrow> (case wi_lease_expires_at w of None \<Rightarrow> False | Some t \<Rightarrow> t < now)"

definition claim_available :: "time \<Rightarrow> string \<Rightarrow> work_item \<Rightarrow> bool" where
  "claim_available now agent w \<longleftrightarrow>
     wi_claimed_by w = None \<or> wi_claimed_by w = Some agent \<or> lease_expired now w"

definition take_claim :: "time \<Rightarrow> string \<Rightarrow> int \<Rightarrow> string \<Rightarrow> work_item \<Rightarrow> work_item" where
  "take_claim now agent lease_secs status w = w\<lparr>
     wi_claimed_by := Some agent, wi_status := status, wi_claimed_at := Some now,
     wi_lease_expires_at := Some (now + lease_of lease_secs),
     wi_claim_count := wi_claim_count w + 1,
     wi_started_at := (case wi_started_at w of None \<Rightarrow> Some now | Some t \<Rightarrow> Some t),
     wi_updated_at := now\<rparr>"

definition claim_row :: "time \<Rightarrow> string \<Rightarrow> int \<Rightarrow> work_item \<Rightarrow> work_item" where
  "claim_row now agent lease_secs w = take_claim now agent lease_secs
     (if wi_status w \<in> {''pending'', ''confirmed'', ''ready'', ''blocked''} then ''in_progress''
      else wi_status w) w"

definition log_claim ::
  "time \<Rightarrow> int \<Rightarrow> string \<Rightarrow> string \<Rightarrow> string option \<Rightarrow> time option \<Rightarrow> tracker_db \<Rightarrow> tracker_db" where
  "log_claim now i agent action to_agent lease db = db\<lparr>claims := claims db @
     [\<lparr>ce_work_item_id = i, ce_agent_id = agent, ce_action = action, ce_to_agent_id = to_agent,
       ce_lease_expires_at = lease, ce_created_at = now\<rparr>]\<rparr>"

definition claim_work_item ::
  "time \<Rightarrow> tracker_db \<Rightarrow> int \<Rightarrow> string \<Rightarrow> int \<Rightarrow> tracker_db \<times> work_item option" where
  "claim_work_item now db i agent lease_secs =
     (case get_work_item db i of
        None \<Rightarrow> (db, None)
      | Some w \<Rightarrow>
          if claim_available now agent w \<and> wi_status w \<in> set claimable_statuses \<and> \<not> still_blocked db i
          then let w' = claim_row now agent lease_secs w in
            (log_claim now i agent ''claim'' None (wi_lease_expires_at w')
               (update_item i (claim_row now agent lease_secs) db), Some w')
          else (db, None))"

text \<open>\<open>ORDER BY priority DESC, computed_score DESC NULLS LAST, id\<close>: \<open>a\<close> comes strictly before \<open>b\<close>.\<close>

definition score_before :: "rat option \<Rightarrow> rat option \<Rightarrow> bool" where
  "score_before a b = (case (a, b) of (Some x, Some y) \<Rightarrow> x > y | (Some _, None) \<Rightarrow> True | _ \<Rightarrow> False)"

definition ranks_before :: "work_item \<Rightarrow> work_item \<Rightarrow> bool" where
  "ranks_before a b \<longleftrightarrow>
     wi_priority a > wi_priority b \<or>
     wi_priority a = wi_priority b \<and>
       (score_before (wi_computed_score a) (wi_computed_score b) \<or>
        wi_computed_score a = wi_computed_score b \<and> wi_id a < wi_id b)"

fun top_ranked :: "work_item list \<Rightarrow> work_item option" where
  "top_ranked [] = None"
| "top_ranked (w # ws) = (case top_ranked ws of None \<Rightarrow> Some w
     | Some v \<Rightarrow> if ranks_before v w then Some v else Some w)"

fun insert_ranked :: "work_item \<Rightarrow> work_item list \<Rightarrow> work_item list" where
  "insert_ranked w [] = [w]"
| "insert_ranked w (v # vs) = (if ranks_before v w then v # insert_ranked w vs else w # v # vs)"

definition sort_ranked :: "work_item list \<Rightarrow> work_item list" where
  "sort_ranked ws = foldr insert_ranked ws []"

text \<open>\<open>$1 IS NULL OR id IN (SELECT id FROM subtree)\<close>; the recursive query may not return.\<close>

definition plan_scope :: "tracker_db \<Rightarrow> int option \<Rightarrow> (int \<Rightarrow> bool) option" where
  "plan_scope db plan_root_id = (case plan_root_id of None \<Rightarrow> Some (\<lambda>_. True)
     | Some r \<Rightarrow> map_option (\<lambda>rows i. i \<in> wi_id ` set rows) (subtree_rows db r))"

definition actionable :: "tracker_db \<Rightarrow> work_item \<Rightarrow> bool" where
  "actionable db w \<longleftrightarrow> wi_status w \<in> {''pending'', ''confirmed'', ''ready''} \<and> \<not> still_blocked db (wi_id w)"

definition claim_next_work_item ::
  "(int \<Rightarrow> bool) \<Rightarrow> time \<Rightarrow> tracker_db \<Rightarrow> string \<Rightarrow> int option \<Rightarrow> int \<Rightarrow> (tracker_db \<times> work_item option) option" where
  "claim_next_work_item locked now db agent plan_root_id lease_secs =
     map_option (\<lambda>in_scope.
       case top_ranked (filter (\<lambda>w. wi_claimed_by w = None \<and> actionable db w \<and> in_scope (wi_id w)
                                    \<and> \<not> locked (wi_id w)) (work_items db)) of
         None \<Rightarrow> (db, None)
       | Some w \<Rightarrow> let w' = take_claim now agent lease_secs ''in_progress'' w in
           (log_claim now (wi_id w) agent ''claim'' None (wi_lease_expires_at w')
              (update_item (wi_id w) (take_claim now agent lease_secs ''in_progress'') db), Some w'))
       (plan_scope db plan_root_id)"

definition next_actionable_work_items ::
  "tracker_db \<Rightarrow> int option \<Rightarrow> string option \<Rightarrow> int \<Rightarrow> work_item list option" where
  "next_actionable_work_items db plan_root_id assignee limit =
     map_option (\<lambda>in_scope. take (nat (clamp 1 1000 limit)) (sort_ranked
       (filter (\<lambda>w. actionable db w \<and> in_scope (wi_id w)
                    \<and> (assignee = None \<or> wi_assignee w = assignee)) (work_items db))))
       (plan_scope db plan_root_id)"

definition release_work_item :: "time \<Rightarrow> tracker_db \<Rightarrow> int \<Rightarrow> string \<Rightarrow> tracker_db \<times> work_item option" where
  "release_work_item now db i agent =
     (let f = (\<lambda>w. w\<lparr>wi_claimed_by := None, wi_lease_expires_at := None, wi_updated_at := now\<rparr>) in
      case get_work_item db i of
        None \<Rightarrow> (db, None)
      | Some w \<Rightarrow>
          if wi_claimed_by w = Some agent
          then (log_claim now i agent ''release'' None None (update_item i f db), Some (f w))
          else (db, None))"

definition handoff_work_item ::
  "time \<Rightarrow> tracker_db \<Rightarrow> int \<Rightarrow> string \<Rightarrow> string \<Rightarrow> int \<Rightarrow> tracker_db \<times> work_item option" where
  "handoff_work_item now db i from_agent to_agent lease_secs =
     (let f = (\<lambda>w. w\<lparr>wi_claimed_by := Some to_agent, wi_claimed_at := Some now,
                 wi_lease_expires_at := Some (now + lease_of lease_secs),
                 wi_claim_count := wi_claim_count w + 1, wi_updated_at := now\<rparr>) in
      case get_work_item db i of
        None \<Rightarrow> (db, None)
      | Some w \<Rightarrow>
          if wi_claimed_by w = Some from_agent
          then (log_claim now i to_agent ''handoff_in'' None None
                  (log_claim now i from_agent ''handoff_out'' (Some to_agent) None (update_item i f db)),
                Some (f w))
          else (db, None))"

definition touch_presence :: "time \<Rightarrow> tracker_db \<Rightarrow> string \<Rightarrow> int option \<Rightarrow> tracker_db" where
  "touch_presence now db agent item =
     (if list_ex (\<lambda>p. ap_agent_id p = agent) (presence db)
      then db\<lparr>presence := map (\<lambda>p. if ap_agent_id p = agent
             then p\<lparr>ap_last_active_at := now, ap_status := ''active'',
                    ap_current_work_item_id := coalesce item (ap_current_work_item_id p),
                    ap_updated_at := now\<rparr>
             else p) (presence db)\<rparr>
      else db\<lparr>presence := presence db @ [\<lparr>ap_agent_id = agent, ap_last_active_at = now,
             ap_status = ''active'', ap_current_work_item_id = item, ap_updated_at = now\<rparr>]\<rparr>)"

text \<open>
  The sweep: log and clear the expired claims in one transaction, then two updates of presence;
  all of them at the same \<open>now\<close> here.
\<close>

definition stale :: "time \<Rightarrow> work_item \<Rightarrow> bool" where
  "stale now w \<longleftrightarrow> wi_claimed_by w \<noteq> None \<and> lease_expired now w"

definition sweep_leases :: "time \<Rightarrow> tracker_db \<Rightarrow> tracker_db" where
  "sweep_leases now db = db\<lparr>
     claims := claims db @ map (\<lambda>w. \<lparr>ce_work_item_id = wi_id w, ce_agent_id = the (wi_claimed_by w),
         ce_action = ''expire'', ce_to_agent_id = None, ce_lease_expires_at = None,
         ce_created_at = now\<rparr>) (filter (stale now) (work_items db)),
     work_items := map (\<lambda>w. if stale now w
         then w\<lparr>wi_claimed_by := None, wi_lease_expires_at := None, wi_updated_at := now\<rparr> else w)
       (work_items db)\<rparr>"

definition decay_presence :: "time \<Rightarrow> int \<Rightarrow> string \<Rightarrow> (agent_presence \<Rightarrow> bool) \<Rightarrow> tracker_db \<Rightarrow> tracker_db" where
  "decay_presence now secs status P db = db\<lparr>presence := map (\<lambda>p.
     if P p \<and> ap_last_active_at p < now - seconds (max secs 1)
     then p\<lparr>ap_status := status, ap_updated_at := now\<rparr> else p) (presence db)\<rparr>"

definition sweep_presence_and_leases :: "time \<Rightarrow> tracker_db \<Rightarrow> int \<Rightarrow> int \<Rightarrow> tracker_db \<times> nat \<times> nat" where
  "sweep_presence_and_leases now db idle_secs offline_secs =
     (let n = length (filter (stale now) (work_items db));
          db1 = sweep_leases now db;
          db2 = decay_presence now offline_secs ''offline'' (\<lambda>p. ap_status p \<noteq> ''offline'') db1;
          idled = length (filter (\<lambda>p. ap_status p = ''active''
                    \<and> ap_last_active_at p < now - seconds (max idle_secs 1)) (presence db2)) in
      (decay_presence now idle_secs ''idle'' (\<lambda>p. ap_status p = ''active'') db2, n, idled))"

definition renew_agent_leases :: "time \<Rightarrow> tracker_db \<Rightarrow> string \<Rightarrow> int \<Rightarrow> tracker_db \<times> nat" where
  "renew_agent_leases now db agent lease_secs =
     (db\<lparr>work_items := map (\<lambda>w. if wi_claimed_by w = Some agent
          then w\<lparr>wi_lease_expires_at := Some (now + lease_of lease_secs), wi_updated_at := now\<rparr> else w)
        (work_items db)\<rparr>,
      length (filter (\<lambda>w. wi_claimed_by w = Some agent) (work_items db)))"

section \<open>The ranking\<close>

lemma score_before_trans: "score_before a b \<Longrightarrow> score_before b c \<Longrightarrow> score_before a c"
  by (auto simp: score_before_def split: option.splits)

lemma score_before_total: "a \<noteq> b \<Longrightarrow> score_before a b \<or> score_before b a"
  by (cases a; cases b) (auto simp: score_before_def)

lemma score_before_irrefl [simp]: "\<not> score_before a a"
  by (auto simp: score_before_def split: option.splits)

lemma ranks_before_irrefl [simp]: "\<not> ranks_before w w"
  by (simp add: ranks_before_def)

lemma ranks_before_trans: "ranks_before a b \<Longrightarrow> ranks_before b c \<Longrightarrow> ranks_before a c"
  unfolding ranks_before_def by (auto dest: score_before_trans)

lemma ranks_before_total: "wi_id a \<noteq> wi_id b \<Longrightarrow> ranks_before a b \<or> ranks_before b a"
  unfolding ranks_before_def using score_before_total by (meson linorder_cases)

lemma not_ranks_before_trans: "\<not> ranks_before a b \<Longrightarrow> \<not> ranks_before b c \<Longrightarrow> \<not> ranks_before a c"
  unfolding ranks_before_def using score_before_total score_before_trans
  by (smt (verit) linorder_cases)

lemma top_ranked_None_iff [simp]: "top_ranked ws = None \<longleftrightarrow> ws = []"
  by (cases ws) (auto split: option.splits)

lemma top_ranked_best: "top_ranked ws = Some w \<Longrightarrow> w \<in> set ws \<and> (\<forall>v \<in> set ws. \<not> ranks_before v w)"
proof (induction ws arbitrary: w)
  case (Cons x ws)
  show ?case
  proof (cases "top_ranked ws")
    case None
    with Cons.prems show ?thesis by simp
  next
    case (Some v)
    with Cons.IH have v: "v \<in> set ws" "\<forall>u \<in> set ws. \<not> ranks_before u v" by auto
    show ?thesis
    proof (cases "ranks_before v x")
      case True
      with Some Cons.prems v show ?thesis by (auto dest: ranks_before_trans)
    next
      case False
      with Some Cons.prems v show ?thesis by (auto dest: not_ranks_before_trans)
    qed
  qed
qed simp

section \<open>Holding a lease\<close>

definition holds :: "tracker_db \<Rightarrow> int \<Rightarrow> string \<Rightarrow> time \<Rightarrow> bool" where
  "holds db i agent t \<longleftrightarrow> i \<in> wi_id ` set (work_items db) \<and>
     (\<forall>w \<in> set (work_items db). wi_id w = i \<longrightarrow>
        wi_claimed_by w = Some agent \<and> wi_lease_expires_at w = Some t)"

lemma holds_update:
  assumes "holds db i agent t" "\<And>w. wi_id (f w) = wi_id w"
    and "\<And>w. w \<in> set (work_items db) \<Longrightarrow> wi_id w = i \<Longrightarrow>
      wi_claimed_by (f w) = Some agent \<and> wi_lease_expires_at (f w) = Some t"
    and "work_items db' = map f (work_items db)"
  shows "holds db' i agent t"
  using assms unfolding holds_def by (auto simp: image_iff)

lemma holds_other_item:
  assumes "holds db i agent t" "j \<noteq> i" "\<And>w. wi_id (f w) = wi_id w"
  shows "holds (update_item j f db) i agent t"
  by (rule holds_update[OF assms(1), of "\<lambda>w. if wi_id w = j then f w else w"])
    (use assms in \<open>auto simp: update_item_def holds_def\<close>)

lemma holds_same_items: "work_items db' = work_items db \<Longrightarrow> holds db' i agent t \<longleftrightarrow> holds db i agent t"
  by (simp add: holds_def)

lemma log_claim_items [simp]: "work_items (log_claim now i a act b l db) = work_items db"
  by (simp add: log_claim_def)

lemma holds_log [simp]: "holds (log_claim now j a act b l db) i agent t \<longleftrightarrow> holds db i agent t"
  by (simp add: holds_def)

lemma take_claim_simps [simp]:
  "wi_id (take_claim now a secs s w) = wi_id w" "wi_status (take_claim now a secs s w) = s"
  "wi_claimed_by (take_claim now a secs s w) = Some a"
  "wi_lease_expires_at (take_claim now a secs s w) = Some (now + lease_of secs)"
  by (simp_all add: take_claim_def)

text \<open>What every participant other than the holder may do, up to the end of the lease.\<close>

inductive rival_step :: "string \<Rightarrow> time \<Rightarrow> tracker_db \<Rightarrow> tracker_db \<Rightarrow> bool" for holder :: string and until :: time where
  Claim: "b \<noteq> holder \<Longrightarrow> now \<le> until \<Longrightarrow> claim_work_item now db j b secs = (db', r) \<Longrightarrow> rival_step holder until db db'"
| ClaimNext: "now \<le> until \<Longrightarrow> claim_next_work_item locked now db b plan secs = Some (db', r) \<Longrightarrow>
    rival_step holder until db db'"
| Release: "b \<noteq> holder \<Longrightarrow> release_work_item now db j b = (db', r) \<Longrightarrow> rival_step holder until db db'"
| Handoff: "b \<noteq> holder \<Longrightarrow> handoff_work_item now db j b c secs = (db', r) \<Longrightarrow> rival_step holder until db db'"
| Renew: "b \<noteq> holder \<Longrightarrow> renew_agent_leases now db b secs = (db', n) \<Longrightarrow> rival_step holder until db db'"
| Sweep: "now \<le> until \<Longrightarrow> sweep_presence_and_leases now db idle off = (db', n) \<Longrightarrow> rival_step holder until db db'"
| Touch: "rival_step holder until db (touch_presence now db b item)"
| Status: "set_work_item_status now db j to actor aid rsn eid nid = (db', o') \<Longrightarrow> rival_step holder until db db'"
| Assign: "assign_work_item now db j who by' = (db', o') \<Longrightarrow> rival_step holder until db db'"

lemma claim_available_held:
  assumes "holds db i holder until" "get_work_item db i = Some w" "b \<noteq> holder" "now \<le> until"
  shows "\<not> claim_available now b w"
proof -
  have "w \<in> set (work_items db)" "wi_id w = i" using get_work_item_SomeD[OF assms(2)] by auto
  with assms(1) have "wi_claimed_by w = Some holder" "wi_lease_expires_at w = Some until"
    by (auto simp: holds_def)
  with assms(3,4) show ?thesis by (simp add: claim_available_def lease_expired_def)
qed

lemma claim_row_simps [simp]:
  "wi_id (claim_row now a secs w) = wi_id w" "wi_claimed_by (claim_row now a secs w) = Some a"
  "wi_lease_expires_at (claim_row now a secs w) = Some (now + lease_of secs)"
  by (simp_all add: claim_row_def)

lemma claim_work_item_cases:
  assumes "claim_work_item now db i a secs = (db', r)"
  obtains (refused) "db' = db" "r = None"
  | (claimed) w where "get_work_item db i = Some w" "claim_available now a w"
      "wi_status w \<in> set claimable_statuses" "\<not> still_blocked db i"
      "db' = log_claim now i a ''claim'' None (Some (now + lease_of secs))
         (update_item i (claim_row now a secs) db)"
      "r = Some (claim_row now a secs w)"
proof (cases "get_work_item db i")
  case None
  with assms show ?thesis by (intro refused) (simp_all add: claim_work_item_def)
next
  case (Some w)
  let ?c = "claim_available now a w \<and> wi_status w \<in> set claimable_statuses \<and> \<not> still_blocked db i"
  show ?thesis
  proof (cases ?c)
    case True
    with Some assms show ?thesis by (intro claimed[of w]) (simp_all add: claim_work_item_def Let_def)
  next
    case False
    with Some assms show ?thesis by (intro refused) (simp_all only: claim_work_item_def option.case if_False prod.inject)
  qed
qed

lemma holds_claim:
  assumes "holds db i holder until" "b \<noteq> holder" "now \<le> until" "claim_work_item now db j b secs = (db', r)"
  shows "holds db' i holder until"
  using assms(4)
proof (cases rule: claim_work_item_cases)
  case refused
  with assms(1) show ?thesis by simp
next
  case (claimed w)
  then have "j \<noteq> i" using claim_available_held[OF assms(1) _ assms(2,3)] by blast
  then have "holds (update_item j (claim_row now b secs) db) i holder until"
    by (rule holds_other_item[OF assms(1)]) simp
  then show ?thesis unfolding claimed(5) by simp
qed

lemma claim_next_cases:
  assumes "claim_next_work_item locked now db a plan secs = Some (db', r)"
  obtains (none) "db' = db" "r = None"
  | (claimed) w where "w \<in> set (work_items db)" "wi_claimed_by w = None" "actionable db w" "\<not> locked (wi_id w)"
      "db' = log_claim now (wi_id w) a ''claim'' None (Some (now + lease_of secs))
         (update_item (wi_id w) (take_claim now a secs ''in_progress'') db)"
      "r = Some (take_claim now a secs ''in_progress'' w)"
proof -
  obtain scope where scope: "plan_scope db plan = Some scope"
    using assms by (auto simp: claim_next_work_item_def)
  let ?ws = "filter (\<lambda>w. wi_claimed_by w = None \<and> actionable db w \<and> scope (wi_id w) \<and> \<not> locked (wi_id w)) (work_items db)"
  show ?thesis
  proof (cases "top_ranked ?ws")
    case None
    with scope assms show ?thesis by (intro none) (simp_all add: claim_next_work_item_def)
  next
    case (Some w)
    then have "w \<in> set ?ws" using top_ranked_best by blast
    with Some scope assms show ?thesis
      by (intro claimed[of w]) (simp_all add: claim_next_work_item_def Let_def)
  qed
qed

lemma holds_claim_next:
  assumes "holds db i holder until" "claim_next_work_item locked now db b plan secs = Some (db', r)"
  shows "holds db' i holder until"
  using assms(2)
proof (cases rule: claim_next_cases)
  case none
  with assms(1) show ?thesis by simp
next
  case (claimed w)
  then have "wi_id w \<noteq> i" using assms(1) by (auto simp: holds_def)
  then have "holds (update_item (wi_id w) (take_claim now b secs ''in_progress'') db) i holder until"
    by (rule holds_other_item[OF assms(1)]) simp
  then show ?thesis unfolding claimed(5) by simp
qed

lemma holds_get:
  assumes "holds db i holder until" "get_work_item db j = Some w" "wi_claimed_by w = Some b" "b \<noteq> holder"
  shows "j \<noteq> i"
  using assms get_work_item_SomeD[OF assms(2)] by (auto simp: holds_def)

lemma holds_release:
  assumes "holds db i holder until" "b \<noteq> holder" "release_work_item now db j b = (db', r)"
  shows "holds db' i holder until"
proof -
  have "j \<noteq> i \<Longrightarrow> holds (update_item j (\<lambda>w. w\<lparr>wi_claimed_by := None, wi_lease_expires_at := None,
      wi_updated_at := now\<rparr>) db) i holder until"
    by (rule holds_other_item[OF assms(1)]) simp_all
  then show ?thesis using assms holds_get[OF assms(1) _ _ assms(2)]
    by (auto simp: release_work_item_def Let_def split: option.splits if_splits)
qed

lemma holds_handoff:
  assumes "holds db i holder until" "b \<noteq> holder" "handoff_work_item now db j b c secs = (db', r)"
  shows "holds db' i holder until"
proof -
  have "j \<noteq> i \<Longrightarrow> holds (update_item j (\<lambda>w. w\<lparr>wi_claimed_by := Some c, wi_claimed_at := Some now,
      wi_lease_expires_at := Some (now + lease_of secs), wi_claim_count := wi_claim_count w + 1,
      wi_updated_at := now\<rparr>) db) i holder until"
    by (rule holds_other_item[OF assms(1)]) simp_all
  then show ?thesis using assms holds_get[OF assms(1) _ _ assms(2)]
    by (auto simp: handoff_work_item_def Let_def split: option.splits if_splits)
qed

lemma holds_sweep:
  assumes "holds db i holder until" "now \<le> until"
  shows "holds (sweep_leases now db) i holder until"
  by (rule holds_update[OF assms(1), of "\<lambda>w. if stale now w
      then w\<lparr>wi_claimed_by := None, wi_lease_expires_at := None, wi_updated_at := now\<rparr> else w"])
    (use assms in \<open>auto simp: sweep_leases_def stale_def lease_expired_def holds_def\<close>)

lemma sweep_items: "work_items (fst (sweep_presence_and_leases now db idle off)) = work_items (sweep_leases now db)"
  by (simp add: sweep_presence_and_leases_def decay_presence_def Let_def)

lemma holds_cascade:
  assumes "holds db i holder until"
  shows "holds (cascade now j db) i holder until"
proof -
  let ?P = "\<lambda>k. k \<in> set (unblock_candidates db j) \<and> \<not> still_blocked db k"
  show ?thesis
    by (rule holds_update[OF assms, of "\<lambda>w. if wi_status w = ''blocked'' \<and> ?P (wi_id w) then make_ready now w else w"])
      (use assms in \<open>auto simp: make_ready_def holds_def cascade_def Let_def ready_rows_def\<close>)
qed

lemma holds_status:
  assumes "holds db i holder until" "set_work_item_status now db j to a aid rsn eid nid = (db', r)"
  shows "holds db' i holder until"
proof (cases "is_Ok r")
  case False
  with set_work_item_status_refused[OF assms(2)] assms(1) show ?thesis by simp
next
  case True
  then obtain w' where "set_work_item_status_in_tx now db j to a aid rsn eid nid = Ok (db', w')"
    using assms(2) set_work_item_status_Ok_iff by (auto simp: is_Ok_iff)
  then obtain w s where db': "db' = (let db1 = write_status now db w s to a aid rsn eid nid in
      if to = Verified then cascade now j db1 else db1)"
    by (auto simp: set_work_item_status_in_tx_Ok_iff)
  have w: "holds (write_status now db w s to a aid rsn eid nid) i holder until"
    by (rule holds_update[OF assms(1), of "\<lambda>v. if wi_id v = wi_id w then apply_status now to v else v"])
      (use assms(1) in \<open>auto simp: apply_status_def holds_def\<close>)
  with holds_cascade[OF w, of now j] show ?thesis unfolding db' by (auto simp: Let_def)
qed

lemma rival_step_holds:
  assumes "rival_step holder until db db'" "holds db i holder until"
  shows "holds db' i holder until"
  using assms
proof cases
  case (Renew b now secs n)
  then have "db' = fst (renew_agent_leases now db b secs)" by simp
  then show ?thesis
    by (intro holds_update[OF assms(2), of "\<lambda>w. if wi_claimed_by w = Some b
        then w\<lparr>wi_lease_expires_at := Some (now + lease_of secs), wi_updated_at := now\<rparr> else w"])
      (use Renew assms(2) in \<open>auto simp: renew_agent_leases_def holds_def\<close>)
next
  case (Sweep now idle off n)
  then have "db' = fst (sweep_presence_and_leases now db idle off)" by simp
  then show ?thesis using holds_sweep[OF assms(2) Sweep(1)]
    by (simp add: holds_same_items[OF sweep_items])
next
  case (Touch now b item)
  then show ?thesis using assms(2) by (auto simp: touch_presence_def holds_def)
next
  case (Assign now j who by' o')
  have "holds (update_item j (\<lambda>w. w\<lparr>wi_assignee := who, wi_assigned_at := (if who = None then None else Some now),
                wi_assigned_by := by', wi_updated_at := now\<rparr>) db) i holder until"
    by (rule holds_update[OF assms(2), of "\<lambda>w. if wi_id w = j then w\<lparr>wi_assignee := who,
        wi_assigned_at := (if who = None then None else Some now), wi_assigned_by := by', wi_updated_at := now\<rparr> else w"])
      (use assms(2) in \<open>auto simp: update_item_def holds_def\<close>)
  then show ?thesis using Assign assms(2) by (auto simp: assign_work_item_def Let_def split: option.splits)
next
  case Claim
  then show ?thesis by (rule holds_claim[OF assms(2)])
next
  case ClaimNext
  then show ?thesis by (intro holds_claim_next[OF assms(2)])
next
  case Release
  then show ?thesis by (rule holds_release[OF assms(2)])
next
  case Handoff
  then show ?thesis by (rule holds_handoff[OF assms(2)])
next
  case Status
  then show ?thesis by (rule holds_status[OF assms(2)])
qed

end
