(* ===== verification/Tracker_Tools.thy ===== *)
theory Tracker_Tools
  imports Tracker_Move Tracker_Claims
begin

text \<open>
  The MCP tool bodies of \<open>src/mcp/tools/work_items\<close> over the tables: who may call what, and as which
  actor the state machine is run. A tool returns the database it leaves behind next to its result,
  so that a tool that fails after a first committed statement shows what it has already written.

  Request counters, JSON rendering and the text of database errors are left out; the JSON validity
  test of \<open>detail_json\<close> (the \<open>serde_json\<close> parser) is an argument.
\<close>

section \<open>Errors and parameters\<close>

datatype mcp_error = InvalidParams string | InternalError db_error

type_synonym 'a tool_result = "tracker_db \<times> (mcp_error, 'a) outcome"

fun map_op_err :: "work_item_op_error \<Rightarrow> mcp_error" where
  "map_op_err (Transition t) = InvalidParams (transition_message t)"
| "map_op_err NotFound = InvalidParams ''work item not found''"
| "map_op_err (Db e) = InternalError e"

definition map_db_err :: "db_error \<Rightarrow> mcp_error" where
  "map_db_err e = InternalError e"

text \<open>The UTF-8 encodings of the dash and of the ellipsis that some messages contain.\<close>

definition dash_text :: string where
  "dash_text = [CHR 0xE2, CHR 0x80, CHR 0x94]"

definition ellipsis_text :: string where
  "ellipsis_text = [CHR 0xE2, CHR 0x80, CHR 0xA6]"

definition invalid :: "tracker_db \<Rightarrow> string \<Rightarrow> 'a tool_result" where
  "invalid db message = (db, Err (InvalidParams message))"

definition nonblank :: "string option \<Rightarrow> string option" where
  "nonblank opt = (case opt of None \<Rightarrow> None | Some s \<Rightarrow> if trim s = [] then None else Some (trim s))"

definition required_nonblank :: "string \<Rightarrow> string \<Rightarrow> (mcp_error, string) outcome" where
  "required_nonblank value field =
     (if trim value = [] then Err (InvalidParams (field @ '' must be non-empty'')) else Ok (trim value))"

definition id_of_public :: "tracker_db \<Rightarrow> string \<Rightarrow> (mcp_error, int) outcome" where
  "id_of_public db public_id =
     and_then (required_nonblank public_id ''public_id'') (\<lambda>p.
       case get_work_item_by_public_id db p of
         None \<Rightarrow> Err (InvalidParams (''no work item '' @ in_quotes p))
       | Some r \<Rightarrow> Ok (wi_id r))"

text \<open>Continue with the value of a check, or return its error and the database as it is.\<close>

definition checked :: "tracker_db \<Rightarrow> (mcp_error, 'b) outcome \<Rightarrow> ('b \<Rightarrow> 'a tool_result) \<Rightarrow> 'a tool_result" where
  "checked db m f = (case m of Ok x \<Rightarrow> f x | Err e \<Rightarrow> (db, Err e) | Panic s \<Rightarrow> (db, Panic s))"

text \<open>Continue after a statement that has committed (or not) on its own.\<close>

definition committed ::
  "('e \<Rightarrow> mcp_error) \<Rightarrow> tracker_db \<times> ('e, 'b) outcome \<Rightarrow> (tracker_db \<Rightarrow> 'b \<Rightarrow> 'a tool_result) \<Rightarrow> 'a tool_result" where
  "committed h m f = (case m of (db, Ok x) \<Rightarrow> f db x | (db, Err e) \<Rightarrow> (db, Err (h e)) | (db, Panic s) \<Rightarrow> (db, Panic s))"

lemma checked_simps [simp]:
  "checked db (Ok x) f = f x" "checked db (Err e) f = (db, Err e)" "checked db (Panic s) f = (db, Panic s)"
  by (simp_all add: checked_def)

lemma committed_simps [simp]:
  "committed h (db, Ok x) f = f db x" "committed h (db, Err e) f = (db, Err (h e))"
  "committed h (db, Panic s) f = (db, Panic s)"
  by (simp_all add: committed_def)

section \<open>Lifecycle and verification\<close>

definition tool_work_item_set_status ::
  "time \<Rightarrow> tracker_db \<Rightarrow> string \<Rightarrow> string \<Rightarrow> string option \<Rightarrow> work_item tool_result" where
  "tool_work_item_set_status now db public_id status reason =
     (let public_id = trim public_id; status = trim status in
      if public_id = [] then invalid db ''public_id must be non-empty''
      else if status = [] then invalid db ''status must be non-empty''
      else case get_work_item_by_public_id db public_id of
        None \<Rightarrow> invalid db (''no work item '' @ in_quotes public_id)
      | Some row \<Rightarrow> (case work_item_status_parse status of
          None \<Rightarrow> invalid db (''unknown status '' @ in_quotes status @ ''; expected one of '' @ status_sql_in_list)
        | Some to \<Rightarrow> committed map_op_err
            (set_work_item_status now db (wi_id row) to Agent None (nonblank reason) None None)
            (\<lambda>db' w. (db', Ok w))))"

definition valid_criterion_kind :: "string \<Rightarrow> bool" where
  "valid_criterion_kind v \<longleftrightarrow> v \<in> {''test'', ''build'', ''lint'', ''proof'', ''model_check'', ''smt'', ''script'',
     ''auditor_verdict'', ''manual_user_signoff'', ''experiment_verdict''}"

definition valid_coverage_mode :: "string \<Rightarrow> bool" where
  "valid_coverage_mode v \<longleftrightarrow> v \<in> {''single'', ''universal''}"

definition valid_gate :: "string \<Rightarrow> bool" where
  "valid_gate v \<longleftrightarrow> v \<in> {''alpha_antistub'', ''beta_verify'', ''gamma_audit'', ''formal''}"

definition max_criterion_description_bytes :: nat where "max_criterion_description_bytes = 4096"
definition max_acceptance_uri_bytes :: nat where "max_acceptance_uri_bytes = 2048"
definition max_evidence_detail_json_bytes :: nat where "max_evidence_detail_json_bytes = 16 * 1024"
definition max_commit_sha_bytes :: nat where "max_commit_sha_bytes = 128"

definition tool_work_item_add_criterion ::
  "time \<Rightarrow> tracker_db \<Rightarrow> string \<Rightarrow> string \<Rightarrow> string \<Rightarrow> string option \<Rightarrow> int option \<Rightarrow> string option
     \<Rightarrow> string option \<Rightarrow> bool option \<Rightarrow> int tool_result" where
  "tool_work_item_add_criterion now db public_id criterion_kind description acceptance_uri expect_exit
       coverage_mode gate required =
     (let public_id = trim public_id; criterion_kind = trim criterion_kind;
          description = trim description; uri = nonblank acceptance_uri;
          mode = (case nonblank coverage_mode of None \<Rightarrow> ''single'' | Some m \<Rightarrow> m);
          g = nonblank gate in
      if \<not> valid_criterion_kind criterion_kind
      then invalid db (''criterion_kind must be one of test|build|lint|proof|model_check|smt|script|'' @
             ''auditor_verdict|manual_user_signoff|experiment_verdict'')
      else if description = [] then invalid db ''description must be non-empty''
      else if length description > max_criterion_description_bytes
      then invalid db (''description must be at most '' @ decimal max_criterion_description_bytes @ '' bytes'')
      else if (case uri of None \<Rightarrow> False | Some u \<Rightarrow> length u > max_acceptance_uri_bytes)
      then invalid db (''acceptance_uri must be at most '' @ decimal max_acceptance_uri_bytes @ '' bytes'')
      else if \<not> valid_coverage_mode mode then invalid db ''coverage_mode must be one of single|universal''
      else if (case g of None \<Rightarrow> False | Some x \<Rightarrow> \<not> valid_gate x)
      then invalid db ''gate must be one of alpha_antistub|beta_verify|gamma_audit|formal''
      else checked db (id_of_public db public_id) (\<lambda>item_id.
        case insert_acceptance_criterion_in_tx now db item_id criterion_kind description uri expect_exit
               mode g (case required of None \<Rightarrow> True | Some b \<Rightarrow> b) of
          Ok (db', cid) \<Rightarrow> (db', Ok cid)
        | Err e \<Rightarrow> invalid db ''criterion rejected''
        | Panic s \<Rightarrow> (db, Panic s)))"

definition tool_work_item_record_evidence ::
  "(string \<Rightarrow> bool) \<Rightarrow> time \<Rightarrow> tracker_db \<Rightarrow> int \<Rightarrow> string \<Rightarrow> int option \<Rightarrow> int option \<Rightarrow> int option
     \<Rightarrow> string option \<Rightarrow> string option \<Rightarrow> int tool_result" where
  "tool_work_item_record_evidence valid_json now db criterion_id verdict exit_code coverage_count
       coverage_total commit_sha detail_json =
     (let verdict = trim verdict; sha = nonblank commit_sha;
          detail = (case detail_json of None \<Rightarrow> ''{}'' | Some d \<Rightarrow> d) in
      if criterion_id \<le> 0 then invalid db ''criterion_id must be positive''
      else if verdict \<notin> {''pass'', ''fail'', ''unknown'', ''error''}
      then invalid db ''verdict must be one of pass|fail|unknown|error''
      else if (case coverage_count of None \<Rightarrow> False | Some c \<Rightarrow> c < 0)
      then invalid db ''coverage_count must be non-negative''
      else if (case coverage_total of None \<Rightarrow> False | Some t \<Rightarrow> t < 0)
      then invalid db ''coverage_total must be non-negative''
      else if (case (coverage_count, coverage_total) of (Some c, Some t) \<Rightarrow> c > t | _ \<Rightarrow> False)
      then invalid db ''coverage_count must not exceed coverage_total''
      else if (case sha of None \<Rightarrow> False | Some s \<Rightarrow> length s > max_commit_sha_bytes)
      then invalid db (''commit_sha must be at most '' @ decimal max_commit_sha_bytes @ '' bytes'')
      else if length detail > max_evidence_detail_json_bytes
      then invalid db (''detail_json must be at most '' @ decimal max_evidence_detail_json_bytes @ '' bytes'')
      else if \<not> valid_json detail then invalid db ''detail_json must be valid JSON''
      else committed (\<lambda>_. InvalidParams ''evidence rejected (unknown criterion?)'')
        (record_verification_evidence now db criterion_id verdict ''manual'' exit_code coverage_count
           coverage_total None sha) (\<lambda>db' eid. (db', Ok eid)))"

definition tool_work_item_attempt_verify :: "time \<Rightarrow> tracker_db \<Rightarrow> string \<Rightarrow> work_item tool_result" where
  "tool_work_item_attempt_verify now db public_id =
     checked db (id_of_public db public_id) (\<lambda>item_id.
       committed map_op_err
         (set_work_item_status now db item_id Verified Gatekeeper (Some ''gatekeeper'')
            (Some ''attempt_verify'') (latest_passing_evidence_id db item_id) None)
         (\<lambda>db' w. (db', Ok w)))"

text \<open>The result: whether the item advanced, and its status.\<close>

definition tool_work_item_assert_fixed ::
  "time \<Rightarrow> tracker_db \<Rightarrow> string \<Rightarrow> string \<Rightarrow> string option \<Rightarrow> string option \<Rightarrow> (bool \<times> string) tool_result" where
  "tool_work_item_assert_fixed now db public_id verification_command expected_signal agent_id =
     (if trim verification_command = []
      then invalid db (''verification_command must be non-empty '' @
             ''(a check that fails before the fix and passes after)'')
      else checked db (id_of_public db public_id) (\<lambda>item_id.
        case get_work_item db item_id of
          None \<Rightarrow> invalid db (''no work item '' @ in_quotes public_id)
        | Some item \<Rightarrow>
            if wi_kind item \<noteq> ''bug''
            then invalid db (''work_item_assert_fixed applies only to kind='' @ in_quotes ''bug'' @
                   '' (got '' @ in_quotes (wi_kind item) @ '')'')
            else committed map_db_err (freeze_bug_criterion now db item_id verification_command expected_signal)
              (\<lambda>db1 _. case set_work_item_status now db1 item_id ClaimedDone Agent
                   (Some (case agent_id of None \<Rightarrow> ''unknown-agent'' | Some a \<Rightarrow> a)) (Some ''assert_fixed'') None None of
                 (db2, Ok row) \<Rightarrow> (db2, Ok (True, wi_status row))
               | (db2, Err _) \<Rightarrow> (db2, Ok (False, wi_status item))
               | (db2, Panic s) \<Rightarrow> (db2, Panic s))))"

section \<open>User authority\<close>

definition check_user_token :: "string option \<Rightarrow> string \<Rightarrow> (mcp_error, unit) outcome" where
  "check_user_token configured provided =
     (case configured of
        None \<Rightarrow> Err (InvalidParams (''this user-authority operation is disabled: set [tracker] user_token '' @
          ''in config and pass it as user_token (agents do not have it, so they cannot self-defer / '' @
          ''confirm / resolve)''))
      | Some tok \<Rightarrow> if tok = provided then Ok ()
          else Err (InvalidParams (''invalid user_token: this is a user-authority operation (agents '' @
            ''cannot self-defer / scope-cut / confirm / resolve)'')))"

text \<open>\<open>defer\<close> and \<open>reinstate\<close> run the same transaction with another action and target.\<close>

definition negotiate_and_move ::
  "string option \<Rightarrow> time \<Rightarrow> tracker_db \<Rightarrow> string \<Rightarrow> work_item_status \<Rightarrow> string \<Rightarrow> string \<Rightarrow> string
     \<Rightarrow> string option \<Rightarrow> work_item tool_result" where
  "negotiate_and_move configured now db action target user_token public_id reason granted_by =
     checked db (check_user_token configured user_token) (\<lambda>_.
       let reason = trim reason in
       if reason = [] then invalid db ''reason must be non-empty''
       else checked db (id_of_public db public_id) (\<lambda>item_id.
         let who = (case granted_by of None \<Rightarrow> ''user'' | Some g \<Rightarrow> g) in
         case record_scope_negotiation_in_tx now db item_id action who reason of
           Err e \<Rightarrow> (db, Err (map_db_err e))
         | Panic s \<Rightarrow> (db, Panic s)
         | Ok (db1, neg_id) \<Rightarrow>
             (case set_work_item_status_in_tx now db1 item_id target User (Some who) (Some reason) None
                     (Some neg_id) of
                Ok (db2, w) \<Rightarrow> (db2, Ok w)
              | Err e \<Rightarrow> (db, Err (map_op_err e))
              | Panic s \<Rightarrow> (db, Panic s))))"

definition tool_work_item_defer ::
  "string option \<Rightarrow> time \<Rightarrow> tracker_db \<Rightarrow> string \<Rightarrow> string \<Rightarrow> string \<Rightarrow> string option \<Rightarrow> work_item tool_result" where
  "tool_work_item_defer configured now db = negotiate_and_move configured now db ''defer'' Deferred"

definition tool_work_item_reinstate ::
  "string option \<Rightarrow> time \<Rightarrow> tracker_db \<Rightarrow> string \<Rightarrow> string \<Rightarrow> string \<Rightarrow> string option \<Rightarrow> work_item tool_result" where
  "tool_work_item_reinstate configured now db = negotiate_and_move configured now db ''reinstate'' InProgress"

section \<open>Bugs\<close>

definition tool_work_item_triage ::
  "string option \<Rightarrow> time \<Rightarrow> tracker_db \<Rightarrow> string \<Rightarrow> string \<Rightarrow> string option \<Rightarrow> string option \<Rightarrow> string option
     \<Rightarrow> string option \<Rightarrow> work_item tool_result" where
  "tool_work_item_triage configured now db user_token public_id severity reproduction_steps root_cause
       triaged_by =
     checked db (check_user_token configured user_token) (\<lambda>_.
     case get_work_item_by_public_id db public_id of
       None \<Rightarrow> invalid db (''no work item '' @ in_quotes public_id)
     | Some item \<Rightarrow>
       if wi_kind item \<noteq> ''bug''
       then invalid db (''work_item_triage applies to bugs (kind='' @ in_quotes ''bug'' @
              ''); use work_item_set_status for other kinds'')
       else checked db (case nonblank severity of None \<Rightarrow> Ok None
              | Some s \<Rightarrow> (case severity_parse s of Some v \<Rightarrow> Ok (Some v)
                  | None \<Rightarrow> Err (InvalidParams (''unknown severity '' @ in_quotes s @ ''; expected one of '' @
                      severity_sql_in_list)))) (\<lambda>parsed_sev.
         if parsed_sev = None \<and> wi_severity item = None
         then invalid db (''a severity is required to confirm a bug '' @ dash_text @ '' pass severity=critical|high|medium|low '' @
                ''(or set it first via work_item_update)'')
         else let new_repro = nonblank reproduction_steps;
                  old_repro = (case fetch_bug_details db (wi_id item) of None \<Rightarrow> None
                               | Some d \<Rightarrow> bd_reproduction_steps d) in
           if new_repro = None \<and> nonblank old_repro = None
           then invalid db (''reproduction_steps are required to confirm a bug '' @ dash_text @
                  '' pass reproduction_steps='' @ ellipsis_text)
           else
             committed map_op_err
               (case parsed_sev of
                  None \<Rightarrow> (db, Ok item)
                | Some sev \<Rightarrow> update_work_item_fields now db (wi_id item) None None
                    (if wi_priority item = 0 then Some (default_priority sev) else None) None None False
                    None False (Some (severity_str sev)))
               (\<lambda>db1 _.
                 let who = (case triaged_by of None \<Rightarrow> ''user'' | Some t \<Rightarrow> t) in
                 case upsert_bug_details_in_tx now db1 (wi_id item)
                        (bug_detail_fields_default\<lparr>bf_reproduction_steps := new_repro,
                           bf_root_cause := nonblank root_cause, bf_triaged_by := Some who,
                           bf_set_triaged_at := True\<rparr>) of
                   Err e \<Rightarrow> (db1, Err (map_db_err e))
                 | Panic s \<Rightarrow> (db1, Panic s)
                 | Ok db2 \<Rightarrow> committed map_op_err
                     (set_work_item_status now db2 (wi_id item) Confirmed User (Some who)
                        (Some ''triage: confirmed'') None None)
                     (\<lambda>db3 w. (db3, Ok w)))))"

definition tool_work_item_resolve ::
  "string option \<Rightarrow> time \<Rightarrow> tracker_db \<Rightarrow> string \<Rightarrow> string \<Rightarrow> string \<Rightarrow> string \<Rightarrow> string option
     \<Rightarrow> string option \<Rightarrow> string option \<Rightarrow> string option \<Rightarrow> work_item tool_result" where
  "tool_work_item_resolve configured now db user_token public_id resolution reason granted_by
       duplicate_of fixed_in_version root_cause =
     checked db (check_user_token configured user_token) (\<lambda>_.
     let resolution = trim resolution; reason = trim reason in
     case bug_resolution_parse resolution of
       None \<Rightarrow> invalid db (''unknown resolution '' @ in_quotes resolution @ ''; expected one of '' @
                 resolution_sql_in_list)
     | Some res \<Rightarrow>
       if \<not> is_user_settable res
       then invalid db (in_quotes ''fixed'' @ '' is reached via the evidence-backed verify path '' @
              ''(work_item_attempt_verify), not work_item_resolve; pass a non-fixed resolution to close '' @
              ''without a fix'')
       else if reason = [] then invalid db ''reason must be non-empty''
       else case get_work_item_by_public_id db public_id of
         None \<Rightarrow> invalid db (''no work item '' @ in_quotes public_id)
       | Some item \<Rightarrow>
         if wi_kind item \<noteq> ''bug''
         then invalid db (''work_item_resolve applies to bugs (kind='' @ in_quotes ''bug'' @
                ''); use work_item_set_status / work_item_defer for other kinds'')
         else let i = wi_id item; who = (case granted_by of None \<Rightarrow> ''user'' | Some g \<Rightarrow> g) in
           committed (\<lambda>e. e)
             (case nonblank duplicate_of of
                None \<Rightarrow> (db, Ok 0)
              | Some dup \<Rightarrow> checked db (id_of_public db dup) (\<lambda>target_id.
                  if target_id = i then invalid db ''an item cannot be a duplicate of itself''
                  else committed map_db_err (insert_relation db i target_id ''duplicates'' (Some who))
                         (\<lambda>db' r. (db', Ok r))))
             (\<lambda>db1 _.
               case upsert_bug_details_in_tx now db1 i
                      (bug_detail_fields_default\<lparr>bf_resolution := Some (bug_resolution_str res),
                         bf_fixed_in_version := nonblank fixed_in_version,
                         bf_root_cause := nonblank root_cause\<rparr>) of
                 Err e \<Rightarrow> (db1, Err (map_db_err e))
               | Panic s \<Rightarrow> (db1, Panic s)
               | Ok db2 \<Rightarrow>
                 (case record_scope_negotiation_in_tx now db2 i ''cancel'' who reason of
                    Err e \<Rightarrow> (db2, Err (map_db_err e))
                  | Panic s \<Rightarrow> (db2, Panic s)
                  | Ok (db3, neg_id) \<Rightarrow> committed map_op_err
                      (set_work_item_status now db3 i Cancelled User (Some who) (Some reason) None (Some neg_id))
                      (\<lambda>db4 w. (db4, Ok w)))))"

section \<open>Collaboration\<close>

definition agent_of :: "string option \<Rightarrow> string" where
  "agent_of opt = (case nonblank opt of None \<Rightarrow> ''unknown-agent'' | Some s \<Rightarrow> s)"

definition required_agent_id :: "string option \<Rightarrow> (mcp_error, string) outcome" where
  "required_agent_id opt = (case opt of None \<Rightarrow> Ok ''unknown-agent''
     | Some raw \<Rightarrow> if trim raw = [] then Err (InvalidParams ''agent_id must be non-empty when supplied'')
                   else Ok (trim raw))"

datatype claim_reply = Claimed string work_item | NotClaimed "string option"

definition tool_work_item_claim ::
  "time \<Rightarrow> tracker_db \<Rightarrow> string option \<Rightarrow> string \<Rightarrow> int option \<Rightarrow> claim_reply tool_result" where
  "tool_work_item_claim now db agent_id public_id lease_secs =
     checked db (required_agent_id agent_id) (\<lambda>agent.
     checked db (id_of_public db public_id) (\<lambda>i.
       let lease = (case lease_secs of None \<Rightarrow> 300 | Some l \<Rightarrow> l) in
       case claim_work_item now db i agent lease of
         (db1, Some row) \<Rightarrow> (touch_presence now db1 agent (Some i), Ok (Claimed agent row))
       | (db1, None) \<Rightarrow> (db1, Ok (NotClaimed (case get_work_item db1 i of None \<Rightarrow> None | Some r \<Rightarrow> wi_claimed_by r)))))"

definition tool_work_item_claim_next ::
  "(int \<Rightarrow> bool) \<Rightarrow> time \<Rightarrow> tracker_db \<Rightarrow> string option \<Rightarrow> string option \<Rightarrow> int option \<Rightarrow> claim_reply tool_result option" where
  "tool_work_item_claim_next locked now db agent_id plan_public_id lease_secs =
     (let agent = agent_of agent_id; lease = (case lease_secs of None \<Rightarrow> 300 | Some l \<Rightarrow> l) in
      case (case plan_public_id of None \<Rightarrow> Ok None
            | Some p \<Rightarrow> and_then (id_of_public db p) (\<lambda>i. Ok (Some i))) of
        Err e \<Rightarrow> Some (db, Err e)
      | Panic s \<Rightarrow> Some (db, Panic s)
      | Ok plan_id \<Rightarrow> map_option (\<lambda>(db1, r). case r of
            Some row \<Rightarrow> (touch_presence now db1 agent (Some (wi_id row)), Ok (Claimed agent row))
          | None \<Rightarrow> (db1, Ok (NotClaimed None)))
          (claim_next_work_item locked now db agent plan_id lease))"

definition tool_work_item_release ::
  "time \<Rightarrow> tracker_db \<Rightarrow> string option \<Rightarrow> string \<Rightarrow> work_item tool_result" where
  "tool_work_item_release now db agent_id public_id =
     (let agent = agent_of agent_id in
      checked db (id_of_public db public_id) (\<lambda>i.
        case release_work_item now db i agent of
          (db1, Some row) \<Rightarrow> (touch_presence now db1 agent None, Ok row)
        | (db1, None) \<Rightarrow> invalid db1
            ''cannot release: you are not the current owner (or the item is unclaimed)''))"

definition tool_work_item_handoff ::
  "time \<Rightarrow> tracker_db \<Rightarrow> string option \<Rightarrow> string \<Rightarrow> string \<Rightarrow> int option \<Rightarrow> work_item tool_result" where
  "tool_work_item_handoff now db agent_id to_agent public_id lease_secs =
     (let agent = agent_of agent_id; to = trim to_agent in
      if to = [] then invalid db ''to_agent must be non-empty''
      else checked db (id_of_public db public_id) (\<lambda>i.
        let lease = (case lease_secs of None \<Rightarrow> 300 | Some l \<Rightarrow> l) in
        case handoff_work_item now db i agent to lease of
          (db1, Some row) \<Rightarrow>
            (touch_presence now (touch_presence now db1 agent None) to (Some i), Ok row)
        | (db1, None) \<Rightarrow> invalid db1 ''cannot hand off: you are not the current owner''))"

definition tool_work_item_assign ::
  "time \<Rightarrow> tracker_db \<Rightarrow> string \<Rightarrow> string option \<Rightarrow> string option \<Rightarrow> work_item tool_result" where
  "tool_work_item_assign now db public_id assignee assigned_by =
     checked db (id_of_public db public_id) (\<lambda>i.
       committed map_op_err (assign_work_item now db i (nonblank assignee) (nonblank assigned_by))
         (\<lambda>db' w. (db', Ok w)))"

section \<open>Structure\<close>

definition tool_work_item_reparent ::
  "time \<Rightarrow> tracker_db \<Rightarrow> string \<Rightarrow> string option \<Rightarrow> work_item tool_result option" where
  "tool_work_item_reparent now db public_id new_parent_public_id =
     (case id_of_public db public_id of
        Err e \<Rightarrow> Some (db, Err e)
      | Panic s \<Rightarrow> Some (db, Panic s)
      | Ok i \<Rightarrow>
        (case (case new_parent_public_id of None \<Rightarrow> Ok None
               | Some p \<Rightarrow> and_then (id_of_public db p) (\<lambda>q. Ok (Some q))) of
           Err e \<Rightarrow> Some (db, Err e)
         | Panic s \<Rightarrow> Some (db, Panic s)
         | Ok new_parent_id \<Rightarrow>
             if new_parent_id = Some i then Some (invalid db ''cannot reparent an item under itself'')
             else if (case new_parent_id of None \<Rightarrow> False
                      | Some np \<Rightarrow> list_ex (\<lambda>r. wi_id r = np) (get_work_item_subtree db i 100000))
             then Some (invalid db (''cannot reparent an item under one of its own descendants '' @
                    ''(would create a cycle)''))
             else map_option (\<lambda>r. committed map_op_err r (\<lambda>db' _.
                    case get_work_item db' i of Some row \<Rightarrow> (db', Ok row)
                    | None \<Rightarrow> (db', Err (InternalError RowNotFound))))
                  (reparent_work_item now db i new_parent_id)))"

definition fetch_constraint_edges :: "tracker_db \<Rightarrow> (int \<times> int) list" where
  "fetch_constraint_edges db =
     map (\<lambda>r. (ir_to_item_id r, ir_from_item_id r))
       (filter (\<lambda>r. ir_relation_type r = ''depends_on'') (relations db)) @
     map (\<lambda>r. (ir_from_item_id r, ir_to_item_id r))
       (filter (\<lambda>r. ir_relation_type r = ''blocks'') (relations db))"

definition ordering_edge :: "string \<Rightarrow> int \<Rightarrow> int \<Rightarrow> (int \<times> int) option" where
  "ordering_edge relation_type from_id to_id =
     (if relation_type = ''depends_on'' then Some (to_id, from_id)
      else if relation_type = ''blocks'' then Some (from_id, to_id)
      else None)"

definition relation_types :: "string list" where
  "relation_types = [''blocks'', ''depends_on'', ''relates_to'', ''duplicates'', ''supersedes'', ''derived_from'']"

text \<open>Rust's \<open>{:?}\<close> of a list of plain ASCII strings.\<close>

definition debug_list :: "string list \<Rightarrow> string" where
  "debug_list ss = ''['' @ join_strings '', '' (map (\<lambda>s. [CHR 0x22] @ s @ [CHR 0x22]) ss) @ '']''"

text \<open>The cycle test is \<open>petgraph\<close>'s \<open>is_cyclic_directed\<close>, an argument here.\<close>

definition tool_work_item_link ::
  "((int \<times> int) list \<Rightarrow> bool) \<Rightarrow> tracker_db \<Rightarrow> string \<Rightarrow> string \<Rightarrow> string \<Rightarrow> string option \<Rightarrow> int tool_result" where
  "tool_work_item_link is_cyclic_directed db from_public_id relation_type to_public_id created_by =
     (let relation_type = trim relation_type in
      if relation_type \<notin> set relation_types
      then invalid db (''unknown relation_type '' @ in_quotes relation_type @ ''; expected one of '' @
             debug_list relation_types)
      else checked db (id_of_public db from_public_id) (\<lambda>from_id.
        checked db (id_of_public db to_public_id) (\<lambda>to_id.
          if from_id = to_id then invalid db ''cannot relate an item to itself''
          else if (case ordering_edge relation_type from_id to_id of None \<Rightarrow> False
                   | Some e \<Rightarrow> is_cyclic_directed (fetch_constraint_edges db @ [e]))
          then invalid db (''linking '' @ in_quotes from_public_id @ '' '' @ relation_type @ '' '' @
                 in_quotes to_public_id @ '' would create a dependency cycle (unschedulable); '' @
                 ''resolve the existing chain first or use work_item_cycles to inspect it'')
          else committed map_db_err
                 (insert_relation db from_id to_id relation_type
                    (case created_by of None \<Rightarrow> None | Some c \<Rightarrow> if c = [] then None else Some c))
                 (\<lambda>db' r. (db', Ok r)))))"

definition tool_work_item_unlink ::
  "tracker_db \<Rightarrow> string \<Rightarrow> string \<Rightarrow> string \<Rightarrow> bool tool_result" where
  "tool_work_item_unlink db from_public_id relation_type to_public_id =
     (let relation_type = trim relation_type in
      if relation_type \<notin> set relation_types then invalid db (''unknown relation_type '' @ in_quotes relation_type)
      else checked db (id_of_public db from_public_id) (\<lambda>from_id.
        checked db (id_of_public db to_public_id) (\<lambda>to_id.
          let (db', removed) = delete_relation db from_id to_id relation_type in (db', Ok removed))))"

definition tool_agent_heartbeat ::
  "time \<Rightarrow> tracker_db \<Rightarrow> string option \<Rightarrow> string option \<Rightarrow> int option \<Rightarrow> (string \<times> nat) tool_result" where
  "tool_agent_heartbeat now db agent_id current_public_id lease_secs =
     (let agent = agent_of agent_id in
      checked db (case current_public_id of None \<Rightarrow> Ok None
                  | Some p \<Rightarrow> and_then (id_of_public db p) (\<lambda>i. Ok (Some i))) (\<lambda>current.
        let db1 = touch_presence now db agent current;
            (db2, renewed) = renew_agent_leases now db1 agent (case lease_secs of None \<Rightarrow> 300 | Some l \<Rightarrow> l) in
        (db2, Ok (agent, renewed))))"

section \<open>Creating items\<close>

definition is_alnum :: "char \<Rightarrow> bool" where
  "is_alnum c = (let n = (of_char c :: nat) in 48 \<le> n \<and> n \<le> 57 \<or> 65 \<le> n \<and> n \<le> 90 \<or> 97 \<le> n \<and> n \<le> 122)"

text \<open>The loop of \<open>slugify\<close>: what has been pushed so far, reversed, and whether a dash came last.\<close>

primrec slug_loop :: "string \<Rightarrow> bool \<Rightarrow> string \<Rightarrow> string" where
  "slug_loop acc prev_dash [] = rev acc"
| "slug_loop acc prev_dash (ch # cs) =
     (if is_alnum ch then slug_loop (lower_char ch # acc) False cs
      else if \<not> prev_dash \<and> acc \<noteq> [] then slug_loop (CHR ''-'' # acc) True cs
      else slug_loop acc prev_dash cs)"

definition trim_dashes :: "string \<Rightarrow> string" where
  "trim_dashes s = rev (dropWhile (\<lambda>c. c = CHR ''-'') (rev (dropWhile (\<lambda>c. c = CHR ''-'') s)))"

definition slugify :: "string \<Rightarrow> string" where
  "slugify title = (let s = trim_dashes (slug_loop [] False title) in if s = [] then ''work-item'' else s)"

text \<open>The suffix is the first six digits of a random UUID, an argument.\<close>

definition gen_public_id :: "string \<Rightarrow> string \<Rightarrow> string" where
  "gen_public_id title suffix = slugify title @ ''-'' @ suffix"

record create_params =
  cp_kind :: string
  cp_title :: string
  cp_parent_public_id :: "string option"
  cp_project :: "string option"
  cp_public_id :: "string option"
  cp_body :: "string option"
  cp_priority :: "int option"
  cp_weight :: "rat option"
  cp_parametric :: "bool option"
  cp_parametric_corpus :: "string option"
  cp_severity :: "string option"
  cp_reproduction_steps :: "string option"
  cp_expected_behavior :: "string option"
  cp_actual_behavior :: "string option"
  cp_environment :: "string option"
  cp_affected_version :: "string option"
  cp_is_regression :: "bool option"
  cp_reported_by :: "string option"

fun map_create_db_err :: "db_error \<Rightarrow> mcp_error" where
  "map_create_db_err RowNotFound = InvalidParams ''referenced parent no longer exists''"
| "map_create_db_err UniqueViolation = InvalidParams ''public_id already exists''"
| "map_create_db_err ForeignKeyViolation = InvalidParams ''referenced parent or project no longer exists''"
| "map_create_db_err CheckViolation = InvalidParams ''work item rejected by DB constraint''"
| "map_create_db_err e = map_db_err e"

definition bug_field_supplied :: "create_params \<Rightarrow> bool" where
  "bug_field_supplied p \<longleftrightarrow> nonblank (cp_severity p) \<noteq> None \<or> nonblank (cp_reproduction_steps p) \<noteq> None
     \<or> nonblank (cp_expected_behavior p) \<noteq> None \<or> nonblank (cp_actual_behavior p) \<noteq> None
     \<or> nonblank (cp_environment p) \<noteq> None \<or> nonblank (cp_affected_version p) \<noteq> None
     \<or> cp_is_regression p \<noteq> None \<or> nonblank (cp_reported_by p) \<noteq> None"

text \<open>
  The lookup of a project by name reads the table \<open>projects\<close>, and the embedding of the text is a
  service: \<open>project_id\<close> is the result of the former, and the latter only fills a column left out here.
\<close>

definition create_in_tx ::
  "time \<Rightarrow> tracker_db \<Rightarrow> bool \<Rightarrow> new_work_item \<Rightarrow> bug_detail_fields \<Rightarrow> work_item tool_result" where
  "create_in_tx now db is_bug new_item bug_fields =
     (case insert_work_item_in_tx now db new_item of
        Err e \<Rightarrow> (db, Err (map_create_db_err e))
      | Panic s \<Rightarrow> (db, Panic s)
      | Ok (db1, new_id) \<Rightarrow>
        (case (if is_bug then upsert_bug_details_in_tx now db1 new_id bug_fields else Ok db1) of
           Err e \<Rightarrow> (db, Err (map_create_db_err e))
         | Panic s \<Rightarrow> (db, Panic s)
         | Ok db2 \<Rightarrow>
           (case get_work_item db2 new_id of Some row \<Rightarrow> (db2, Ok row)
            | None \<Rightarrow> (db2, Err (InternalError RowNotFound)))))"

definition tool_work_item_create ::
  "(string option \<Rightarrow> (mcp_error, int option) outcome) \<Rightarrow> string \<Rightarrow> time \<Rightarrow> tracker_db \<Rightarrow> create_params \<Rightarrow> work_item tool_result" where
  "tool_work_item_create project_id suffix now db p =
     (case work_item_kind_parse (trim (cp_kind p)) of
        None \<Rightarrow> invalid db (''unknown kind '' @ in_quotes (trim (cp_kind p)) @ ''; expected one of '' @ kind_sql_in_list)
      | Some kind \<Rightarrow>
        let title = trim (cp_title p) in
        if title = [] then invalid db ''title must be non-empty''
        else checked db (case nonblank (cp_parent_public_id p) of None \<Rightarrow> Ok None
               | Some q \<Rightarrow> and_then (id_of_public db q) (\<lambda>i. Ok (Some i))) (\<lambda>parent_id.
          checked db (project_id (cp_project p)) (\<lambda>project_id.
          let public_id = (case nonblank (cp_public_id p) of None \<Rightarrow> gen_public_id title suffix | Some q \<Rightarrow> q);
              body = (case cp_body p of None \<Rightarrow> None | Some b \<Rightarrow> if trim b = [] then None else Some b);
              is_bug = (kind = Bug) in
          if \<not> is_bug \<and> bug_field_supplied p
          then invalid db (''severity and structured bug fields require kind='' @ in_quotes ''bug'')
          else checked db (case nonblank (cp_severity p) of None \<Rightarrow> Ok None
                 | Some s \<Rightarrow> (case severity_parse s of Some v \<Rightarrow> Ok (Some v)
                     | None \<Rightarrow> Err (InvalidParams (''unknown severity '' @ in_quotes s @ ''; expected one of '' @
                         severity_sql_in_list)))) (\<lambda>severity.
            let priority = (case cp_priority p of Some x \<Rightarrow> x
                   | None \<Rightarrow> (case severity of None \<Rightarrow> 0 | Some s \<Rightarrow> default_priority s));
                weight = (case cp_weight p of None \<Rightarrow> 1 | Some x \<Rightarrow> x) in
            if \<not> (0 \<le> priority \<and> priority \<le> 100) then invalid db ''priority must be between 0 and 100''
            else if weight \<le> 0 then invalid db ''weight must be a positive finite number''
            else create_in_tx now db is_bug
                (new_work_item_default\<lparr>nw_public_id := public_id,
                     nw_parent_id := parent_id, nw_project_id := project_id,
                     nw_kind := work_item_kind_str kind,
                     nw_status := (if is_bug then ''triage'' else ''pending''), nw_title := title,
                     nw_body := body, nw_priority := priority, nw_weight := weight,
                     nw_parametric := (case cp_parametric p of None \<Rightarrow> False | Some b \<Rightarrow> b),
                     nw_parametric_corpus := nonblank (cp_parametric_corpus p),
                     nw_origin := ''agent_write'', nw_severity := map_option severity_str severity\<rparr>)
                (bug_detail_fields_default\<lparr>bf_reproduction_steps := nonblank (cp_reproduction_steps p),
                            bf_expected_behavior := nonblank (cp_expected_behavior p),
                            bf_actual_behavior := nonblank (cp_actual_behavior p),
                            bf_environment := nonblank (cp_environment p),
                            bf_affected_version := nonblank (cp_affected_version p),
                            bf_is_regression := cp_is_regression p,
                            bf_reported_by := nonblank (cp_reported_by p)\<rparr>)))))"

end
