(* ===== verification/Tracker_Trust.thy ===== *)
theory Tracker_Trust
  imports Tracker_Tools
begin

text \<open>
  The trust boundary of the tracker: what an agent can bring about with the tools it may call, in any
  order and number. \<open>agent_step\<close> is one call; \<open>trust_kept\<close> is what every call, and so every run,
  keeps: trusted evidence is neither added nor changed, and an item has a judgment status only if it
  had it before, or if it is \<open>verified\<close> on trusted evidence that was there before.
\<close>

section \<open>Contracts of step relations\<close>

text \<open>A reflexive and transitive relation that contains a step relation contains its runs.\<close>

locale step_contract =
  fixes step :: "'s \<Rightarrow> 's \<Rightarrow> bool" and keeps :: "'s \<Rightarrow> 's \<Rightarrow> bool"
  assumes keeps_refl: "keeps s s"
    and keeps_trans: "keeps s t \<Longrightarrow> keeps t u \<Longrightarrow> keeps s u"
    and step_keeps: "step s t \<Longrightarrow> keeps s t"
begin

lemma run_keeps: "step\<^sup>*\<^sup>* s t \<Longrightarrow> keeps s t"
  by (induction rule: rtranclp_induct) (auto intro: keeps_refl keeps_trans step_keeps)

end

interpretation rivals: step_contract "rival_step holder until"
  "\<lambda>db db'. \<forall>i. holds db i holder until \<longrightarrow> holds db' i holder until"
  by unfold_locales (auto intro: rival_step_holds)

section \<open>What an agent cannot change\<close>

definition is_judgment :: "string \<Rightarrow> bool" where
  "is_judgment s \<longleftrightarrow> s \<in> work_item_status_str ` {Confirmed, Verified, Rejected, Deferred, Cancelled}"

definition evidenced :: "tracker_db \<Rightarrow> int \<Rightarrow> bool" where
  "evidenced db i \<longleftrightarrow> (\<exists>c \<in> set (criteria db). ac_item_id c = i \<and>
     (\<exists>e \<in> set (evidence db). ve_criterion_id e = ac_id c \<and> trusted_pass e))"

definition refs_ok :: "tracker_db \<Rightarrow> bool" where
  "refs_ok db \<longleftrightarrow> (\<forall>c \<in> set (criteria db). ac_id c < next_criterion_id db) \<and>
     (\<forall>e \<in> set (evidence db). ve_criterion_id e < next_criterion_id db)"

definition trusted :: "tracker_db \<Rightarrow> verification_evidence list" where
  "trusted db = filter trusted_pass (evidence db)"

definition trust_kept :: "tracker_db \<Rightarrow> tracker_db \<Rightarrow> bool" where
  "trust_kept db db' \<longleftrightarrow> (refs_ok db \<longrightarrow> refs_ok db' \<and> trusted db' = trusted db \<and>
     (\<exists>new. criteria db' = criteria db @ new \<and> (\<forall>c \<in> set new. next_criterion_id db \<le> ac_id c)) \<and>
     next_criterion_id db \<le> next_criterion_id db' \<and>
     (\<forall>w' \<in> set (work_items db'). is_judgment (wi_status w') \<longrightarrow>
        (\<exists>w \<in> set (work_items db). wi_id w = wi_id w' \<and> wi_status w = wi_status w') \<or>
        (wi_status w' = ''verified'' \<and> evidenced db (wi_id w'))))"

lemma evidenced_back:
  assumes "refs_ok db" "trust_kept db db'" "evidenced db' i"
  shows "evidenced db i"
proof -
  obtain new where new: "criteria db' = criteria db @ new" "\<forall>c \<in> set new. next_criterion_id db \<le> ac_id c"
    and t: "trusted db' = trusted db" using assms(1,2) by (auto simp: trust_kept_def)
  obtain c e where c: "c \<in> set (criteria db')" "ac_item_id c = i" and e: "e \<in> set (evidence db')"
    "ve_criterion_id e = ac_id c" "trusted_pass e" using assms(3) by (auto simp: evidenced_def)
  have "e \<in> set (trusted db')" using e by (simp add: trusted_def)
  then have "e \<in> set (trusted db)" by (simp only: t)
  then have e': "e \<in> set (evidence db)" by (simp add: trusted_def)
  with assms(1) e(2) have "ac_id c < next_criterion_id db" by (auto simp: refs_ok_def)
  with c(1) new have "c \<in> set (criteria db)" by fastforce
  with c(2) e e' show ?thesis by (auto simp: evidenced_def)
qed

lemma trust_kept_refl [simp]: "trust_kept db db"
  by (auto simp: trust_kept_def)

lemma trust_kept_trans:
  assumes "trust_kept a b" "trust_kept b c"
  shows "trust_kept a c"
proof (cases "refs_ok a")
  case True
  then have rb: "refs_ok b" using assms(1) by (simp add: trust_kept_def)
  obtain m where m: "criteria b = criteria a @ m" "\<forall>c \<in> set m. next_criterion_id a \<le> ac_id c"
    using assms(1) True by (auto simp: trust_kept_def)
  obtain n where n: "criteria c = criteria b @ n" "\<forall>c \<in> set n. next_criterion_id b \<le> ac_id c"
    using assms(2) rb by (auto simp: trust_kept_def)
  have le: "next_criterion_id a \<le> next_criterion_id b" "next_criterion_id b \<le> next_criterion_id c"
    using assms True rb by (auto simp: trust_kept_def)
  have "\<exists>new. criteria c = criteria a @ new \<and> (\<forall>c \<in> set new. next_criterion_id a \<le> ac_id c)"
    using m n le by (intro exI[of _ "m @ n"]) force
  moreover have "(\<exists>w \<in> set (work_items a). wi_id w = wi_id w' \<and> wi_status w = wi_status w') \<or>
      (wi_status w' = ''verified'' \<and> evidenced a (wi_id w'))"
    if "w' \<in> set (work_items c)" "is_judgment (wi_status w')" for w'
  proof -
    have "(\<exists>w \<in> set (work_items b). wi_id w = wi_id w' \<and> wi_status w = wi_status w') \<or>
        (wi_status w' = ''verified'' \<and> evidenced b (wi_id w'))"
      using assms(2) rb that by (auto simp: trust_kept_def)
    then show ?thesis
    proof
      assume "\<exists>w \<in> set (work_items b). wi_id w = wi_id w' \<and> wi_status w = wi_status w'"
      then obtain w where "w \<in> set (work_items b)" "wi_id w = wi_id w'" "wi_status w = wi_status w'" by blast
      then show ?thesis using assms(1) True that by (auto simp: trust_kept_def)
    next
      assume "wi_status w' = ''verified'' \<and> evidenced b (wi_id w')"
      then show ?thesis using evidenced_back[OF True assms(1)] by blast
    qed
  qed
  ultimately show ?thesis using assms True rb le by (auto simp: trust_kept_def)
qed (simp add: trust_kept_def)

text \<open>Statements that only touch item rows, one by one.\<close>

lemma trust_kept_items:
  assumes "work_items db' = map f (work_items db)"
    and "\<And>w. w \<in> set (work_items db) \<Longrightarrow> wi_id (f w) = wi_id w \<and>
      (is_judgment (wi_status (f w)) \<longrightarrow> wi_status (f w) = wi_status w \<or>
         (wi_status (f w) = ''verified'' \<and> evidenced db (wi_id w)))"
    and "criteria db' = criteria db" "evidence db' = evidence db" "next_criterion_id db' = next_criterion_id db"
  shows "trust_kept db db'"
  using assms unfolding trust_kept_def refs_ok_def trusted_def by fastforce

lemma trust_kept_append:
  assumes "work_items db' = work_items db @ new" "\<And>w. w \<in> set new \<Longrightarrow> \<not> is_judgment (wi_status w)"
    and "criteria db' = criteria db" "evidence db' = evidence db" "next_criterion_id db' = next_criterion_id db"
  shows "trust_kept db db'"
  using assms unfolding trust_kept_def refs_ok_def trusted_def by fastforce

lemma trust_kept_update:
  assumes "\<And>w. wi_id (f w) = wi_id w \<and> (wi_status (f w) = wi_status w \<or> \<not> is_judgment (wi_status (f w)))"
  shows "trust_kept db (update_item i f db)"
  by (rule trust_kept_items[of _ "\<lambda>w. if wi_id w = i then f w else w"])
    (use assms in \<open>auto simp: update_item_def\<close>)

lemma trust_kept_same:
  assumes "work_items db' = work_items db" "criteria db' = criteria db" "evidence db' = evidence db"
    "next_criterion_id db' = next_criterion_id db"
  shows "trust_kept db db'"
  by (rule trust_kept_items[of _ "\<lambda>w. w"]) (use assms in auto)

section \<open>Statements\<close>

lemma is_judgment_str [simp]:
  "is_judgment (work_item_status_str s) \<longleftrightarrow> s \<in> {Confirmed, Verified, Rejected, Deferred, Cancelled}"
  by (cases s) (simp_all add: is_judgment_def)

lemma not_is_judgment [simp]:
  "\<not> is_judgment ''pending''" "\<not> is_judgment ''triage''" "\<not> is_judgment ''ready''" "\<not> is_judgment ''in_progress''"
  using is_judgment_str[of Pending] is_judgment_str[of Triage] is_judgment_str[of Ready]
    is_judgment_str[of InProgress] by simp_all

lemma evidence_passing_evidenced: "evidence_passing_for db i \<Longrightarrow> evidenced db i"
  unfolding evidence_passing_for_def evidenced_def list_ex_iff list_all_iff by blast

lemma trust_kept_write_status:
  assumes "wi_id w = i" "\<not> is_judgment (work_item_status_str to) \<or> to = Verified \<and> evidenced db i"
  shows "trust_kept db (write_status now db w s to a aid rsn eid nid)"
  by (rule trust_kept_items[of _ "\<lambda>v. if wi_id v = wi_id w then apply_status now to v else v"])
    (use assms in \<open>auto simp: write_status_def update_item_def\<close>)

lemma trust_kept_cascade: "trust_kept db (cascade now i db)"
  by (rule trust_kept_items[of _ "\<lambda>w. if wi_status w = ''blocked'' \<and>
        (wi_id w \<in> set (unblock_candidates db i) \<and> \<not> still_blocked db (wi_id w)) then make_ready now w else w"])
    (auto simp: cascade_def Let_def ready_rows_def)

lemma trust_kept_status_in_tx:
  assumes "set_work_item_status_in_tx now db i to a aid rsn eid nid = Ok (db', w')"
    and "a = Agent \<or> a = System \<or> a = Gatekeeper \<and> to = Verified"
  shows "trust_kept db db'"
proof -
  obtain w s where w: "get_work_item db i = Some w" "a \<in> set (legal_actors s to)"
    "gate_open to (gate_context db i nid)" and db': "db' = (let db1 = write_status now db w s to a aid rsn eid nid in
       if to = Verified then cascade now i db1 else db1)"
    using assms(1) by (auto simp: set_work_item_status_in_tx_Ok_iff)
  have "\<not> is_judgment (work_item_status_str to) \<or> to = Verified \<and> evidenced db i"
    using assms(2) w(2,3) legal_Agent[of s to] legal_System[of s to]
    by (auto simp: gate_open_def gate_context_def intro: evidence_passing_evidenced)
  then have k: "trust_kept db (write_status now db w s to a aid rsn eid nid)"
    by (rule trust_kept_write_status[rotated]) (use get_work_item_SomeD[OF w(1)] in simp)
  show ?thesis
  proof (cases "to = Verified")
    case True
    have "trust_kept db (cascade now i (write_status now db w s to a aid rsn eid nid))"
      by (rule trust_kept_trans[OF k trust_kept_cascade])
    with True show ?thesis by (simp add: db' Let_def)
  next
    case False
    with k show ?thesis by (simp add: db' Let_def)
  qed
qed

lemma trust_kept_status:
  assumes "a = Agent \<or> a = System \<or> a = Gatekeeper \<and> to = Verified"
  shows "trust_kept db (fst (set_work_item_status now db i to a aid rsn eid nid))"
  using trust_kept_status_in_tx[OF _ assms]
  by (auto simp: set_work_item_status_def split: outcome.splits prod.splits)

lemma trust_kept_claim: "trust_kept db (fst (claim_work_item now db i a secs))"
proof (cases "claim_work_item now db i a secs" rule: prod.exhaust)
  case (Pair db' r)
  then show ?thesis
  proof (cases rule: claim_work_item_cases)
    case (claimed w)
    have "trust_kept db (update_item i (claim_row now a secs) db)"
      by (rule trust_kept_update) (auto simp: claim_row_def)
    then have "trust_kept db db'" unfolding claimed(5)
      by (rule trust_kept_trans) (rule trust_kept_same, simp_all add: log_claim_def)
    with Pair show ?thesis by simp
  qed (simp add: Pair)
qed

lemma trust_kept_claim_next:
  assumes "claim_next_work_item locked now db a plan secs = Some (db', r)"
  shows "trust_kept db db'"
  using assms
proof (cases rule: claim_next_cases)
  case (claimed w)
  have "trust_kept db (update_item (wi_id w) (take_claim now a secs ''in_progress'') db)"
    by (rule trust_kept_update) auto
  then show ?thesis unfolding claimed(5)
    by (rule trust_kept_trans) (rule trust_kept_same, simp_all add: log_claim_def)
qed simp

lemma trust_kept_release: "trust_kept db (fst (release_work_item now db i a))"
proof -
  have "trust_kept db (log_claim now i a ''release'' None None (update_item i
      (\<lambda>w. w\<lparr>wi_claimed_by := None, wi_lease_expires_at := None, wi_updated_at := now\<rparr>) db))"
    by (rule trust_kept_trans[OF trust_kept_update trust_kept_same]) (auto simp: log_claim_def)
  then show ?thesis by (auto simp: release_work_item_def Let_def split: option.splits)
qed

lemma trust_kept_handoff: "trust_kept db (fst (handoff_work_item now db i a b secs))"
proof -
  have "trust_kept db (log_claim now i b ''handoff_in'' None None
      (log_claim now i a ''handoff_out'' (Some b) None (update_item i
        (\<lambda>w. w\<lparr>wi_claimed_by := Some b, wi_claimed_at := Some now,
           wi_lease_expires_at := Some (now + lease_of secs),
           wi_claim_count := wi_claim_count w + 1, wi_updated_at := now\<rparr>) db)))"
    by (rule trust_kept_trans[OF trust_kept_update trust_kept_same]) (auto simp: log_claim_def)
  then show ?thesis by (auto simp: handoff_work_item_def Let_def split: option.splits)
qed

lemma trust_kept_touch [simp]: "trust_kept db (touch_presence now db a item)"
  by (rule trust_kept_same) (auto simp: touch_presence_def)

lemma trust_then_touch [intro]: "trust_kept db db1 \<Longrightarrow> trust_kept db (touch_presence now db1 a item)"
  by (rule trust_kept_trans[OF _ trust_kept_touch])

lemma trust_kept_renew: "trust_kept db (fst (renew_agent_leases now db a secs))"
  by (rule trust_kept_items[of _ "\<lambda>w. if wi_claimed_by w = Some a
      then w\<lparr>wi_lease_expires_at := Some (now + lease_of secs), wi_updated_at := now\<rparr> else w"])
    (auto simp: renew_agent_leases_def)

lemma trust_kept_assign: "trust_kept db (fst (assign_work_item now db i who by'))"
proof -
  have "trust_kept db (update_item i (\<lambda>w. w\<lparr>wi_assignee := who,
      wi_assigned_at := (if who = None then None else Some now), wi_assigned_by := by', wi_updated_at := now\<rparr>) db)"
    by (rule trust_kept_update) simp
  then show ?thesis by (auto simp: assign_work_item_def Let_def split: option.splits)
qed

lemma trust_kept_relation: "trust_kept db (fst (insert_relation db f t ty c))"
  by (rule trust_kept_same) (auto simp: insert_relation_def Let_def split: option.splits)

lemma trust_kept_delete_relation: "trust_kept db (fst (delete_relation db f t ty))"
  by (rule trust_kept_same) (auto simp: delete_relation_def Let_def)

lemma trust_kept_sidecar: "trust_kept db (upsert_sidecar i row f db)"
  by (rule trust_kept_same) (auto simp: upsert_sidecar_def)

lemma trust_kept_freeze: "trust_kept db (fst (freeze_bug_criterion now db i c s))"
  by (auto simp: freeze_bug_criterion_def trust_kept_sidecar)

lemma trust_kept_manual_evidence:
  "trust_kept db (fst (record_verification_evidence now db cid v ''manual'' ex cc ct ri sha))"
proof (cases "find (\<lambda>c. ac_id c = cid) (criteria db)")
  case None
  then show ?thesis by (simp add: record_verification_evidence_def)
next
  case (Some c)
  then have c: "c \<in> set (criteria db)" "ac_id c = cid" by (auto dest: find_SomeD)
  show ?thesis
    using Some c by (auto simp: record_verification_evidence_def Let_def trust_kept_def refs_ok_def trusted_def
        trusted_pass_def trusted_sources_def)
qed

lemma trust_kept_new_criterion:
  assumes "ac_id c = next_criterion_id db"
  shows "trust_kept db (db\<lparr>criteria := criteria db @ [c], next_criterion_id := next_criterion_id db + 1\<rparr>)"
proof -
  have "refs_ok (db\<lparr>criteria := criteria db @ [c], next_criterion_id := next_criterion_id db + 1\<rparr>)" if "refs_ok db"
    using that assms unfolding refs_ok_def by fastforce
  then show ?thesis using assms by (auto simp: trust_kept_def trusted_def)
qed

lemma trust_kept_criterion:
  assumes "insert_acceptance_criterion_in_tx now db i k d u x m g r = Ok (db', cid)"
  shows "trust_kept db db'"
proof -
  have "db' = db\<lparr>criteria := criteria db @ [\<lparr>ac_id = next_criterion_id db, ac_item_id = i, ac_criterion_kind = k,
      ac_description = d, ac_acceptance_uri = u, ac_expect_exit = x, ac_coverage_mode = m, ac_gate = g,
      ac_required = r, ac_created_at = now\<rparr>], next_criterion_id := next_criterion_id db + 1\<rparr>"
    using assms unfolding insert_acceptance_criterion_in_tx_def Let_def by (simp split: if_split_asm) (elim conjE, simp)
  then show ?thesis using trust_kept_new_criterion by simp
qed

section \<open>Tools\<close>

lemma trust_checked:
  "(\<And>x. m = Ok x \<Longrightarrow> trust_kept db (fst (f x))) \<Longrightarrow> trust_kept db (fst (checked db m f))"
  by (cases m) simp_all

lemma trust_committed:
  "trust_kept db (fst m) \<Longrightarrow> (\<And>db1 x. m = (db1, Ok x) \<Longrightarrow> trust_kept db (fst (f db1 x))) \<Longrightarrow>
     trust_kept db (fst (committed h m f))"
  by (cases m, cases "snd m") simp_all

lemma trust_if:
  "trust_kept db (fst a) \<Longrightarrow> trust_kept db (fst b) \<Longrightarrow> trust_kept db (fst (if c then a else b))"
  by simp

lemma trust_let: "(\<And>y. trust_kept db (fst (f y))) \<Longrightarrow> trust_kept db (fst (let y = x in f y))"
  by simp

lemma trust_option:
  "trust_kept db (fst a) \<Longrightarrow> (\<And>y. trust_kept db (fst (f y))) \<Longrightarrow>
     trust_kept db (fst (case x of None \<Rightarrow> a | Some y \<Rightarrow> f y))"
  by (cases x) simp_all

lemma fst_invalid [simp]: "fst (invalid db s) = db"
  by (simp add: invalid_def)

lemma trust_tool_set_status: "trust_kept db (fst (tool_work_item_set_status now db p s r))"
proof -
  have "trust_kept db (fst (committed map_op_err (set_work_item_status now db i to Agent None r None None)
      (\<lambda>db' w. (db', Ok w))))" for i to r
    by (rule trust_committed) (use trust_kept_status[of Agent to db now i None r None None] in auto)
  then show ?thesis by (simp add: tool_work_item_set_status_def Let_def split: option.splits)
qed

lemma trust_tool_attempt_verify: "trust_kept db (fst (tool_work_item_attempt_verify now db p))"
proof -
  have "trust_kept db (fst (committed map_op_err (set_work_item_status now db i Verified Gatekeeper aid rsn eid None)
      (\<lambda>db' w. (db', Ok w))))" for i aid rsn eid
    by (rule trust_committed) (use trust_kept_status[of Gatekeeper Verified db now i aid rsn eid None] in auto)
  then show ?thesis unfolding tool_work_item_attempt_verify_def by (rule trust_checked)
qed

lemma trust_tool_record_evidence:
  "trust_kept db (fst (tool_work_item_record_evidence vj now db cid v ec cc ct sha d))"
proof -
  have "trust_kept db (fst (committed h (record_verification_evidence now db cid v' ''manual'' ec cc ct None sha')
      (\<lambda>db' eid. (db', Ok eid))))" for h v' sha'
    by (rule trust_committed) (use trust_kept_manual_evidence[of db now cid v' ec cc ct None sha'] in auto)
  then show ?thesis by (simp add: tool_work_item_record_evidence_def Let_def)
qed

lemma trust_tool_add_criterion:
  "trust_kept db (fst (tool_work_item_add_criterion now db p k d u x m g r))"
proof -
  have "trust_kept db (fst (checked db (id_of_public db p') (\<lambda>item_id.
        case insert_acceptance_criterion_in_tx now db item_id k' d' u' x m' g' r' of
          Ok (db', cid) \<Rightarrow> (db', Ok cid)
        | Err e \<Rightarrow> invalid db ''criterion rejected''
        | Panic s \<Rightarrow> (db, Panic s))))" for p' k' d' u' m' g' r'
    by (rule trust_checked) (auto split: outcome.splits prod.splits dest: trust_kept_criterion)
  then show ?thesis by (simp add: tool_work_item_add_criterion_def Let_def)
qed

lemma trust_tool_assert_fixed:
  "trust_kept db (fst (tool_work_item_assert_fixed now db p vc es ag))"
proof -
  have k: "trust_kept db (fst (case set_work_item_status now db1 i ClaimedDone Agent who rsn None None of
                 (db2, Ok row) \<Rightarrow> (db2, Ok (True, wi_status row))
               | (db2, Err _) \<Rightarrow> (db2, Ok (False, wi_status item))
               | (db2, Panic s) \<Rightarrow> (db2, Panic s)))" if "trust_kept db db1" for db1 i who rsn and item :: work_item
    using trust_kept_trans[OF that trust_kept_status[of Agent ClaimedDone db1 now i who rsn None None]]
    by (auto split: prod.splits outcome.splits)
  have "trust_kept db db1" if "freeze_bug_criterion now db i vc es = (db1, r)" for i db1 r
    using trust_kept_freeze[of db now i vc es] that by simp
  then have "trust_kept db (fst (committed map_db_err (freeze_bug_criterion now db i vc es) (\<lambda>db1 _.
      case set_work_item_status now db1 i ClaimedDone Agent who rsn None None of
        (db2, Ok row) \<Rightarrow> (db2, Ok (True, wi_status row))
      | (db2, Err _) \<Rightarrow> (db2, Ok (False, wi_status item))
      | (db2, Panic s) \<Rightarrow> (db2, Panic s))))" for i who rsn and item :: work_item
    by (intro trust_committed trust_kept_freeze k) blast
  then show ?thesis unfolding tool_work_item_assert_fixed_def
    by (auto intro!: trust_checked split: option.splits)
qed

lemma trust_tool_claim: "trust_kept db (fst (tool_work_item_claim now db ag p l))"
proof -
  have "trust_kept db db1" if "claim_work_item now db i a s = (db1, r)" for i a s db1 r
    using trust_kept_claim[of db now i a s] that by simp
  then show ?thesis unfolding tool_work_item_claim_def Let_def
    by (intro trust_checked) (auto split: prod.splits option.splits)
qed

lemma trust_tool_claim_next:
  assumes "tool_work_item_claim_next locked now db ag p l = Some (db', r)"
  shows "trust_kept db db'"
  using assms unfolding tool_work_item_claim_next_def Let_def
  by (auto split: prod.splits option.splits outcome.splits dest: trust_kept_claim_next)

lemma trust_tool_release: "trust_kept db (fst (tool_work_item_release now db ag p))"
proof -
  have "trust_kept db db1" if "release_work_item now db i a = (db1, r)" for i a db1 r
    using trust_kept_release[of db now i a] that by simp
  then show ?thesis unfolding tool_work_item_release_def Let_def
    by (intro trust_checked) (auto split: prod.splits option.splits)
qed

lemma trust_tool_handoff: "trust_kept db (fst (tool_work_item_handoff now db ag t p l))"
proof -
  have "trust_kept db db1" if "handoff_work_item now db i a b s = (db1, r)" for i a b s db1 r
    using trust_kept_handoff[of db now i a b s] that by simp
  then have "trust_kept db (fst (checked db (id_of_public db p) (\<lambda>i.
        case handoff_work_item now db i a b s of
          (db1, Some row) \<Rightarrow> (touch_presence now (touch_presence now db1 a None) b (Some i), Ok row)
        | (db1, None) \<Rightarrow> invalid db1 e)))" for a b s e
    by (intro trust_checked) (auto split: prod.splits option.splits intro!: trust_then_touch)
  then show ?thesis unfolding tool_work_item_handoff_def Let_def by simp
qed

lemma trust_tool_heartbeat: "trust_kept db (fst (tool_agent_heartbeat now db ag p l))"
proof -
  have "trust_kept db db2" if "renew_agent_leases now (touch_presence now db a c) a s = (db2, n)" for a c s db2 n
    using trust_kept_trans[OF trust_kept_touch[of db now a c] trust_kept_renew[of _ now a s]] that by simp
  then show ?thesis unfolding tool_agent_heartbeat_def Let_def
    by (intro trust_checked) (auto split: prod.splits)
qed

lemma trust_tool_assign: "trust_kept db (fst (tool_work_item_assign now db p a b))"
proof -
  have "trust_kept db db1" if "assign_work_item now db i a' b' = (db1, r)" for i a' b' db1 r
    using trust_kept_assign[of db now i a' b'] that by simp
  then show ?thesis unfolding tool_work_item_assign_def
    by (intro trust_checked trust_committed trust_kept_assign) auto
qed

lemma trust_tool_link: "trust_kept db (fst (tool_work_item_link cyc db f ty t c))"
proof -
  have "trust_kept db (fst (committed map_db_err (insert_relation db i j ty' c') (\<lambda>db' r. (db', Ok r))))" for i j ty' c'
    by (rule trust_committed) (use trust_kept_relation[of db i j ty' c'] in auto)
  then show ?thesis unfolding tool_work_item_link_def Let_def by (auto intro!: trust_checked)
qed

lemma trust_tool_unlink: "trust_kept db (fst (tool_work_item_unlink db f ty t))"
proof -
  have "trust_kept db db1" if "delete_relation db i j ty' = (db1, r)" for i j ty' db1 r
    using trust_kept_delete_relation[of db i j ty'] that by simp
  then show ?thesis unfolding tool_work_item_unlink_def Let_def by (auto intro!: trust_checked split: prod.splits)
qed

lemma trust_kept_reparent:
  assumes "reparent_work_item now db i p = Some (db', r)"
  shows "trust_kept db db'"
proof -
  have m: "trust_kept db (moved_to now i p' q db)" for p' q
    unfolding moved_to_def by (rule trust_kept_update) simp
  have r: "trust_kept db1 (db1\<lparr>work_items := map (\<lambda>w. if wi_id w \<in> B \<and> wi_id w \<noteq> i
      then w\<lparr>wi_root_id := x, wi_updated_at := now\<rparr> else w) (work_items db1)\<rparr>)" for db1 B x
    by (rule trust_kept_items[of _ "\<lambda>w. if wi_id w \<in> B \<and> wi_id w \<noteq> i
      then w\<lparr>wi_root_id := x, wi_updated_at := now\<rparr> else w"]) auto
  show ?thesis using assms
    by (auto simp: reparent_work_item_def Let_def moved_to_def[symmetric] trust_kept_trans[OF m r]
        split: if_splits option.splits)
qed

lemma trust_tool_reparent:
  assumes "tool_work_item_reparent now db p q = Some (db', r)"
  shows "trust_kept db db'"
proof -
  have k: "trust_kept db db'"
    if m: "reparent_work_item now db i np = Some m" and c: "committed map_op_err m (\<lambda>db' _. case get_work_item db' i of
      Some row \<Rightarrow> (db', Ok row) | None \<Rightarrow> (db', Err (InternalError RowNotFound))) = (db', r)" for m i np
  proof -
    have "trust_kept db (fst (committed map_op_err m (\<lambda>db' _. case get_work_item db' i of
        Some row \<Rightarrow> (db', Ok row) | None \<Rightarrow> (db', Err (InternalError RowNotFound)))))"
      by (rule trust_committed) (use trust_kept_reparent[of now db i np "fst m" "snd m"] m in \<open>auto split: option.splits\<close>)
    then show ?thesis by (simp add: c)
  qed
  show ?thesis using assms unfolding tool_work_item_reparent_def
    by (auto simp: invalid_def split: outcome.split_asm option.split_asm if_split_asm dest: k)
qed

lemma trust_kept_insert:
  assumes "insert_work_item_in_tx now db item = Ok (db', i)" "\<not> is_judgment (nw_status item)"
  shows "trust_kept db db'"
proof -
  obtain r where "db' = db\<lparr>work_items := work_items db @ [new_row now (next_work_item_id db) r item],
      next_work_item_id := next_work_item_id db + 1\<rparr>"
    using assms(1) by (auto simp: insert_work_item_in_tx_def Let_def split: if_splits)
  then show ?thesis
    by (intro trust_kept_append[of _ _ "[new_row now (next_work_item_id db) r item]"])
      (use assms(2) in \<open>auto simp: new_row_def\<close>)
qed

lemma trust_kept_bug_details:
  assumes "upsert_bug_details_in_tx now db i f = Ok db'"
  shows "trust_kept db db'"
  using assms trust_kept_sidecar unfolding upsert_bug_details_in_tx_def Let_def
  by (auto split: if_splits)

lemma trust_tool_create: "trust_kept db (fst (tool_work_item_create proj suffix now db p))"
proof -
  have k: "trust_kept db (fst (create_in_tx now db b item f))" if "\<not> is_judgment (nw_status item)" for item b f
  proof (cases "insert_work_item_in_tx now db item")
    case (Ok x)
    obtain db1 i where x: "x = (db1, i)" by (cases x)
    have t: "trust_kept db db1" using trust_kept_insert Ok x that by blast
    have "trust_kept db db2" if "(if b then upsert_bug_details_in_tx now db1 i f else Ok db1) = Ok db2" for db2
      using that t by (auto split: if_splits intro: trust_kept_trans dest: trust_kept_bug_details)
    then show ?thesis unfolding create_in_tx_def Ok x by (auto split: outcome.splits option.splits)
  qed (simp_all add: create_in_tx_def)
  show ?thesis unfolding tool_work_item_create_def
    by (intro trust_checked trust_if trust_let trust_option k) simp_all
qed

section \<open>Agent runs\<close>

text \<open>
  One call by an agent: any of the tools below with any arguments, and the user tools with a token
  that is not the configured one. \<open>configured\<close> is the user token of the configuration.
\<close>

inductive agent_step :: "string option \<Rightarrow> tracker_db \<Rightarrow> tracker_db \<Rightarrow> bool" for configured :: "string option" where
  Create: "agent_step configured db (fst (tool_work_item_create proj suffix now db p))"
| SetStatus: "agent_step configured db (fst (tool_work_item_set_status now db pid status reason))"
| AddCriterion: "agent_step configured db (fst (tool_work_item_add_criterion now db pid k d u x m g r))"
| RecordEvidence: "agent_step configured db (fst (tool_work_item_record_evidence vj now db cid v ec cc ct sha d))"
| AttemptVerify: "agent_step configured db (fst (tool_work_item_attempt_verify now db pid))"
| AssertFixed: "agent_step configured db (fst (tool_work_item_assert_fixed now db pid vc es ag))"
| Claim: "agent_step configured db (fst (tool_work_item_claim now db ag pid l))"
| ClaimNext: "tool_work_item_claim_next locked now db ag plan l = Some (db', r) \<Longrightarrow> agent_step configured db db'"
| Release: "agent_step configured db (fst (tool_work_item_release now db ag pid))"
| Handoff: "agent_step configured db (fst (tool_work_item_handoff now db ag t pid l))"
| Assign: "agent_step configured db (fst (tool_work_item_assign now db pid a b))"
| Heartbeat: "agent_step configured db (fst (tool_agent_heartbeat now db ag cur l))"
| Link: "agent_step configured db (fst (tool_work_item_link cyc db f ty t c))"
| Unlink: "agent_step configured db (fst (tool_work_item_unlink db f ty t))"
| Reparent: "tool_work_item_reparent now db pid q = Some (db', r) \<Longrightarrow> agent_step configured db db'"
| Defer: "configured \<noteq> Some tok \<Longrightarrow> agent_step configured db (fst (tool_work_item_defer configured now db tok pid rsn g))"
| Reinstate: "configured \<noteq> Some tok \<Longrightarrow>
    agent_step configured db (fst (tool_work_item_reinstate configured now db tok pid rsn g))"
| Triage: "configured \<noteq> Some tok \<Longrightarrow>
    agent_step configured db (fst (tool_work_item_triage configured now db tok pid sev rep rc by'))"
| Resolve: "configured \<noteq> Some tok \<Longrightarrow>
    agent_step configured db (fst (tool_work_item_resolve configured now db tok pid res rsn g dup ver rc))"

lemma check_user_token_wrong: "configured \<noteq> Some tok \<Longrightarrow> \<exists>e. check_user_token configured tok = Err e"
  by (auto simp: check_user_token_def split: option.splits)

lemma check_user_token_Ok_iff: "check_user_token configured tok = Ok () \<longleftrightarrow> configured = Some tok"
  by (auto simp: check_user_token_def split: option.splits)

text \<open>Without the token the user tools do nothing.\<close>

lemma user_tools_refuse:
  assumes "configured \<noteq> Some tok"
  shows "fst (tool_work_item_defer configured now db tok pid rsn g) = db"
    and "fst (tool_work_item_reinstate configured now db tok pid rsn g) = db"
    and "fst (tool_work_item_triage configured now db tok pid sev rep rc by') = db"
    and "fst (tool_work_item_resolve configured now db tok pid res rsn g dup ver rc) = db"
proof -
  obtain e where "check_user_token configured tok = Err e" using check_user_token_wrong[OF assms] by blast
  then show "fst (tool_work_item_defer configured now db tok pid rsn g) = db"
    and "fst (tool_work_item_reinstate configured now db tok pid rsn g) = db"
    and "fst (tool_work_item_triage configured now db tok pid sev rep rc by') = db"
    and "fst (tool_work_item_resolve configured now db tok pid res rsn g dup ver rc) = db"
    by (simp_all add: tool_work_item_defer_def tool_work_item_reinstate_def negotiate_and_move_def
        tool_work_item_triage_def tool_work_item_resolve_def)
qed

lemma agent_step_trust: "agent_step configured db db' \<Longrightarrow> trust_kept db db'"
  by (induction rule: agent_step.induct)
    (simp_all add: trust_tool_create trust_tool_set_status trust_tool_add_criterion trust_tool_record_evidence
      trust_tool_attempt_verify trust_tool_assert_fixed trust_tool_claim trust_tool_claim_next
      trust_tool_release trust_tool_handoff trust_tool_assign trust_tool_heartbeat trust_tool_link
      trust_tool_unlink trust_tool_reparent user_tools_refuse)

interpretation agents: step_contract "agent_step configured" trust_kept
  by unfold_locales (auto intro: trust_kept_trans agent_step_trust)

end
