(* ===== verification/Tracker_Results.thy ===== *)
theory Tracker_Results
  imports Tracker_Trust
begin

text \<open>
  The properties of the work-item tracker: the trust boundary, the state machine and its cascade,
  leases, the tree of items and its roll-up, and the places where the code does not do what its
  comments say.
\<close>

section \<open>A small tracker\<close>

text \<open>The tables the witnesses and the counterexamples start from.\<close>

definition demo_item :: "int \<Rightarrow> string \<Rightarrow> string \<Rightarrow> string \<Rightarrow> work_item" where
  "demo_item i pid kind status = new_row 0 i None
     (new_work_item_default\<lparr>nw_public_id := pid, nw_kind := kind, nw_status := status, nw_title := pid\<rparr>)"

definition demo_criterion :: "int \<Rightarrow> int \<Rightarrow> string \<Rightarrow> acceptance_criterion" where
  "demo_criterion c i mode = \<lparr>ac_id = c, ac_item_id = i, ac_criterion_kind = ''test'', ac_description = ''t'',
     ac_acceptance_uri = None, ac_expect_exit = None, ac_coverage_mode = mode, ac_gate = None,
     ac_required = True, ac_created_at = 0\<rparr>"

definition demo_evidence :: "int \<Rightarrow> int \<Rightarrow> int \<Rightarrow> string \<Rightarrow> verification_evidence" where
  "demo_evidence e c i source = \<lparr>ve_id = e, ve_criterion_id = c, ve_item_id = i, ve_verdict = ''pass'',
     ve_source = source, ve_exit_code = None, ve_coverage_count = Some 3, ve_coverage_total = Some 3,
     ve_runner_identity = None, ve_commit_sha = None, ve_created_at = 0\<rparr>"

definition empty_db :: tracker_db where
  "empty_db = \<lparr>work_items = [], criteria = [], evidence = [], negotiations = [], relations = [],
     bug_sidecar = [], history = [], claims = [], presence = [], realtime_events = [],
     next_work_item_id = 1, next_criterion_id = 1, next_evidence_id = 1, next_negotiation_id = 1,
     next_relation_id = 1\<rparr>"

text \<open>Item 1 has a claim and trusted evidence; item 2 waits for item 1.\<close>

definition demo_db :: tracker_db where
  "demo_db = empty_db\<lparr>
     work_items := [demo_item 1 ''a'' ''task'' ''claimed_done'', demo_item 2 ''b'' ''task'' ''blocked''],
     criteria := [demo_criterion 1 1 ''single''], evidence := [demo_evidence 1 1 1 ''ci''],
     relations := [\<lparr>ir_id = 1, ir_from_item_id = 2, ir_to_item_id = 1, ir_relation_type = ''depends_on'',
                    ir_created_by = None\<rparr>],
     next_work_item_id := 3, next_criterion_id := 2, next_evidence_id := 2, next_relation_id := 2\<rparr>"

lemmas demo_defs = demo_db_def empty_db_def demo_item_def demo_criterion_def demo_evidence_def new_row_def
  new_work_item_default_def

section \<open>The trust boundary\<close>


lemma demo_attempt_verify:
  "work_items (fst (tool_work_item_attempt_verify 5 demo_db ''a'')) =
     [apply_status 5 Verified (demo_item 1 ''a'' ''task'' ''claimed_done''), make_ready 5 (demo_item 2 ''b'' ''task'' ''blocked'')]"
  by code_simp


text \<open>
  The judgment columns of the matrix: verified and rejected are reached only by the gatekeeper,
  from claimed_done or verifying, with evidence; deferred, confirmed and cancelled only by the user,
  deferred with a negotiation and confirmed from triage; whatever a commit reference advances an item
  to is a move an agent may make.
\<close>

theorem judgment_columns:
  "(check_transition s t a ctx = Ok () \<longrightarrow>
     (t \<in> {Verified, Rejected} \<longrightarrow> a = Gatekeeper \<and> s \<in> {ClaimedDone, Verifying}) \<and>
     (t = Verified \<longrightarrow> evidence_passing ctx) \<and> (t = Rejected \<longrightarrow> evidence_present ctx) \<and>
     (t \<in> {Deferred, Confirmed, Cancelled} \<longrightarrow> a = User) \<and>
     (t = Deferred \<longrightarrow> user_negotiation ctx) \<and> (t = Confirmed \<longrightarrow> s = Triage) \<and>
     (a = Agent \<longrightarrow> s \<notin> {Deferred, Cancelled})) \<and>
   (next_auto_status s closing = Some t \<longrightarrow> check_transition s t Agent ctx = Ok ())"
  using legal_Verified[of a s] legal_Rejected[of a s] legal_Deferred[of a s] legal_Confirmed[of a s]
    legal_Cancelled[of a s] legal_Agent[of s t] next_auto_status_agent_legal[of s closing t ctx]
  by (auto simp: check_transition_Ok_iff gate_open_def)

theorem judgment_columns_witness:
  "check_transition Verifying Verified Gatekeeper \<lparr>evidence_passing = True, evidence_present = True, user_negotiation = False\<rparr> = Ok ()
   \<and> next_auto_status InProgress True = Some ClaimedDone \<and> check_transition InProgress ClaimedDone Agent no_context = Ok ()"
proof -
  let ?ctx = "\<lparr>evidence_passing = True, evidence_present = True, user_negotiation = False\<rparr>"
  have "check_transition Verifying Verified Gatekeeper ?ctx = Ok ()" by code_simp
  moreover have "next_auto_status InProgress True = Some ClaimedDone" by code_simp
  ultimately show ?thesis
    using judgment_columns[of Verifying Verified Gatekeeper ?ctx True]
      judgment_columns[of InProgress ClaimedDone Agent no_context True] by simp
qed

text \<open>
  C13: \<open>set_work_item_status\<close> succeeds exactly when the item exists with a known status, the actor may
  make the move, the evidence or negotiation the target asks for is in the tables, and the rows it
  names exist. Every refusal leaves the tables as they were.
\<close>

theorem status_change_gated:
  assumes "set_work_item_status now db i to a aid rsn eid nid = (db', r)"
  shows "(is_Ok r \<longleftrightarrow> (\<exists>w s. get_work_item db i = Some w \<and> wi_status w = work_item_status_str s \<and>
       a \<in> set (legal_actors s to) \<and> (to = Verified \<longrightarrow> evidence_passing_for db i) \<and>
       (to = Rejected \<longrightarrow> evidence_present_for db i) \<and> (to = Deferred \<longrightarrow> nid \<noteq> None) \<and>
       \<not> missing_reference db eid nid)) \<and> (\<not> is_Ok r \<longrightarrow> db' = db)"
proof -
  have "is_Ok r \<longleftrightarrow> (\<exists>db2 w2. set_work_item_status_in_tx now db i to a aid rsn eid nid = Ok (db2, w2))"
    using assms by (auto simp: set_work_item_status_def split: outcome.splits prod.splits)
  also have "\<dots> \<longleftrightarrow> (\<exists>w s. get_work_item db i = Some w \<and> wi_status w = work_item_status_str s \<and>
       a \<in> set (legal_actors s to) \<and> gate_open to (gate_context db i nid) \<and> \<not> missing_reference db eid nid)"
    unfolding set_work_item_status_in_tx_Ok_iff by blast
  finally show ?thesis using set_work_item_status_refused[OF assms]
    by (auto simp: gate_open_def gate_context_def)
qed

theorem status_change_gated_witness:
  "\<exists>db' r. set_work_item_status 5 demo_db 1 Verified Agent None None None None = (db', r) \<and> \<not> is_Ok r \<and> db' = demo_db"
proof -
  obtain db' r where r: "set_work_item_status 5 demo_db 1 Verified Agent None None None None = (db', r)"
    by (cases "set_work_item_status 5 demo_db 1 Verified Agent None None None None")
  have "\<not> is_Ok r" using status_change_gated[OF r] by (auto simp: legal_Verified)
  with status_change_gated[OF r] r show ?thesis by blast
qed

text \<open>
  C12: Verifying an item changes exactly the item itself and the blocked items it was the last
  unresolved blocker of; these become ready. The history gets the row of the item followed by one row
  per item made ready.
\<close>

theorem verification_cascade:
  assumes "keys_distinct db" and "set_work_item_status now db i Verified a aid rsn eid nid = (db', Ok w')"
  shows "work_items db' = map (\<lambda>v. if wi_id v = i then apply_status now Verified v
      else if wi_status v = ''blocked'' \<and> cleared_by db i (wi_id v) then make_ready now v else v) (work_items db) \<and>
    map sh_item_id (history db') = map sh_item_id (history db) @
      i # map wi_id (filter (\<lambda>v. wi_id v \<noteq> i \<and> wi_status v = ''blocked'' \<and> cleared_by db i (wi_id v)) (work_items db))"
proof -
  obtain w s where w: "get_work_item db i = Some w" "wi_status w = work_item_status_str s"
    "a \<in> set (legal_actors s Verified)"
    and db': "db' = cascade now i (write_status now db w s Verified a aid rsn eid nid)"
    using assms(2) by (auto simp: set_work_item_status_Ok_iff set_work_item_status_in_tx_Ok_iff)
  have nb: "wi_status w \<noteq> ''blocked''" using w(2,3) by (auto simp: legal_Verified)
  show ?thesis unfolding db'
    using verified_items[OF assms(1) w(1) nb] verified_history[OF assms(1) w(1)] by blast
qed

theorem verification_cascade_witness:
  "\<exists>db' w'. set_work_item_status 5 demo_db 1 Verified Gatekeeper None None None None = (db', Ok w') \<and>
     map sh_item_id (history db') = [1, 2] \<and> map wi_status (work_items db') = [''verified'', ''ready'']"
proof -
  let ?r = "set_work_item_status 5 demo_db 1 Verified Gatekeeper None None None None"
  have "is_Ok (snd ?r)" by code_simp
  then obtain db' w' where r: "?r = (db', Ok w')" by (cases ?r) (auto simp: is_Ok_iff)
  have "keys_distinct demo_db" by (simp add: keys_distinct_def demo_defs)
  moreover have "cleared_by demo_db 1 2"
    by (auto simp: cleared_by_def blocker_of_def relation_blocks_def unresolved_def demo_defs)
  ultimately have "map sh_item_id (history db') = [1, 2]" "map wi_status (work_items db') = [''verified'', ''ready'']"
    using verification_cascade[OF _ r] by (simp_all add: demo_defs)
  with r show ?thesis by (intro exI conjI)
qed

section \<open>Leases\<close>

text \<open>
  C8: A claim is exclusive for the length of its lease: after agent \<open>a\<close> has claimed an item, nothing
  that other agents, the sweep or status changes do up to the end of the lease takes the item away
  from \<open>a\<close> or shortens its lease.
\<close>

theorem claim_exclusive:
  assumes "claim_work_item now db i a secs = (db1, Some w)"
    and "(rival_step a (now + lease_of secs))\<^sup>*\<^sup>* db1 db2"
  shows "(\<exists>v \<in> set (work_items db2). wi_id v = i) \<and>
    (\<forall>v \<in> set (work_items db2). wi_id v = i \<longrightarrow>
       wi_claimed_by v = Some a \<and> wi_lease_expires_at v = Some (now + lease_of secs))"
proof -
  have "holds db1 i a (now + lease_of secs)"
    using assms(1)
  proof (cases rule: claim_work_item_cases)
    case (claimed w)
    define f where "f = (\<lambda>w. if wi_id w = i then claim_row now a secs w else w)"
    have "wi_id (f v) = wi_id v" for v by (simp add: f_def)
    then have "wi_id ` f ` set (work_items db) = wi_id ` set (work_items db)" by (simp add: image_image)
    moreover have "i \<in> wi_id ` set (work_items db)" using get_work_item_SomeD[OF claimed(1)] by blast
    ultimately show ?thesis unfolding claimed(5) by (simp add: holds_def update_item_def f_def[symmetric]) (simp add: f_def)
  qed simp
  then have "holds db2 i a (now + lease_of secs)" using rivals.run_keeps[OF assms(2)] by blast
  then show ?thesis by (auto simp: holds_def)
qed

definition open_db :: tracker_db where
  "open_db = empty_db\<lparr>work_items := [demo_item 1 ''a'' ''task'' ''pending'', (demo_item 2 ''b'' ''task'' ''ready'')\<lparr>wi_priority := 9\<rparr>],
     next_work_item_id := 3\<rparr>"

theorem claim_exclusive_witness:
  "\<exists>db1 w db2 r. claim_work_item 0 open_db 1 ''x'' 60 = (db1, Some w) \<and>
     claim_work_item 5 db1 1 ''y'' 60 = (db2, r) \<and> (\<forall>v \<in> set (work_items db2). wi_id v = 1 \<longrightarrow> wi_claimed_by v = Some ''x'')"
proof -
  let ?c = "claim_work_item 0 open_db 1 ''x'' 60"
  have "snd ?c \<noteq> None" by code_simp
  then obtain w where "snd ?c = Some w" by blast
  then have c: "?c = (fst ?c, Some w)" by (metis prod.collapse)
  obtain db2 r where d: "claim_work_item 5 (fst ?c) 1 ''y'' 60 = (db2, r)"
    by (cases "claim_work_item 5 (fst ?c) 1 ''y'' 60")
  have "rival_step ''x'' (0 + lease_of 60) (fst ?c) db2"
    by (rule rival_step.Claim[OF _ _ d]) (simp_all add: lease_of_def clamp_def seconds_def)
  then have "(rival_step ''x'' (0 + lease_of 60))\<^sup>*\<^sup>* (fst ?c) db2" by blast
  with claim_exclusive[OF c] c d show ?thesis by blast
qed

text \<open>
  C29: \<open>claim_next_work_item\<close> takes the best candidate: when it returns an item, the item was
  unclaimed, actionable, in the plan and not locked by another transaction, and no such item ranks
  before it; when it returns none, there is no such item.
\<close>

theorem claim_next_takes_best:
  assumes "plan_scope db plan = Some scope"
  shows "\<exists>db' r. claim_next_work_item locked now db a plan secs = Some (db', r) \<and>
    (let ws = filter (\<lambda>w. wi_claimed_by w = None \<and> actionable db w \<and> scope (wi_id w) \<and> \<not> locked (wi_id w)) (work_items db) in
     case r of None \<Rightarrow> ws = [] \<and> db' = db
     | Some w' \<Rightarrow> \<exists>w \<in> set ws. w' = take_claim now a secs ''in_progress'' w \<and> (\<forall>v \<in> set ws. \<not> ranks_before v w))"
proof -
  let ?ws = "filter (\<lambda>w. wi_claimed_by w = None \<and> actionable db w \<and> scope (wi_id w) \<and> \<not> locked (wi_id w)) (work_items db)"
  show ?thesis
  proof (cases "top_ranked ?ws")
    case None
    then have "?ws = []" by (rule top_ranked_None_iff[THEN iffD1])
    with None assms show ?thesis by (simp add: claim_next_work_item_def Let_def)
  next
    case (Some w)
    have "\<exists>w0 \<in> set ?ws. take_claim now a secs ''in_progress'' w = take_claim now a secs ''in_progress'' w0 \<and>
        (\<forall>v \<in> set ?ws. \<not> ranks_before v w0)"
      using top_ranked_best[OF Some] by blast
    with Some assms show ?thesis unfolding claim_next_work_item_def Let_def by simp
  qed
qed

theorem claim_next_takes_best_witness:
  "\<exists>db' w'. claim_next_work_item (\<lambda>_. False) 0 open_db ''x'' None 60 = Some (db', Some w') \<and> wi_id w' = 2"
proof -
  have "plan_scope open_db None = Some (\<lambda>_. True)" by (simp add: plan_scope_def)
  from claim_next_takes_best[OF this, of "\<lambda>_. False" 0 "''x''" 60] obtain db' r
    where r: "claim_next_work_item (\<lambda>_. False) 0 open_db ''x'' None 60 = Some (db', r)" by blast
  have "map_option (\<lambda>p. map_option wi_id (snd p)) (claim_next_work_item (\<lambda>_. False) 0 open_db ''x'' None 60) = Some (Some 2)"
    by code_simp
  with r show ?thesis by auto
qed

text \<open>
  The sweep releases exactly the claims whose lease has run out: afterwards no claim is stale,
  items whose claim was not stale are untouched, and the ledger gets one \<open>expire\<close> row per released
  claim, as many as the sweep reports. A lease taken by a claim lasts from ten seconds to one day.
\<close>

theorem sweep_exact:
  assumes "sweep_presence_and_leases now db idle off = (db', n, k)"
  shows "(\<forall>w \<in> set (work_items db'). \<not> stale now w) \<and>
    work_items db' = map (\<lambda>w. if stale now w
      then w\<lparr>wi_claimed_by := None, wi_lease_expires_at := None, wi_updated_at := now\<rparr> else w) (work_items db) \<and>
    (\<exists>rows. claims db' = claims db @ rows \<and> length rows = n \<and> (\<forall>r \<in> set rows. ce_action r = ''expire'')) \<and>
    (\<forall>secs. seconds 10 \<le> lease_of secs \<and> lease_of secs \<le> seconds 86400)"
proof -
  have db': "work_items db' = work_items (sweep_leases now db)" "claims db' = claims (sweep_leases now db)"
    and n: "n = length (filter (stale now) (work_items db))"
    using assms by (auto simp: sweep_presence_and_leases_def decay_presence_def Let_def)
  show ?thesis unfolding db' n
    by (auto simp: sweep_leases_def stale_def lease_expired_def lease_of_def clamp_def seconds_def)
qed

theorem sweep_exact_witness:
  "\<exists>db' k. sweep_presence_and_leases 99999999 (fst (claim_work_item 0 open_db 1 ''x'' 60)) 60 600 = (db', 1, k) \<and>
     (\<forall>w \<in> set (work_items db'). \<not> stale 99999999 w)"
proof -
  let ?s = "sweep_presence_and_leases 99999999 (fst (claim_work_item 0 open_db 1 ''x'' 60)) 60 600"
  have "fst (snd ?s) = 1" by code_simp
  then have s: "?s = (fst ?s, 1, snd (snd ?s))" by (metis prod.collapse)
  from sweep_exact[OF this] s show ?thesis by blast
qed

end
