(* ===== verification/Tracker_Plans.thy ===== *)
theory Tracker_Plans
  imports Tracker_Results
begin

text \<open>
  The properties of plans: the parent tree is kept by the guarded move and not by the unguarded one,
  and the completion of a subtree is what its leaves say.
\<close>

section \<open>The tree\<close>

lemma reparent_absent:
  assumes "i \<notin> wi_id ` set (work_items db)"
  shows "\<exists>db' r. reparent_work_item now db i p = Some (db', r)"
proof -
  have "get_work_item db i = None" using assms by (simp add: get_work_item_None_iff)
  moreover have "i \<notin> wi_id ` set (work_items (update_item i f db))" if "\<And>w. wi_id (f w) = wi_id w" for f
    using assms that by (auto simp: update_item_def image_iff)
  ultimately show ?thesis by (simp add: reparent_work_item_def Let_def subtree_rows_absent)
qed

text \<open>
  On a well-formed tree the unguarded \<open>reparent_work_item\<close> fails to return exactly when the item
  is moved under one of its own proper descendants; its recursive query then never ends.
\<close>

theorem unguarded_reparent_returns:
  assumes "tree_wf db"
  shows "reparent_work_item now db i p = None \<longleftrightarrow>
    i \<in> wi_id ` set (work_items db) \<and> (\<exists>q. p = Some q \<and> q \<in> wi_id ` set (work_items db) \<and> q \<noteq> i \<and> q \<in> below db i)"
proof (cases "i \<in> wi_id ` set (work_items db)")
  case False
  with reparent_absent[of i db now p] show ?thesis by auto
next
  case i: True
  then have gi: "get_work_item db i \<noteq> None" by (simp add: get_work_item_None_iff)
  have acy: "acyclic_tree db" using assms by (simp add: tree_wf_def)
  consider (self) "p = Some i" | (absent) q where "p = Some q" "q \<noteq> i" "q \<notin> wi_id ` set (work_items db)"
    | (under) q where "p = Some q" "q \<noteq> i" "q \<in> wi_id ` set (work_items db)" "q \<in> below db i" | (valid) "valid_move db i p"
    unfolding valid_move_def using i by auto
  then show ?thesis
  proof cases
    case self
    then show ?thesis using gi by (simp add: reparent_work_item_def)
  next
    case (absent q)
    moreover from this have "get_work_item db q = None" by (simp add: get_work_item_None_iff)
    ultimately show ?thesis using gi by (simp add: reparent_work_item_def)
  next
    case (under q)
    then show ?thesis using reparent_work_item_diverges[of i db q] i by simp
  next
    case valid
    then show ?thesis using reparent_work_item_eq[OF acy valid] by (auto simp: valid_move_def)
  qed
qed

definition tree_db :: tracker_db where
  "tree_db = empty_db\<lparr>work_items := [demo_item 1 ''a'' ''plan'' ''pending'',
     (demo_item 2 ''b'' ''task'' ''pending'')\<lparr>wi_parent_id := Some 1, wi_root_id := Some 1\<rparr>,
     (demo_item 3 ''c'' ''task'' ''verified'')\<lparr>wi_parent_id := Some 2, wi_root_id := Some 1\<rparr>],
     next_work_item_id := 4\<rparr>"

lemma parent_rel_list:
  "parent_rel db = (\<Union>c \<in> set (work_items db). case wi_parent_id c of None \<Rightarrow> {} | Some p \<Rightarrow> {(wi_id c, p)})"
  by (force simp: parent_rel_def split: option.splits)

lemma tree_db_parents: "parent_rel tree_db = {(2, 1), (3, 2)}"
  by (simp add: parent_rel_list tree_db_def demo_defs insert_commute)

lemma tree_db_wf: "tree_wf tree_db"
proof -
  have "acyclic_tree tree_db" unfolding acyclic_tree_def tree_db_parents
    by (rule acyclicI_order[where f = "\<lambda>x. x"]) auto
  then show ?thesis
    by (simp add: tree_wf_def keys_distinct_def roots_ok_def tree_db_def demo_defs coalesced_root_def)
qed

theorem unguarded_reparent_returns_witness: "tree_wf tree_db \<and> reparent_work_item 0 tree_db 1 (Some 3) = None"
proof -
  have "(3, 1) \<in> (parent_rel tree_db)\<^sup>*" unfolding tree_db_parents
    by (rule converse_rtrancl_into_rtrancl[of 3 2]) auto
  then show ?thesis
    using unguarded_reparent_returns[OF tree_db_wf, of 0 1 "Some 3"] tree_db_wf
    by (simp add: below_def tree_db_def demo_defs)
qed

lemma find_in_set: "find P xs = Some x \<Longrightarrow> x \<in> set xs"
  by (auto simp: find_Some_iff)

lemma id_of_public_present: "id_of_public db p = Ok i \<Longrightarrow> i \<in> wi_id ` set (work_items db)"
  using find_in_set by (fastforce simp: id_of_public_def get_work_item_by_public_id_def split: option.split_asm)

lemma reparent_tool_move:
  assumes "tree_wf db" "valid_move db i p"
  shows "\<exists>db' row. reparent_work_item now db i p = Some (db', Ok ()) \<and> tree_wf db' \<and> get_work_item db' i = Some row"
proof -
  obtain db' where db': "reparent_work_item now db i p = Some (db', Ok ())" "tree_wf db'"
    using reparent_tree_wf[OF assms] by blast
  moreover have "acyclic_tree db" using assms(1) by (simp add: tree_wf_def)
  ultimately have "map wi_id (work_items db') = map wi_id (work_items db)"
    using reparent_work_item_eq[OF _ assms(2), of now] by (auto simp: rerooted_keys moved_keys)
  from arg_cong[OF this, of set] have "i \<in> wi_id ` set (work_items db')"
    using assms(2) by (simp add: valid_move_def)
  then have "get_work_item db' i \<noteq> None" by (simp add: get_work_item_None_iff)
  with db' show ?thesis by auto
qed

text \<open>
  C15: The guarded tool always returns on a well-formed tree of at most 100000 items (the cap of its
  descendant query), and what it leaves is a well-formed tree: no cycle, and every item's root the
  root of its parent.
\<close>

theorem reparent_tool_keeps_tree:
  assumes "tree_wf db" and "length (work_items db) \<le> 100000"
  shows "\<exists>db' r. tool_work_item_reparent now db pid npid = Some (db', r) \<and> tree_wf db' \<and> (is_Ok r \<or> db' = db)"
proof (cases "id_of_public db pid")
  case i: (Ok i)
  let ?np = "case npid of None \<Rightarrow> Ok None | Some p \<Rightarrow> and_then (id_of_public db p) (\<lambda>q. Ok (Some q))"
  show ?thesis
  proof (cases ?np)
    case p: (Ok p)
    have ids: "i \<in> wi_id ` set (work_items db)" "\<And>q. p = Some q \<Longrightarrow> q \<in> wi_id ` set (work_items db)"
      using i p id_of_public_present by (auto split: option.splits)
    let ?guard = "\<lambda>q. list_ex (\<lambda>r. wi_id r = q) (get_work_item_subtree db i 100000)"
    have g: "?guard q \<longleftrightarrow> q \<in> below db i" for q
      unfolding list_ex_iff get_work_item_subtree_ids[OF assms(1) ids(1) assms(2), symmetric] by auto
    show ?thesis
    proof (cases "p = Some i \<or> (\<exists>q. p = Some q \<and> ?guard q)")
      case True
      with i p assms(1) show ?thesis by (auto simp: tool_work_item_reparent_def invalid_def)
    next
      case False
      then have "valid_move db i p" using ids g by (auto simp: valid_move_def)
      from reparent_tool_move[OF assms(1) this] obtain db' row where
        "reparent_work_item now db i p = Some (db', Ok ())" "tree_wf db'" "get_work_item db' i = Some row" by blast
      with False i p show ?thesis by (auto simp: tool_work_item_reparent_def split: option.splits)
    qed
  qed (use i assms(1) in \<open>simp_all add: tool_work_item_reparent_def\<close>)
qed (use assms(1) in \<open>simp_all add: tool_work_item_reparent_def\<close>)

theorem reparent_tool_keeps_tree_witness:
  "\<exists>db' r. tool_work_item_reparent 7 tree_db ''c'' (Some ''a'') = Some (db', r) \<and> tree_wf db'"
proof -
  have "length (work_items tree_db) \<le> 100000" by (simp add: tree_db_def)
  from reparent_tool_keeps_tree[OF tree_db_wf this] show ?thesis by blast
qed

section \<open>Completion\<close>

text \<open>
  C28: On an acyclic tree the roll-up of a subtree returns, both fractions lie between zero and one,
  the verified fraction is at most the claimed one, and the counts are ordered the same way.
\<close>

theorem completion_bounds:
  assumes "acyclic_tree db"
  shows "\<exists>r. compute_rollup db i = Some r \<and>
    0 \<le> verified_fraction r \<and> verified_fraction r \<le> claimed_fraction r \<and> claimed_fraction r \<le> 1 \<and>
    0 \<le> verified_leaves r \<and> verified_leaves r \<le> claimed_leaves r \<and> claimed_leaves r \<le> leaf_count r"
proof -
  obtain rows where rows: "subtree_rows db i = Some rows" using subtree_rows_returns[OF assms] by blast
  let ?ls = "map leaf_of_row (rollup_rows db rows)"
  have "share_of is_verified_done ?ls \<le> share_of is_claimed_done ?ls"
    by (rule share_of_mono) (simp add: is_claimed_done_def)
  moreover have "length (filter is_verified_done xs) \<le> length (filter is_claimed_done xs)" for xs
    by (induction xs) (auto simp: is_claimed_done_def)
  ultimately show ?thesis using rows share_of_bounds
    by (auto simp: compute_rollup_def fetch_rollup_leaves_def aggregate_closed_form)
qed

theorem completion_bounds_witness:
  "\<exists>r. compute_rollup tree_db 1 = Some r \<and> verified_fraction r \<le> claimed_fraction r \<and> claimed_fraction r \<le> 1"
proof -
  have "acyclic_tree tree_db" using tree_db_wf by (simp add: tree_wf_def)
  from completion_bounds[OF this] show ?thesis by blast
qed

definition open_leaf :: "tracker_db \<Rightarrow> int \<Rightarrow> work_item \<Rightarrow> bool" where
  "open_leaf db i w \<longleftrightarrow> w \<in> set (work_items db) \<and> wi_id w \<in> below db i \<and>
     (\<forall>c \<in> set (work_items db). wi_parent_id c \<noteq> Some (wi_id w)) \<and> wi_status w \<notin> {''deferred'', ''cancelled''}"

lemma subtree_rows_subset:
  assumes "subtree_rows db i = Some rows"
  shows "set rows \<subseteq> set (work_items db)"
proof -
  have "set work \<subseteq> set (work_items db) \<longrightarrow> set rows \<subseteq> set (work_items db)"
    if "cte_rows (work_items db) work = Some rows" for work
    using that by (induction rule: cte_rows_induct) (auto simp: set_children_of)
  with assms show ?thesis by (fastforce simp: subtree_rows_def)
qed

lemma subtree_rows_set:
  assumes "tree_wf db" "i \<in> wi_id ` set (work_items db)" "subtree_rows db i = Some rows"
  shows "set rows = {w \<in> set (work_items db). wi_id w \<in> below db i}"
proof -
  have sub: "set rows \<subseteq> set (work_items db)" using assms(3) by (rule subtree_rows_subset)
  have "inj_on wi_id (set (work_items db))" using assms(1) by (simp add: tree_wf_def keys_distinct_def distinct_map)
  with sub subtree_rows_ids[OF assms(3,2)] show ?thesis by (auto dest: inj_onD)
qed

lemma status_str_out: "work_item_status_str s \<notin> {''deferred'', ''cancelled''} \<longleftrightarrow> \<not> is_excluded_from_rollup s"
  by (cases s) simp_all



end
