(* ===== verification/Tracker_Slug.thy ===== *)
theory Tracker_Slug
  imports Tracker_Tools
begin

text \<open>
  Public identifiers (\<open>slugify\<close> in \<open>src/mcp/tools/work_items/mod.rs\<close>): the shape of a slug, and that
  slugs are fixed points.
\<close>

section \<open>Slugs\<close>

text \<open>Lower-case letters, digits and dashes, no two dashes in a row.\<close>

definition slug_char :: "char \<Rightarrow> bool" where
  "slug_char c \<longleftrightarrow> is_alnum c \<and> lower_char c = c"

definition slug_text :: "string \<Rightarrow> bool" where
  "slug_text s \<longleftrightarrow> (\<forall>c \<in> set s. slug_char c \<or> c = CHR ''-'') \<and>
     successively (\<lambda>c d. c \<noteq> CHR ''-'' \<or> d \<noteq> CHR ''-'') s"

lemma not_alnum_dash [simp]: "\<not> is_alnum CHR ''-''" by code_simp

lemma slug_char_not_dash: "slug_char c \<Longrightarrow> c \<noteq> CHR ''-''" by (auto simp: slug_char_def)

lemma slug_char_lower: "is_alnum c \<Longrightarrow> slug_char (lower_char c)"
proof -
  assume a: "is_alnum c"
  define n where "n = (of_char c :: nat)"
  have c: "c = char_of n" by (simp add: n_def)
  show ?thesis
  proof (cases "65 \<le> n \<and> n \<le> 90")
    case True
    then show ?thesis by (simp add: slug_char_def is_alnum_def lower_char_def n_def[symmetric] Let_def)
  next
    case False
    with a show ?thesis by (auto simp: slug_char_def is_alnum_def lower_char_def n_def[symmetric] Let_def)
  qed
qed

lemma slug_text_rev: "slug_text (rev s) \<longleftrightarrow> slug_text s"
proof -
  have "(\<lambda>c d. d \<noteq> CHR ''-'' \<or> c \<noteq> CHR ''-'') = (\<lambda>c d. c \<noteq> CHR ''-'' \<or> d \<noteq> CHR ''-'')" by auto
  then show ?thesis unfolding slug_text_def set_rev successively_rev by (rule arg_cong)
qed

lemma slug_text_Cons: "slug_text (c # s) \<longleftrightarrow>
  (slug_char c \<or> c = CHR ''-'') \<and> slug_text s \<and> (s \<noteq> [] \<longrightarrow> c \<noteq> CHR ''-'' \<or> hd s \<noteq> CHR ''-'')"
  by (auto simp: slug_text_def successively_Cons)

lemma slug_loop_text:
  assumes "slug_text acc" "acc \<noteq> [] \<Longrightarrow> last acc \<noteq> CHR ''-''" "pd \<longleftrightarrow> acc \<noteq> [] \<and> hd acc = CHR ''-''"
  shows "slug_text (slug_loop acc pd s) \<and> (slug_loop acc pd s \<noteq> [] \<longrightarrow> hd (slug_loop acc pd s) \<noteq> CHR ''-'')"
  using assms
proof (induction s arbitrary: acc pd)
  case Nil
  then show ?case by (simp add: slug_text_rev hd_rev)
next
  case (Cons c s)
  consider "is_alnum c" | "\<not> is_alnum c" "\<not> pd" "acc \<noteq> []" | "\<not> is_alnum c" "pd \<or> acc = []" by blast
  then show ?case
  proof cases
    case 1
    then have l: "slug_char (lower_char c)" by (rule slug_char_lower)
    have "slug_text (slug_loop (lower_char c # acc) False s) \<and>
        (slug_loop (lower_char c # acc) False s \<noteq> [] \<longrightarrow> hd (slug_loop (lower_char c # acc) False s) \<noteq> CHR ''-'')"
      by (rule Cons.IH) (use l Cons.prems slug_char_not_dash[OF l] in \<open>auto simp: slug_text_Cons\<close>)
    with 1 show ?thesis by simp
  next
    case 2
    have "slug_text (slug_loop (CHR ''-'' # acc) True s) \<and>
        (slug_loop (CHR ''-'' # acc) True s \<noteq> [] \<longrightarrow> hd (slug_loop (CHR ''-'' # acc) True s) \<noteq> CHR ''-'')"
      by (rule Cons.IH) (use 2 Cons.prems in \<open>auto simp: slug_text_Cons\<close>)
    with 2 show ?thesis by simp
  next
    case 3
    with Cons show ?thesis by auto
  qed
qed

lemma slug_loop_id:
  "slug_text s \<Longrightarrow> (s \<noteq> [] \<Longrightarrow> pd \<or> acc = [] \<Longrightarrow> hd s \<noteq> CHR ''-'') \<Longrightarrow> slug_loop acc pd s = rev acc @ s"
proof (induction s arbitrary: acc pd)
  case (Cons c s)
  show ?case
  proof (cases "c = CHR ''-''")
    case True
    with Cons show ?thesis by (auto simp: slug_text_Cons)
  next
    case False
    with Cons.prems have "is_alnum c" "lower_char c = c" by (auto simp: slug_text_Cons slug_char_def)
    moreover have "slug_loop (c # acc) False s = rev (c # acc) @ s"
      by (rule Cons.IH) (use Cons.prems in \<open>auto simp: slug_text_Cons\<close>)
    ultimately show ?thesis by simp
  qed
qed simp

lemma trim_dashes_text:
  assumes "slug_text s" "s \<noteq> [] \<longrightarrow> hd s \<noteq> CHR ''-''"
  shows "slug_text (trim_dashes s) \<and> (trim_dashes s \<noteq> [] \<longrightarrow> hd (trim_dashes s) \<noteq> CHR ''-'' \<and> last (trim_dashes s) \<noteq> CHR ''-'')"
proof -
  have drop: "dropWhile (\<lambda>c. c = CHR ''-'') t = t" if "t \<noteq> [] \<longrightarrow> hd t \<noteq> CHR ''-''" for t
    using that by (cases t) auto
  define t where "t = dropWhile (\<lambda>c. c = CHR ''-'') (rev s)"
  have "\<exists>u. rev s = u @ t" unfolding t_def by (metis takeWhile_dropWhile_id)
  then obtain u where u: "s = rev t @ rev u" by (metis rev_append rev_rev_ident)
  have "slug_text (rev t)" using assms(1) unfolding u by (auto simp: slug_text_def successively_append_iff)
  moreover have "rev t \<noteq> [] \<longrightarrow> hd (rev t) \<noteq> CHR ''-''" using assms(2) unfolding u by auto
  moreover have "rev t \<noteq> [] \<longrightarrow> last (rev t) \<noteq> CHR ''-''" using hd_dropWhile[of "\<lambda>c. c = CHR ''-''" "rev s"] unfolding t_def last_rev rev_is_Nil_conv by blast
  moreover have "trim_dashes s = rev t" by (simp add: trim_dashes_def drop[OF assms(2)] t_def)
  ultimately show ?thesis by metis
qed

lemma trim_dashes_id: "s \<noteq> [] \<longrightarrow> hd s \<noteq> CHR ''-'' \<and> last s \<noteq> CHR ''-'' \<Longrightarrow> trim_dashes s = s"
proof -
  assume a: "s \<noteq> [] \<longrightarrow> hd s \<noteq> CHR ''-'' \<and> last s \<noteq> CHR ''-''"
  have drop: "dropWhile (\<lambda>c. c = CHR ''-'') t = t" if "t \<noteq> [] \<longrightarrow> hd t \<noteq> CHR ''-''" for t
    using that by (cases t) auto
  show ?thesis using a by (simp add: trim_dashes_def drop hd_rev)
qed

lemma slug_text_work_item: "slug_text ''work-item''" by code_simp

text \<open>
  A slug is never empty, consists of lower-case letters, digits and dashes, has no two dashes in a
  row and none at either end, and is its own slug.
\<close>

theorem slugify_normal_form:
  "slugify t \<noteq> [] \<and> slug_text (slugify t) \<and> hd (slugify t) \<noteq> CHR ''-'' \<and> last (slugify t) \<noteq> CHR ''-'' \<and>
   slugify (slugify t) = slugify t"
proof -
  let ?s = "trim_dashes (slug_loop [] False t)"
  have "slug_text (slug_loop [] False t) \<and> (slug_loop [] False t \<noteq> [] \<longrightarrow> hd (slug_loop [] False t) \<noteq> CHR ''-'')"
    by (rule slug_loop_text) (simp_all add: slug_text_def)
  then have s: "slug_text ?s \<and> (?s \<noteq> [] \<longrightarrow> hd ?s \<noteq> CHR ''-'' \<and> last ?s \<noteq> CHR ''-'')" by (intro trim_dashes_text) auto
  then have n: "slugify t \<noteq> [] \<and> slug_text (slugify t) \<and> hd (slugify t) \<noteq> CHR ''-'' \<and> last (slugify t) \<noteq> CHR ''-''"
    using slug_text_work_item by (auto simp: slugify_def Let_def)
  then have "slug_loop [] False (slugify t) = slugify t" using slug_loop_id[of "slugify t" False "[]"] by simp
  moreover have "trim_dashes (slugify t) = slugify t" using n by (simp add: trim_dashes_id)
  ultimately have "slugify (slugify t) = slugify t" unfolding slugify_def[of "slugify t"] using n by simp
  with n show ?thesis by blast
qed

end
