(* ===== verification/Tracker_Authority.thy ===== *)
theory Tracker_Authority
  imports Tracker_Plans Tracker_Slug
begin

text \<open>
  Who may do what beyond the matrix: deferrals and their negotiation rows, the relation graph,
  re-ingestion, and the operations whose effect is not what their comments say.
\<close>

lemma pair_OkE:
  assumes "is_Ok (snd p)"
  obtains a x where "p = (a, Ok x)"
  using assms by (cases p) (auto simp: is_Ok_iff)

section \<open>User decisions\<close>

lemma negotiate_and_move_refused:
  assumes "negotiate_and_move configured now db action target tok pid reason granted_by = (db', r)" "\<not> is_Ok r"
  shows "db' = db"
proof (cases "check_user_token configured tok")
  case tok: (Ok u)
  show ?thesis
  proof (cases "id_of_public db pid")
    case i: (Ok i)
    from tok i assms show ?thesis
      by (auto simp: negotiate_and_move_def invalid_def Let_def split: if_split_asm outcome.split_asm prod.split_asm)
  qed (use tok assms in \<open>auto simp: negotiate_and_move_def invalid_def Let_def split: if_split_asm\<close>)
qed (use assms in \<open>simp_all add: negotiate_and_move_def\<close>)

lemma negotiate_and_move_Ok:
  assumes "negotiate_and_move configured now db action target tok pid reason granted_by = (db', Ok w)"
  obtains i who db1 n where "configured = Some tok" "id_of_public db pid = Ok i"
    "record_scope_negotiation_in_tx now db i action who (trim reason) = Ok (db1, n)"
    "set_work_item_status_in_tx now db1 i target User (Some who) (Some (trim reason)) None (Some n) = Ok (db', w)"
proof -
  obtain u where u: "check_user_token configured tok = Ok u"
    using assms by (cases "check_user_token configured tok") (auto simp: negotiate_and_move_def)
  with assms obtain i where i: "id_of_public db pid = Ok i"
    by (cases "id_of_public db pid") (auto simp: negotiate_and_move_def invalid_def Let_def split: if_split_asm)
  from u have "configured = Some tok" using check_user_token_Ok_iff by (cases u) simp
  then show ?thesis using that assms u i
    by (auto simp: negotiate_and_move_def invalid_def Let_def split: if_split_asm outcome.split_asm prod.split_asm)
qed

text \<open>
  A deferral is all or nothing: the tool succeeds only with the configured token, and then the
  item is deferred, exactly one negotiation row was added, and the new history row cites it; on any
  other outcome the tables are as before.
\<close>

theorem deferral_atomic:
  assumes "tool_work_item_defer configured now db tok pid reason granted_by = (db', r)"
  shows "(is_Ok r \<longrightarrow> configured = Some tok \<and> (\<exists>i n h. id_of_public db pid = Ok i \<and>
       negotiations db' = negotiations db @ [n] \<and> sn_item_id n = i \<and> sn_action n = ''defer'' \<and>
       history db' = history db @ [h] \<and> sh_item_id h = i \<and> sh_to_status h = ''deferred'' \<and>
       sh_actor_kind h = ''user'' \<and> sh_negotiation_id h = Some (sn_id n) \<and>
       (\<forall>w \<in> set (work_items db'). wi_id w = i \<longrightarrow> wi_status w = ''deferred''))) \<and>
    (\<not> is_Ok r \<longrightarrow> db' = db)"
proof (cases "is_Ok r")
  case False
  then show ?thesis using negotiate_and_move_refused assms by (auto simp: tool_work_item_defer_def)
next
  case True
  then obtain w where r: "r = Ok w" by (auto simp: is_Ok_iff)
  from assms obtain i who db1 n where d: "configured = Some tok" "id_of_public db pid = Ok i"
    "record_scope_negotiation_in_tx now db i ''defer'' who (trim reason) = Ok (db1, n)"
    "set_work_item_status_in_tx now db1 i Deferred User (Some who) (Some (trim reason)) None (Some n) = Ok (db', w)"
    unfolding r tool_work_item_defer_def by (rule negotiate_and_move_Ok)
  from d(4) obtain v s where v: "get_work_item db1 i = Some v"
    "db' = write_status now db1 v s Deferred User (Some who) (Some (trim reason)) None (Some n)"
    by (auto simp: set_work_item_status_in_tx_Ok_iff)
  then have vi: "wi_id v = i" using get_work_item_SomeD by blast
  have "negotiations db1 = negotiations db @ [\<lparr>sn_id = n, sn_item_id = i, sn_action = ''defer'', sn_granted_by = who,
      sn_actor_kind = ''user'', sn_reason = trim reason, sn_created_at = now\<rparr>]" "history db1 = history db"
    using d(3) by (auto simp: record_scope_negotiation_in_tx_def Let_def split: if_split_asm)
  then show ?thesis using d(1,2) vi True unfolding v(2)
    by (auto simp: write_status_def apply_status_def update_item_def)
qed

definition deferral :: "work_item tool_result" where
  "deferral = tool_work_item_defer (Some ''t'') 3 open_db ''t'' ''a'' ''later'' None"

theorem deferral_atomic_witness:
  "\<exists>db' w n. deferral = (db', Ok w) \<and> negotiations db' = [n] \<and> sn_action n = ''defer''"
proof -
  have "is_Ok (snd deferral)" by code_simp
  then obtain db' w where d: "deferral = (db', Ok w)" by (rule pair_OkE)
  from deferral_atomic[OF this[unfolded deferral_def]]
  have "\<exists>n. negotiations db' = negotiations open_db @ [n] \<and> sn_action n = ''defer''" by auto
  with d show ?thesis by (auto simp: open_db_def empty_db_def)
qed

definition closed_bug_db :: tracker_db where
  "closed_bug_db = empty_db\<lparr>work_items := [demo_item 1 ''a'' ''bug'' ''cancelled''], next_work_item_id := 2\<rparr>"

text \<open>
  \<open>work_item_resolve\<close> commits its rows one after the other: resolving a bug that is already
  cancelled is refused, yet the refused call leaves its resolution and its negotiation row behind.
\<close>

theorem resolve_not_atomic:
  "\<exists>db' e. tool_work_item_resolve (Some ''t'') 3 closed_bug_db ''t'' ''a'' ''wont_fix'' ''no'' None None None None = (db', Err e) \<and>
     map bd_resolution (bug_sidecar db') = [Some ''wont_fix''] \<and> length (negotiations db') = 1 \<and>
     history db' = [] \<and> work_items db' = work_items closed_bug_db"
proof -
  let ?r = "tool_work_item_resolve (Some ''t'') 3 closed_bug_db ''t'' ''a'' ''wont_fix'' ''no'' None None None None"
  have "(case ?r of (db', Err e) \<Rightarrow> map bd_resolution (bug_sidecar db') = [Some ''wont_fix''] \<and>
     length (negotiations db') = 1 \<and> history db' = [] \<and> work_items db' = work_items closed_bug_db | _ \<Rightarrow> False)"
    by code_simp
  then show ?thesis by (auto split: prod.splits outcome.splits)
qed

section \<open>Evidence and triage\<close>

lemma record_evidence_tool_Ok:
  assumes "tool_work_item_record_evidence vj now db c v ec cc ct sha detail = (db', Ok e)"
  obtains sha' where "record_verification_evidence now db c (trim v) ''manual'' ec cc ct None sha' = (db', Ok e)"
proof -
  have *: "(\<exists>sha'. record_verification_evidence now db c (trim v) ''manual'' ec cc ct None sha' = (db', Ok e))"
    if "committed h (record_verification_evidence now db c (trim v) ''manual'' ec cc ct None sha') (\<lambda>db' eid. (db', Ok eid)) =
        (db', Ok e)" for h :: "db_error \<Rightarrow> mcp_error" and sha'
    using that by (auto simp: committed_def split: prod.split_asm outcome.split_asm)
  have "\<exists>sha' h. committed (h :: db_error \<Rightarrow> mcp_error)
      (record_verification_evidence now db c (trim v) ''manual'' ec cc ct None sha') (\<lambda>db' eid. (db', Ok eid)) = (db', Ok e)"
    using assms unfolding tool_work_item_record_evidence_def Let_def invalid_def
    by (simp only: split: if_split_asm) blast+
  with * that show ?thesis by blast
qed

text \<open>
  The roll-up does not ask where coverage evidence comes from: a pass that an agent records through
  \<open>work_item_record_evidence\<close>, whose source is always \<open>manual\<close>, satisfies a universal criterion of a
  parametric item as soon as the count it states reaches the expected one, whatever the item's status.
\<close>

theorem manual_evidence_counts:
  assumes "tool_work_item_record_evidence valid_json now db c ''pass'' ec (Some k) ct sha detail = (db', Ok e)"
    and "cr \<in> set (criteria db)" "ac_id cr = c" "ac_item_id cr = wi_id w" "ac_coverage_mode cr = ''universal''"
    and "wi_parametric_expected w = Some n" "n \<le> k"
  shows "universal_covered db' w \<and> (\<exists>ev \<in> set (evidence db'). ve_source ev = ''manual'' \<and> \<not> trusted_pass ev)"
proof -
  have p: "trim ''pass'' = ''pass''" by code_simp
  obtain sha' where "record_verification_evidence now db c ''pass'' ''manual'' ec (Some k) ct None sha' = (db', Ok e)"
    using record_evidence_tool_Ok[OF assms(1)] unfolding p by blast
  then obtain ev where "evidence db' = evidence db @ [ev]" "criteria db' = criteria db"
    "ve_criterion_id ev = c" "ve_verdict ev = ''pass''" "ve_source ev = ''manual''" "ve_coverage_count ev = Some k"
    by (auto simp: record_verification_evidence_def Let_def split: option.split_asm)
  then show ?thesis using assms(2-) by (auto simp: universal_covered_def list_ex_iff trusted_pass_def trusted_sources_def)
qed

definition universal_db :: tracker_db where
  "universal_db = empty_db\<lparr>work_items := [(demo_item 1 ''a'' ''task'' ''pending'')\<lparr>wi_parametric := True, wi_parametric_expected := Some 3\<rparr>],
     criteria := [demo_criterion 1 1 ''universal''], next_work_item_id := 2, next_criterion_id := 2\<rparr>"

theorem manual_evidence_counts_witness:
  "\<exists>db' e r. tool_work_item_record_evidence (\<lambda>_. True) 2 universal_db 1 ''pass'' None (Some 3) None None None = (db', Ok e) \<and>
     universal_covered db' (work_items universal_db ! 0) \<and> compute_rollup db' 1 = Some r \<and> verified_fraction r = 1 \<and>
     map wi_status (work_items db') = [''pending'']"
proof -
  let ?t = "tool_work_item_record_evidence (\<lambda>_. True) 2 universal_db 1 ''pass'' None (Some 3) None None None"
  have ok: "is_Ok (snd ?t) \<and> map_option verified_fraction (compute_rollup (fst ?t) 1) = Some 1 \<and>
      map wi_status (work_items (fst ?t)) = [''pending'']" by code_simp
  then obtain db' e where t: "?t = (db', Ok e)" using pair_OkE[of ?t] by blast
  from manual_evidence_counts[OF this, of "demo_criterion 1 1 ''universal''" "work_items universal_db ! 0" 3]
  have "universal_covered db' (work_items universal_db ! 0)" by (simp add: universal_db_def demo_defs)
  with ok t show ?thesis by (auto simp: t)
qed

text \<open>
  The frozen criterion of a bug can be replaced: freezing again on a bug whose criterion is locked
  overwrites its command and keeps the time of the first lock.
\<close>

theorem frozen_criterion_overwritten:
  assumes "freeze_bug_criterion now db i cmd sig = (db', Ok ())" and "fetch_bug_details db i = Some d"
    and "bd_criterion_locked_at d = Some t"
  shows "\<exists>d'. fetch_bug_details db' i = Some d' \<and> bd_verification_command d' = Some cmd \<and>
    bd_criterion_locked_at d' = Some t"
proof -
  define f :: "bug_details \<Rightarrow> bug_details" where "f = (\<lambda>d. d\<lparr>bd_verification_command := Some cmd, bd_expected_signal := coalesce sig (bd_expected_signal d),
     bd_criterion_locked_at := coalesce (bd_criterion_locked_at d) (Some now), bd_updated_at := now\<rparr>)"
  have "bd_item_id (f d) = bd_item_id d" for d by (simp add: f_def)
  then have find: "find (\<lambda>d. bd_item_id d = i) (map (\<lambda>d. if bd_item_id d = i then f d else d) ds) =
      map_option f (find (\<lambda>d. bd_item_id d = i) ds)" for ds
    by (induction ds) auto
  have "db' = db\<lparr>bug_sidecar := map (\<lambda>d. if bd_item_id d = i then f d else d) (bug_sidecar db)\<rparr>"
    using assms(1,2) by (auto simp: freeze_bug_criterion_def upsert_sidecar_def f_def split: if_split_asm)
  then have "fetch_bug_details db' i = Some (f d)" using assms(2) find by (simp add: fetch_bug_details_def)
  with assms(3) show ?thesis by (simp add: f_def coalesce_def)
qed

theorem frozen_criterion_overwritten_witness:
  "\<exists>db1 db2 d. freeze_bug_criterion 1 closed_bug_db 1 ''a'' None = (db1, Ok ()) \<and>
     freeze_bug_criterion 2 db1 1 ''b'' None = (db2, Ok ()) \<and> fetch_bug_details db2 1 = Some d \<and>
     bd_verification_command d = Some ''b'' \<and> bd_criterion_locked_at d = Some 1"
proof -
  let ?a = "freeze_bug_criterion 1 closed_bug_db 1 ''a'' None"
  let ?b = "freeze_bug_criterion 2 (fst ?a) 1 ''b'' None"
  have "snd ?a = Ok ()" "snd ?b = Ok ()" by code_simp+
  then obtain db1 db2 where a: "?a = (db1, Ok ())" and b: "freeze_bug_criterion 2 db1 1 ''b'' None = (db2, Ok ())"
    by (metis prod.collapse fst_conv)
  have "map_option bd_criterion_locked_at (fetch_bug_details (fst ?a) 1) = Some (Some 1)" by code_simp
  then obtain d where "fetch_bug_details db1 1 = Some d" "bd_criterion_locked_at d = Some 1" by (auto simp: a)
  from frozen_criterion_overwritten[OF b this] a b show ?thesis by blast
qed

definition triage_db :: tracker_db where
  "triage_db = empty_db\<lparr>work_items := [demo_item 1 ''a'' ''bug'' ''triage''], next_work_item_id := 2\<rparr>"

text \<open>
  A bug in triage does not wait for the user: an agent may move it to blocked, from there to
  in_progress and on to claimed_done, so that no confirmation is ever recorded.
\<close>

theorem triage_bypassed:
  "\<exists>db'. (agent_step None)\<^sup>*\<^sup>* triage_db db' \<and> map wi_status (work_items db') = [''claimed_done''] \<and>
     map sh_actor_kind (history db') = [''agent'', ''agent'', ''agent'']"
proof -
  let ?go = "\<lambda>db s. fst (tool_work_item_set_status 1 db ''a'' s None)"
  let ?db = "?go (?go (?go triage_db ''blocked'') ''in_progress'') ''claimed_done''"
  have "(agent_step None)\<^sup>*\<^sup>* triage_db ?db"
    by (rule rtranclp.rtrancl_into_rtrancl[OF rtranclp.rtrancl_into_rtrancl[OF r_into_rtranclp]])
      (rule agent_step.SetStatus)+
  moreover have "map wi_status (work_items ?db) = [''claimed_done''] \<and>
     map sh_actor_kind (history ?db) = [''agent'', ''agent'', ''agent'']" by code_simp
  ultimately show ?thesis by (rule exI[of _ ?db, OF conjI])
qed

text \<open>
  Claiming starts an item outside the status chokepoint: a claim of a pending, confirmed, ready or
  blocked item puts it in_progress, but writes no history row and publishes no event; its only trace
  is one row of the claim ledger.
\<close>

theorem claim_leaves_no_history:
  assumes "claim_work_item now db i a secs = (db', Some w')"
  shows "\<exists>w. get_work_item db i = Some w \<and> wi_status w' =
      (if wi_status w \<in> {''pending'', ''confirmed'', ''ready'', ''blocked''} then ''in_progress'' else wi_status w) \<and>
    history db' = history db \<and> realtime_events db' = realtime_events db \<and>
    (\<exists>c. claims db' = claims db @ [c] \<and> ce_work_item_id c = i \<and> ce_agent_id c = a \<and> ce_action c = ''claim'')"
  using assms
proof (cases rule: claim_work_item_cases)
  case (claimed w)
  then have "wi_status w' = (if wi_status w \<in> {''pending'', ''confirmed'', ''ready'', ''blocked''} then ''in_progress'' else wi_status w)"
    by (simp add: claim_row_def)
  moreover have "history db' = history db \<and> realtime_events db' = realtime_events db \<and>
    (\<exists>c. claims db' = claims db @ [c] \<and> ce_work_item_id c = i \<and> ce_agent_id c = a \<and> ce_action c = ''claim'')"
    unfolding claimed(5) by (simp add: log_claim_def update_item_def)
  ultimately show ?thesis using claimed(1) by blast
qed simp

theorem claim_leaves_no_history_witness:
  "\<exists>db' w'. claim_work_item 0 open_db 1 ''x'' 60 = (db', Some w') \<and> wi_status w' = ''in_progress'' \<and> history db' = []"
proof -
  have "map_option wi_status (snd (claim_work_item 0 open_db 1 ''x'' 60)) = Some ''in_progress''" by code_simp
  then obtain db' w' where c: "claim_work_item 0 open_db 1 ''x'' 60 = (db', Some w')" "wi_status w' = ''in_progress''"
    by (cases "claim_work_item 0 open_db 1 ''x'' 60") auto
  from claim_leaves_no_history[OF c(1)] c show ?thesis by (auto simp: open_db_def empty_db_def)
qed

section \<open>Relations\<close>

lemma link_changed:
  assumes "tool_work_item_link cyc db f ty t by' = (db', r)" "db' \<noteq> db"
  shows "\<exists>i j c. i \<noteq> j \<and> (\<forall>e. ordering_edge (trim ty) i j = Some e \<longrightarrow> \<not> cyc (fetch_constraint_edges db @ [e])) \<and>
    db' = fst (insert_relation db i j (trim ty) c)"
proof -
  define c where "c = (case by' of None \<Rightarrow> None | Some c \<Rightarrow> if c = [] then None else Some c)"
  obtain i j where ij: "id_of_public db f = Ok i" "id_of_public db t = Ok j"
    using assms by (cases "id_of_public db f"; cases "id_of_public db t")
      (auto simp: tool_work_item_link_def invalid_def Let_def split: if_split_asm)
  have "i \<noteq> j \<and> (\<forall>e. ordering_edge (trim ty) i j = Some e \<longrightarrow> \<not> cyc (fetch_constraint_edges db @ [e])) \<and>
      committed map_db_err (insert_relation db i j (trim ty) c) (\<lambda>db' r. (db', Ok r)) = (db', r)"
    using assms ij unfolding tool_work_item_link_def invalid_def Let_def c_def[symmetric]
    by (auto split: if_split_asm option.split_asm)
  moreover from this have "db' = fst (insert_relation db i j (trim ty) c)"
    by (auto simp: committed_def split: prod.split_asm outcome.split_asm)
  ultimately show ?thesis by blast
qed

lemma insert_relation_edges:
  assumes "db' = fst (insert_relation db i j ty c)"
  shows "set (fetch_constraint_edges db') \<subseteq> set (fetch_constraint_edges db) \<union> set_option (ordering_edge ty i j)"
proof -
  have edges: "set (fetch_constraint_edges db) = (\<Union>r \<in> set (relations db).
      set_option (ordering_edge (ir_relation_type r) (ir_from_item_id r) (ir_to_item_id r)))" for db
    by (auto simp: fetch_constraint_edges_def ordering_edge_def split: if_split_asm)
  show ?thesis unfolding edges assms
    by (auto simp: insert_relation_def Let_def split: option.splits if_split_asm)
qed

text \<open>
  \<open>work_item_link\<close> keeps the ordering constraints schedulable: given that the cycle test of the
  graph library answers whether its edges have a directed cycle, a link made on tables whose
  \<open>depends_on\<close> and \<open>blocks\<close> rows form no cycle leaves them without one.
\<close>

theorem link_keeps_schedulable:
  assumes "\<And>es. is_cyclic_directed es \<longleftrightarrow> \<not> acyclic (set es)"
    and "acyclic (set (fetch_constraint_edges db))"
    and "tool_work_item_link is_cyclic_directed db f ty t by' = (db', r)"
  shows "acyclic (set (fetch_constraint_edges db'))"
proof (cases "db' = db")
  case False
  with assms(3) obtain i j c where "i \<noteq> j"
    and guard: "\<And>e. ordering_edge (trim ty) i j = Some e \<Longrightarrow> acyclic (insert e (set (fetch_constraint_edges db)))"
    and ins: "db' = fst (insert_relation db i j (trim ty) c)"
    using link_changed[of is_cyclic_directed db f ty t by' db' r] assms(1) by force
  from insert_relation_edges[OF ins] have
    "set (fetch_constraint_edges db') \<subseteq> set (fetch_constraint_edges db) \<union> set_option (ordering_edge (trim ty) i j)" .
  moreover have "acyclic (set (fetch_constraint_edges db) \<union> set_option (ordering_edge (trim ty) i j))"
    using guard assms(2) by (cases "ordering_edge (trim ty) i j") auto
  ultimately show ?thesis by (rule acyclic_subset[rotated])
qed (use assms(2) in simp)

theorem link_keeps_schedulable_witness:
  "\<exists>db' r. tool_work_item_link (\<lambda>es. \<not> acyclic (set es)) demo_db ''b'' ''relates_to'' ''a'' None = (db', r) \<and>
     acyclic (set (fetch_constraint_edges db'))"
proof -
  obtain db' r where l: "tool_work_item_link (\<lambda>es. \<not> acyclic (set es)) demo_db ''b'' ''relates_to'' ''a'' None = (db', r)"
    by (cases "tool_work_item_link (\<lambda>es. \<not> acyclic (set es)) demo_db ''b'' ''relates_to'' ''a'' None")
  have "acyclic {(1::int, 2::int)}" by (rule acyclicI_order[where f = "\<lambda>x. - x"]) auto
  then have "acyclic (set (fetch_constraint_edges demo_db))" by (simp add: fetch_constraint_edges_def demo_defs)
  from link_keeps_schedulable[OF _ this l] l show ?thesis by blast
qed

section \<open>Re-ingestion\<close>

definition progress :: "work_item \<Rightarrow> int \<times> string \<times> string \<times> string option \<times> time option \<times> int \<times> time option" where
  "progress w = (wi_id w, wi_public_id w, wi_status w, wi_claimed_by w, wi_lease_expires_at w, wi_priority w, wi_verified_at w)"

text \<open>
  Re-ingesting a plan keeps the work done on it: an item that exists already keeps its identity,
  status, claim, lease, priority and time of verification, and so does every other item; an item that
  does not exist is appended under a new id.
\<close>

theorem reingest_keeps_progress:
  assumes "upsert_ingested_item_in_tx now db item = Ok (db', i, created)"
  shows "(created \<longrightarrow> (\<exists>w. work_items db' = work_items db @ [w] \<and> wi_id w = i \<and> i = next_work_item_id db)) \<and>
    (\<not> created \<longrightarrow> map progress (work_items db') = map progress (work_items db)) \<and>
    created = (get_work_item_by_public_id db (nw_public_id item) = None)"
proof (cases "get_work_item_by_public_id db (nw_public_id item)")
  case None
  with assms show ?thesis
    by (auto simp: upsert_ingested_item_in_tx_def Let_def new_row_def split: if_split_asm)
next
  case (Some old)
  define f where "f root = (\<lambda>r :: work_item. r\<lparr>wi_title := nw_title item, wi_body := nw_body item, wi_parametric := nw_parametric item,
     wi_parametric_corpus := nw_parametric_corpus item, wi_parent_id := nw_parent_id item, wi_root_id := root,
     wi_definition_id := nw_definition_id item, wi_updated_at := now\<rparr>)" for root
  have "progress (f root w) = progress w" for root w by (simp add: f_def progress_def)
  moreover obtain root where "db' = update_item (wi_id old) (f root) (db\<lparr>next_work_item_id := next_work_item_id db + 1\<rparr>)" "\<not> created"
    using assms Some by (auto simp: upsert_ingested_item_in_tx_def Let_def f_def split: if_split_asm)
  ultimately show ?thesis using Some by (simp add: update_item_def)
qed

definition reingested :: "(db_error, tracker_db \<times> int \<times> bool) outcome" where
  "reingested = upsert_ingested_item_in_tx 9 tree_db
     (new_work_item_default\<lparr>nw_public_id := ''b'', nw_kind := ''task'', nw_status := ''pending'', nw_title := ''b''\<rparr>)"

lemma reingested_Ok: "\<exists>db'. reingested = Ok (db', 2, False)"
proof -
  have "(case reingested of Ok (_, i, c) \<Rightarrow> i = 2 \<and> \<not> c | _ \<Rightarrow> False)" by code_simp
  then show ?thesis by (auto split: outcome.splits prod.splits)
qed

theorem reingest_keeps_progress_witness:
  "\<exists>db'. reingested = Ok (db', 2, False) \<and> map progress (work_items db') = map progress (work_items tree_db)"
proof -
  obtain db' where r: "reingested = Ok (db', 2, False)" using reingested_Ok by blast
  from reingest_keeps_progress[OF this[unfolded reingested_def]] r show ?thesis by auto
qed

text \<open>
  Re-ingestion moves an item without its subtree: after an item of a well-formed tree has been
  re-ingested without its parent, the items below it still name the root of the old parent.
\<close>

theorem reingest_leaves_stale_roots:
  "tree_wf tree_db \<and> (\<exists>db'. reingested = Ok (db', 2, False) \<and> \<not> roots_ok db')"
proof -
  obtain db' where r: "reingested = Ok (db', 2, False)" using reingested_Ok by blast
  have "(case reingested of Ok (db, _) \<Rightarrow> map (\<lambda>w. (wi_id w, wi_parent_id w, wi_root_id w)) (work_items db) =
      [(1, None, None), (2, None, None), (3, Some 2, Some 1)] | _ \<Rightarrow> False)" by code_simp
  then have m: "map (\<lambda>w. (wi_id w, wi_parent_id w, wi_root_id w)) (work_items db') =
      [(1, None, None), (2, None, None), (3, Some 2, Some 1)]" by (simp add: r)
  obtain u v w where "work_items db' = [u, v, w]" "wi_id u = 1" "wi_id v = 2" "wi_id w = 3" "wi_root_id v = None"
    "wi_parent_id w = Some 2" "wi_root_id w = Some 1"
    using m by (auto simp: map_eq_Cons_conv)
  then have "\<not> roots_ok db'" by (auto simp: roots_ok_def coalesced_root_def)
  with r tree_db_wf show ?thesis by blast
qed

end
