(* ===== verification/Tape_Vocab.thy ===== *)
theory Tape_Vocab
  imports Prelude
begin

text \<open>
  The closed vocabularies of the paging control plane (\<open>src/tape/vocab.rs\<close>): page states, eviction
  policies, eviction reasons and page kinds. \<open>TtlPolicy\<close> is \<open>EvictionPolicy::Ttl\<close>, \<open>TtlReason\<close> is
  \<open>EvictReason::Ttl\<close>.
\<close>

datatype page_state = Resident | Pinned | Dirty | Evicted

definition page_state_all :: "page_state list" where
  "page_state_all = [Resident, Pinned, Dirty, Evicted]"

fun page_state_str :: "page_state \<Rightarrow> string" where
  "page_state_str Resident = ''resident''"
| "page_state_str Pinned = ''pinned''"
| "page_state_str Dirty = ''dirty''"
| "page_state_str Evicted = ''evicted''"

definition page_state_parse :: "string \<Rightarrow> page_state option" where
  "page_state_parse = parse_in page_state_all page_state_str"

definition page_state_sql_in_list :: string where
  "page_state_sql_in_list = join_quoted (map page_state_str page_state_all)"

interpretation page_state_vocab: closed_vocabulary page_state_all page_state_str
proof
  show "set page_state_all = UNIV" unfolding page_state_all_def using page_state.exhaust by auto
  show "distinct page_state_all" by (simp add: page_state_all_def)
  show "inj page_state_str" by (rule injI, case_tac x; case_tac y; simp)
qed

datatype eviction_policy = Lru | Lfu | TtlPolicy | Fifo | CostAware | ImportanceWeighted

definition eviction_policy_all :: "eviction_policy list" where
  "eviction_policy_all = [Lru, Lfu, TtlPolicy, Fifo, CostAware, ImportanceWeighted]"

fun eviction_policy_str :: "eviction_policy \<Rightarrow> string" where
  "eviction_policy_str Lru = ''lru''"
| "eviction_policy_str Lfu = ''lfu''"
| "eviction_policy_str TtlPolicy = ''ttl''"
| "eviction_policy_str Fifo = ''fifo''"
| "eviction_policy_str CostAware = ''cost_aware''"
| "eviction_policy_str ImportanceWeighted = ''importance_weighted''"

definition eviction_policy_parse :: "string \<Rightarrow> eviction_policy option" where
  "eviction_policy_parse = parse_in eviction_policy_all eviction_policy_str"

definition eviction_policy_sql_in_list :: string where
  "eviction_policy_sql_in_list = join_quoted (map eviction_policy_str eviction_policy_all)"

interpretation eviction_policy_vocab: closed_vocabulary eviction_policy_all eviction_policy_str
proof
  show "set eviction_policy_all = UNIV" unfolding eviction_policy_all_def using eviction_policy.exhaust by auto
  show "distinct eviction_policy_all" by (simp add: eviction_policy_all_def)
  show "inj eviction_policy_str" by (rule injI, case_tac x; case_tac y; simp)
qed

datatype evict_reason = BudgetPressure | TtlReason | Explicit | Superseded

definition evict_reason_all :: "evict_reason list" where
  "evict_reason_all = [BudgetPressure, TtlReason, Explicit, Superseded]"

fun evict_reason_str :: "evict_reason \<Rightarrow> string" where
  "evict_reason_str BudgetPressure = ''budget_pressure''"
| "evict_reason_str TtlReason = ''ttl''"
| "evict_reason_str Explicit = ''explicit''"
| "evict_reason_str Superseded = ''superseded''"

definition evict_reason_parse :: "string \<Rightarrow> evict_reason option" where
  "evict_reason_parse = parse_in evict_reason_all evict_reason_str"

definition evict_reason_sql_in_list :: string where
  "evict_reason_sql_in_list = join_quoted (map evict_reason_str evict_reason_all)"

interpretation evict_reason_vocab: closed_vocabulary evict_reason_all evict_reason_str
proof
  show "set evict_reason_all = UNIV" unfolding evict_reason_all_def using evict_reason.exhaust by auto
  show "distinct evict_reason_all" by (simp add: evict_reason_all_def)
  show "inj evict_reason_str" by (rule injI, case_tac x; case_tac y; simp)
qed

datatype page_kind = FileChunk | MemoryObservation | SummaryNode

definition page_kind_all :: "page_kind list" where
  "page_kind_all = [FileChunk, MemoryObservation, SummaryNode]"

fun page_kind_str :: "page_kind \<Rightarrow> string" where
  "page_kind_str FileChunk = ''file_chunk''"
| "page_kind_str MemoryObservation = ''memory_observation''"
| "page_kind_str SummaryNode = ''summary_node''"

definition page_kind_parse :: "string \<Rightarrow> page_kind option" where
  "page_kind_parse = parse_in page_kind_all page_kind_str"

definition page_kind_sql_in_list :: string where
  "page_kind_sql_in_list = join_quoted (map page_kind_str page_kind_all)"

interpretation page_kind_vocab: closed_vocabulary page_kind_all page_kind_str
proof
  show "set page_kind_all = UNIV" unfolding page_kind_all_def using page_kind.exhaust by auto
  show "distinct page_kind_all" by (simp add: page_kind_all_def)
  show "inj page_kind_str" by (rule injI, case_tac x; case_tac y; simp)
qed

end
