(* ===== verification/Tape_Pages.thy ===== *)
theory Tape_Pages
  imports Complex_Main Tape_Vocab "HOL-Library.AList" "HOL-Library.List_Lexorder" "HOL-Library.Char_ord"
begin

text \<open>
  The working set (\<open>src/tape/working_set.rs\<close>): resident pages, the insertion-ordered page map with
  its lazily compacted order index, and the set with its budget, policy and logical clock.

  \<^item> \<open>HashMap\<close> is an association list with distinct keys; only \<open>values()\<close> reads its order, and only to sum.
  \<^item> \<open>i32\<close> token counts are integers with Rust's saturating operations; \<open>u32\<close>, \<open>u64\<close> and \<open>usize\<close> are
    naturals; \<open>f32\<close> and \<open>f64\<close> are exact rationals.
\<close>

section \<open>Casts\<close>

text \<open>\<open>as i32\<close> and \<open>as i64\<close> of an unsigned number wrap around.\<close>

definition as_i32 :: "nat \<Rightarrow> int" where
  "as_i32 n = (let m = int n mod 4294967296 in if m < 2147483648 then m else m - 4294967296)"

definition as_i64 :: "nat \<Rightarrow> int" where
  "as_i64 n = (let m = int n mod 18446744073709551616 in
     if m < 9223372036854775808 then m else m - 18446744073709551616)"

section \<open>Pages\<close>

record resident_page =
  rp_addr :: string
  rp_kind :: page_kind
  rp_importance :: rat
  rp_est_tokens :: int
  rp_use_count :: nat
  rp_last_access_ord :: nat
  rp_dirty :: bool
  rp_pinned :: bool
  rp_bytes :: "string option"

definition logical_age :: "resident_page \<Rightarrow> nat \<Rightarrow> nat" where
  "logical_age p clock = clock - rp_last_access_ord p"

definition importance_weighted_score :: "resident_page \<Rightarrow> nat \<Rightarrow> rat" where
  "importance_weighted_score p clock =
     of_nat (logical_age p clock) / (max (rp_importance p) (1 / 1000) * (of_nat (rp_use_count p) + 1))"

definition cost_aware_score :: "resident_page \<Rightarrow> nat \<Rightarrow> rat" where
  "cost_aware_score p clock =
     of_nat (logical_age p clock) * (of_int (max (rp_est_tokens p) 0) + 1) / (of_nat (rp_use_count p) + 1)"

section \<open>The insertion-ordered map\<close>

record ordered_pages =
  op_map :: "(string \<times> resident_page) list"
  op_order :: "string list"
  op_tombstones :: nat

definition op_new :: ordered_pages where
  "op_new = \<lparr>op_map = [], op_order = [], op_tombstones = 0\<rparr>"

definition op_len :: "ordered_pages \<Rightarrow> nat" where
  "op_len op = length (op_map op)"

definition op_contains :: "ordered_pages \<Rightarrow> string \<Rightarrow> bool" where
  "op_contains op a \<longleftrightarrow> map_of (op_map op) a \<noteq> None"

definition op_get :: "ordered_pages \<Rightarrow> string \<Rightarrow> resident_page option" where
  "op_get op a = map_of (op_map op) a"

text \<open>\<open>get_mut\<close> with the change its caller makes.\<close>

definition op_modify :: "string \<Rightarrow> (resident_page \<Rightarrow> resident_page) \<Rightarrow> ordered_pages \<Rightarrow> ordered_pages" where
  "op_modify a f op = op\<lparr>op_map := AList.map_entry a f (op_map op)\<rparr>"

definition op_insert :: "resident_page \<Rightarrow> ordered_pages \<Rightarrow> ordered_pages" where
  "op_insert page op =
     (let is_new = \<not> op_contains op (rp_addr page);
          op1 = op\<lparr>op_map := AList.update (rp_addr page) page (op_map op)\<rparr> in
      if is_new then op1\<lparr>op_order := op_order op1 @ [rp_addr page]\<rparr> else op1)"

definition op_compact :: "ordered_pages \<Rightarrow> ordered_pages" where
  "op_compact op = op\<lparr>op_order := filter (op_contains op) (op_order op), op_tombstones := 0\<rparr>"

definition maybe_compact :: "ordered_pages \<Rightarrow> ordered_pages" where
  "maybe_compact op = (if op_tombstones op > op_len op + 8 then op_compact op else op)"

definition op_remove :: "string \<Rightarrow> ordered_pages \<Rightarrow> ordered_pages \<times> resident_page option" where
  "op_remove a op =
     (let removed = op_get op a; op1 = op\<lparr>op_map := AList.delete a (op_map op)\<rparr> in
      if removed \<noteq> None then (maybe_compact (op1\<lparr>op_tombstones := op_tombstones op1 + 1\<rparr>), removed)
      else (op1, removed))"

definition iter_in_order :: "ordered_pages \<Rightarrow> resident_page list" where
  "iter_in_order op = List.map_filter (op_get op) (op_order op)"

definition op_values :: "ordered_pages \<Rightarrow> resident_page list" where
  "op_values op = map snd (op_map op)"

definition oldest_in_order :: "ordered_pages \<Rightarrow> resident_page option" where
  "oldest_in_order op = (case iter_in_order op of [] \<Rightarrow> None | p # _ \<Rightarrow> Some p)"

section \<open>The working set\<close>

record working_set =
  session_key :: string
  state_cursor :: int
  budget_tokens :: int
  resident_tokens :: int
  policy :: eviction_policy
  clock :: nat
  ttl :: "nat option"
  pages :: ordered_pages

definition ws_new :: "string \<Rightarrow> int \<Rightarrow> int \<Rightarrow> eviction_policy \<Rightarrow> working_set" where
  "ws_new key cursor budget pol = \<lparr>session_key = key, state_cursor = cursor, budget_tokens = budget,
     resident_tokens = 0, policy = pol, clock = 0, ttl = None, pages = op_new\<rparr>"

text \<open>The fields of \<open>TapeConfig\<close> are arguments.\<close>

definition from_config_defaults :: "string \<Rightarrow> int \<Rightarrow> int \<Rightarrow> string \<Rightarrow> int \<Rightarrow> working_set" where
  "from_config_defaults key cursor cfg_budget cfg_policy cfg_ttl_secs =
     (ws_new key cursor cfg_budget
        (case eviction_policy_parse cfg_policy of None \<Rightarrow> ImportanceWeighted | Some p \<Rightarrow> p))
     \<lparr>ttl := (if cfg_ttl_secs > 0 then Some (nat cfg_ttl_secs) else None)\<rparr>"

definition headroom :: "working_set \<Rightarrow> int" where
  "headroom ws = budget_tokens ws - resident_tokens ws"

definition fits :: "working_set \<Rightarrow> int \<Rightarrow> bool" where
  "fits ws extra \<longleftrightarrow> sat_add (resident_tokens ws) extra \<le> budget_tokens ws"

definition recompute_resident_tokens :: "working_set \<Rightarrow> int" where
  "recompute_resident_tokens ws = sum_list (map rp_est_tokens (op_values (pages ws)))"

end
