(* ===== verification/Tape_Store.thy ===== *)
theory Tape_Store
  imports Tape_Pages "HOL-Library.Product_Lexorder"
begin

text \<open>
  Persistence of the working set (\<open>src/tape/store.rs\<close>, tables of \<open>v51_working_set.rs\<close> and \<open>v53\<close>): a
  table is the list of its rows; \<open>ON CONFLICT ... DO UPDATE\<close> replaces the row with the same key.
  Wall-clock columns (\<open>valid_from\<close>, \<open>created_at\<close>, \<open>updated_at\<close>) are left out, and \<open>ORDER BY\<close> on text
  compares bytes.
\<close>

record page_row =
  pr_session_key :: string
  pr_state_cursor :: int
  pr_page_kind :: string
  pr_page_addr :: string
  pr_tree_path :: string
  pr_state :: string
  pr_importance :: rat
  pr_est_tokens :: int
  pr_use_count :: int
  pr_last_access_ord :: int
  pr_dirty :: bool
  pr_content :: "string option"
  pr_evict_reason :: "string option"

record config_row =
  cr_session_key :: string
  cr_model_window_tokens :: int
  cr_budget_tokens :: int
  cr_policy :: string
  cr_ttl_secs :: "int option"
  cr_logical_clock :: int

record tape_db =
  working_set_pages :: "page_row list"
  working_set_config :: "config_row list"

datatype store_error = BigintOutOfRange

section \<open>Pages\<close>

definition page_key :: "string \<Rightarrow> int \<Rightarrow> string \<Rightarrow> page_row \<Rightarrow> bool" where
  "page_key key cursor addr r \<longleftrightarrow>
     pr_session_key r = key \<and> pr_state_cursor r = cursor \<and> pr_page_addr r = addr"

definition row_of_page :: "string \<Rightarrow> int \<Rightarrow> string \<Rightarrow> resident_page \<Rightarrow> page_row" where
  "row_of_page key cursor tree page =
     \<lparr>pr_session_key = key, pr_state_cursor = cursor, pr_page_kind = page_kind_str (rp_kind page),
      pr_page_addr = rp_addr page, pr_tree_path = tree,
      pr_state = page_state_str (if rp_pinned page then Pinned else if rp_dirty page then Dirty else Resident),
      pr_importance = rp_importance page, pr_est_tokens = rp_est_tokens page,
      pr_use_count = as_i32 (rp_use_count page), pr_last_access_ord = as_i64 (rp_last_access_ord page),
      pr_dirty = rp_dirty page, pr_content = rp_bytes page, pr_evict_reason = None\<rparr>"

definition save_resident_page_on :: "string \<Rightarrow> int \<Rightarrow> string \<Rightarrow> resident_page \<Rightarrow> tape_db \<Rightarrow> tape_db" where
  "save_resident_page_on key cursor tree page db =
     (let row = row_of_page key cursor tree page; rows = working_set_pages db; hit = page_key key cursor (rp_addr page) in
      db\<lparr>working_set_pages := (if list_ex hit rows then map (\<lambda>r. if hit r then row else r) rows else rows @ [row])\<rparr>)"

definition mark_dirty :: "string \<Rightarrow> int \<Rightarrow> string \<Rightarrow> tape_db \<Rightarrow> tape_db" where
  "mark_dirty key cursor addr db = db\<lparr>working_set_pages := map (\<lambda>r. if page_key key cursor addr r
     then r\<lparr>pr_dirty := True, pr_state := ''dirty''\<rparr> else r) (working_set_pages db)\<rparr>"

definition evict_page :: "string \<Rightarrow> int \<Rightarrow> string \<Rightarrow> evict_reason \<Rightarrow> tape_db \<Rightarrow> tape_db" where
  "evict_page key cursor addr reason db = db\<lparr>working_set_pages := map (\<lambda>r. if page_key key cursor addr r
     then r\<lparr>pr_state := ''evicted'', pr_dirty := False, pr_evict_reason := Some (evict_reason_str reason)\<rparr>
     else r) (working_set_pages db)\<rparr>"

definition list_dirty :: "string \<Rightarrow> int \<Rightarrow> tape_db \<Rightarrow> string list" where
  "list_dirty key cursor db = map pr_page_addr (sort_key (\<lambda>r. (pr_last_access_ord r, pr_page_addr r))
     (filter (\<lambda>r. pr_session_key r = key \<and> pr_state_cursor r = cursor \<and> pr_dirty r) (working_set_pages db)))"

section \<open>Clock and configuration\<close>

definition config_of :: "tape_db \<Rightarrow> string \<Rightarrow> config_row option" where
  "config_of db key = find (\<lambda>c. cr_session_key c = key) (working_set_config db)"

definition upsert_config :: "string \<Rightarrow> config_row \<Rightarrow> (config_row \<Rightarrow> config_row) \<Rightarrow> tape_db \<Rightarrow> tape_db" where
  "upsert_config key row f db = db\<lparr>working_set_config :=
     (if config_of db key = None then working_set_config db @ [row]
      else map (\<lambda>c. if cr_session_key c = key then f c else c) (working_set_config db))\<rparr>"

definition bump_clock :: "string \<Rightarrow> int \<Rightarrow> tape_db \<Rightarrow> (store_error, tape_db \<times> int) outcome" where
  "bump_clock key delta db =
     (let n = (case config_of db key of None \<Rightarrow> delta | Some c \<Rightarrow> cr_logical_clock c + delta) in
      if n > 9223372036854775807 \<or> n < - 9223372036854775808 then Err BigintOutOfRange
      else Ok (upsert_config key
        \<lparr>cr_session_key = key, cr_model_window_tokens = 0, cr_budget_tokens = 0,
         cr_policy = ''importance_weighted'', cr_ttl_secs = None, cr_logical_clock = n\<rparr>
        (\<lambda>c. c\<lparr>cr_logical_clock := n\<rparr>) db, n))"

definition save_config_on :: "working_set \<Rightarrow> int \<Rightarrow> int option \<Rightarrow> tape_db \<Rightarrow> tape_db" where
  "save_config_on ws model_window_tokens ttl_secs db = upsert_config (session_key ws)
     \<lparr>cr_session_key = session_key ws, cr_model_window_tokens = model_window_tokens,
      cr_budget_tokens = budget_tokens ws, cr_policy = eviction_policy_str (policy ws),
      cr_ttl_secs = ttl_secs, cr_logical_clock = as_i64 (clock ws)\<rparr>
     (\<lambda>c. c\<lparr>cr_model_window_tokens := model_window_tokens, cr_budget_tokens := budget_tokens ws,
           cr_policy := eviction_policy_str (policy ws), cr_ttl_secs := ttl_secs\<rparr>) db"

section \<open>Whole working sets\<close>

definition save_working_set :: "working_set \<Rightarrow> string \<Rightarrow> int \<Rightarrow> int option \<Rightarrow> tape_db \<Rightarrow> tape_db" where
  "save_working_set ws tree model_window_tokens ttl_secs db =
     fold (save_resident_page_on (session_key ws) (state_cursor ws) tree) (iter_in_order (pages ws))
       (save_config_on ws model_window_tokens ttl_secs db)"

text \<open>\<open>GROUP BY tree_path ORDER BY COUNT(*) DESC, tree_path LIMIT 1\<close>.\<close>

definition tree_path_of :: "string \<Rightarrow> int \<Rightarrow> tape_db \<Rightarrow> string option" where
  "tree_path_of key cursor db =
     (let ts = map pr_tree_path (filter (\<lambda>r. pr_session_key r = key \<and> pr_state_cursor r = cursor) (working_set_pages db)) in
      case sort_key (\<lambda>t. (- int (count_list ts t), t)) (remdups ts) of [] \<Rightarrow> None | t # _ \<Rightarrow> Some t)"

definition page_of_row :: "page_row \<Rightarrow> resident_page" where
  "page_of_row r = \<lparr>rp_addr = pr_page_addr r,
     rp_kind = (case page_kind_parse (pr_page_kind r) of None \<Rightarrow> FileChunk | Some k \<Rightarrow> k),
     rp_importance = pr_importance r, rp_est_tokens = pr_est_tokens r,
     rp_use_count = nat (max (pr_use_count r) 0), rp_last_access_ord = nat (max (pr_last_access_ord r) 0),
     rp_dirty = pr_dirty r, rp_pinned = (pr_state r = page_state_str Pinned), rp_bytes = pr_content r\<rparr>"

definition loaded_rows :: "string \<Rightarrow> int \<Rightarrow> tape_db \<Rightarrow> page_row list" where
  "loaded_rows key cursor db = sort_key (\<lambda>r. (pr_last_access_ord r, pr_page_addr r))
     (filter (\<lambda>r. pr_session_key r = key \<and> pr_state_cursor r = cursor \<and> pr_state r \<noteq> ''evicted'') (working_set_pages db))"

definition load_working_set :: "string \<Rightarrow> int \<Rightarrow> tape_db \<Rightarrow> working_set" where
  "load_working_set key cursor db =
     (let rows = loaded_rows key cursor db;
          ps = fold (\<lambda>r. op_insert (page_of_row r)) rows op_new;
          tokens = foldl (\<lambda>n r. sat_add n (pr_est_tokens r)) 0 rows in
      case config_of db key of
        None \<Rightarrow> (ws_new key cursor 0 ImportanceWeighted)\<lparr>resident_tokens := tokens, pages := ps\<rparr>
      | Some c \<Rightarrow> \<lparr>session_key = key, state_cursor = cursor, budget_tokens = cr_budget_tokens c,
          resident_tokens = tokens,
          policy = (case eviction_policy_parse (cr_policy c) of None \<Rightarrow> ImportanceWeighted | Some p \<Rightarrow> p),
          clock = nat (max (cr_logical_clock c) 0),
          ttl = (case cr_ttl_secs c of None \<Rightarrow> None | Some t \<Rightarrow> if t > 0 then Some (nat t) else None),
          pages = ps\<rparr>)"

definition flush_working_set :: "string \<Rightarrow> int \<Rightarrow> tape_db \<Rightarrow> tape_db \<times> nat" where
  "flush_working_set key cursor db =
     (let ws = load_working_set key cursor db; n = op_len (pages ws) in
      if n = 0 then (db, 0)
      else let tree = (case tree_path_of key cursor db of None \<Rightarrow> [] | Some t \<Rightarrow> t);
               (window, ttl_secs) = (case config_of db key of None \<Rightarrow> (budget_tokens ws, None)
                  | Some c \<Rightarrow> (cr_model_window_tokens c, cr_ttl_secs c)) in
        (save_working_set ws tree window ttl_secs db, n))"

end
