(* ===== verification/Tape_Plane.thy ===== *)
theory Tape_Plane
  imports Tape_Pages "HOL-Library.Product_Lexorder"
begin

text \<open>
  The data-plane seam (\<open>src/tape/data_plane.rs\<close>): the trait \<open>TapeDataPlane\<close> as a record of its five
  operations over a backing store of any type, what the control plane relies on as a locale, and the
  in-memory \<open>MockTapeDataPlane\<close> as an instance. Reading operations leave the store as it is; a
  poisoned mutex does not occur.
\<close>

datatype page_query = Chunk string int int | Semantic string nat | Grep string

record page_ref =
  pf_addr :: string
  pf_kind :: page_kind
  pf_est_tokens :: int
  pf_importance :: rat

record page_content =
  pc_addr :: string
  pc_bytes :: string
  pc_est_tokens :: int

datatype tape_error = PageNotFound string | Backend string

record 'd tape_data_plane =
  dp_get :: "'d \<Rightarrow> string \<Rightarrow> string \<Rightarrow> (tape_error, page_content) outcome"
  dp_get_many :: "'d \<Rightarrow> string \<Rightarrow> string list \<Rightarrow> (tape_error, page_content list) outcome"
  dp_put :: "'d \<Rightarrow> string \<Rightarrow> string \<Rightarrow> string \<Rightarrow> (tape_error, 'd) outcome"
  dp_resolve :: "'d \<Rightarrow> string \<Rightarrow> page_query \<Rightarrow> (tape_error, page_ref list) outcome"
  dp_summary_of :: "'d \<Rightarrow> string \<Rightarrow> string list \<Rightarrow> (tape_error, page_ref option) outcome"

definition for_root_task :: "string \<Rightarrow> string" where
  "for_root_task root_task_id = ''rlm:'' @ root_task_id"

section \<open>The in-memory plane\<close>

record mock_entry =
  me_bytes :: string
  me_est_tokens :: int
  me_importance :: rat
  me_kind :: page_kind

record mock_plane =
  mp_store :: "((string \<times> string) \<times> mock_entry) list"
  mp_summaries :: "((string \<times> string) \<times> string) list"
  mp_put_calls :: "((string \<times> string) \<times> nat) list"
  mp_supersessions :: "(string \<times> string \<times> nat) list"

definition mock_new :: mock_plane where
  "mock_new = \<lparr>mp_store = [], mp_summaries = [], mp_put_calls = [], mp_supersessions = []\<rparr>"

definition insert_page :: "string \<Rightarrow> string \<Rightarrow> string \<Rightarrow> int \<Rightarrow> rat \<Rightarrow> page_kind \<Rightarrow> mock_plane \<Rightarrow> mock_plane" where
  "insert_page tree addr bytes est_tokens importance kind m = m\<lparr>mp_store := AList.update (tree, addr)
     \<lparr>me_bytes = bytes, me_est_tokens = est_tokens, me_importance = importance, me_kind = kind\<rparr> (mp_store m)\<rparr>"

text \<open>The key of a leaf set: its addresses sorted and joined by the unit separator.\<close>

definition summary_key :: "string list \<Rightarrow> string" where
  "summary_key leaf_addrs = join_strings [CHR 0x1F] (sort leaf_addrs)"

definition register_summary :: "string \<Rightarrow> string list \<Rightarrow> string \<Rightarrow> mock_plane \<Rightarrow> mock_plane" where
  "register_summary tree leaf_addrs summary m =
     m\<lparr>mp_summaries := AList.update (tree, summary_key leaf_addrs) summary (mp_summaries m)\<rparr>"

definition put_count :: "mock_plane \<Rightarrow> string \<Rightarrow> string \<Rightarrow> nat" where
  "put_count m tree addr = (case map_of (mp_put_calls m) (tree, addr) of None \<Rightarrow> 0 | Some c \<Rightarrow> c)"

definition version_count :: "mock_plane \<Rightarrow> string \<Rightarrow> nat" where
  "version_count m addr = length (filter (\<lambda>(_, a, _). a = addr) (mp_supersessions m))"

definition content_of :: "string \<Rightarrow> mock_entry \<Rightarrow> page_content" where
  "content_of addr e = \<lparr>pc_addr = addr, pc_bytes = me_bytes e, pc_est_tokens = me_est_tokens e\<rparr>"

definition mock_get :: "mock_plane \<Rightarrow> string \<Rightarrow> string \<Rightarrow> (tape_error, page_content) outcome" where
  "mock_get m tree addr = (case map_of (mp_store m) (tree, addr) of
     Some e \<Rightarrow> Ok (content_of addr e) | None \<Rightarrow> Err (PageNotFound addr))"

primrec mock_get_many :: "mock_plane \<Rightarrow> string \<Rightarrow> string list \<Rightarrow> (tape_error, page_content list) outcome" where
  "mock_get_many m tree [] = Ok []"
| "mock_get_many m tree (a # as) = and_then (mock_get m tree a) (\<lambda>c.
     and_then (mock_get_many m tree as) (\<lambda>cs. Ok (c # cs)))"

definition mock_put :: "mock_plane \<Rightarrow> string \<Rightarrow> string \<Rightarrow> string \<Rightarrow> (tape_error, mock_plane) outcome" where
  "mock_put m tree addr bytes =
     (let version = put_count m tree addr + 1;
          entry = (case map_of (mp_store m) (tree, addr) of Some e \<Rightarrow> e
            | None \<Rightarrow> \<lparr>me_bytes = [], me_est_tokens = as_i32 (length bytes), me_importance = 0, me_kind = FileChunk\<rparr>) in
      Ok (m\<lparr>mp_put_calls := AList.update (tree, addr) version (mp_put_calls m),
           mp_supersessions := mp_supersessions m @ [(tree, addr, version)],
           mp_store := AList.update (tree, addr) (entry\<lparr>me_bytes := bytes\<rparr>) (mp_store m)\<rparr>))"

definition query_matches :: "page_query \<Rightarrow> string \<Rightarrow> bool" where
  "query_matches query addr = (case query of Semantic _ _ \<Rightarrow> True | Grep pattern \<Rightarrow> str_contains addr pattern
     | Chunk path _ _ \<Rightarrow> take (length path) addr = path)"

text \<open>High importance first, then by address.\<close>

definition rank_refs :: "page_ref list \<Rightarrow> page_ref list" where
  "rank_refs refs = sort_key (\<lambda>r. (- pf_importance r, pf_addr r)) refs"

definition mock_resolve :: "mock_plane \<Rightarrow> string \<Rightarrow> page_query \<Rightarrow> (tape_error, page_ref list) outcome" where
  "mock_resolve m tree query =
     (let refs = rank_refs (map (\<lambda>((_, addr), e). \<lparr>pf_addr = addr, pf_kind = me_kind e,
            pf_est_tokens = me_est_tokens e, pf_importance = me_importance e\<rparr>)
          (filter (\<lambda>((t, addr), _). t = tree \<and> query_matches query addr) (mp_store m))) in
      Ok (case query of Semantic _ k \<Rightarrow> take k refs | _ \<Rightarrow> refs))"

definition mock_summary_of :: "mock_plane \<Rightarrow> string \<Rightarrow> string list \<Rightarrow> (tape_error, page_ref option) outcome" where
  "mock_summary_of m tree leaf_addrs =
     (case map_of (mp_summaries m) (tree, summary_key leaf_addrs) of
        None \<Rightarrow> Ok None
      | Some s \<Rightarrow> (case map_of (mp_store m) (tree, s) of
          Some e \<Rightarrow> Ok (Some \<lparr>pf_addr = s, pf_kind = SummaryNode, pf_est_tokens = me_est_tokens e,
                      pf_importance = me_importance e\<rparr>)
        | None \<Rightarrow> Ok None))"

definition mock_data_plane :: "mock_plane tape_data_plane" where
  "mock_data_plane = \<lparr>dp_get = mock_get, dp_get_many = mock_get_many, dp_put = mock_put,
     dp_resolve = mock_resolve, dp_summary_of = mock_summary_of\<rparr>"

section \<open>What the control plane relies on\<close>

text \<open>
  For one tree: write-backs keep the invariant of the store; a summary has a token estimate that is
  not negative and is the one its content comes with, and its address is one of \<open>A\<close>; a query resolves
  to distinct addresses with estimates that are not negative.
\<close>

locale lawful_plane =
  fixes dp :: "'d tape_data_plane" and inv :: "'d \<Rightarrow> bool" and tree :: string and A :: "string set"
  assumes put_keeps: "inv d \<Longrightarrow> int (length b) \<le> i32_max \<Longrightarrow> dp_put dp d tree a b = Ok d' \<Longrightarrow> inv d'"
    and summary_ok: "inv d \<Longrightarrow> dp_summary_of dp d tree as = Ok (Some r) \<Longrightarrow> 0 \<le> pf_est_tokens r \<and> pf_addr r \<in> A"
    and summary_content: "inv d \<Longrightarrow> dp_summary_of dp d tree as = Ok (Some r) \<Longrightarrow>
      dp_get dp d tree (pf_addr r) = Ok c \<Longrightarrow> pc_est_tokens c = pf_est_tokens r"
    and resolve_ok: "inv d \<Longrightarrow> dp_resolve dp d tree q = Ok rs \<Longrightarrow>
      distinct (map pf_addr rs) \<and> (\<forall>r \<in> set rs. 0 \<le> pf_est_tokens r)"

definition mock_ok :: "string \<Rightarrow> string set \<Rightarrow> mock_plane \<Rightarrow> bool" where
  "mock_ok tree A m \<longleftrightarrow> distinct (map fst (mp_store m)) \<and> (\<forall>e \<in> set (mp_store m). 0 \<le> me_est_tokens (snd e)) \<and>
     (\<forall>k s. map_of (mp_summaries m) (tree, k) = Some s \<longrightarrow> s \<in> A)"

lemma as_i32_length: "int n \<le> i32_max \<Longrightarrow> as_i32 n = int n"
  by (simp add: as_i32_def i32_max_def Let_def)

lemma set_update_subset: "set (AList.update k v m) \<subseteq> insert (k, v) (set m)"
  by (induction m) auto

lemma mock_ok_put:
  assumes "mock_ok tree A m" "int (length b) \<le> i32_max" "mock_put m tree a b = Ok m'"
  shows "mock_ok tree A m'"
proof -
  obtain e where st: "mp_store m' = AList.update (tree, a) e (mp_store m)" "mp_summaries m' = mp_summaries m"
    "0 \<le> me_est_tokens e"
    using assms by (auto simp: mock_put_def mock_ok_def Let_def as_i32_length split: option.splits dest: map_of_SomeD)
  with set_update_subset[of "(tree, a)" e "mp_store m"] assms(1) show ?thesis by (auto simp: mock_ok_def AList.distinct_update)
qed

lemma mock_resolve_distinct:
  assumes "distinct (map fst st)"
  shows "distinct (map (\<lambda>((_, addr), _). addr) (filter (\<lambda>((t, addr), _). t = tree \<and> Q addr) st))"
  using assms by (induction st) (force simp: image_iff)+

lemma rank_refs_addrs: "distinct (map pf_addr (rank_refs rs)) = distinct (map pf_addr rs)"
  by (simp add: distinct_map rank_refs_def)

interpretation mock: lawful_plane mock_data_plane "mock_ok tree A" tree A for tree A
proof
  fix d a b d' assume "mock_ok tree A d" "int (length b) \<le> i32_max" "dp_put mock_data_plane d tree a b = Ok d'"
  then show "mock_ok tree A d'" by (auto simp: mock_data_plane_def intro: mock_ok_put)
next
  fix d as r assume "mock_ok tree A d" "dp_summary_of mock_data_plane d tree as = Ok (Some r)"
  then show "0 \<le> pf_est_tokens r \<and> pf_addr r \<in> A"
    by (auto simp: mock_data_plane_def mock_summary_of_def mock_ok_def split: option.splits dest: map_of_SomeD)
next
  fix d as r c assume "dp_summary_of mock_data_plane d tree as = Ok (Some r)" "dp_get mock_data_plane d tree (pf_addr r) = Ok c"
  then show "pc_est_tokens c = pf_est_tokens r"
    by (auto simp: mock_data_plane_def mock_summary_of_def mock_get_def content_of_def split: option.splits)
next
  fix d q rs assume ok: "mock_ok tree A d" and r: "dp_resolve mock_data_plane d tree q = Ok rs"
  define refs where "refs = map (\<lambda>((_, addr), e). \<lparr>pf_addr = addr, pf_kind = me_kind e,
      pf_est_tokens = me_est_tokens e, pf_importance = me_importance e\<rparr>)
    (filter (\<lambda>((t, addr), _). t = tree \<and> query_matches q addr) (mp_store d))"
  have "map pf_addr refs = map (\<lambda>((_, addr), _). addr) (filter (\<lambda>((t, addr), _). t = tree \<and> query_matches q addr) (mp_store d))"
    by (auto simp: refs_def)
  then have dist: "distinct (map pf_addr (rank_refs refs))"
    using mock_resolve_distinct[of "mp_store d" tree "query_matches q"] ok by (simp add: rank_refs_addrs mock_ok_def)
  have nn: "\<forall>r \<in> set (rank_refs refs). 0 \<le> pf_est_tokens r"
    using ok by (auto simp: rank_refs_def refs_def mock_ok_def)
  have "\<exists>k. rs = take k (rank_refs refs)"
    using r by (auto simp: mock_data_plane_def mock_resolve_def refs_def[symmetric] Let_def split: page_query.splits
        intro: exI[of _ "length (rank_refs refs)"])
  with dist nn show "distinct (map pf_addr rs) \<and> (\<forall>r \<in> set rs. 0 \<le> pf_est_tokens r)"
    by (auto simp: take_map[symmetric] dest: in_set_takeD)
qed

end
