(* ===== verification/Tape_Engine.thy ===== *)
theory Tape_Engine
  imports Tape_Store Tape_Plane
begin

text \<open>
  The paging engine (\<open>src/tape/engine.rs\<close>): the eviction policies, eviction with write-back and
  demotion, the logical-TTL sweep, page-in and scratch admission.

  The engine mutates the working set in place, also on the way to an error, so an operation maps the
  state (working set, tables, backing store, outcome so far) to a state and a result. \<open>evict_to_fit\<close>
  loops until enough room is free: it is a partial function whose \<open>None\<close> is "does not return". The
  \<open>liblevenshtein\<close> wrapper \<open>Lfu\<close> and the token estimate of the \<open>context-tape\<close> crate are arguments.
\<close>

section \<open>Policies\<close>

text \<open>\<open>Iterator::min_by\<close> returns the first minimum, \<open>max_by\<close> the last maximum.\<close>

primrec min_by_key :: "('a \<Rightarrow> 'k::linorder) \<Rightarrow> 'a list \<Rightarrow> 'a option" where
  "min_by_key f [] = None"
| "min_by_key f (x # xs) = (case min_by_key f xs of None \<Rightarrow> Some x | Some y \<Rightarrow> if f y < f x then Some y else Some x)"

primrec max_by_key :: "('a \<Rightarrow> 'k::linorder) \<Rightarrow> 'a list \<Rightarrow> 'a option" where
  "max_by_key f [] = None"
| "max_by_key f (x # xs) = (case max_by_key f xs of None \<Rightarrow> Some x | Some y \<Rightarrow> if f x \<le> f y then Some y else Some x)"

text \<open>The accesses the wrapper was primed with, and the terms to choose from, give its choice.\<close>

type_synonym lfu_wrapper = "(string \<times> nat) list \<Rightarrow> string list \<Rightarrow> string option"

definition lru_victim :: "resident_page list \<Rightarrow> string option" where
  "lru_victim candidates = (case min_by_key rp_last_access_ord candidates of None \<Rightarrow> None
     | Some m \<Rightarrow> map_option rp_addr (min_by_key rp_addr
         (filter (\<lambda>p. rp_last_access_ord p = rp_last_access_ord m) candidates)))"

definition lfu_victim :: "lfu_wrapper \<Rightarrow> resident_page list \<Rightarrow> string option" where
  "lfu_victim find_lfu candidates =
     (if candidates = [] then None
      else case find_lfu (map (\<lambda>p. (rp_addr p, max (rp_use_count p) 1)) candidates) (map rp_addr candidates) of
        None \<Rightarrow> None
      | Some min_addr \<Rightarrow> (case find (\<lambda>p. rp_addr p = min_addr) candidates of
          None \<Rightarrow> None
        | Some q \<Rightarrow> map_option rp_addr (min_by_key (\<lambda>p. (rp_last_access_ord p, rp_addr p))
            (filter (\<lambda>p. max (rp_use_count p) 1 = max (rp_use_count q) 1) candidates))))"

definition ttl_victim :: "resident_page list \<Rightarrow> nat \<Rightarrow> string option" where
  "ttl_victim candidates now = (case max_by_key (\<lambda>p. logical_age p now) candidates of None \<Rightarrow> None
     | Some m \<Rightarrow> map_option rp_addr (min_by_key rp_addr
         (filter (\<lambda>p. logical_age p now = logical_age m now) candidates)))"

definition fifo_victim :: "resident_page list \<Rightarrow> string option" where
  "fifo_victim candidates = (case candidates of [] \<Rightarrow> None | p # _ \<Rightarrow> Some (rp_addr p))"

definition cost_aware_victim :: "resident_page list \<Rightarrow> nat \<Rightarrow> string option" where
  "cost_aware_victim candidates now =
     map_option rp_addr (max_by_key (\<lambda>p. (cost_aware_score p now, rp_addr p)) candidates)"

definition importance_weighted_victim :: "resident_page list \<Rightarrow> nat \<Rightarrow> string option" where
  "importance_weighted_victim candidates now =
     map_option rp_addr (max_by_key (\<lambda>p. (importance_weighted_score p now, rp_addr p)) candidates)"

fun select_victim :: "lfu_wrapper \<Rightarrow> eviction_policy \<Rightarrow> resident_page list \<Rightarrow> nat \<Rightarrow> string option" where
  "select_victim find_lfu Lru candidates now = lru_victim candidates"
| "select_victim find_lfu Lfu candidates now = lfu_victim find_lfu candidates"
| "select_victim find_lfu TtlPolicy candidates now = ttl_victim candidates now"
| "select_victim find_lfu Fifo candidates now = fifo_victim candidates"
| "select_victim find_lfu CostAware candidates now = cost_aware_victim candidates now"
| "select_victim find_lfu ImportanceWeighted candidates now = importance_weighted_victim candidates now"

section \<open>The engine's state\<close>

record page_in_outcome =
  admitted :: "string list"
  already_resident :: "string list"
  evicted :: "string list"
  demoted_in :: "string list"
  budget_exhausted :: "string list"

definition no_outcome :: page_in_outcome where
  "no_outcome = \<lparr>admitted = [], already_resident = [], evicted = [], demoted_in = [], budget_exhausted = []\<rparr>"

datatype engine_error = DataPlane tape_error | EngineDb store_error

record 'd paging =
  pg_ws :: working_set
  pg_db :: tape_db
  pg_plane :: 'd
  pg_out :: page_in_outcome

type_synonym ('d, 'a) engine_step = "'d paging \<times> (engine_error, 'a) outcome"

definition continue :: "('d, 'a) engine_step \<Rightarrow> ('d paging \<Rightarrow> 'a \<Rightarrow> ('d, 'b) engine_step) \<Rightarrow> ('d, 'b) engine_step" where
  "continue m f = (case m of (s, Ok x) \<Rightarrow> f s x | (s, Err e) \<Rightarrow> (s, Err e) | (s, Panic p) \<Rightarrow> (s, Panic p))"

definition continue_opt ::
  "('d, 'a) engine_step option \<Rightarrow> ('d paging \<Rightarrow> 'a \<Rightarrow> ('d, 'b) engine_step option) \<Rightarrow> ('d, 'b) engine_step option" where
  "continue_opt m f = (case m of None \<Rightarrow> None | Some (s, Ok x) \<Rightarrow> f s x
     | Some (s, Err e) \<Rightarrow> Some (s, Err e) | Some (s, Panic p) \<Rightarrow> Some (s, Panic p))"

definition upd_ws :: "(working_set \<Rightarrow> working_set) \<Rightarrow> 'd paging \<Rightarrow> 'd paging" where
  "upd_ws f s = s\<lparr>pg_ws := f (pg_ws s)\<rparr>"

definition upd_out :: "(page_in_outcome \<Rightarrow> page_in_outcome) \<Rightarrow> 'd paging \<Rightarrow> 'd paging" where
  "upd_out f s = s\<lparr>pg_out := f (pg_out s)\<rparr>"

definition exhausted :: "string \<Rightarrow> 'd paging \<Rightarrow> 'd paging" where
  "exhausted a = upd_out (\<lambda>r. r\<lparr>budget_exhausted := budget_exhausted r @ [a]\<rparr>)"

definition sat_u32_inc :: "nat \<Rightarrow> nat" where
  "sat_u32_inc n = min (n + 1) 4294967295"

definition advance_clock :: "'d paging \<Rightarrow> ('d, nat) engine_step" where
  "advance_clock s = (case bump_clock (session_key (pg_ws s)) 1 (pg_db s) of
     Err e \<Rightarrow> (s, Err (EngineDb e)) | Panic p \<Rightarrow> (s, Panic p)
   | Ok (db, n) \<Rightarrow> let c = nat (max n 0) in
       (upd_ws (\<lambda>ws. ws\<lparr>clock := max (clock ws) c\<rparr>) (s\<lparr>pg_db := db\<rparr>), Ok c))"

definition persist :: "string \<Rightarrow> 'd paging \<Rightarrow> 'd paging" where
  "persist tree s = s\<lparr>pg_db := save_working_set (pg_ws s) tree (budget_tokens (pg_ws s)) None (pg_db s)\<rparr>"

section \<open>Eviction\<close>

definition admit_page :: "resident_page \<Rightarrow> working_set \<Rightarrow> working_set" where
  "admit_page p ws = ws\<lparr>pages := op_insert p (pages ws)\<rparr>"

definition add_tokens :: "int \<Rightarrow> working_set \<Rightarrow> working_set" where
  "add_tokens n ws = ws\<lparr>resident_tokens := sat_add (resident_tokens ws) n\<rparr>"

definition try_demote_in ::
  "'d tape_data_plane \<Rightarrow> string \<Rightarrow> resident_page \<Rightarrow> page_ref \<Rightarrow> 'd paging \<Rightarrow> ('d, unit) engine_step" where
  "try_demote_in dp tree leaf summary s =
     (if pf_kind summary \<noteq> SummaryNode then (s, Ok ())
      else if pf_est_tokens summary \<ge> rp_est_tokens leaf then (s, Ok ())
      else if op_contains (pages (pg_ws s)) (pf_addr summary) then (s, Ok ())
      else if sat_add (resident_tokens (pg_ws s)) (pf_est_tokens summary) > budget_tokens (pg_ws s) then (s, Ok ())
      else case dp_get dp (pg_plane s) tree (pf_addr summary) of
        Err e \<Rightarrow> (s, Err (DataPlane e)) | Panic p \<Rightarrow> (s, Panic p)
      | Ok content \<Rightarrow> continue (advance_clock s) (\<lambda>s ord.
          (upd_out (\<lambda>r. r\<lparr>demoted_in := demoted_in r @ [pf_addr summary]\<rparr>)
            (upd_ws (\<lambda>ws. add_tokens (pc_est_tokens content) (admit_page
               \<lparr>rp_addr = pf_addr summary, rp_kind = SummaryNode, rp_importance = pf_importance summary,
                rp_est_tokens = pc_est_tokens content, rp_use_count = 1, rp_last_access_ord = ord,
                rp_dirty = False, rp_pinned = False, rp_bytes = None\<rparr> ws)) s), Ok ())))"

text \<open>Remove the victim, free its tokens, record the eviction.\<close>

definition drop_page :: "string \<Rightarrow> evict_reason \<Rightarrow> 'd paging \<Rightarrow> 'd paging" where
  "drop_page addr reason s =
     (let ws = pg_ws s; (ps, removed) = op_remove addr (pages ws);
          ws' = (case removed of None \<Rightarrow> ws\<lparr>pages := ps\<rparr>
            | Some p \<Rightarrow> ws\<lparr>pages := ps, resident_tokens := sat_sub (resident_tokens ws) (rp_est_tokens p)\<rparr>) in
      s\<lparr>pg_ws := ws', pg_db := evict_page (session_key ws) (state_cursor ws) addr reason (pg_db s),
        pg_out := (pg_out s)\<lparr>evicted := evicted (pg_out s) @ [addr]\<rparr>\<rparr>)"

definition evict_one ::
  "'d tape_data_plane \<Rightarrow> string \<Rightarrow> string \<Rightarrow> evict_reason \<Rightarrow> 'd paging \<Rightarrow> ('d, unit) engine_step" where
  "evict_one dp tree addr reason s =
     (case op_get (pages (pg_ws s)) addr of
        None \<Rightarrow> (s, Ok ())
      | Some page \<Rightarrow>
          if rp_pinned page then (s, Ok ())
          else case (if rp_dirty page
                     then dp_put dp (pg_plane s) tree addr (case rp_bytes page of None \<Rightarrow> [] | Some b \<Rightarrow> b)
                     else Ok (pg_plane s)) of
            Err e \<Rightarrow> (s, Err (DataPlane e)) | Panic p \<Rightarrow> (s, Panic p)
          | Ok d \<Rightarrow>
              let s1 = drop_page addr reason (s\<lparr>pg_plane := d\<rparr>) in
              (case dp_summary_of dp d tree [addr] of
                 Err e \<Rightarrow> (s1, Err (DataPlane e)) | Panic p \<Rightarrow> (s1, Panic p)
               | Ok None \<Rightarrow> (s1, Ok ())
               | Ok (Some summary) \<Rightarrow> try_demote_in dp tree page summary s1))"

definition eviction_candidates :: "working_set \<Rightarrow> resident_page list" where
  "eviction_candidates ws = filter (\<lambda>p. \<not> rp_pinned p) (iter_in_order (pages ws))"

partial_function (option) evict_to_fit ::
  "lfu_wrapper \<Rightarrow> 'd tape_data_plane \<Rightarrow> string \<Rightarrow> int \<Rightarrow> 'd paging \<Rightarrow> ('d, bool) engine_step option" where
  "evict_to_fit find_lfu dp tree needed s =
     (if sat_add (resident_tokens (pg_ws s)) needed \<le> budget_tokens (pg_ws s) then Some (s, Ok True)
      else case select_victim find_lfu (policy (pg_ws s)) (eviction_candidates (pg_ws s)) (clock (pg_ws s)) of
        None \<Rightarrow> Some (s, Ok False)
      | Some victim \<Rightarrow> (case evict_one dp tree victim BudgetPressure s of
          (s', Ok _) \<Rightarrow> evict_to_fit find_lfu dp tree needed s'
        | (s', Err e) \<Rightarrow> Some (s', Err e)
        | (s', Panic p) \<Rightarrow> Some (s', Panic p)))"

declare evict_to_fit.simps [code]

primrec evict_listed :: "'d tape_data_plane \<Rightarrow> string \<Rightarrow> string list \<Rightarrow> 'd paging \<Rightarrow> ('d, unit) engine_step" where
  "evict_listed dp tree [] s = (s, Ok ())"
| "evict_listed dp tree (a # as) s =
     (if op_get (pages (pg_ws s)) a = None then evict_listed dp tree as s
      else continue (evict_one dp tree a TtlReason s) (\<lambda>s _. evict_listed dp tree as s))"

definition evict_expired :: "'d tape_data_plane \<Rightarrow> string \<Rightarrow> 'd paging \<Rightarrow> ('d, unit) engine_step" where
  "evict_expired dp tree s =
     (case ttl (pg_ws s) of
        None \<Rightarrow> (s, Ok ())
      | Some t \<Rightarrow> if t = 0 then (s, Ok ())
          else evict_listed dp tree (map rp_addr (filter (\<lambda>p. \<not> rp_pinned p \<and> logical_age p (clock (pg_ws s)) > t)
                 (iter_in_order (pages (pg_ws s))))) s)"

section \<open>Page-in\<close>

text \<open>The loop over the ranked candidates; \<open>acc\<close> holds what is to be admitted so far.\<close>

fun decide_admissions ::
  "lfu_wrapper \<Rightarrow> 'd tape_data_plane \<Rightarrow> string \<Rightarrow> page_ref list \<Rightarrow> page_ref list \<Rightarrow> 'd paging
     \<Rightarrow> ('d, page_ref list) engine_step option" where
  "decide_admissions find_lfu dp tree acc [] s = Some (s, Ok acc)"
| "decide_admissions find_lfu dp tree acc (cand # cands) s =
     (if op_contains (pages (pg_ws s)) (pf_addr cand)
      then continue_opt (Some (advance_clock s)) (\<lambda>s ord.
        decide_admissions find_lfu dp tree acc cands
          (upd_out (\<lambda>r. r\<lparr>already_resident := already_resident r @ [pf_addr cand]\<rparr>)
            (upd_ws (\<lambda>ws. ws\<lparr>pages := op_modify (pf_addr cand) (\<lambda>p. p\<lparr>rp_use_count := sat_u32_inc (rp_use_count p),
                rp_last_access_ord := ord\<rparr>) (pages ws)\<rparr>) s)))
      else if pf_est_tokens cand > budget_tokens (pg_ws s)
      then decide_admissions find_lfu dp tree acc cands (exhausted (pf_addr cand) s)
      else continue_opt
        (if fits (pg_ws s) (pf_est_tokens cand) then Some (s, Ok True)
         else evict_to_fit find_lfu dp tree (pf_est_tokens cand) s) (\<lambda>s freed.
          if \<not> freed then decide_admissions find_lfu dp tree acc cands (exhausted (pf_addr cand) s)
          else decide_admissions find_lfu dp tree (acc @ [cand]) cands (upd_ws (add_tokens (pf_est_tokens cand)) s)))"

primrec insert_admitted :: "page_ref list \<Rightarrow> 'd paging \<Rightarrow> ('d, unit) engine_step" where
  "insert_admitted [] s = (s, Ok ())"
| "insert_admitted (r # rs) s = continue (advance_clock s) (\<lambda>s ord.
     insert_admitted rs
       (upd_out (\<lambda>x. x\<lparr>admitted := admitted x @ [pf_addr r]\<rparr>)
         (upd_ws (admit_page \<lparr>rp_addr = pf_addr r, rp_kind = pf_kind r, rp_importance = pf_importance r,
            rp_est_tokens = pf_est_tokens r, rp_use_count = 1, rp_last_access_ord = ord,
            rp_dirty = False, rp_pinned = False, rp_bytes = None\<rparr>) s)))"

text \<open>The prefetch of what was accepted, and its insertion; a failed prefetch gives the reserved tokens back.\<close>

definition fetch_admitted ::
  "'d tape_data_plane \<Rightarrow> string \<Rightarrow> page_ref list \<Rightarrow> 'd paging \<Rightarrow> ('d, unit) engine_step option" where
  "fetch_admitted dp tree to_admit s =
     (if to_admit = [] then Some (persist tree s, Ok ())
      else case dp_get_many dp (pg_plane s) tree (map pf_addr to_admit) of
        Err e \<Rightarrow> Some (upd_ws (\<lambda>ws. foldl (\<lambda>ws r. ws\<lparr>resident_tokens :=
                   sat_sub (resident_tokens ws) (pf_est_tokens r)\<rparr>) ws to_admit) s, Err (DataPlane e))
      | Panic p \<Rightarrow> Some (s, Panic p)
      | Ok _ \<Rightarrow> Some (continue (insert_admitted to_admit s) (\<lambda>s _. (persist tree s, Ok ()))))"

definition page_in ::
  "lfu_wrapper \<Rightarrow> 'd tape_data_plane \<Rightarrow> string \<Rightarrow> page_query \<Rightarrow> 'd paging \<Rightarrow> ('d, unit) engine_step option" where
  "page_in find_lfu dp tree query s0 =
     (let s = s0\<lparr>pg_out := no_outcome\<rparr> in
      case dp_resolve dp (pg_plane s) tree query of
        Err e \<Rightarrow> Some (s, Err (DataPlane e)) | Panic p \<Rightarrow> Some (s, Panic p)
      | Ok refs \<Rightarrow>
          continue_opt (Some (evict_expired dp tree s)) (\<lambda>s _.
          continue_opt (decide_admissions find_lfu dp tree [] (rank_refs refs) s) (\<lambda>s to_admit.
          fetch_admitted dp tree to_admit s)))"

section \<open>Scratch pages\<close>

definition scratch_page :: "string \<Rightarrow> string \<Rightarrow> rat \<Rightarrow> int \<Rightarrow> nat \<Rightarrow> resident_page" where
  "scratch_page addr bytes importance tokens ord =
     \<lparr>rp_addr = addr, rp_kind = FileChunk, rp_importance = importance, rp_est_tokens = tokens,
      rp_use_count = 1, rp_last_access_ord = ord, rp_dirty = True, rp_pinned = False, rp_bytes = Some bytes\<rparr>"

definition admit_new_scratch ::
  "lfu_wrapper \<Rightarrow> 'd tape_data_plane \<Rightarrow> string \<Rightarrow> string \<Rightarrow> string \<Rightarrow> rat \<Rightarrow> int \<Rightarrow> 'd paging
     \<Rightarrow> ('d, unit) engine_step option" where
  "admit_new_scratch find_lfu dp tree addr bytes importance tokens s =
     (if tokens > budget_tokens (pg_ws s) then Some (persist tree (exhausted addr s), Ok ())
      else continue_opt
        (if fits (pg_ws s) tokens then Some (s, Ok True) else evict_to_fit find_lfu dp tree tokens s) (\<lambda>s freed.
          if \<not> freed then Some (persist tree (exhausted addr s), Ok ())
          else Some (continue (advance_clock s) (\<lambda>s ord.
            (persist tree (upd_out (\<lambda>r. r\<lparr>admitted := admitted r @ [addr]\<rparr>)
               (upd_ws (\<lambda>ws. add_tokens tokens (admit_page (scratch_page addr bytes importance tokens ord) ws)) s)), Ok ())))))"

text \<open>Re-staging a resident page: room is made for the growth only.\<close>

definition restage ::
  "lfu_wrapper \<Rightarrow> 'd tape_data_plane \<Rightarrow> string \<Rightarrow> string \<Rightarrow> string \<Rightarrow> rat \<Rightarrow> int \<Rightarrow> resident_page \<Rightarrow> 'd paging
     \<Rightarrow> ('d, unit) engine_step option" where
  "restage find_lfu dp tree addr bytes importance tokens existing s =
     (let delta = sat_sub tokens (rp_est_tokens existing) in
      continue_opt
        (if delta > 0 \<and> \<not> fits (pg_ws s) delta then evict_to_fit find_lfu dp tree delta s else Some (s, Ok True))
        (\<lambda>s freed.
          if \<not> freed then Some (persist tree (exhausted addr s), Ok ())
          else continue_opt (Some (advance_clock s)) (\<lambda>s ord.
            if op_contains (pages (pg_ws s)) addr
            then Some (persist tree (upd_out (\<lambda>r. r\<lparr>already_resident := already_resident r @ [addr]\<rparr>)
              (upd_ws (\<lambda>ws. add_tokens delta (ws\<lparr>pages := op_modify addr (\<lambda>p. p\<lparr>rp_est_tokens := tokens,
                  rp_importance := importance, rp_dirty := True, rp_bytes := Some bytes,
                  rp_use_count := sat_u32_inc (rp_use_count p), rp_last_access_ord := ord\<rparr>) (pages ws)\<rparr>)) s)), Ok ())
            else admit_new_scratch find_lfu dp tree addr bytes importance tokens s)))"

definition admit_scratch ::
  "(string \<Rightarrow> nat) \<Rightarrow> lfu_wrapper \<Rightarrow> 'd tape_data_plane \<Rightarrow> string \<Rightarrow> string \<Rightarrow> string \<Rightarrow> rat \<Rightarrow> 'd paging
     \<Rightarrow> ('d, unit) engine_step option" where
  "admit_scratch estimate_tokens find_lfu dp tree addr bytes importance s0 =
     (let s = s0\<lparr>pg_out := no_outcome\<rparr>; tokens = as_i32 (estimate_tokens bytes) in
      case dp_put dp (pg_plane s) tree addr bytes of
        Err e \<Rightarrow> Some (s, Err (DataPlane e)) | Panic p \<Rightarrow> Some (s, Panic p)
      | Ok d \<Rightarrow>
        let s = s\<lparr>pg_plane := d\<rparr> in
        (case op_get (pages (pg_ws s)) addr of
           None \<Rightarrow> admit_new_scratch find_lfu dp tree addr bytes importance tokens s
         | Some existing \<Rightarrow> restage find_lfu dp tree addr bytes importance tokens existing s))"

end
