(* ===== verification/Tape_Order.thy ===== *)
theory Tape_Order
  imports Tape_Pages "HOL-Library.Multiset"
begin

text \<open>
  The page map as a map: what each operation does to lookups, to the sum of tokens and to the order.
  Up to the re-insertion of a removed address the order index implements a list of pages in
  insertion order; re-inserting one that still has a tombstone does not.
\<close>

section \<open>Lookups\<close>

definition op_wf :: "ordered_pages \<Rightarrow> bool" where
  "op_wf op \<longleftrightarrow> distinct (map fst (op_map op)) \<and> (\<forall>e \<in> set (op_map op). rp_addr (snd e) = fst e) \<and>
     fst ` set (op_map op) \<subseteq> set (op_order op)"

interpretation hm: ordered_map "[]" AList.update AList.delete map_of "\<lambda>m. m" "\<lambda>m. distinct (map fst m)"
  by unfold_locales
    (auto simp: AList.update_conv AList.delete_conv AList.distinct_update AList.distinct_delete
      dest: map_of_SomeD intro: map_of_is_SomeI)

lemma op_wf_new [simp]: "op_wf op_new"
  by (simp add: op_wf_def op_new_def)

lemma op_contains_iff: "op_contains op a \<longleftrightarrow> op_get op a \<noteq> None"
  by (simp add: op_contains_def op_get_def)

lemma op_get_new [simp]: "op_get op_new a = None"
  by (simp add: op_get_def op_new_def)

lemma op_get_insert: "op_get (op_insert p op) a = (if a = rp_addr p then Some p else op_get op a)"
  by (simp add: op_get_def op_insert_def Let_def AList.update_conv)

lemma op_map_compact [simp]: "op_map (maybe_compact op) = op_map op"
  by (simp add: maybe_compact_def op_compact_def)

lemma op_map_remove: "op_map (fst (op_remove a op)) = AList.delete a (op_map op)"
  by (simp add: op_remove_def Let_def)

lemma op_get_remove: "op_get (fst (op_remove a op)) b = (if b = a then None else op_get op b)"
  by (simp add: op_get_def op_map_remove AList.delete_conv)

lemma snd_op_remove [simp]: "snd (op_remove a op) = op_get op a"
  by (simp add: op_remove_def Let_def)

lemma op_get_modify: "op_get (op_modify a f op) b = (if b = a then map_option f (op_get op a) else op_get op b)"
  by (auto simp: op_get_def op_modify_def AList.map_of_map_entry split: option.splits)

lemma op_get_addr: "op_wf op \<Longrightarrow> op_get op a = Some p \<Longrightarrow> rp_addr p = a"
  by (force simp: op_wf_def op_get_def dest: map_of_SomeD)

lemma op_values_iff: "op_wf op \<Longrightarrow> p \<in> set (op_values op) \<longleftrightarrow> op_get op (rp_addr p) = Some p"
  by (force simp: op_values_def op_get_def op_wf_def dest: map_of_SomeD)

lemma op_get_order: "op_wf op \<Longrightarrow> op_get op a = Some p \<Longrightarrow> a \<in> set (op_order op)"
  by (force simp: op_wf_def op_get_def dest: map_of_SomeD)

section \<open>Well-formedness\<close>

lemma op_wf_insert: "op_wf op \<Longrightarrow> op_wf (op_insert p op)"
proof -
  assume wf: "op_wf op"
  let ?m = "AList.update (rp_addr p) p (op_map op)"
  have d: "distinct (map fst ?m)" using wf by (simp add: op_wf_def AList.distinct_update)
  have s: "set ?m = insert (rp_addr p, p) {e \<in> set (op_map op). fst e \<noteq> rp_addr p}"
    using wf by (intro hm.entries_insert) (simp add: op_wf_def)
  have "fst ` set ?m \<subseteq> set (op_order (op_insert p op))" unfolding s
    using wf by (auto simp: op_insert_def Let_def op_contains_def op_wf_def map_of_eq_None_iff)
  moreover have "op_map (op_insert p op) = ?m" by (simp add: op_insert_def Let_def)
  ultimately show ?thesis using d s wf by (auto simp: op_wf_def)
qed

lemma op_order_remove:
  "set (op_order (fst (op_remove a op))) \<supseteq> {b \<in> set (op_order op). op_get (fst (op_remove a op)) b \<noteq> None}"
  by (auto simp: op_remove_def maybe_compact_def op_compact_def op_contains_def op_get_def Let_def)

lemma op_wf_remove: "op_wf op \<Longrightarrow> op_wf (fst (op_remove a op))"
proof -
  assume wf: "op_wf op"
  have s: "set (AList.delete a (op_map op)) = {e \<in> set (op_map op). fst e \<noteq> a}"
    using wf by (intro hm.entries_remove) (simp add: op_wf_def)
  have "b \<in> set (op_order (fst (op_remove a op)))" if "b \<in> fst ` set (AList.delete a (op_map op))" for b
  proof -
    from that have "op_get (fst (op_remove a op)) b \<noteq> None"
      by (simp add: op_get_def op_map_remove map_of_eq_None_iff)
    moreover have "b \<in> set (op_order op)" using that wf unfolding s by (auto simp: op_wf_def)
    ultimately show ?thesis using op_order_remove[of op a] by blast
  qed
  then show ?thesis using wf s by (auto simp: op_wf_def op_map_remove AList.distinct_delete)
qed

lemma map_entry_set:
  "distinct (map fst m) \<Longrightarrow> set (AList.map_entry a f m) = (\<lambda>(b, p). (b, if b = a then f p else p)) ` set m"
  by (induction m) (force simp: image_iff)+

lemma map_entry_keys: "map fst (AList.map_entry a f m) = map fst m"
  by (induction m) auto

lemma op_wf_modify:
  assumes "op_wf op" "\<And>p. rp_addr (f p) = rp_addr p"
  shows "op_wf (op_modify a f op)"
proof -
  have d: "distinct (map fst (op_map op))" using assms(1) by (simp add: op_wf_def)
  have "fst ` set (AList.map_entry a f (op_map op)) = fst ` set (op_map op)"
    using arg_cong[OF map_entry_keys, of set] by (simp only: set_map)
  moreover have "rp_addr (snd e) = fst e" if "e \<in> set (AList.map_entry a f (op_map op))" for e
    using that assms unfolding map_entry_set[OF d] by (auto simp: op_wf_def)
  ultimately show ?thesis using assms(1) d by (auto simp: op_wf_def op_modify_def map_entry_keys)
qed

section \<open>Tokens\<close>

definition total :: "ordered_pages \<Rightarrow> int" where
  "total op = sum_list (map rp_est_tokens (op_values op))"

text \<open>The pages as a multiset: what each operation adds and takes away.\<close>

definition op_mset :: "ordered_pages \<Rightarrow> resident_page multiset" where
  "op_mset op = mset (op_values op)"

lemma total_mset: "total op = sum_mset (image_mset rp_est_tokens (op_mset op))"
  by (simp add: total_def op_mset_def flip: sum_mset_sum_list mset_map)

lemma mset_update_new: "k \<notin> fst ` set m \<Longrightarrow> mset (map snd (AList.update k v m)) = add_mset v (mset (map snd m))"
  by (induction m) auto

lemma mset_delete:
  "distinct (map fst m) \<Longrightarrow> map_of m k = Some v \<Longrightarrow> mset (map snd m) = add_mset v (mset (map snd (AList.delete k m)))"
proof (induction m)
  case (Cons e m)
  show ?case
  proof (cases "fst e = k")
    case True
    with Cons.prems have "k \<notin> fst ` set m" by auto
    then have "AList.delete k m = m" by (simp add: AList.delete_idem)
    with True Cons.prems show ?thesis by (cases e) auto
  next
    case False
    with Cons show ?thesis by (cases e) auto
  qed
qed simp

lemma op_mset_insert: "op_get op (rp_addr p) = None \<Longrightarrow> op_mset (op_insert p op) = add_mset p (op_mset op)"
  using mset_update_new[of "rp_addr p" "op_map op" p]
  by (simp add: op_mset_def op_values_def op_insert_def op_get_def Let_def map_of_eq_None_iff)

lemma op_mset_remove: "op_wf op \<Longrightarrow> op_get op a = Some p \<Longrightarrow> op_mset op = add_mset p (op_mset (fst (op_remove a op)))"
  using mset_delete[of "op_map op" a p] by (simp add: op_mset_def op_values_def op_map_remove op_get_def op_wf_def)

lemma op_remove_absent: "op_get op a = None \<Longrightarrow> op_mset (fst (op_remove a op)) = op_mset op"
  by (simp add: op_mset_def op_values_def op_map_remove op_get_def AList.delete_idem map_of_eq_None_iff)

lemma op_mset_modify:
  assumes "op_wf op" "op_get op a = Some p" "op_mset op = add_mset p M"
  shows "op_mset (op_modify a f op) = add_mset (f p) M"
proof -
  have "distinct (map fst m) \<Longrightarrow> map_of m a = Some p \<Longrightarrow>
      add_mset p (mset (map snd (AList.map_entry a f m))) = add_mset (f p) (mset (map snd m))" for m
  proof (induction m)
    case (Cons e m)
    show ?case
    proof (cases "fst e = a")
      case True
      with Cons.prems show ?thesis by (cases e) auto
    next
      case False
      with Cons show ?thesis by (cases e) (auto simp: add_mset_commute)
    qed
  qed simp
  from this[of "op_map op"] have "add_mset p (op_mset (op_modify a f op)) = add_mset (f p) (op_mset op)"
    using assms(1,2) by (simp add: op_mset_def op_values_def op_modify_def op_get_def op_wf_def)
  also have "\<dots> = add_mset p (add_mset (f p) M)" by (simp add: assms(3) add_mset_commute)
  finally show ?thesis by simp
qed

lemma in_op_mset: "op_wf op \<Longrightarrow> p \<in># op_mset op \<longleftrightarrow> op_get op (rp_addr p) = Some p"
  by (simp add: op_mset_def op_values_iff)

lemma op_get_in_mset: "op_wf op \<Longrightarrow> op_get op a = Some p \<Longrightarrow> p \<in># op_mset op"
  using in_op_mset op_get_addr by metis

lemma set_iter: "op_wf op \<Longrightarrow> set (iter_in_order op) = set_mset (op_mset op)"
proof -
  assume wf: "op_wf op"
  have "p \<in> set (iter_in_order op) \<longleftrightarrow> (\<exists>a. op_get op a = Some p)" for p
    unfolding iter_in_order_def using op_get_order[OF wf] by (force simp: List.map_filter_def)
  moreover have "(\<exists>a. op_get op a = Some p) \<longleftrightarrow> op_get op (rp_addr p) = Some p" for p
    using op_get_addr[OF wf] by blast
  ultimately show ?thesis using in_op_mset[OF wf] by blast
qed

section \<open>Order\<close>

text \<open>
  The list of pages in insertion order: inserting replaces in place or appends, removing deletes.
\<close>

definition list_insert :: "resident_page \<Rightarrow> resident_page list \<Rightarrow> resident_page list" where
  "list_insert p ps = (if rp_addr p \<in> rp_addr ` set ps then map (\<lambda>q. if rp_addr q = rp_addr p then p else q) ps
     else ps @ [p])"

definition list_remove :: "string \<Rightarrow> resident_page list \<Rightarrow> resident_page list" where
  "list_remove a ps = filter (\<lambda>p. rp_addr p \<noteq> a) ps"

lemma map_filter_cong_set: "(\<And>b. b \<in> set bs \<Longrightarrow> f b = g b) \<Longrightarrow> List.map_filter f bs = List.map_filter g bs"
  by (induction bs) (auto simp: map_filter_simps split: option.splits)

lemma map_filter_replace:
  assumes "\<And>b q. g b = Some q \<Longrightarrow> rp_addr q = b" "g (rp_addr p) \<noteq> None"
  shows "List.map_filter (\<lambda>b. if b = rp_addr p then Some p else g b) bs =
    map (\<lambda>q. if rp_addr q = rp_addr p then p else q) (List.map_filter g bs)"
  using assms by (induction bs) (auto simp: map_filter_simps split: option.splits)

lemma map_filter_remove:
  assumes "\<And>b q. g b = Some q \<Longrightarrow> rp_addr q = b"
  shows "List.map_filter (\<lambda>b. if b = a then None else g b) bs = list_remove a (List.map_filter g bs)"
  using assms by (induction bs) (auto simp: map_filter_simps list_remove_def split: option.splits)

lemma map_filter_live: "List.map_filter g (filter (\<lambda>b. g b \<noteq> None) bs) = List.map_filter g bs"
  by (induction bs) (auto simp: map_filter_simps split: option.splits)

lemma iter_remove_order: "iter_in_order (fst (op_remove a op)) = List.map_filter (op_get (fst (op_remove a op))) (op_order op)"
proof -
  let ?op = "fst (op_remove a op)"
  have "op_order ?op = op_order op \<or> op_order ?op = filter (\<lambda>b. op_get ?op b \<noteq> None) (op_order op)"
    by (auto simp: op_remove_def maybe_compact_def op_compact_def op_contains_def[abs_def] op_get_def Let_def)
  then show ?thesis unfolding iter_in_order_def using map_filter_live by metis
qed


definition demo_page :: "string \<Rightarrow> int \<Rightarrow> rat \<Rightarrow> nat \<Rightarrow> resident_page" where
  "demo_page a tokens importance ord = \<lparr>rp_addr = a, rp_kind = FileChunk, rp_importance = importance,
     rp_est_tokens = tokens, rp_use_count = 1, rp_last_access_ord = ord, rp_dirty = False, rp_pinned = False,
     rp_bytes = None\<rparr>"

definition two_pages :: ordered_pages where
  "two_pages = op_insert (demo_page ''b'' 2 1 2) (op_insert (demo_page ''a'' 1 1 1) op_new)"

lemma two_pages_wf: "op_wf two_pages"
  by (simp add: two_pages_def op_wf_insert)


text \<open>
  An address that is removed and inserted again before the index is compacted keeps its tombstone
  and gets a second entry: the page is then listed twice, and in its old place instead of last.
\<close>

theorem reinsertion_listed_twice:
  assumes "op_wf op" and "\<not> op_contains op (rp_addr p)" and "op_order op = xs @ rp_addr p # ys"
  shows "iter_in_order (op_insert p op) =
    List.map_filter (op_get (op_insert p op)) xs @ p # List.map_filter (op_get (op_insert p op)) ys @ [p]"
proof -
  have "op_order (op_insert p op) = xs @ rp_addr p # ys @ [rp_addr p]"
    using assms(2,3) by (simp add: op_insert_def Let_def)
  then show ?thesis by (simp add: iter_in_order_def List.map_filter_def op_get_insert)
qed

theorem reinsertion_listed_twice_witness:
  "\<exists>op. op_wf op \<and> op = fst (op_remove ''a'' two_pages) \<and>
     map rp_addr (iter_in_order (op_insert (demo_page ''a'' 9 1 5) op)) = [''a'', ''b'', ''a'']"
proof -
  let ?op = "fst (op_remove ''a'' two_pages)"
  have "\<not> op_contains ?op (rp_addr (demo_page ''a'' 9 1 5))" by code_simp
  moreover have "op_order ?op = [] @ rp_addr (demo_page ''a'' 9 1 5) # [''b'']" by code_simp
  ultimately have "iter_in_order (op_insert (demo_page ''a'' 9 1 5) ?op) =
      List.map_filter (op_get (op_insert (demo_page ''a'' 9 1 5) ?op)) [] @ demo_page ''a'' 9 1 5 #
      List.map_filter (op_get (op_insert (demo_page ''a'' 9 1 5) ?op)) [''b''] @ [demo_page ''a'' 9 1 5]"
    by (rule reinsertion_listed_twice[OF op_wf_remove[OF two_pages_wf]])
  moreover have "map rp_addr (List.map_filter (op_get (op_insert (demo_page ''a'' 9 1 5) ?op)) [''b'']) = [''b'']" by code_simp
  ultimately show ?thesis using op_wf_remove[OF two_pages_wf] by (auto simp: map_filter_simps demo_page_def)
qed

end
