(* ===== verification/Tape_Paging.thy ===== *)
theory Tape_Paging
  imports Tape_Engine Tape_Order "HOL-Library.Multiset_Order"
begin

text \<open>
  Residency: the policies choose among the candidates, and over every lawful data plane eviction
  ends, never touches a pinned page, keeps the token account exact and the budget respected.
\<close>

section \<open>Policies choose a candidate\<close>

lemma min_by_key_None [simp]: "min_by_key f xs = None \<longleftrightarrow> xs = []"
  by (cases xs) (auto split: option.splits)

lemma max_by_key_None [simp]: "max_by_key f xs = None \<longleftrightarrow> xs = []"
  by (cases xs) (auto split: option.splits)

lemma min_by_key_Some: "min_by_key f xs = Some x \<Longrightarrow> x \<in> set xs \<and> (\<forall>y \<in> set xs. f x \<le> f y)"
  by (induction xs arbitrary: x) (force split: option.splits if_splits)+

lemma max_by_key_Some: "max_by_key f xs = Some x \<Longrightarrow> x \<in> set xs \<and> (\<forall>y \<in> set xs. f y \<le> f x)"
  by (induction xs arbitrary: x) (force split: option.splits if_splits)+

lemma min_by_key_ex: "x \<in> set xs \<Longrightarrow> \<exists>y \<in> set xs. min_by_key f xs = Some y"
  using min_by_key_Some[of f xs] min_by_key_None[of f xs] by (cases "min_by_key f xs") auto

lemma max_by_key_ex: "x \<in> set xs \<Longrightarrow> \<exists>y \<in> set xs. max_by_key f xs = Some y"
  using max_by_key_Some[of f xs] max_by_key_None[of f xs] by (cases "max_by_key f xs") auto

text \<open>What is relied on of the frequency wrapper: a non-empty choice is answered by one of its terms.\<close>

definition lfu_lawful :: "lfu_wrapper \<Rightarrow> bool" where
  "lfu_lawful find_lfu \<longleftrightarrow> (\<forall>primed terms. terms \<noteq> [] \<longrightarrow> (\<exists>t \<in> set terms. find_lfu primed terms = Some t))"

lemma lru_victim_cases: "candidates \<noteq> [] \<Longrightarrow> \<exists>p \<in> set candidates. lru_victim candidates = Some (rp_addr p) \<and>
    (\<forall>q \<in> set candidates. rp_last_access_ord p \<le> rp_last_access_ord q)"
proof -
  assume "candidates \<noteq> []"
  then obtain m where m: "min_by_key rp_last_access_ord candidates = Some m" using min_by_key_None by (metis not_None_eq)
  let ?f = "filter (\<lambda>p. rp_last_access_ord p = rp_last_access_ord m) candidates"
  have "m \<in> set ?f" using min_by_key_Some[OF m] by simp
  from min_by_key_ex[OF this, of rp_addr] obtain p where p: "min_by_key rp_addr ?f = Some p" by blast
  with min_by_key_Some[OF p] min_by_key_Some[OF m] m show ?thesis by (auto simp: lru_victim_def)
qed

lemma ttl_victim_cases: "candidates \<noteq> [] \<Longrightarrow> \<exists>p \<in> set candidates. ttl_victim candidates now = Some (rp_addr p) \<and>
    (\<forall>q \<in> set candidates. logical_age q now \<le> logical_age p now)"
proof -
  assume "candidates \<noteq> []"
  then obtain m where m: "max_by_key (\<lambda>p. logical_age p now) candidates = Some m"
    using max_by_key_None by (metis not_None_eq)
  let ?f = "filter (\<lambda>p. logical_age p now = logical_age m now) candidates"
  have "m \<in> set ?f" using max_by_key_Some[OF m] by simp
  from min_by_key_ex[OF this, of rp_addr] obtain p where p: "min_by_key rp_addr ?f = Some p" by blast
  with min_by_key_Some[OF p] max_by_key_Some[OF m] m show ?thesis by (auto simp: ttl_victim_def)
qed

lemma lfu_victim_cases:
  assumes "lfu_lawful find_lfu" "candidates \<noteq> []"
  shows "\<exists>p \<in> set candidates. lfu_victim find_lfu candidates = Some (rp_addr p) \<and> (\<exists>q \<in> set candidates.
    find_lfu (map (\<lambda>p. (rp_addr p, max (rp_use_count p) 1)) candidates) (map rp_addr candidates) = Some (rp_addr q) \<and>
    max (rp_use_count p) 1 = max (rp_use_count q) 1)"
proof -
  let ?k = "\<lambda>p. (rp_last_access_ord p, rp_addr p)"
  let ?primed = "map (\<lambda>p. (rp_addr p, max (rp_use_count p) 1)) candidates"
  have "\<exists>t \<in> set (map rp_addr candidates). find_lfu ?primed (map rp_addr candidates) = Some t"
    using assms(1)[unfolded lfu_lawful_def, rule_format, of "map rp_addr candidates" ?primed] assms(2) by simp
  then obtain q0 where q0: "q0 \<in> set candidates" "find_lfu ?primed (map rp_addr candidates) = Some (rp_addr q0)"
    by auto
  then obtain q where q: "find (\<lambda>p. rp_addr p = rp_addr q0) candidates = Some q"
    by (cases "find (\<lambda>p. rp_addr p = rp_addr q0) candidates") (auto simp: find_None_iff)
  let ?f = "filter (\<lambda>p. max (rp_use_count p) 1 = max (rp_use_count q) 1) candidates"
  have qs: "q \<in> set candidates" "rp_addr q = rp_addr q0" "q \<in> set ?f" using find_SomeD[OF q] by simp_all
  from min_by_key_ex[OF qs(3), of ?k] obtain p where p: "min_by_key ?k ?f = Some p" by blast
  have "lfu_victim find_lfu candidates = Some (rp_addr p)" using p q0(2) q assms(2) by (simp add: lfu_victim_def)
  with min_by_key_Some[OF p] qs q0(2) show ?thesis by (intro bexI[of _ p] conjI bexI[of _ q]) auto
qed

lemma select_victim_Nil [simp]: "select_victim find_lfu pol [] now = None"
  by (cases pol) (simp_all add: lru_victim_def lfu_victim_def ttl_victim_def fifo_victim_def cost_aware_victim_def
      importance_weighted_victim_def)

lemma select_victim_cases:
  assumes "lfu_lawful find_lfu" "candidates \<noteq> []"
  shows "\<exists>p \<in> set candidates. select_victim find_lfu pol candidates now = Some (rp_addr p)"
proof -
  have m: "\<exists>p \<in> set candidates. map_option rp_addr (max_by_key f candidates) = Some (rp_addr p)"
    for f :: "resident_page \<Rightarrow> rat \<times> string"
    using assms(2) max_by_key_ex[of "hd candidates" candidates f] by auto
  show ?thesis
  proof (cases pol)
    case Fifo
    then show ?thesis using assms(2) by (cases candidates) (auto simp: fifo_victim_def)
  next
    case Lru
    then show ?thesis using lru_victim_cases[OF assms(2)] by auto
  next
    case Lfu
    then show ?thesis using lfu_victim_cases[OF assms] by auto
  next
    case TtlPolicy
    then show ?thesis using ttl_victim_cases[OF assms(2), of now] by auto
  qed (use m in \<open>simp_all add: cost_aware_victim_def importance_weighted_victim_def\<close>)
qed

section \<open>The account\<close>

text \<open>\<open>res\<close> is what has been reserved for pages still to be inserted.\<close>

definition page_ok :: "resident_page \<Rightarrow> bool" where
  "page_ok p \<longleftrightarrow> 0 \<le> rp_est_tokens p \<and> (\<forall>b. rp_bytes p = Some b \<longrightarrow> int (length b) \<le> i32_max)"

definition ws_ok :: "int \<Rightarrow> working_set \<Rightarrow> bool" where
  "ws_ok res ws \<longleftrightarrow> op_wf (pages ws) \<and> (\<forall>p \<in># op_mset (pages ws). page_ok p) \<and> 0 \<le> res \<and>
     resident_tokens ws = total (pages ws) + res \<and> resident_tokens ws \<le> budget_tokens ws \<and> budget_tokens ws < i32_max"

definition live :: "working_set \<Rightarrow> string set" where
  "live ws = {a. op_contains (pages ws) a}"

definition pinned_kept :: "working_set \<Rightarrow> working_set \<Rightarrow> bool" where
  "pinned_kept ws ws' \<longleftrightarrow> (\<forall>a p. op_get (pages ws) a = Some p \<longrightarrow> rp_pinned p \<longrightarrow> op_get (pages ws') a = Some p)"

definition frame :: "working_set \<Rightarrow> working_set \<Rightarrow> bool" where
  "frame ws ws' \<longleftrightarrow> session_key ws' = session_key ws \<and> state_cursor ws' = state_cursor ws \<and>
     budget_tokens ws' = budget_tokens ws \<and> policy ws' = policy ws \<and> ttl ws' = ttl ws"

lemma pinned_kept_refl [simp]: "pinned_kept ws ws" by (simp add: pinned_kept_def)
lemma pinned_kept_trans: "pinned_kept a b \<Longrightarrow> pinned_kept b c \<Longrightarrow> pinned_kept a c" by (auto simp: pinned_kept_def)
lemma frame_refl [simp]: "frame ws ws" by (simp add: frame_def)
lemma frame_trans: "frame a b \<Longrightarrow> frame b c \<Longrightarrow> frame a c" by (simp add: frame_def)

lemma clock_only [simp]:
  "ws_ok res (ws\<lparr>clock := c\<rparr>) = ws_ok res ws" "live (ws\<lparr>clock := c\<rparr>) = live ws"
  "pinned_kept ws0 (ws\<lparr>clock := c\<rparr>) = pinned_kept ws0 ws" "frame ws0 (ws\<lparr>clock := c\<rparr>) = frame ws0 ws"
  by (simp_all add: ws_ok_def live_def pinned_kept_def frame_def)

lemma sum_mset_int_nonneg: "(\<And>x. x \<in># M \<Longrightarrow> 0 \<le> f x) \<Longrightarrow> 0 \<le> sum_mset (image_mset f M)" for f :: "'a \<Rightarrow> int"
  by (induction M) auto

lemma total_nonneg: "ws_ok res ws \<Longrightarrow> 0 \<le> total (pages ws)"
  unfolding ws_ok_def total_mset by (intro sum_mset_int_nonneg) (auto simp: page_ok_def)

lemma advance_clock_only:
  assumes "advance_clock s = (s', r)"
  obtains c db where "s' = s\<lparr>pg_ws := (pg_ws s)\<lparr>clock := c\<rparr>, pg_db := db\<rparr>"
proof (cases "bump_clock (session_key (pg_ws s)) 1 (pg_db s)")
  case (Ok x)
  with assms show ?thesis
    by (intro that[of "fst x" "max (clock (pg_ws s)) (nat (max (snd x) 0))"])
      (cases x, auto simp: advance_clock_def upd_ws_def Let_def)
next
  case (Err e)
  with assms show ?thesis by (intro that[of "pg_db s" "clock (pg_ws s)"]) (simp add: advance_clock_def)
next
  case (Panic m)
  with assms show ?thesis by (intro that[of "pg_db s" "clock (pg_ws s)"]) (simp add: advance_clock_def)
qed

text \<open>Taking a page out and putting one in, at the level of the account.\<close>

lemma ws_ok_remove:
  assumes "ws_ok res ws" "op_get (pages ws) a = Some p"
  shows "ws_ok res (ws\<lparr>pages := fst (op_remove a (pages ws)),
      resident_tokens := sat_sub (resident_tokens ws) (rp_est_tokens p)\<rparr>)"
proof -
  let ?op = "fst (op_remove a (pages ws))"
  have wf: "op_wf (pages ws)" using assms(1) by (simp add: ws_ok_def)
  have m: "op_mset (pages ws) = add_mset p (op_mset ?op)" by (rule op_mset_remove[OF wf assms(2)])
  have p: "page_ok p" "\<forall>q \<in># op_mset ?op. page_ok q" using assms(1) by (auto simp: ws_ok_def m)
  have t: "total (pages ws) = rp_est_tokens p + total ?op" by (simp add: total_mset m)
  have "0 \<le> total ?op" unfolding total_mset by (rule sum_mset_int_nonneg) (use p in \<open>auto simp: page_ok_def\<close>)
  then have "sat_sub (resident_tokens ws) (rp_est_tokens p) = resident_tokens ws - rp_est_tokens p"
    using assms(1) p(1) t unfolding sat_sub_def by (intro clamp_i32_id) (auto simp: ws_ok_def page_ok_def in_i32_def i32_min_def)
  then show ?thesis using assms(1) p t op_wf_remove[OF wf] by (auto simp: ws_ok_def page_ok_def)
qed

lemma ws_ok_insert:
  assumes "ws_ok res ws" "op_get (pages ws) (rp_addr p) = None" "page_ok p"
    "sat_add (resident_tokens ws) (rp_est_tokens p) \<le> budget_tokens ws"
  shows "ws_ok res (add_tokens (rp_est_tokens p) (admit_page p ws)) \<and>
    resident_tokens (add_tokens (rp_est_tokens p) (admit_page p ws)) = resident_tokens ws + rp_est_tokens p"
proof -
  have m: "op_mset (op_insert p (pages ws)) = add_mset p (op_mset (pages ws))" by (rule op_mset_insert[OF assms(2)])
  have t: "total (op_insert p (pages ws)) = rp_est_tokens p + total (pages ws)" by (simp add: total_mset m)
  have "sat_add (resident_tokens ws) (rp_est_tokens p) = resident_tokens ws + rp_est_tokens p"
    using assms(1,3,4) total_nonneg[OF assms(1)]
    by (auto simp: sat_add_def clamp_i32_def ws_ok_def page_ok_def i32_min_def i32_max_def)
  then show ?thesis using assms m t
    by (auto simp: ws_ok_def add_tokens_def admit_page_def op_wf_insert)
qed

lemma drop_page_ws:
  "pg_ws (drop_page a reason s) = (case op_get (pages (pg_ws s)) a of
      None \<Rightarrow> (pg_ws s)\<lparr>pages := fst (op_remove a (pages (pg_ws s)))\<rparr>
    | Some p \<Rightarrow> (pg_ws s)\<lparr>pages := fst (op_remove a (pages (pg_ws s))),
        resident_tokens := sat_sub (resident_tokens (pg_ws s)) (rp_est_tokens p)\<rparr>)"
  "pg_plane (drop_page a reason s) = pg_plane s"
  by (simp_all add: drop_page_def Let_def case_prod_beta split: option.splits)

lemma upd_simps [simp]:
  "pg_ws (upd_ws f s) = f (pg_ws s)" "pg_plane (upd_ws f s) = pg_plane s" "pg_out (upd_ws f s) = pg_out s"
  "pg_ws (upd_out g s) = pg_ws s" "pg_plane (upd_out g s) = pg_plane s" "pg_out (upd_out g s) = g (pg_out s)"
  "pg_ws (exhausted a s) = pg_ws s" "pg_plane (exhausted a s) = pg_plane s"
  "pg_ws (persist t s) = pg_ws s" "pg_plane (persist t s) = pg_plane s"
  by (simp_all add: upd_ws_def upd_out_def exhausted_def persist_def)

lemma add_tokens_simps [simp]:
  "pages (add_tokens n ws) = pages ws" "budget_tokens (add_tokens n ws) = budget_tokens ws" "live (add_tokens n ws) = live ws"
  "frame ws0 (add_tokens n ws) = frame ws0 ws"
  by (simp_all add: add_tokens_def live_def frame_def)

text \<open>A pinned page stays resident and pinned, with its size and content; an access may restamp it.\<close>

definition pinned_stays :: "working_set \<Rightarrow> working_set \<Rightarrow> bool" where
  "pinned_stays ws ws' \<longleftrightarrow> (\<forall>a p. op_get (pages ws) a = Some p \<and> rp_pinned p \<longrightarrow>
     (\<exists>p'. op_get (pages ws') a = Some p' \<and> rp_pinned p' \<and> rp_est_tokens p' = rp_est_tokens p \<and> rp_bytes p' = rp_bytes p))"

lemma pinned_stays_refl [simp]: "pinned_stays ws ws" by (auto simp: pinned_stays_def)
lemma pinned_stays_trans: "pinned_stays a b \<Longrightarrow> pinned_stays b c \<Longrightarrow> pinned_stays a c"
  unfolding pinned_stays_def by (metis (no_types, lifting))
lemma pinned_kept_stays: "pinned_kept ws ws' \<Longrightarrow> pinned_stays ws ws'"
  by (auto simp: pinned_kept_def pinned_stays_def)
lemma pinned_stays_pages: "pages ws' = pages ws \<Longrightarrow> pinned_stays ws ws'"
  by (auto simp: pinned_stays_def)

lemma restamp_stays:
  assumes "\<And>q. rp_est_tokens (f q) = rp_est_tokens q" "\<And>q. rp_bytes (f q) = rp_bytes q" "\<And>q. rp_pinned (f q) = rp_pinned q"
    "pages ws' = op_modify a f (pages ws)"
  shows "pinned_stays ws ws'"
  using assms by (auto simp: pinned_stays_def op_get_modify)

section \<open>Eviction over a lawful plane\<close>

text \<open>How a state may change: the account stays exact, pinned pages and configuration stay, only summaries come in.\<close>

definition only_from :: "string set \<Rightarrow> working_set \<Rightarrow> working_set \<Rightarrow> bool" where
  "only_from A ws ws' \<longleftrightarrow> (\<forall>a p. a \<notin> A \<longrightarrow> op_get (pages ws') a = Some p \<longrightarrow> op_get (pages ws) a = Some p)"

lemma only_from_refl [simp]: "only_from A ws ws" by (simp add: only_from_def)
lemma only_from_trans: "only_from A a b \<Longrightarrow> only_from A b c \<Longrightarrow> only_from A a c" by (auto simp: only_from_def)
lemma only_from_clock [simp]: "only_from A ws (ws'\<lparr>clock := c\<rparr>) = only_from A ws ws'" by (simp add: only_from_def)
lemma only_from_live: "only_from A ws ws' \<Longrightarrow> live ws' \<subseteq> live ws \<union> A"
  by (auto simp: only_from_def live_def op_contains_iff)

definition resident_step :: "string set \<Rightarrow> int \<Rightarrow> working_set \<Rightarrow> working_set \<Rightarrow> bool" where
  "resident_step A res ws ws' \<longleftrightarrow> (ws_ok res ws \<longrightarrow> ws_ok res ws') \<and> pinned_kept ws ws' \<and> frame ws ws' \<and> only_from A ws ws'"

lemma resident_step_refl [simp]: "resident_step A res ws ws"
  by (simp add: resident_step_def)

lemma resident_step_trans: "resident_step A res a b \<Longrightarrow> resident_step A res b c \<Longrightarrow> resident_step A res a c"
  unfolding resident_step_def by (blast intro: pinned_kept_trans frame_trans only_from_trans)

lemma resident_step_clock [simp]: "resident_step A res ws (ws'\<lparr>clock := c\<rparr>) = resident_step A res ws ws'"
  by (simp add: resident_step_def)

text \<open>The multiset of what could still be evicted.\<close>

definition weight :: "working_set \<Rightarrow> nat multiset" where
  "weight ws = image_mset (\<lambda>p. nat (rp_est_tokens p)) (filter_mset (\<lambda>p. \<not> rp_pinned p) (op_mset (pages ws)))"

lemma weight_clock [simp]: "weight (ws\<lparr>clock := c\<rparr>) = weight ws"
  by (simp add: weight_def)

lemma drop_page_step:
  assumes "ws_ok res (pg_ws s)" "op_get (pages (pg_ws s)) a = Some p" "\<not> rp_pinned p"
  shows "resident_step A res (pg_ws s) (pg_ws (drop_page a reason s))"
    and "ws_ok res (pg_ws (drop_page a reason s))"
    and "weight (pg_ws s) = add_mset (nat (rp_est_tokens p)) (weight (pg_ws (drop_page a reason s)))"
    and "a \<notin> live (pg_ws (drop_page a reason s))"
proof -
  have wf: "op_wf (pages (pg_ws s))" using assms(1) by (simp add: ws_ok_def)
  let ?ws = "pg_ws (drop_page a reason s)"
  have ws: "?ws = (pg_ws s)\<lparr>pages := fst (op_remove a (pages (pg_ws s))),
      resident_tokens := sat_sub (resident_tokens (pg_ws s)) (rp_est_tokens p)\<rparr>"
    by (simp add: drop_page_ws assms(2))
  show ok: "ws_ok res ?ws" unfolding ws by (rule ws_ok_remove[OF assms(1,2)])
  have "pinned_kept (pg_ws s) ?ws" using assms(2,3) by (auto simp: pinned_kept_def ws op_get_remove)
  moreover have "only_from A (pg_ws s) ?ws" by (auto simp: only_from_def ws op_get_remove split: if_splits)
  moreover have "a \<notin> live ?ws" by (auto simp: live_def ws op_contains_iff op_get_remove)
  ultimately show "resident_step A res (pg_ws s) ?ws" "a \<notin> live ?ws" using ok by (auto simp: resident_step_def frame_def ws)
  show "weight (pg_ws s) = add_mset (nat (rp_est_tokens p)) (weight ?ws)"
    using op_mset_remove[OF wf assms(2)] assms(3) by (simp add: weight_def ws)
qed

text \<open>
  Paging in a summary of known size: nothing happens, or one page comes in that is smaller than the leaf.
\<close>

lemma try_demote_in_step:
  assumes "ws_ok res (pg_ws s)" "0 \<le> pf_est_tokens r" "pf_addr r \<in> A"
    and c: "\<And>c. dp_get dp (pg_plane s) tree (pf_addr r) = Ok c \<Longrightarrow> pc_est_tokens c = pf_est_tokens r"
    and d: "try_demote_in dp tree leaf r s = (s', x)"
  shows "resident_step A res (pg_ws s) (pg_ws s') \<and> ws_ok res (pg_ws s') \<and> pg_plane s' = pg_plane s \<and>
    (weight (pg_ws s') = weight (pg_ws s) \<or>
     weight (pg_ws s') = add_mset (nat (pf_est_tokens r)) (weight (pg_ws s)) \<and> pf_est_tokens r < rp_est_tokens leaf)"
proof -
  let ?guard = "pf_kind r = SummaryNode \<and> pf_est_tokens r < rp_est_tokens leaf \<and> \<not> op_contains (pages (pg_ws s)) (pf_addr r) \<and>
    sat_add (resident_tokens (pg_ws s)) (pf_est_tokens r) \<le> budget_tokens (pg_ws s)"
  show ?thesis
  proof (cases "?guard \<and> (\<exists>c. dp_get dp (pg_plane s) tree (pf_addr r) = Ok c)")
    case False
    then have "s' = s" using d by (auto simp: try_demote_in_def split: if_split_asm outcome.split_asm)
    with assms(1) show ?thesis by simp
  next
    case True
    then obtain content where content: "dp_get dp (pg_plane s) tree (pf_addr r) = Ok content" by blast
    obtain s1 o1 where ac: "advance_clock s = (s1, o1)" by fastforce
    then obtain db k where s1: "s1 = s\<lparr>pg_ws := (pg_ws s)\<lparr>clock := k\<rparr>, pg_db := db\<rparr>" by (rule advance_clock_only)
    have r: "try_demote_in dp tree leaf r s = continue (s1, o1) (\<lambda>s ord.
          (upd_out (\<lambda>x. x\<lparr>demoted_in := demoted_in x @ [pf_addr r]\<rparr>)
            (upd_ws (\<lambda>ws. add_tokens (pc_est_tokens content) (admit_page
               \<lparr>rp_addr = pf_addr r, rp_kind = SummaryNode, rp_importance = pf_importance r,
                rp_est_tokens = pc_est_tokens content, rp_use_count = 1, rp_last_access_ord = ord,
                rp_dirty = False, rp_pinned = False, rp_bytes = None\<rparr> ws)) s), Ok ()))"
      using True content ac by (auto simp: try_demote_in_def)
    show ?thesis
    proof (cases o1)
      case (Ok ord)
      define p where "p = \<lparr>rp_addr = pf_addr r, rp_kind = SummaryNode, rp_importance = pf_importance r,
        rp_est_tokens = pf_est_tokens r, rp_use_count = 1, rp_last_access_ord = ord,
        rp_dirty = False, rp_pinned = False, rp_bytes = None\<rparr>"
      have p: "rp_addr p = pf_addr r" "rp_est_tokens p = pf_est_tokens r" "page_ok p" "\<not> rp_pinned p"
        using assms(2) by (simp_all add: p_def page_ok_def)
      have ws': "pg_ws s' = add_tokens (rp_est_tokens p) (admit_page p ((pg_ws s)\<lparr>clock := k\<rparr>))" and pl: "pg_plane s' = pg_plane s"
        using d r s1 Ok c[OF content] by (auto simp: continue_def upd_ws_def upd_out_def p_def)
      have n: "op_get (pages (pg_ws s)) (pf_addr r) = None" using True by (simp add: op_contains_iff)
      have ok: "ws_ok res (pg_ws s')" unfolding ws'
        by (rule ws_ok_insert[THEN conjunct1]) (use assms(1) True p n in auto)
      have "pinned_kept (pg_ws s) (pg_ws s')" "only_from A (pg_ws s) (pg_ws s')"
        using n p(1) assms(3) by (auto simp: pinned_kept_def only_from_def ws' add_tokens_def admit_page_def op_get_insert split: if_splits)
      moreover have "weight (pg_ws s') = add_mset (nat (pf_est_tokens r)) (weight (pg_ws s))"
        using p n op_mset_insert[of "pages (pg_ws s)" p] by (simp add: weight_def ws' add_tokens_def admit_page_def)
      ultimately show ?thesis using True ok pl by (simp add: resident_step_def frame_def ws' add_tokens_def admit_page_def)
    qed (use d r s1 assms(1) in \<open>auto simp: continue_def\<close>)
  qed
qed

locale paging_laws = lawful_plane dp inv tree A
  for dp :: "'d tape_data_plane" and inv :: "'d \<Rightarrow> bool" and tree :: string and A :: "string set" +
  fixes find_lfu :: lfu_wrapper
  assumes lfu: "lfu_lawful find_lfu"
begin

lemma evict_one_step:
  assumes ok: "ws_ok res (pg_ws s)" and inv: "inv (pg_plane s)"
    and p: "op_get (pages (pg_ws s)) a = Some p" "\<not> rp_pinned p"
    and e: "evict_one dp tree a reason s = (s', x)"
  shows "resident_step A res (pg_ws s) (pg_ws s') \<and> ws_ok res (pg_ws s') \<and> inv (pg_plane s') \<and>
    (is_Ok x \<longrightarrow> weight (pg_ws s') < weight (pg_ws s))"
proof -
  have "p \<in># op_mset (pages (pg_ws s))" using ok p op_get_in_mset by (simp add: ws_ok_def)
  then have pok: "page_ok p" using ok by (simp add: ws_ok_def)
  define wb where "wb = (if rp_dirty p then dp_put dp (pg_plane s) tree a (case rp_bytes p of None \<Rightarrow> [] | Some b \<Rightarrow> b)
    else Ok (pg_plane s))"
  show ?thesis
  proof (cases wb)
    case (Ok d)
    have "int (length (case rp_bytes p of None \<Rightarrow> [] | Some b \<Rightarrow> b)) \<le> i32_max"
      using pok by (auto simp: page_ok_def i32_max_def split: option.splits)
    then have invd: "inv d" using Ok inv put_keeps by (auto simp: wb_def split: if_split_asm)
    define s1 where "s1 = drop_page a reason (s\<lparr>pg_plane := d\<rparr>)"
    have s1: "resident_step A res (pg_ws s) (pg_ws s1)" "ws_ok res (pg_ws s1)"
      "weight (pg_ws s) = add_mset (nat (rp_est_tokens p)) (weight (pg_ws s1))" "pg_plane s1 = d"
      using drop_page_step[of res "s\<lparr>pg_plane := d\<rparr>", OF _ _ p(2)] ok p(1) by (simp_all add: s1_def drop_page_ws)
    have less: "weight (pg_ws s1) < weight (pg_ws s)" unfolding s1(3)
      by (rule le_multiset_right_total)
    have e1: "evict_one dp tree a reason s = (case dp_summary_of dp d tree [a] of
        Err e \<Rightarrow> (s1, Err (DataPlane e)) | Panic m \<Rightarrow> (s1, Panic m) | Ok None \<Rightarrow> (s1, Ok ())
      | Ok (Some r) \<Rightarrow> try_demote_in dp tree p r s1)"
      unfolding s1_def using p Ok by (simp add: evict_one_def wb_def[symmetric] Let_def)
    show ?thesis
    proof (cases "\<exists>r. dp_summary_of dp d tree [a] = Ok (Some r)")
      case False
      then have "s' = s1" using e e1 by (auto split: outcome.split_asm option.split_asm)
      with s1 invd less show ?thesis by simp
    next
      case True
      then obtain r where r: "dp_summary_of dp d tree [a] = Ok (Some r)" by blast
      have t: "try_demote_in dp tree p r s1 = (s', x)" using e e1 r by simp
      have "resident_step A res (pg_ws s1) (pg_ws s') \<and> ws_ok res (pg_ws s') \<and> pg_plane s' = pg_plane s1 \<and>
          (weight (pg_ws s') = weight (pg_ws s1) \<or>
           weight (pg_ws s') = add_mset (nat (pf_est_tokens r)) (weight (pg_ws s1)) \<and> pf_est_tokens r < rp_est_tokens p)"
        using summary_ok[OF invd r] summary_content[OF invd r] s1 t by (intro try_demote_in_step) auto
      moreover have "nat (pf_est_tokens r) < nat (rp_est_tokens p)" if "pf_est_tokens r < rp_est_tokens p"
        using that summary_ok[OF invd r] by auto
      ultimately have "resident_step A res (pg_ws s) (pg_ws s')" "ws_ok res (pg_ws s')" "inv (pg_plane s')"
        "weight (pg_ws s') < weight (pg_ws s)"
        using s1(1,4) invd less resident_step_trans add_mset_lt_left_lt unfolding s1(3) by metis+
      then show ?thesis by blast
    qed
  next
    case (Err er)
    with e p have "s' = s" "\<not> is_Ok x" by (auto simp: evict_one_def wb_def[symmetric])
    with ok inv show ?thesis by simp
  next
    case (Panic m)
    with e p have "s' = s" "\<not> is_Ok x" by (auto simp: evict_one_def wb_def[symmetric])
    with ok inv show ?thesis by simp
  qed
qed

lemma eviction_candidates_iff:
  "ws_ok res ws \<Longrightarrow> p \<in> set (eviction_candidates ws) \<longleftrightarrow> op_get (pages ws) (rp_addr p) = Some p \<and> \<not> rp_pinned p"
  by (auto simp: eviction_candidates_def ws_ok_def set_iter in_op_mset)

definition room_made :: "int \<Rightarrow> 'd paging \<Rightarrow> 'd paging \<Rightarrow> int \<Rightarrow> (engine_error, bool) outcome \<Rightarrow> bool" where
  "room_made res s s' needed r \<longleftrightarrow> resident_step A res (pg_ws s) (pg_ws s') \<and> ws_ok res (pg_ws s') \<and> inv (pg_plane s') \<and>
     (r = Ok True \<longrightarrow> sat_add (resident_tokens (pg_ws s')) needed \<le> budget_tokens (pg_ws s')) \<and>
     (r = Ok False \<longrightarrow> (\<forall>p \<in># op_mset (pages (pg_ws s')). rp_pinned p) \<and> budget_tokens (pg_ws s') < resident_tokens (pg_ws s') + needed)"

lemma evict_to_fit_step:
  assumes "ws_ok res (pg_ws s)" "inv (pg_plane s)" "0 \<le> needed"
  shows "\<exists>s' r. evict_to_fit find_lfu dp tree needed s = Some (s', r) \<and> room_made res s s' needed r"
  using assms
proof (induction "weight (pg_ws s)" arbitrary: s rule: less_induct)
  case less
  let ?ws = "pg_ws s"
  show ?case
  proof (cases "sat_add (resident_tokens ?ws) needed \<le> budget_tokens ?ws")
    case True
    then show ?thesis using less.prems by (subst evict_to_fit.simps) (simp add: room_made_def)
  next
    case nofit: False
    show ?thesis
    proof (cases "eviction_candidates ?ws = []")
      case True
      then have "rp_pinned p" if "p \<in># op_mset (pages ?ws)" for p
        using that less.prems(1) by (auto simp: eviction_candidates_def filter_empty_conv set_iter ws_ok_def)
      moreover have "budget_tokens ?ws < resident_tokens ?ws + needed"
        using nofit less.prems(1) total_nonneg[OF less.prems(1)]
        by (auto simp: sat_add_def clamp_i32_def ws_ok_def i32_min_def)
      ultimately show ?thesis using nofit True less.prems by (subst evict_to_fit.simps) (simp add: room_made_def)
    next
      case False
      then obtain p where p: "p \<in> set (eviction_candidates ?ws)"
        and v: "select_victim find_lfu (policy ?ws) (eviction_candidates ?ws) (clock ?ws) = Some (rp_addr p)"
        using select_victim_cases[OF lfu] by blast
      then have g: "op_get (pages ?ws) (rp_addr p) = Some p" "\<not> rp_pinned p"
        using less.prems(1) by (auto simp: eviction_candidates_iff)
      obtain s1 x where e: "evict_one dp tree (rp_addr p) BudgetPressure s = (s1, x)" by fastforce
      note st = evict_one_step[OF less.prems(1,2) g e]
      show ?thesis
      proof (cases x)
        case (Ok u)
        with st have "\<exists>s' r. evict_to_fit find_lfu dp tree needed s1 = Some (s', r) \<and> room_made res s1 s' needed r"
          using less.hyps[of s1] less.prems(3) by simp
        moreover have "evict_to_fit find_lfu dp tree needed s = evict_to_fit find_lfu dp tree needed s1"
          using nofit v e Ok by (subst evict_to_fit.simps) simp
        ultimately show ?thesis using st resident_step_trans by (fastforce simp: room_made_def)
      next
        case (Err er)
        with nofit v e st show ?thesis by (subst evict_to_fit.simps) (simp add: room_made_def)
      next
        case (Panic m)
        with nofit v e st show ?thesis by (subst evict_to_fit.simps) (simp add: room_made_def)
      qed
    qed
  qed
qed

lemma evict_one_safe:
  assumes "ws_ok res (pg_ws s)" "inv (pg_plane s)" "evict_one dp tree a reason s = (s', x)"
  shows "resident_step A res (pg_ws s) (pg_ws s') \<and> ws_ok res (pg_ws s') \<and> inv (pg_plane s')"
proof (cases "\<exists>p. op_get (pages (pg_ws s)) a = Some p \<and> \<not> rp_pinned p")
  case True
  then show ?thesis using evict_one_step[OF assms(1,2) _ _ assms(3)] by blast
next
  case False
  then have "s' = s" using assms(3) by (auto simp: evict_one_def split: option.splits)
  with assms(1,2) show ?thesis by simp
qed

lemma evict_listed_step:
  assumes "ws_ok res (pg_ws s)" "inv (pg_plane s)" "evict_listed dp tree as s = (s', x)"
  shows "resident_step A res (pg_ws s) (pg_ws s') \<and> ws_ok res (pg_ws s') \<and> inv (pg_plane s')"
  using assms
proof (induction as arbitrary: s)
  case (Cons a as)
  obtain s1 y where e: "evict_one dp tree a TtlReason s = (s1, y)" by fastforce
  note st = evict_one_safe[OF Cons.prems(1,2) e]
  consider (gone) "op_get (pages (pg_ws s)) a = None" | (ok) "op_get (pages (pg_ws s)) a \<noteq> None" "is_Ok y"
    | (stop) "op_get (pages (pg_ws s)) a \<noteq> None" "\<not> is_Ok y" by blast
  then show ?case
  proof cases
    case gone
    then have "evict_listed dp tree as s = (s', x)" using Cons.prems(3) by simp
    then show ?thesis by (rule Cons.IH[OF Cons.prems(1,2)])
  next
    case ok
    then have "evict_listed dp tree as s1 = (s', x)" using Cons.prems(3) e by (auto simp: continue_def is_Ok_iff)
    from Cons.IH[OF _ _ this] st show ?thesis using resident_step_trans by blast
  next
    case stop
    then have "s' = s1" using Cons.prems(3) e by (cases y) (auto simp: continue_def)
    with st show ?thesis by simp
  qed
qed auto

lemma evict_expired_step:
  assumes "ws_ok res (pg_ws s)" "inv (pg_plane s)" "evict_expired dp tree s = (s', x)"
  shows "resident_step A res (pg_ws s) (pg_ws s') \<and> ws_ok res (pg_ws s') \<and> inv (pg_plane s')"
proof (cases "ttl (pg_ws s)")
  case (Some t)
  then consider "s' = s" | as where "evict_listed dp tree as s = (s', x)"
    using assms(3) by (cases "t = 0") (auto simp: evict_expired_def)
  then show ?thesis using evict_listed_step[OF assms(1,2)] assms(1,2) by cases auto
qed (use assms in \<open>simp add: evict_expired_def\<close>)

text \<open>The loop over the candidates: what is accepted is reserved, new, and apart from the summaries.\<close>

definition accepted :: "working_set \<Rightarrow> page_ref list \<Rightarrow> bool" where
  "accepted ws acc \<longleftrightarrow> ws_ok (sum_list (map pf_est_tokens acc)) ws \<and> distinct (map pf_addr acc) \<and>
     (\<forall>r \<in> set acc. 0 \<le> pf_est_tokens r \<and> pf_addr r \<notin> live ws \<union> A)"

lemma accepted_hit:
  assumes "accepted ws acc" "op_get (pages ws) a = Some p" "\<And>q. rp_addr (f q) = rp_addr q"
    "\<And>q. rp_est_tokens (f q) = rp_est_tokens q" "\<And>q. rp_bytes (f q) = rp_bytes q"
  shows "accepted (ws\<lparr>pages := op_modify a f (pages ws)\<rparr>) acc"
proof -
  have wf: "op_wf (pages ws)" using assms(1) by (simp add: accepted_def ws_ok_def)
  obtain M where M: "op_mset (pages ws) = add_mset p M" using op_get_in_mset[OF wf assms(2)] by (metis mset_add)
  note m = op_mset_modify[OF wf assms(2) M, of f]
  have "total (op_modify a f (pages ws)) = total (pages ws)" by (simp add: total_mset m M assms(4))
  moreover have "live (ws\<lparr>pages := op_modify a f (pages ws)\<rparr>) = live ws"
    by (auto simp: live_def op_contains_iff op_get_modify)
  ultimately show ?thesis using assms(1) m M op_wf_modify[OF wf assms(3)]
    by (auto simp: accepted_def ws_ok_def page_ok_def assms(4,5))
qed

lemma accepted_add:
  assumes "accepted ws acc" "0 \<le> pf_est_tokens r" "sat_add (resident_tokens ws) (pf_est_tokens r) \<le> budget_tokens ws"
    "pf_addr r \<notin> live ws \<union> A" "pf_addr r \<notin> pf_addr ` set acc"
  shows "accepted (add_tokens (pf_est_tokens r) ws) (acc @ [r])"
proof -
  have ok: "ws_ok (sum_list (map pf_est_tokens acc)) ws" using assms(1) by (simp add: accepted_def)
  have "sat_add (resident_tokens ws) (pf_est_tokens r) = resident_tokens ws + pf_est_tokens r"
    using ok assms(2,3) total_nonneg[OF ok]
    by (auto simp: sat_add_def clamp_i32_def ws_ok_def i32_min_def i32_max_def)
  then show ?thesis using assms by (auto simp: accepted_def ws_ok_def add_tokens_def live_def)
qed

lemma accepted_step:
  assumes "accepted ws acc" "resident_step A (sum_list (map pf_est_tokens acc)) ws ws'"
  shows "accepted ws' acc"
  using assms by (auto simp: accepted_def resident_step_def dest: only_from_live)

definition decided :: "'d paging \<Rightarrow> page_ref list \<Rightarrow> page_ref list \<Rightarrow> ('d, page_ref list) engine_step option \<Rightarrow> bool" where
  "decided s acc cands m \<longleftrightarrow> (\<exists>s' r. m = Some (s', r) \<and> inv (pg_plane s') \<and> pinned_stays (pg_ws s) (pg_ws s') \<and>
     frame (pg_ws s) (pg_ws s') \<and>
     (\<forall>acc'. r = Ok acc' \<longrightarrow> accepted (pg_ws s') acc' \<and> set acc' \<subseteq> set acc \<union> set cands))"

lemma decided_via:
  assumes "decided s1 acc cands m" "pinned_stays (pg_ws s) (pg_ws s1)" "frame (pg_ws s) (pg_ws s1)"
    "set acc \<union> set cands \<subseteq> set acc0 \<union> set cands0"
  shows "decided s acc0 cands0 m"
  using assms unfolding decided_def by (blast intro: pinned_stays_trans frame_trans)

lemma decided_stop:
  "inv (pg_plane s1) \<Longrightarrow> pinned_stays (pg_ws s) (pg_ws s1) \<Longrightarrow> frame (pg_ws s) (pg_ws s1) \<Longrightarrow> \<not> is_Ok r \<Longrightarrow>
     decided s acc cands (Some (s1, r))"
  by (auto simp: decided_def is_Ok_iff)

abbreviation restamp :: "string \<Rightarrow> nat \<Rightarrow> 'd paging \<Rightarrow> 'd paging" where
  "restamp a ord s \<equiv> upd_out (\<lambda>r. r\<lparr>already_resident := already_resident r @ [a]\<rparr>)
     (upd_ws (\<lambda>ws. ws\<lparr>pages := op_modify a (\<lambda>p. p\<lparr>rp_use_count := sat_u32_inc (rp_use_count p),
        rp_last_access_ord := ord\<rparr>) (pages ws)\<rparr>) s)"

lemma hit_step:
  assumes "accepted (pg_ws s) acc" "inv (pg_plane s)" "op_contains (pages (pg_ws s)) a" "advance_clock s = (s1, x)"
  shows "inv (pg_plane s1)" "pinned_stays (pg_ws s) (pg_ws s1)" "frame (pg_ws s) (pg_ws s1)"
    "accepted (pg_ws (restamp a ord s1)) acc" "inv (pg_plane (restamp a ord s1))"
    "pinned_stays (pg_ws s) (pg_ws (restamp a ord s1))" "frame (pg_ws s) (pg_ws (restamp a ord s1))"
proof -
  define f :: "resident_page \<Rightarrow> resident_page" where
    "f = (\<lambda>p. p\<lparr>rp_use_count := sat_u32_inc (rp_use_count p), rp_last_access_ord := ord\<rparr>)"
  obtain p where p: "op_get (pages (pg_ws s)) a = Some p" using assms(3) by (auto simp: op_contains_iff)
  obtain db k where s1: "s1 = s\<lparr>pg_ws := (pg_ws s)\<lparr>clock := k\<rparr>, pg_db := db\<rparr>" using assms(4) by (rule advance_clock_only)
  have ws2: "pg_ws (restamp a ord s1) = (pg_ws s)\<lparr>clock := k, pages := op_modify a f (pages (pg_ws s))\<rparr>"
    by (simp add: s1 f_def)
  have f: "rp_addr (f q) = rp_addr q" "rp_est_tokens (f q) = rp_est_tokens q" "rp_bytes (f q) = rp_bytes q"
    "rp_pinned (f q) = rp_pinned q" for q by (simp_all add: f_def)
  have acc: "accepted ((pg_ws s)\<lparr>clock := k\<rparr>) acc" using assms(1) by (simp add: accepted_def)
  show "accepted (pg_ws (restamp a ord s1)) acc" unfolding ws2 using accepted_hit[OF acc _ f(1-3), of a p] p by simp
  show "pinned_stays (pg_ws s) (pg_ws (restamp a ord s1))" unfolding ws2 by (rule restamp_stays) (simp_all add: f)
  show "frame (pg_ws s) (pg_ws (restamp a ord s1))" unfolding ws2 by (simp add: frame_def)
  show "inv (pg_plane s1)" "inv (pg_plane (restamp a ord s1))" using assms(2) by (simp_all add: s1)
  show "pinned_stays (pg_ws s) (pg_ws s1)" "frame (pg_ws s) (pg_ws s1)" by (simp_all add: s1 pinned_stays_pages)
qed

lemma make_room:
  assumes "accepted (pg_ws s) acc" "inv (pg_plane s)" "0 \<le> n"
    "m = (if fits (pg_ws s) n then Some (s, Ok True) else evict_to_fit find_lfu dp tree n s)"
  shows "\<exists>s1 r. m = Some (s1, r) \<and> accepted (pg_ws s1) acc \<and> inv (pg_plane s1) \<and> pinned_stays (pg_ws s) (pg_ws s1) \<and>
    frame (pg_ws s) (pg_ws s1) \<and> only_from A (pg_ws s) (pg_ws s1) \<and>
    (r = Ok True \<longrightarrow> sat_add (resident_tokens (pg_ws s1)) n \<le> budget_tokens (pg_ws s1))"
proof -
  let ?res = "sum_list (map pf_est_tokens acc)"
  have ok: "ws_ok ?res (pg_ws s)" using assms(1) by (simp add: accepted_def)
  have "\<exists>s1 r. m = Some (s1, r) \<and> room_made ?res s s1 n r"
    using evict_to_fit_step[OF ok assms(2,3)] ok assms(2) by (auto simp: assms(4) fits_def room_made_def)
  then obtain s1 r where r: "m = Some (s1, r)" and made: "room_made ?res s s1 n r" by blast
  then have "resident_step A ?res (pg_ws s) (pg_ws s1)" by (simp add: room_made_def)
  then show ?thesis using r made accepted_step[OF assms(1)]
    by (auto simp: room_made_def resident_step_def pinned_kept_stays)
qed

lemma decide_admissions_step:
  assumes "accepted (pg_ws s) acc" "inv (pg_plane s)" "distinct (map pf_addr (acc @ cands))"
    "\<And>r. r \<in> set cands \<Longrightarrow> 0 \<le> pf_est_tokens r \<and> pf_addr r \<notin> A"
  shows "decided s acc cands (decide_admissions find_lfu dp tree acc cands s)"
  using assms
proof (induction cands arbitrary: acc s)
  case Nil
  then show ?case by (simp add: decided_def)
next
  case (Cons cand cands)
  let ?ws = "pg_ws s" and ?go = "decide_admissions find_lfu dp tree" and ?a = "pf_addr cand" and ?n = "pf_est_tokens cand"
  note IH = Cons.IH[OF _ _ _ Cons.prems(4)[OF list.set_intros(2)]]
  have dist: "distinct (map pf_addr (acc @ cands))" using Cons.prems(3) by auto
  show ?case
  proof (cases "op_contains (pages ?ws) ?a")
    case hit: True
    obtain s1 x where ac: "advance_clock s = (s1, x)" by fastforce
    note h = hit_step[OF Cons.prems(1,2) hit ac]
    show ?thesis
    proof (cases x)
      case (Ok ord)
      have "decided s acc (cand # cands) (?go acc cands (restamp ?a ord s1))"
        by (rule decided_via[OF IH[OF h(4,5) dist] h(6,7)]) auto
      then show ?thesis using hit ac Ok by (simp add: continue_opt_def)
    qed (use hit ac h in \<open>auto simp: continue_opt_def intro!: decided_stop\<close>)
  next
    case miss: False
    show ?thesis
    proof (cases "?n > budget_tokens ?ws")
      case True
      then show ?thesis using miss IH[of "exhausted ?a s" acc] dist Cons.prems(1,2) by (auto intro: decided_via)
    next
      case False
      have n: "0 \<le> ?n" using Cons.prems(4) by simp
      obtain s1 r where r: "(if fits ?ws ?n then Some (s, Ok True) else evict_to_fit find_lfu dp tree ?n s) = Some (s1, r)"
        and acc: "accepted (pg_ws s1) acc" and pl: "inv (pg_plane s1)" and st: "pinned_stays ?ws (pg_ws s1)" "frame ?ws (pg_ws s1)"
        and lv: "only_from A ?ws (pg_ws s1)" and fit: "r = Ok True \<longrightarrow> sat_add (resident_tokens (pg_ws s1)) ?n \<le> budget_tokens (pg_ws s1)"
        using make_room[OF Cons.prems(1,2) n refl] by blast
      have add: "accepted (add_tokens ?n (pg_ws s1)) (acc @ [cand])" if "r = Ok True"
        using accepted_add[OF acc n] fit that only_from_live[OF lv] miss Cons.prems(3,4) by (force simp: live_def)
      have yes: "decided s acc (cand # cands) (?go (acc @ [cand]) cands (upd_ws (add_tokens ?n) s1))" if "r = Ok True"
        using decided_via[OF IH, of "upd_ws (add_tokens ?n) s1" "acc @ [cand]" s acc "cand # cands"] add[OF that] pl st Cons.prems(3)
        by (auto simp: pinned_stays_def)
      have no: "decided s acc (cand # cands) (?go acc cands (exhausted ?a s1))"
        using decided_via[OF IH, of "exhausted ?a s1" acc s acc "cand # cands"] acc pl st dist by auto
      have stop: "decided s acc (cand # cands) (Some (s1, q))" if "\<not> is_Ok q" for q using decided_stop[OF pl st that] .
      show ?thesis using miss False yes no stop by (cases r) (auto simp: r continue_opt_def is_Ok_iff)
    qed
  qed
qed

lemma set_rank_refs: "set (rank_refs rs) = set rs"
  by (simp add: rank_refs_def)

lemma accepted_insert:
  assumes "accepted ws (r # rs)" "rp_addr p = pf_addr r" "rp_est_tokens p = pf_est_tokens r" "rp_bytes p = None"
  shows "accepted (admit_page p ws) rs \<and> pinned_stays ws (admit_page p ws) \<and> frame ws (admit_page p ws)"
proof -
  have none: "op_get (pages ws) (rp_addr p) = None"
    using assms(1,2) by (auto simp: accepted_def live_def op_contains_iff)
  have wf: "op_wf (pages ws)" using assms(1) by (simp add: accepted_def ws_ok_def)
  have m: "op_mset (op_insert p (pages ws)) = add_mset p (op_mset (pages ws))" by (rule op_mset_insert[OF none])
  then have t: "total (op_insert p (pages ws)) = rp_est_tokens p + total (pages ws)" by (simp add: total_mset)
  have l: "live (admit_page p ws) = insert (rp_addr p) (live ws)"
    by (auto simp: live_def admit_page_def op_contains_iff op_get_insert)
  have "pinned_stays ws (admit_page p ws)" using none by (auto simp: pinned_stays_def admit_page_def op_get_insert)
  moreover have "ws_ok (sum_list (map pf_est_tokens rs)) (admit_page p ws)"
    using assms op_wf_insert[OF wf, of p] sum_list_nonneg[of "map pf_est_tokens rs"]
    by (auto simp: accepted_def ws_ok_def admit_page_def m t page_ok_def)
  moreover have "frame ws (admit_page p ws)" by (simp add: admit_page_def frame_def)
  moreover have "pf_addr q \<noteq> pf_addr r" if "q \<in> set rs" for q
    using assms(1) imageI[OF that, of pf_addr] by (auto simp: accepted_def)
  ultimately show ?thesis using assms(1,2) l by (auto simp: accepted_def)
qed

lemma insert_admitted_step:
  assumes "accepted (pg_ws s) rs" "insert_admitted rs s = (s', x)"
  shows "pg_plane s' = pg_plane s \<and> pinned_stays (pg_ws s) (pg_ws s') \<and> frame (pg_ws s) (pg_ws s') \<and>
    (is_Ok x \<longrightarrow> ws_ok 0 (pg_ws s'))"
  using assms
proof (induction rs arbitrary: s)
  case Nil
  then show ?case by (simp add: accepted_def)
next
  case (Cons r rs)
  obtain s1 y where ac: "advance_clock s = (s1, y)" by fastforce
  then obtain db k where s1: "s1 = s\<lparr>pg_ws := (pg_ws s)\<lparr>clock := k\<rparr>, pg_db := db\<rparr>" by (rule advance_clock_only)
  show ?case
  proof (cases y)
    case (Ok ord)
    define p where "p = \<lparr>rp_addr = pf_addr r, rp_kind = pf_kind r, rp_importance = pf_importance r,
      rp_est_tokens = pf_est_tokens r, rp_use_count = 1, rp_last_access_ord = ord, rp_dirty = False, rp_pinned = False, rp_bytes = None\<rparr>"
    define s2 where "s2 = upd_out (\<lambda>x. x\<lparr>admitted := admitted x @ [pf_addr r]\<rparr>) (upd_ws (admit_page p) s1)"
    have eq: "insert_admitted rs s2 = (s', x)" using Cons.prems(2) ac Ok by (simp add: continue_def s2_def p_def)
    have "accepted ((pg_ws s)\<lparr>clock := k\<rparr>) (r # rs)" using Cons.prems(1) by (simp add: accepted_def)
    note a = accepted_insert[OF this, of p]
    have acc: "accepted (pg_ws s2) rs" and st: "pinned_stays (pg_ws s) (pg_ws s2)" "frame (pg_ws s) (pg_ws s2)"
      using a by (simp_all add: s2_def s1 p_def pinned_stays_def frame_def)
    have "pg_plane s2 = pg_plane s" by (simp add: s2_def s1)
    with Cons.IH[OF acc eq] pinned_stays_trans[OF st(1)] frame_trans[OF st(2)] show ?thesis by simp
  qed (use Cons.prems ac s1 in \<open>auto simp: continue_def pinned_stays_pages\<close>)
qed

lemma give_back:
  assumes "accepted ws rs"
  shows "accepted (foldl (\<lambda>ws r. ws\<lparr>resident_tokens := sat_sub (resident_tokens ws) (pf_est_tokens r)\<rparr>) ws rs) []"
  using assms
proof (induction rs arbitrary: ws)
  case (Cons r rs)
  have t: "0 \<le> total (pages ws)" using Cons.prems total_nonneg by (auto simp: accepted_def)
  have s: "0 \<le> sum_list (map pf_est_tokens rs)" using Cons.prems by (intro sum_list_nonneg) (auto simp: accepted_def)
  have "sat_sub (resident_tokens ws) (pf_est_tokens r) = resident_tokens ws - pf_est_tokens r"
    using Cons.prems t s unfolding sat_sub_def
    by (intro clamp_i32_id) (auto simp: accepted_def ws_ok_def in_i32_def i32_min_def)
  then have "accepted (ws\<lparr>resident_tokens := sat_sub (resident_tokens ws) (pf_est_tokens r)\<rparr>) rs"
    using Cons.prems s by (auto simp: accepted_def ws_ok_def live_def)
  then show ?case using Cons.IH by simp
qed simp

lemma give_back_pages:
  "pages (foldl (\<lambda>ws r. ws\<lparr>resident_tokens := sat_sub (resident_tokens ws) (pf_est_tokens r)\<rparr>) ws rs) = pages ws \<and>
   frame ws (foldl (\<lambda>ws r. ws\<lparr>resident_tokens := sat_sub (resident_tokens ws) (pf_est_tokens r)\<rparr>) ws rs)"
  by (induction rs arbitrary: ws) (auto simp: frame_def)

definition settled :: "'d paging \<Rightarrow> ('d, unit) engine_step option \<Rightarrow> bool" where
  "settled s m \<longleftrightarrow> (\<exists>s' r. m = Some (s', r) \<and> inv (pg_plane s') \<and> pinned_stays (pg_ws s) (pg_ws s') \<and>
     frame (pg_ws s) (pg_ws s') \<and> (r = Ok () \<longrightarrow> ws_ok 0 (pg_ws s')))"

lemma settled_via:
  "settled s1 m \<Longrightarrow> pinned_stays (pg_ws s) (pg_ws s1) \<Longrightarrow> frame (pg_ws s) (pg_ws s1) \<Longrightarrow> settled s m"
  unfolding settled_def by (blast intro: pinned_stays_trans frame_trans)

lemma settled_stop: "inv (pg_plane s1) \<Longrightarrow> pinned_stays (pg_ws s) (pg_ws s1) \<Longrightarrow> frame (pg_ws s) (pg_ws s1) \<Longrightarrow>
   (r = Ok () \<longrightarrow> ws_ok 0 (pg_ws s1)) \<Longrightarrow> settled s (Some (s1, r))"
  by (auto simp: settled_def)

lemma fetch_settled:
  assumes "accepted (pg_ws s) rs" "inv (pg_plane s)"
  shows "settled s (fetch_admitted dp tree rs s)"
proof -
  obtain s1 x where i: "insert_admitted rs s = (s1, x)" by fastforce
  note st = insert_admitted_step[OF assms(1) i]
  have "settled s (Some (continue (s1, x) (\<lambda>s _. (persist tree s, Ok ()))))"
    using st assms(2) by (cases x) (auto simp: continue_def intro!: settled_stop)
  moreover have "rs = [] \<Longrightarrow> settled s (Some (persist tree s, Ok ()))"
    using assms by (intro settled_stop) (auto simp: accepted_def)
  ultimately show ?thesis using assms(2) give_back_pages[of "pg_ws s" rs]
    by (auto simp: fetch_admitted_def i split: outcome.split intro!: settled_stop pinned_stays_pages)
qed

lemma page_in_settled:
  assumes "ws_ok 0 (pg_ws s)" "inv (pg_plane s)"
    "\<forall>rs. dp_resolve dp (pg_plane s) tree q = Ok rs \<longrightarrow> (\<forall>r \<in> set rs. pf_addr r \<notin> A)"
  shows "settled s (page_in find_lfu dp tree q s)"
proof (cases "dp_resolve dp (pg_plane s) tree q")
  case (Ok rs)
  define s0 where "s0 = s\<lparr>pg_out := no_outcome\<rparr>"
  have s0: "pg_ws s0 = pg_ws s" "pg_plane s0 = pg_plane s" by (simp_all add: s0_def)
  obtain s1 x where e: "evict_expired dp tree s0 = (s1, x)" by fastforce
  have e1: "resident_step A 0 (pg_ws s) (pg_ws s1)" "ws_ok 0 (pg_ws s1)" "inv (pg_plane s1)"
    using evict_expired_step[of 0 s0, OF _ _ e] assms by (simp_all add: s0)
  then have st: "pinned_stays (pg_ws s) (pg_ws s1)" "frame (pg_ws s) (pg_ws s1)"
    by (simp_all add: resident_step_def pinned_kept_stays)
  have "decided s1 [] (rank_refs rs) (decide_admissions find_lfu dp tree [] (rank_refs rs) s1)"
    using e1 resolve_ok[OF assms(2) Ok] assms(3) Ok
    by (intro decide_admissions_step) (auto simp: accepted_def rank_refs_addrs set_rank_refs)
  then obtain s2 y where d: "decide_admissions find_lfu dp tree [] (rank_refs rs) s1 = Some (s2, y)"
    and d2: "inv (pg_plane s2)" "pinned_stays (pg_ws s1) (pg_ws s2)" "frame (pg_ws s1) (pg_ws s2)"
      "\<And>acc. y = Ok acc \<Longrightarrow> accepted (pg_ws s2) acc" by (auto simp: decided_def)
  have go: "page_in find_lfu dp tree q s = continue_opt (Some (s1, x)) (\<lambda>s _.
      continue_opt (decide_admissions find_lfu dp tree [] (rank_refs rs) s) (\<lambda>s to_admit. fetch_admitted dp tree to_admit s))"
    by (simp add: page_in_def Let_def Ok s0_def[symmetric] s0 e)
  have "settled s1 (continue_opt (Some (s2, y)) (\<lambda>s to_admit. fetch_admitted dp tree to_admit s))"
    using d2 settled_via[OF fetch_settled[OF d2(4) d2(1)] d2(2,3)]
    by (cases y) (auto simp: continue_opt_def intro: settled_stop)
  from settled_via[OF this st] show ?thesis unfolding go using st e1(3)
    by (cases x) (auto simp: continue_opt_def[of "Some (s1, _)"] d intro: settled_stop)
qed (use assms in \<open>auto simp: page_in_def Let_def intro!: settled_stop\<close>)

text \<open>A scratch page: its own address may change size, every other account stays exact.\<close>

definition balanced :: "('d, unit) engine_step option \<Rightarrow> bool" where
  "balanced m \<longleftrightarrow> (\<exists>s' r. m = Some (s', r) \<and> inv (pg_plane s') \<and> (r = Ok () \<longrightarrow> ws_ok 0 (pg_ws s')))"

lemma balancedI: "inv (pg_plane s) \<Longrightarrow> (r = Ok () \<longrightarrow> ws_ok 0 (pg_ws s)) \<Longrightarrow> balanced (Some (s, r))"
  by (simp add: balanced_def)

lemma room_or_not:
  assumes "ws_ok 0 (pg_ws s)" "inv (pg_plane s)" "0 \<le> n"
    "m = (if fits (pg_ws s) n then Some (s, Ok True) else evict_to_fit find_lfu dp tree n s)"
  obtains s1 r where "m = Some (s1, r)" "ws_ok 0 (pg_ws s1)" "inv (pg_plane s1)" "only_from A (pg_ws s) (pg_ws s1)"
    "r = Ok True \<longrightarrow> sat_add (resident_tokens (pg_ws s1)) n \<le> budget_tokens (pg_ws s1)"
  using make_room[of s "[]", OF _ assms(2-4)] assms(1) by (auto simp: accepted_def)

lemma admit_new_scratch_balanced:
  assumes "ws_ok 0 (pg_ws s)" "inv (pg_plane s)" "0 \<le> n" "int (length bytes) \<le> i32_max"
    "op_get (pages (pg_ws s)) addr = None" "addr \<notin> A"
  shows "balanced (admit_new_scratch find_lfu dp tree addr bytes importance n s)"
proof -
  obtain s1 r where m: "(if fits (pg_ws s) n then Some (s, Ok True) else evict_to_fit find_lfu dp tree n s) = Some (s1, r)"
    and ok: "ws_ok 0 (pg_ws s1)" "inv (pg_plane s1)" and from_: "only_from A (pg_ws s) (pg_ws s1)"
    and fit: "r = Ok True \<longrightarrow> sat_add (resident_tokens (pg_ws s1)) n \<le> budget_tokens (pg_ws s1)"
    using room_or_not[OF assms(1-3) refl] .
  obtain s2 y where ac: "advance_clock s1 = (s2, y)" by fastforce
  then obtain db k where s2: "s2 = s1\<lparr>pg_ws := (pg_ws s1)\<lparr>clock := k\<rparr>, pg_db := db\<rparr>" by (rule advance_clock_only)
  have none: "op_get (pages (pg_ws s1)) addr = None"
    using from_ assms(5,6) by (cases "op_get (pages (pg_ws s1)) addr") (auto simp: only_from_def)
  have ins: "ws_ok 0 (add_tokens n (admit_page (scratch_page addr bytes importance n ord) ((pg_ws s1)\<lparr>clock := k\<rparr>)))"
    if "r = Ok True" for ord
    using ws_ok_insert[of 0 "(pg_ws s1)\<lparr>clock := k\<rparr>" "scratch_page addr bytes importance n ord"] ok(1) none fit that assms(3,4)
    by (auto simp: scratch_page_def page_ok_def)
  show ?thesis unfolding admit_new_scratch_def m
    using ok assms(1,2) ins ac by (cases r; cases y) (auto simp: continue_opt_def continue_def s2 intro!: balancedI)
qed

lemma grow_ok:
  assumes "ws_ok 0 ws" "op_get (pages ws) a = Some p" "\<And>q. rp_addr (f q) = rp_addr q" "page_ok (f p)" "rp_est_tokens (f p) = n"
    "resident_tokens ws + (n - rp_est_tokens p) \<le> budget_tokens ws"
  shows "ws_ok 0 (add_tokens (n - rp_est_tokens p) (ws\<lparr>pages := op_modify a f (pages ws)\<rparr>))"
proof -
  have wf: "op_wf (pages ws)" using assms(1) by (simp add: ws_ok_def)
  obtain M where M: "op_mset (pages ws) = add_mset p M" using op_get_in_mset[OF wf assms(2)] by (metis mset_add)
  have m: "op_mset (op_modify a f (pages ws)) = add_mset (f p) M" by (rule op_mset_modify[OF wf assms(2) M])
  have t: "total (op_modify a f (pages ws)) = total (pages ws) + (n - rp_est_tokens p)"
    by (simp add: total_mset m M assms(5))
  have M_ok: "\<forall>q \<in># M. page_ok q" using assms(1) by (auto simp: ws_ok_def M)
  have "0 \<le> total (op_modify a f (pages ws))" unfolding total_mset
    by (rule sum_mset_int_nonneg) (use M_ok assms(4) in \<open>auto simp: m page_ok_def\<close>)
  then have "sat_add (resident_tokens ws) (n - rp_est_tokens p) = resident_tokens ws + (n - rp_est_tokens p)"
    using assms(1,6) t unfolding sat_add_def by (intro clamp_i32_id) (auto simp: ws_ok_def in_i32_def i32_min_def)
  then show ?thesis using assms(1,4,6) M_ok t op_wf_modify[OF wf assms(3)]
    by (auto simp: ws_ok_def add_tokens_def m)
qed

lemma sat_add_exact:
  assumes "ws_ok 0 ws" "0 < n" "sat_add (resident_tokens ws) n \<le> budget_tokens ws"
  shows "resident_tokens ws + n \<le> budget_tokens ws"
  using assms total_nonneg[OF assms(1)]
  by (auto simp: sat_add_def clamp_i32_def ws_ok_def i32_min_def i32_max_def split: if_splits)

lemma est_bounded:
  assumes "ws_ok 0 ws" "op_get (pages ws) a = Some p"
  shows "page_ok p" "rp_est_tokens p \<le> resident_tokens ws"
proof -
  have wf: "op_wf (pages ws)" using assms(1) by (simp add: ws_ok_def)
  obtain M where M: "op_mset (pages ws) = add_mset p M" using op_get_in_mset[OF wf assms(2)] by (metis mset_add)
  show "page_ok p" using assms(1) by (simp add: ws_ok_def M)
  have "0 \<le> (\<Sum>p\<in>#M. rp_est_tokens p)"
    by (rule sum_mset_int_nonneg) (use assms(1) in \<open>auto simp: ws_ok_def M page_ok_def\<close>)
  then show "rp_est_tokens p \<le> resident_tokens ws" using assms(1) by (auto simp: ws_ok_def total_mset M)
qed

lemma growth_room:
  assumes "ws_ok 0 (pg_ws s)" "inv (pg_plane s)"
  obtains s1 r where "(if \<delta> > 0 \<and> \<not> fits (pg_ws s) \<delta> then evict_to_fit find_lfu dp tree \<delta> s else Some (s, Ok True)) = Some (s1, r)"
    "ws_ok 0 (pg_ws s1)" "inv (pg_plane s1)" "only_from A (pg_ws s) (pg_ws s1)"
    "r = Ok True \<longrightarrow> resident_tokens (pg_ws s1) + \<delta> \<le> budget_tokens (pg_ws s1)"
proof (cases "\<delta> > 0")
  case True
  from room_or_not[OF assms _ refl, of \<delta>] True obtain s1 r where
    m: "(if fits (pg_ws s) \<delta> then Some (s, Ok True) else evict_to_fit find_lfu dp tree \<delta> s) = Some (s1, r)"
    and k: "ws_ok 0 (pg_ws s1)" "inv (pg_plane s1)" "only_from A (pg_ws s) (pg_ws s1)"
      "r = Ok True \<longrightarrow> sat_add (resident_tokens (pg_ws s1)) \<delta> \<le> budget_tokens (pg_ws s1)" by auto
  show ?thesis by (rule that[OF _ k(1-3)]) (use m True k(4) sat_add_exact[OF k(1)] in \<open>auto split: if_splits\<close>)
qed (use assms in \<open>auto simp: ws_ok_def intro!: that[of s "Ok True"]\<close>)

lemma restage_balanced:
  assumes ok: "ws_ok 0 (pg_ws s)" and inv: "inv (pg_plane s)" and a: "addr \<notin> A"
    and len: "int (length bytes) \<le> i32_max" and n: "0 \<le> n" "n \<le> i32_max"
    and Some: "op_get (pages (pg_ws s)) addr = Some p"
  shows "balanced (restage find_lfu dp tree addr bytes importance n p s)"
proof -
  note p = est_bounded[OF ok Some]
  define \<delta> where "\<delta> = n - rp_est_tokens p"
  have delta: "sat_sub n (rp_est_tokens p) = \<delta>" using n p ok unfolding sat_sub_def \<delta>_def
    by (intro clamp_i32_id) (auto simp: page_ok_def ws_ok_def in_i32_def i32_min_def i32_max_def)
  define m where "m = (if \<delta> > 0 \<and> \<not> fits (pg_ws s) \<delta> then evict_to_fit find_lfu dp tree \<delta> s else Some (s, Ok True))"
  obtain s1 r where m: "m = Some (s1, r)" and ok1: "ws_ok 0 (pg_ws s1)" "inv (pg_plane s1)"
    and from1: "only_from A (pg_ws s) (pg_ws s1)"
    and fit: "r = Ok True \<longrightarrow> resident_tokens (pg_ws s1) + \<delta> \<le> budget_tokens (pg_ws s1)"
    unfolding m_def using growth_room[OF ok inv] .
  obtain s2 y where ac: "advance_clock s1 = (s2, y)" by fastforce
  then obtain db k where s2: "s2 = s1\<lparr>pg_ws := (pg_ws s1)\<lparr>clock := k\<rparr>, pg_db := db\<rparr>" by (rule advance_clock_only)
  have new: "balanced (admit_new_scratch find_lfu dp tree addr bytes importance n s2)" if "\<not> op_contains (pages (pg_ws s1)) addr"
    using that ok1 a len n by (intro admit_new_scratch_balanced) (auto simp: s2 op_contains_iff)
  have grow: "ws_ok 0 (add_tokens \<delta> ((pg_ws s1)\<lparr>clock := k, pages := op_modify addr (\<lambda>p. p\<lparr>rp_est_tokens := n,
      rp_importance := importance, rp_dirty := True, rp_bytes := Some bytes,
      rp_use_count := sat_u32_inc (rp_use_count p), rp_last_access_ord := ord\<rparr>) (pages (pg_ws s1))\<rparr>))"
    if "op_contains (pages (pg_ws s1)) addr" "r = Ok True" for ord
  proof -
    have "op_get (pages (pg_ws s1)) addr = Some p" using that(1) from1 a Some by (auto simp: op_contains_iff only_from_def)
    then show ?thesis using grow_ok[of "(pg_ws s1)\<lparr>clock := k\<rparr>" addr p _ n] ok1(1) fit that(2) n len
      by (simp add: \<delta>_def page_ok_def)
  qed
  show ?thesis unfolding restage_def delta Let_def m_def[symmetric] m
    using ok1 new grow ac by (cases r; cases y) (auto simp: continue_opt_def s2 intro!: balancedI)
qed

lemma admit_scratch_balanced:
  assumes ok: "ws_ok 0 (pg_ws s)" and inv: "inv (pg_plane s)" and a: "addr \<notin> A"
    and len: "int (length bytes) \<le> i32_max" and est: "int (estimate_tokens bytes) \<le> i32_max"
  shows "balanced (admit_scratch estimate_tokens find_lfu dp tree addr bytes importance s)"
proof (cases "dp_put dp (pg_plane s) tree addr bytes")
  case (Ok d)
  define s0 where "s0 = s\<lparr>pg_out := no_outcome, pg_plane := d\<rparr>"
  have s0: "pg_ws s0 = pg_ws s" "inv (pg_plane s0)" using put_keeps[OF inv len Ok] by (simp_all add: s0_def)
  have "balanced (case op_get (pages (pg_ws s0)) addr of
      None \<Rightarrow> admit_new_scratch find_lfu dp tree addr bytes importance (as_i32 (estimate_tokens bytes)) s0
    | Some p \<Rightarrow> restage find_lfu dp tree addr bytes importance (as_i32 (estimate_tokens bytes)) p s0)"
    using ok s0 a len est as_i32_length[OF est]
    by (auto split: option.split intro!: admit_new_scratch_balanced restage_balanced)
  from this[unfolded s0_def] show ?thesis by (simp add: admit_scratch_def Ok Let_def)
qed (use assms in \<open>auto simp: admit_scratch_def Let_def intro!: balancedI\<close>)

end

text \<open>The in-memory plane, with an LFU query that answers the first candidate of the least count.\<close>

definition least_used :: lfu_wrapper where
  "least_used primed terms = min_by_key (\<lambda>t. case map_of primed t of None \<Rightarrow> 0 | Some n \<Rightarrow> n) terms"

lemma least_used_lawful: "lfu_lawful least_used"
  unfolding lfu_lawful_def least_used_def by (metis list.set_intros(1) min_by_key_Some min_by_key_ex neq_Nil_conv)

interpretation mock_paging: paging_laws mock_data_plane "mock_ok tree A" tree A least_used for tree A
  by unfold_locales (rule least_used_lawful)

end
