(* ===== verification/Tape_Persist.thy ===== *)
theory Tape_Persist
  imports Tape_Paging
begin

text \<open>
  Saving a working set and loading it back: the pages with all their metadata, the budget and the
  policy survive; the admission order and the time-to-live do not.
\<close>

section \<open>Saving pages\<close>

definition of_session :: "string \<Rightarrow> int \<Rightarrow> page_row \<Rightarrow> bool" where
  "of_session key cursor r \<longleftrightarrow> pr_session_key r = key \<and> pr_state_cursor r = cursor"

definition session_rows :: "string \<Rightarrow> int \<Rightarrow> tape_db \<Rightarrow> page_row list" where
  "session_rows key cursor db = filter (of_session key cursor) (working_set_pages db)"

text \<open>The rows of the session are those of the saved pages \<open>P\<close>, one per address.\<close>

definition rows_are :: "string \<Rightarrow> int \<Rightarrow> string \<Rightarrow> resident_page set \<Rightarrow> tape_db \<Rightarrow> bool" where
  "rows_are key cursor tree P db \<longleftrightarrow> set (session_rows key cursor db) = row_of_page key cursor tree ` P \<and>
     distinct (map pr_page_addr (session_rows key cursor db))"

lemma row_of_page_simps [simp]:
  "of_session key cursor (row_of_page key cursor tree p)" "pr_page_addr (row_of_page key cursor tree p) = rp_addr p"
  "page_key key cursor a (row_of_page key cursor tree p) = (rp_addr p = a)" "pr_state (row_of_page key cursor tree p) \<noteq> ''evicted''"
  "pr_est_tokens (row_of_page key cursor tree p) = rp_est_tokens p"
  by (simp_all add: of_session_def row_of_page_def page_key_def)

lemma page_key_session: "page_key key cursor a r \<longleftrightarrow> of_session key cursor r \<and> pr_page_addr r = a"
  by (auto simp: page_key_def of_session_def)

lemma filter_map_same: "(\<And>x. Q (g x) = Q x) \<Longrightarrow> filter Q (map g xs) = map g (filter Q xs)"
  by (induction xs) auto

lemma save_page_rows:
  assumes "rows_are key cursor tree P db" "\<And>q. q \<in> P \<Longrightarrow> rp_addr q = rp_addr p \<Longrightarrow> q = p"
  shows "rows_are key cursor tree (insert p P) (save_resident_page_on key cursor tree p db)"
proof (cases "list_ex (page_key key cursor (rp_addr p)) (working_set_pages db)")
  case True
  then obtain r where "r \<in> set (session_rows key cursor db)" "pr_page_addr r = rp_addr p"
    by (auto simp: list_ex_iff page_key_session session_rows_def)
  then obtain q where "q \<in> P" "rp_addr q = rp_addr p" using assms(1) by (auto simp: rows_are_def)
  then have p: "p \<in> P" using assms(2) by blast
  let ?g = "\<lambda>r. if page_key key cursor (rp_addr p) r then row_of_page key cursor tree p else r"
  have "session_rows key cursor (save_resident_page_on key cursor tree p db) = map ?g (session_rows key cursor db)"
    using True unfolding session_rows_def save_resident_page_on_def
    by (simp add: Let_def) (rule filter_map_same, auto simp: page_key_session)
  also have "\<dots> = session_rows key cursor db"
  proof (rule map_idI)
    fix r assume "r \<in> set (session_rows key cursor db)"
    then obtain q where "q \<in> P" "r = row_of_page key cursor tree q" using assms(1) by (auto simp: rows_are_def)
    then show "?g r = r" using assms(2)[of q] by auto
  qed
  finally show ?thesis using assms(1) p by (simp add: rows_are_def insert_absorb)
next
  case False
  then have "session_rows key cursor (save_resident_page_on key cursor tree p db) =
      session_rows key cursor db @ [row_of_page key cursor tree p]"
    by (simp add: session_rows_def save_resident_page_on_def Let_def)
  moreover have "rp_addr p \<notin> pr_page_addr ` set (session_rows key cursor db)"
    using False by (auto simp: list_ex_iff page_key_session session_rows_def)
  ultimately show ?thesis using assms(1) by (simp add: rows_are_def)
qed

lemma save_pages_rows:
  assumes "rows_are key cursor tree P db" "\<And>p q. p \<in> P \<union> set ps \<Longrightarrow> q \<in> P \<union> set ps \<Longrightarrow> rp_addr p = rp_addr q \<Longrightarrow> p = q"
  shows "rows_are key cursor tree (P \<union> set ps) (fold (save_resident_page_on key cursor tree) ps db)"
  using assms
proof (induction ps arbitrary: P db)
  case (Cons p ps)
  have "rows_are key cursor tree (insert p P \<union> set ps)
      (fold (save_resident_page_on key cursor tree) ps (save_resident_page_on key cursor tree p db))"
    by (intro Cons.IH save_page_rows Cons.prems) (use Cons.prems(2) in auto)
  then show ?case by simp
qed simp

lemma save_page_config [simp]: "working_set_config (save_resident_page_on key cursor tree p db) = working_set_config db"
  by (simp add: save_resident_page_on_def Let_def)

lemma save_pages_config [simp]:
  "config_of (fold (save_resident_page_on key cursor tree) ps db) k = config_of db k"
  by (induction ps arbitrary: db) (simp_all add: config_of_def)

section \<open>Loading pages\<close>

lemma insert_all_get:
  "distinct (map rp_addr ps) \<Longrightarrow>
   op_get (fold op_insert ps op) a = (case find (\<lambda>p. rp_addr p = a) ps of Some p \<Rightarrow> Some p | None \<Rightarrow> op_get op a)"
proof (induction ps arbitrary: op)
  case (Cons p ps)
  have "rp_addr p = a \<Longrightarrow> find (\<lambda>p. rp_addr p = a) ps = None" using Cons.prems by (force simp: find_None_iff image_iff)
  then show ?case using Cons by (auto simp: op_get_insert split: option.split)
qed simp

definition page_fits :: "resident_page \<Rightarrow> bool" where
  "page_fits p \<longleftrightarrow> rp_use_count p < 2147483648 \<and> rp_last_access_ord p < 9223372036854775808"

lemma page_of_row_of_page:
  assumes "page_fits p"
  shows "page_of_row (row_of_page key cursor tree p) = p"
proof -
  have "as_i32 (rp_use_count p) = int (rp_use_count p)" "as_i64 (rp_last_access_ord p) = int (rp_last_access_ord p)"
    using assms by (simp_all add: page_fits_def as_i32_def as_i64_def Let_def)
  moreover have "page_kind_parse (page_kind_str (rp_kind p)) = Some (rp_kind p)" unfolding page_kind_parse_def by (rule page_kind_vocab.parse_as_str)
  ultimately show ?thesis by (auto simp: page_of_row_def row_of_page_def)
qed

lemma loaded_rows_are:
  assumes "rows_are key cursor tree P db"
  shows "set (loaded_rows key cursor db) = row_of_page key cursor tree ` P" "distinct (map pr_page_addr (loaded_rows key cursor db))"
proof -
  have "filter (\<lambda>r. pr_session_key r = key \<and> pr_state_cursor r = cursor \<and> pr_state r \<noteq> ''evicted'') (working_set_pages db) =
      filter (\<lambda>r. pr_state r \<noteq> ''evicted'') (session_rows key cursor db)"
    by (auto simp: session_rows_def of_session_def intro: filter_cong)
  also have "\<dots> = session_rows key cursor db"
    using assms by (intro filter_True) (auto simp: rows_are_def)
  finally have "loaded_rows key cursor db = sort_key (\<lambda>r. (pr_last_access_ord r, pr_page_addr r)) (session_rows key cursor db)"
    by (simp add: loaded_rows_def)
  then show "set (loaded_rows key cursor db) = row_of_page key cursor tree ` P" "distinct (map pr_page_addr (loaded_rows key cursor db))"
    using assms by (auto simp: rows_are_def distinct_map)
qed

lemma load_pages:
  assumes "rows_are key cursor tree P db" "\<forall>p \<in> P. page_fits p"
  shows "pages (load_working_set key cursor db) = fold op_insert (map page_of_row (loaded_rows key cursor db)) op_new"
    and "set (map page_of_row (loaded_rows key cursor db)) = P"
    and "distinct (map rp_addr (map page_of_row (loaded_rows key cursor db)))"
proof -
  show "pages (load_working_set key cursor db) = fold op_insert (map page_of_row (loaded_rows key cursor db)) op_new"
    by (simp add: load_working_set_def Let_def fold_map comp_def split: option.split)
  show "set (map page_of_row (loaded_rows key cursor db)) = P"
    using loaded_rows_are(1)[OF assms(1)] assms(2) by (simp add: image_image page_of_row_of_page)
  have "rp_addr \<circ> page_of_row = pr_page_addr" by (auto simp: page_of_row_def)
  then show "distinct (map rp_addr (map page_of_row (loaded_rows key cursor db)))"
    using loaded_rows_are(2)[OF assms(1)] by simp
qed

lemma load_pages_get:
  assumes "rows_are key cursor tree P db" "\<forall>p \<in> P. page_fits p"
  shows "op_get (pages (load_working_set key cursor db)) a = Some p \<longleftrightarrow> p \<in> P \<and> rp_addr p = a"
proof -
  let ?ps = "map page_of_row (loaded_rows key cursor db)"
  note l = load_pages[OF assms]
  have "op_get (pages (load_working_set key cursor db)) a = find (\<lambda>p. rp_addr p = a) ?ps"
    unfolding l(1) insert_all_get[OF l(3)] by (simp add: op_get_def op_new_def split: option.split)
  also have "\<dots> = Some p \<longleftrightarrow> p \<in> P \<and> rp_addr p = a"
  proof
    assume "find (\<lambda>p. rp_addr p = a) ?ps = Some p"
    then show "p \<in> P \<and> rp_addr p = a" using find_SomeD l(2) by fast
  next
    assume p: "p \<in> P \<and> rp_addr p = a"
    then obtain q where q: "find (\<lambda>p. rp_addr p = a) ?ps = Some q"
      using l(2) by (cases "find (\<lambda>p. rp_addr p = a) ?ps") (auto simp: find_None_iff)
    have "inj_on rp_addr P" using l(3) unfolding distinct_map[of rp_addr] l(2) by simp
    moreover have "q \<in> P" "rp_addr q = rp_addr p" using find_SomeD[OF q] p l(2) by auto
    ultimately have "q = p" using p by (auto dest: inj_onD)
    with q show "find (\<lambda>p. rp_addr p = a) ?ps = Some p" by simp
  qed
  finally show ?thesis .
qed

section \<open>The round trip\<close>

lemma config_of_upsert:
  assumes "cr_session_key row = key" "\<And>c. cr_session_key (f c) = cr_session_key c"
  shows "config_of (upsert_config key row f db) key = Some (case config_of db key of None \<Rightarrow> row | Some c \<Rightarrow> f c)"
proof (cases "config_of db key")
  case None
  have "find (\<lambda>c. cr_session_key c = key) xs = None \<Longrightarrow> find (\<lambda>c. cr_session_key c = key) (xs @ [row]) = Some row" for xs
    using assms(1) by (induction xs) (auto split: if_splits)
  with None show ?thesis by (simp add: config_of_def upsert_config_def)
next
  case (Some c)
  have "find (\<lambda>c. cr_session_key c = key) (map (\<lambda>c. if cr_session_key c = key then f c else c) xs) =
      map_option f (find (\<lambda>c. cr_session_key c = key) xs)" for xs
    by (induction xs) (auto simp: assms(2))
  then show ?thesis using Some by (simp add: config_of_def upsert_config_def)
qed

lemma config_saved:
  "config_of (save_working_set ws tree window ttl_secs db) (session_key ws) = Some
     \<lparr>cr_session_key = session_key ws, cr_model_window_tokens = window, cr_budget_tokens = budget_tokens ws,
      cr_policy = eviction_policy_str (policy ws), cr_ttl_secs = ttl_secs,
      cr_logical_clock = (case config_of db (session_key ws) of None \<Rightarrow> as_i64 (clock ws) | Some c \<Rightarrow> cr_logical_clock c)\<rparr>"
proof -
  have "config_of db (session_key ws) = Some c \<Longrightarrow> cr_session_key c = session_key ws" for c
    by (auto simp: config_of_def dest: find_SomeD)
  then show ?thesis
    by (auto simp: save_working_set_def save_config_on_def config_of_upsert split: option.split)
qed

lemma sat_sum:
  assumes "\<forall>x \<in> set xs. 0 \<le> x" "0 \<le> n" "n + sum_list xs \<le> i32_max"
  shows "foldl sat_add n xs = n + sum_list xs"
  using assms
proof (induction xs arbitrary: n)
  case (Cons x xs)
  have "0 \<le> sum_list xs" using Cons.prems(1) by (intro sum_list_nonneg) auto
  then have "sat_add n x = n + x" using Cons.prems unfolding sat_add_def
    by (intro clamp_i32_id) (auto simp: in_i32_def i32_min_def)
  then show ?case using Cons \<open>0 \<le> sum_list xs\<close> by simp
qed simp

lemma op_values_distinct: "op_wf op \<Longrightarrow> distinct (op_values op)"
proof -
  assume wf: "op_wf op"
  then have "map rp_addr (op_values op) = map fst (op_map op)" by (auto simp: op_wf_def op_values_def)
  then show ?thesis using wf distinct_map[of rp_addr "op_values op"] by (simp add: op_wf_def)
qed

lemma load_tokens:
  assumes "rows_are key cursor tree P db" "\<forall>p \<in> P. page_fits p" "op_wf op" "P = set_mset (op_mset op)"
    "\<forall>p \<in> P. 0 \<le> rp_est_tokens p" "total op \<le> i32_max"
  shows "resident_tokens (load_working_set key cursor db) = total op"
proof -
  let ?ps = "map page_of_row (loaded_rows key cursor db)"
  note l = load_pages[OF assms(1,2)]
  have "distinct ?ps" using l(3) unfolding distinct_map[of rp_addr] by blast
  moreover have "distinct (op_values op)" using op_values_distinct[OF assms(3)] .
  ultimately have m: "mset ?ps = op_mset op"
    using set_eq_iff_mset_eq_distinct[of ?ps "op_values op"] l(2) assms(4) by (simp add: op_mset_def del: mset_map)
  have e: "map pr_est_tokens (loaded_rows key cursor db) = map rp_est_tokens ?ps" by (simp add: page_of_row_def)
  have t: "sum_list (map rp_est_tokens ?ps) = total op"
    unfolding total_mset m[symmetric] by (simp add: multiset.map_comp flip: sum_mset_sum_list)
  have "foldl sat_add 0 (map pr_est_tokens (loaded_rows key cursor db)) = total op"
    unfolding e using sat_sum[of "map rp_est_tokens ?ps" 0] t l(2) assms(5,6) by auto
  then show ?thesis by (simp add: load_working_set_def Let_def foldl_map ws_new_def split: option.split)
qed

lemma saved_rows:
  assumes "op_wf (pages ws)" "session_rows (session_key ws) (state_cursor ws) db = []"
  shows "rows_are (session_key ws) (state_cursor ws) tree (set_mset (op_mset (pages ws))) (save_working_set ws tree window ttl_secs db)"
proof -
  have "rows_are (session_key ws) (state_cursor ws) tree {} (save_config_on ws window ttl_secs db)"
    using assms(2) by (simp add: rows_are_def session_rows_def save_config_on_def upsert_config_def)
  from save_pages_rows[OF this, of "iter_in_order (pages ws)"] show ?thesis
    using in_op_mset[OF assms(1)] set_iter[OF assms(1)] by (fastforce simp: save_working_set_def)
qed

lemma save_load_get:
  assumes "op_wf (pages ws)" "session_rows (session_key ws) (state_cursor ws) db = []" "\<forall>p \<in># op_mset (pages ws). page_fits p"
  shows "op_get (pages (load_working_set (session_key ws) (state_cursor ws) (save_working_set ws tree window ttl_secs db))) a =
    op_get (pages ws) a"
proof -
  have "op_get (pages (load_working_set (session_key ws) (state_cursor ws) (save_working_set ws tree window ttl_secs db))) a = Some p
      \<longleftrightarrow> op_get (pages ws) a = Some p" for p
    unfolding load_pages_get[OF saved_rows[OF assms(1,2)] assms(3)] in_op_mset[OF assms(1)] using op_get_addr[OF assms(1)] by auto
  then show ?thesis by (metis option.exhaust)
qed


definition saved_set :: working_set where
  "saved_set = (ws_new ''s'' 0 10 Fifo)\<lparr>resident_tokens := 3, clock := 2, ttl := Some 5, pages := two_pages\<rparr>"

definition empty_tables :: tape_db where
  "empty_tables = \<lparr>working_set_pages = [], working_set_config = []\<rparr>"

lemma saved_set_ok: "ws_ok 0 saved_set" "\<forall>p \<in># op_mset (pages saved_set). page_fits p"
proof -
  have m: "op_mset two_pages = mset [demo_page ''a'' 1 1 1, demo_page ''b'' 2 1 2]" unfolding op_mset_def by code_simp
  show "ws_ok 0 saved_set" using two_pages_wf
    by (simp add: ws_ok_def saved_set_def ws_new_def total_mset m) (simp add: page_ok_def demo_page_def i32_max_def)
  show "\<forall>p \<in># op_mset (pages saved_set). page_fits p" by (simp add: saved_set_def m page_fits_def demo_page_def)
qed


text \<open>
  Every page-in and every scratch admission ends with a save that writes a null time-to-live over
  the session's configured one, so after it the session, loaded again, has no time-to-live whatever was
  configured and whatever the set in memory holds.
\<close>

theorem persist_forgets_ttl:
  "ttl (load_working_set (session_key (pg_ws s)) cursor (pg_db (persist tree s))) = None"
  by (simp add: persist_def load_working_set_def Let_def config_saved)

definition touched_set :: working_set where
  "touched_set = saved_set\<lparr>pages := op_modify ''a'' (\<lambda>p. p\<lparr>rp_last_access_ord := 3\<rparr>) two_pages, clock := 3\<rparr>"

text \<open>
  Pages are loaded in the order of their last access, not of their admission: a session under the
  first-in-first-out policy that touched its oldest page chooses another victim after it is resumed.
\<close>

theorem resume_changes_fifo_victim:
  "select_victim find_lfu (policy touched_set) (eviction_candidates touched_set) (clock touched_set) = Some ''a'' \<and>
   (let ws' = load_working_set (session_key touched_set) (state_cursor touched_set) (save_working_set touched_set ''t'' 10 None empty_tables) in
    policy ws' = Fifo \<and> op_len (pages ws') = op_len (pages touched_set) \<and>
    select_victim find_lfu (policy ws') (eviction_candidates ws') (clock ws') = Some ''b'')"
proof -
  let ?ws = "load_working_set (session_key touched_set) (state_cursor touched_set) (save_working_set touched_set ''t'' 10 None empty_tables)"
  have "fifo_victim (eviction_candidates touched_set) = Some ''a''" by code_simp
  moreover have "fifo_victim (eviction_candidates ?ws) = Some ''b''" by code_simp
  moreover have "policy touched_set = Fifo" "policy ?ws = Fifo" "op_len (pages ?ws) = op_len (pages touched_set)" by code_simp+
  ultimately show ?thesis by (simp add: Let_def)
qed

end
