(* ===== verification/Tape_Prefetch.thy ===== *)
theory Tape_Prefetch
  imports Tape_Paging
begin

text \<open>
  Predictive prefetch (\<open>src/tape/prefetch.rs\<close>): candidates from the sources are deduplicated, ranked
  and cut to the headroom, so that paging them in cannot evict anything. A source is an argument: the
  production source queries the co-change and memory-graph tables.
\<close>

record prefetch_candidate =
  fc_addr :: string
  fc_kind :: page_kind
  fc_est_tokens :: int
  fc_importance :: rat
  fc_signal :: rat

definition candidate_rank :: "prefetch_candidate \<Rightarrow> rat" where
  "candidate_rank c = fc_signal c * fc_importance c"

text \<open>One step of the deduplication, over the map from addresses to the best candidate so far.\<close>

definition keep_best ::
  "working_set \<Rightarrow> prefetch_candidate \<Rightarrow> (string \<times> prefetch_candidate) list \<Rightarrow> (string \<times> prefetch_candidate) list" where
  "keep_best ws c best =
     (if op_contains (pages ws) (fc_addr c) then best
      else case map_of best (fc_addr c) of
        Some existing \<Rightarrow> if candidate_rank existing \<ge> candidate_rank c then best else AList.update (fc_addr c) c best
      | None \<Rightarrow> AList.update (fc_addr c) c best)"

definition ref_of_candidate :: "prefetch_candidate \<Rightarrow> page_ref" where
  "ref_of_candidate c = \<lparr>pf_addr = fc_addr c, pf_kind = fc_kind c, pf_est_tokens = fc_est_tokens c, pf_importance = fc_importance c\<rparr>"

text \<open>The greedy loop; \<open>n\<close> pages with \<open>used\<close> tokens have been taken.\<close>

primrec take_fitting :: "int \<Rightarrow> nat \<Rightarrow> int \<Rightarrow> nat \<Rightarrow> prefetch_candidate list \<Rightarrow> page_ref list" where
  "take_fitting room cap used n [] = []"
| "take_fitting room cap used n (c # cs) =
     (if n \<ge> cap then []
      else if fc_est_tokens c \<le> 0 then take_fitting room cap used n cs
      else if sat_add used (fc_est_tokens c) > room then take_fitting room cap used n cs
      else ref_of_candidate c # take_fitting room cap (sat_add used (fc_est_tokens c)) (n + 1) cs)"

definition rank_and_budget :: "prefetch_candidate list \<Rightarrow> working_set \<Rightarrow> int \<Rightarrow> nat \<Rightarrow> page_ref list" where
  "rank_and_budget candidates ws room cap =
     (let best = fold (keep_best ws) candidates [];
          ranked = sort_key (\<lambda>c. (- candidate_rank c, fc_addr c)) (map snd best) in
      take_fitting room cap 0 0 ranked)"

definition prefetch_candidates ::
  "working_set \<Rightarrow> (string \<Rightarrow> prefetch_candidate list) list \<Rightarrow> string \<Rightarrow> nat \<Rightarrow> page_ref list" where
  "prefetch_candidates ws sources anchor cap =
     (let room = max (headroom ws) 0 in
      if room = 0 then [] else rank_and_budget (concat (map (\<lambda>src. src anchor) sources)) ws room cap)"

section \<open>What is taken\<close>

definition best_ok :: "working_set \<Rightarrow> (string \<times> prefetch_candidate) list \<Rightarrow> bool" where
  "best_ok ws best \<longleftrightarrow> distinct (map fst best) \<and> (\<forall>(a, c) \<in> set best. fc_addr c = a \<and> \<not> op_contains (pages ws) a)"

lemma keep_best_ok: "best_ok ws best \<Longrightarrow> best_ok ws (keep_best ws c best)"
  using set_update_subset[of "fc_addr c" c best]
  by (auto simp: best_ok_def keep_best_def AList.distinct_update split: option.splits)

lemma fold_keep_best_ok: "best_ok ws best \<Longrightarrow> best_ok ws (fold (keep_best ws) cs best)"
  by (induction cs arbitrary: best) (auto simp: keep_best_ok)

lemma best_ok_addrs: "best_ok ws best \<Longrightarrow> map (fc_addr \<circ> snd) best = map fst best"
  by (auto simp: best_ok_def)

lemma take_fitting_budget:
  assumes "0 \<le> used" "used \<le> room" "room < i32_max"
  shows "used + sum_list (map pf_est_tokens (take_fitting room cap used n cs)) \<le> room"
  using assms
proof (induction cs arbitrary: used n)
  case (Cons c cs)
  show ?case
  proof (cases "n < cap \<and> 0 < fc_est_tokens c \<and> sat_add used (fc_est_tokens c) \<le> room")
    case True
    then have "sat_add used (fc_est_tokens c) = used + fc_est_tokens c"
      using Cons.prems by (auto simp: sat_add_def clamp_i32_def i32_min_def i32_max_def split: if_splits)
    then show ?thesis using True Cons.IH[of "used + fc_est_tokens c" "n + 1"] Cons.prems
      by (simp add: ref_of_candidate_def)
  qed (use Cons in auto)
qed simp

lemma take_fitting_refs: "set (take_fitting room cap used n cs) \<subseteq> ref_of_candidate ` {c \<in> set cs. 0 < fc_est_tokens c}"
  by (induction cs arbitrary: used n) (auto, force+)

lemma take_fitting_length: "length (take_fitting room cap used n cs) \<le> cap - n"
proof (induction cs arbitrary: used n)
  case (Cons c cs)
  show ?case using Cons.IH[of "sat_add used (fc_est_tokens c)" "n + 1"] Cons.IH[of used n] by auto
qed simp

lemma take_fitting_distinct: "distinct (map fc_addr cs) \<Longrightarrow> distinct (map pf_addr (take_fitting room cap used n cs))"
proof (induction cs arbitrary: used n)
  case (Cons c cs)
  have "pf_addr ` set (take_fitting room cap u m cs) \<subseteq> fc_addr ` set cs" for u m
    using take_fitting_refs[of room cap u m cs] by (force simp: ref_of_candidate_def)
  then show ?case using Cons by (auto simp: ref_of_candidate_def)
qed simp

lemma prefetched:
  assumes "rs = prefetch_candidates ws sources anchor cap" "0 \<le> resident_tokens ws" "resident_tokens ws \<le> budget_tokens ws"
    "budget_tokens ws < i32_max"
  shows "length rs \<le> cap" "distinct (map pf_addr rs)"
    "\<forall>r \<in> set rs. 0 < pf_est_tokens r \<and> \<not> op_contains (pages ws) (pf_addr r)"
    "resident_tokens ws + sum_list (map pf_est_tokens rs) \<le> budget_tokens ws"
proof -
  define best where "best = fold (keep_best ws) (concat (map (\<lambda>src. src anchor) sources)) []"
  define cs where "cs = sort_key (\<lambda>c. (- candidate_rank c, fc_addr c)) (map snd best)"
  have ok: "best_ok ws best" unfolding best_def by (rule fold_keep_best_ok) (simp add: best_ok_def)
  have "distinct (map fc_addr (map snd best))"
    unfolding map_map best_ok_addrs[OF ok] using ok by (simp add: best_ok_def)
  then have dist: "distinct (map fc_addr cs)" unfolding cs_def by (simp add: distinct_map[of fc_addr] del: map_map)
  have out: "\<forall>c \<in> set cs. \<not> op_contains (pages ws) (fc_addr c)" using ok by (auto simp: cs_def best_ok_def)
  have rs: "rs = [] \<or> rs = take_fitting (headroom ws) cap 0 0 cs" and room: "0 \<le> headroom ws" "headroom ws < i32_max"
    using assms by (auto simp: prefetch_candidates_def rank_and_budget_def Let_def best_def cs_def headroom_def max_def)
  show "length rs \<le> cap" using rs take_fitting_length[of "headroom ws" cap 0 0 cs] by auto
  show "distinct (map pf_addr rs)" using rs take_fitting_distinct[OF dist] by auto
  show "\<forall>r \<in> set rs. 0 < pf_est_tokens r \<and> \<not> op_contains (pages ws) (pf_addr r)"
    using rs take_fitting_refs[of "headroom ws" cap 0 0 cs] out by (force simp: ref_of_candidate_def)
  show "resident_tokens ws + sum_list (map pf_est_tokens rs) \<le> budget_tokens ws"
    using rs take_fitting_budget[of 0 "headroom ws" cap 0 cs] room assms(3) by (auto simp: headroom_def)
qed

text \<open>Candidates that all fit are accepted one after the other, with no eviction.\<close>

lemma decide_all:
  assumes "\<forall>r \<in> set rs. 0 < pf_est_tokens r \<and> \<not> op_contains (pages (pg_ws s)) (pf_addr r)" "0 \<le> resident_tokens (pg_ws s)"
    "resident_tokens (pg_ws s) + sum_list (map pf_est_tokens rs) \<le> budget_tokens (pg_ws s)" "budget_tokens (pg_ws s) < i32_max"
  shows "decide_admissions find_lfu dp tree acc rs s =
    Some (upd_ws (\<lambda>ws. ws\<lparr>resident_tokens := resident_tokens ws + sum_list (map pf_est_tokens rs)\<rparr>) s, Ok (acc @ rs))"
  using assms
proof (induction rs arbitrary: acc s)
  case Nil
  then show ?case by (simp add: upd_ws_def)
next
  case (Cons r rs)
  have nn: "0 \<le> sum_list (map pf_est_tokens rs)" using Cons.prems(1) by (intro sum_list_nonneg) force
  have sat: "sat_add (resident_tokens (pg_ws s)) (pf_est_tokens r) = resident_tokens (pg_ws s) + pf_est_tokens r"
    using Cons.prems nn unfolding sat_add_def by (intro clamp_i32_id) (auto simp: in_i32_def i32_min_def)
  define s1 where "s1 = upd_ws (add_tokens (pf_est_tokens r)) s"
  have ws1: "pg_ws s1 = (pg_ws s)\<lparr>resident_tokens := resident_tokens (pg_ws s) + pf_est_tokens r\<rparr>"
    by (simp add: s1_def add_tokens_def sat)
  have "decide_admissions find_lfu dp tree (acc @ [r]) rs s1 =
      Some (upd_ws (\<lambda>ws. ws\<lparr>resident_tokens := resident_tokens ws + sum_list (map pf_est_tokens rs)\<rparr>) s1, Ok ((acc @ [r]) @ rs))"
    using Cons.prems nn by (intro Cons.IH) (auto simp: ws1)
  moreover have "decide_admissions find_lfu dp tree acc (r # rs) s = decide_admissions find_lfu dp tree (acc @ [r]) rs s1"
    using Cons.prems nn sat by (simp add: continue_opt_def fits_def s1_def)
  ultimately show ?case by (simp add: s1_def upd_ws_def add_tokens_def sat)
qed

text \<open>
  C32: The pages prefetched for any anchor from any sources are at most \<open>cap\<close>, pairwise different, not
  resident, and fit together into the budget: the admission loop accepts all of them in order and
  changes nothing but the token account, so a prefetch never evicts a page.
\<close>

theorem prefetch_never_evicts:
  assumes "0 \<le> resident_tokens (pg_ws s)" "resident_tokens (pg_ws s) \<le> budget_tokens (pg_ws s)"
    "budget_tokens (pg_ws s) < i32_max" "rs = prefetch_candidates (pg_ws s) sources anchor cap"
  shows "length rs \<le> cap \<and> distinct (map pf_addr rs) \<and>
    decide_admissions find_lfu dp tree [] rs s =
      Some (upd_ws (\<lambda>ws. ws\<lparr>resident_tokens := resident_tokens ws + sum_list (map pf_est_tokens rs)\<rparr>) s, Ok rs) \<and>
    resident_tokens (pg_ws s) + sum_list (map pf_est_tokens rs) \<le> budget_tokens (pg_ws s)"
  using prefetched[OF assms(4,1-3)] decide_all[of rs s find_lfu dp tree "[]"] assms(1,3) by auto

definition demo_candidate :: "string \<Rightarrow> int \<Rightarrow> rat \<Rightarrow> prefetch_candidate" where
  "demo_candidate a n w = \<lparr>fc_addr = a, fc_kind = FileChunk, fc_est_tokens = n, fc_importance = 1, fc_signal = w\<rparr>"

definition half_full :: "mock_plane paging" where
  "half_full = \<lparr>pg_ws = (ws_new ''s'' 0 10 Lru)\<lparr>resident_tokens := 3, pages := two_pages\<rparr>,
     pg_db = \<lparr>working_set_pages = [], working_set_config = []\<rparr>, pg_plane = mock_new, pg_out = no_outcome\<rparr>"

theorem prefetch_never_evicts_witness:
  "\<exists>s'. decide_admissions least_used mock_data_plane ''t'' []
      (prefetch_candidates (pg_ws half_full) [\<lambda>_. [demo_candidate ''x'' 4 1, demo_candidate ''a'' 1 1, demo_candidate ''y'' 9 2,
        demo_candidate ''z'' 3 (1/2)]] ''anchor'' 8) half_full = Some (s', Ok
      (map ref_of_candidate [demo_candidate ''x'' 4 1, demo_candidate ''z'' 3 (1/2)])) \<and> resident_tokens (pg_ws s') = 10"
proof -
  let ?cs = "\<lambda>_ :: string. [demo_candidate ''x'' 4 1, demo_candidate ''a'' 1 1, demo_candidate ''y'' 9 2, demo_candidate ''z'' 3 (1/2)]"
  have h: "0 \<le> resident_tokens (pg_ws half_full)" "resident_tokens (pg_ws half_full) \<le> budget_tokens (pg_ws half_full)"
    "budget_tokens (pg_ws half_full) < i32_max" by code_simp+
  have r: "prefetch_candidates (pg_ws half_full) [?cs] ''anchor'' 8 = map ref_of_candidate [demo_candidate ''x'' 4 1, demo_candidate ''z'' 3 (1/2)]"
    by code_simp
  have "resident_tokens (pg_ws half_full) + sum_list (map pf_est_tokens (map ref_of_candidate [demo_candidate ''x'' 4 1, demo_candidate ''z'' 3 (1/2)])) = 10"
    by code_simp
  then show ?thesis
    using prefetch_never_evicts[OF h refl, of "[?cs]" "''anchor''" 8 least_used mock_data_plane "''t''"] unfolding r by simp
qed

end
