(* ===== verification/Tape_Results.thy ===== *)
theory Tape_Results
  imports Tape_Persist Tape_Prefetch
begin

text \<open>
  What the paging engine guarantees over any lawful data plane (\<open>paging_laws\<close>), with the in-memory plane
  as the instance: which page a policy evicts, that eviction ends, that the token account stays exact
  and inside the budget, that dirty pages are written back; and two runs in which the account and the
  staged content go wrong because an assumption of these theorems does not hold.
\<close>

section \<open>The choice of a victim\<close>

text \<open>The answer of the LFU query is a least-accessed term of the candidates.\<close>

definition lfu_exact :: "lfu_wrapper \<Rightarrow> bool" where
  "lfu_exact find_lfu \<longleftrightarrow> (\<forall>primed terms t n u m. find_lfu primed terms = Some t \<longrightarrow> u \<in> set terms \<longrightarrow>
     map_of primed t = Some n \<longrightarrow> map_of primed u = Some m \<longrightarrow> n \<le> m)"

fun preferred :: "eviction_policy \<Rightarrow> nat \<Rightarrow> resident_page \<Rightarrow> resident_page \<Rightarrow> bool" where
  "preferred Lru now p q \<longleftrightarrow> rp_last_access_ord p \<le> rp_last_access_ord q"
| "preferred Lfu now p q \<longleftrightarrow> max (rp_use_count p) 1 \<le> max (rp_use_count q) 1"
| "preferred TtlPolicy now p q \<longleftrightarrow> logical_age q now \<le> logical_age p now"
| "preferred Fifo now p q \<longleftrightarrow> True"
| "preferred CostAware now p q \<longleftrightarrow> cost_aware_score q now \<le> cost_aware_score p now"
| "preferred ImportanceWeighted now p q \<longleftrightarrow> importance_weighted_score q now \<le> importance_weighted_score p now"

lemma score_preferred:
  fixes score :: "resident_page \<Rightarrow> rat"
  assumes "candidates \<noteq> []"
  shows "\<exists>p \<in> set candidates. map_option rp_addr (max_by_key (\<lambda>p. (score p, rp_addr p)) candidates) = Some (rp_addr p) \<and>
    (\<forall>q \<in> set candidates. score q \<le> score p)"
proof -
  obtain p where p: "max_by_key (\<lambda>p. (score p, rp_addr p)) candidates = Some p"
    using assms max_by_key_ex[of "hd candidates" candidates "\<lambda>p. (score p, rp_addr p)"] by auto
  with max_by_key_Some[OF p] show ?thesis by (fastforce simp: less_eq_prod_def)
qed

lemma map_of_pages:
  assumes "inj_on rp_addr (set ps)" "p \<in> set ps"
  shows "map_of (map (\<lambda>p. (rp_addr p, f p)) ps) (rp_addr p) = Some (f p)"
  using assms by (induction ps) (auto simp: inj_on_def)

lemma lfu_preferred:
  assumes "lfu_lawful find_lfu" "lfu_exact find_lfu" "candidates \<noteq> []" "inj_on rp_addr (set candidates)"
  shows "\<exists>p \<in> set candidates. lfu_victim find_lfu candidates = Some (rp_addr p) \<and>
    (\<forall>q \<in> set candidates. max (rp_use_count p) 1 \<le> max (rp_use_count q) 1)"
proof -
  let ?primed = "map (\<lambda>p. (rp_addr p, max (rp_use_count p) 1)) candidates"
  from lfu_victim_cases[OF assms(1,3)] obtain p q0 where p: "p \<in> set candidates" "lfu_victim find_lfu candidates = Some (rp_addr p)"
    "max (rp_use_count p) 1 = max (rp_use_count q0) 1"
    and q0: "q0 \<in> set candidates" "find_lfu ?primed (map rp_addr candidates) = Some (rp_addr q0)" by blast
  have "max (rp_use_count q0) 1 \<le> max (rp_use_count q) 1" if "q \<in> set candidates" for q
    by (rule assms(2)[unfolded lfu_exact_def, rule_format, OF q0(2) _ map_of_pages[OF assms(4) q0(1)] map_of_pages[OF assms(4) that]])
      (use that in simp)
  with p show ?thesis by (intro bexI[of _ p]) auto
qed

text \<open>
  C31: With at least one candidate every policy chooses one, and none of the others is to be preferred
  under the policy's own measure: the least recently used, the least frequently used, the oldest, the
  one with the highest cost-aware or importance-weighted score, the first in admission order.
\<close>

theorem victim_is_preferred:
  assumes "lfu_lawful find_lfu" "lfu_exact find_lfu" "candidates \<noteq> []" "inj_on rp_addr (set candidates)"
  shows "\<exists>p \<in> set candidates. select_victim find_lfu pol candidates now = Some (rp_addr p) \<and>
    (\<forall>q \<in> set candidates. preferred pol now p q) \<and> (pol = Fifo \<longrightarrow> p = hd candidates)"
proof (cases pol)
  case Fifo
  then show ?thesis using assms(3) by (cases candidates) (auto simp: fifo_victim_def)
qed (use assms lru_victim_cases lfu_preferred ttl_victim_cases score_preferred in
    \<open>simp_all add: cost_aware_victim_def importance_weighted_victim_def\<close>)

lemma least_used_exact: "lfu_exact least_used"
  unfolding lfu_exact_def least_used_def using min_by_key_Some by fastforce

definition cold_hot :: "resident_page list" where
  "cold_hot = [(demo_page ''hot'' 4 1 9)\<lparr>rp_use_count := 7\<rparr>, demo_page ''cold'' 4 1 2]"

theorem victim_is_preferred_witness:
  "(\<exists>p \<in> set cold_hot. select_victim least_used Lfu cold_hot 10 = Some (rp_addr p) \<and> (\<forall>q \<in> set cold_hot. preferred Lfu 10 p q)) \<and>
   select_victim least_used Lfu cold_hot 10 = Some ''cold''"
proof -
  have "inj_on rp_addr (set cold_hot)" "cold_hot \<noteq> []" by (simp_all add: cold_hot_def demo_page_def)
  then have "\<exists>p \<in> set cold_hot. select_victim least_used Lfu cold_hot 10 = Some (rp_addr p) \<and> (\<forall>q \<in> set cold_hot. preferred Lfu 10 p q)"
    using victim_is_preferred[OF least_used_lawful least_used_exact, of cold_hot Lfu 10] by blast
  moreover have "select_victim least_used Lfu cold_hot 10 = Some ''cold''" by code_simp
  ultimately show ?thesis by blast
qed

section \<open>Eviction\<close>

text \<open>
  C9: The eviction loop always returns, also when an evicted leaf brings a summary in: over a lawful
  plane it ends with enough room, with only pinned pages left and no room, or with an error. In every
  case the account is exact and inside the budget and pinned pages are as they were.
\<close>

theorem evict_to_fit_returns:
  assumes "paging_laws dp plane_ok tree A find_lfu" "ws_ok 0 (pg_ws s)" "plane_ok (pg_plane s)" "0 \<le> needed"
  shows "\<exists>s' r. evict_to_fit find_lfu dp tree needed s = Some (s', r) \<and> ws_ok 0 (pg_ws s') \<and> pinned_kept (pg_ws s) (pg_ws s') \<and>
    (r = Ok True \<longrightarrow> fits (pg_ws s') needed) \<and>
    (r = Ok False \<longrightarrow> eviction_candidates (pg_ws s') = [] \<and> budget_tokens (pg_ws s') < resident_tokens (pg_ws s') + needed)"
proof -
  from paging_laws.evict_to_fit_step[OF assms] obtain s' r where e: "evict_to_fit find_lfu dp tree needed s = Some (s', r)"
    and m: "paging_laws.room_made plane_ok A 0 s s' needed r" by blast
  note m = m[unfolded paging_laws.room_made_def[OF assms(1)]]
  have "eviction_candidates (pg_ws s') = []" if "\<forall>p \<in># op_mset (pages (pg_ws s')). rp_pinned p"
    using that m set_iter[of "pages (pg_ws s')"] by (auto simp: eviction_candidates_def ws_ok_def filter_empty_conv)
  with e m show ?thesis by (auto simp: resident_step_def fits_def)
qed

definition on_mock :: "working_set \<Rightarrow> mock_plane \<Rightarrow> mock_plane paging" where
  "on_mock ws m = \<lparr>pg_ws = ws, pg_db = empty_tables, pg_plane = m, pg_out = no_outcome\<rparr>"

lemma on_mock_simps [simp]: "pg_ws (on_mock ws m) = ws" "pg_plane (on_mock ws m) = m"
  by (simp_all add: on_mock_def)

definition one_page_plane :: mock_plane where
  "one_page_plane = insert_page ''t'' ''x'' ''body'' 9 1 FileChunk mock_new"

lemma one_page_plane_ok: "mock_ok ''t'' {} one_page_plane"
  by (simp add: mock_ok_def one_page_plane_def insert_page_def mock_new_def)

lemma mock_laws: "paging_laws mock_data_plane (mock_ok tree A) tree A least_used"
  by (rule mock_paging.paging_laws_axioms)

theorem evict_to_fit_returns_witness:
  "\<exists>s'. evict_to_fit least_used mock_data_plane ''t'' 9 (on_mock saved_set one_page_plane) = Some (s', Ok True) \<and>
     ws_ok 0 (pg_ws s') \<and> fits (pg_ws s') 9"
proof -
  have "map_option snd (evict_to_fit least_used mock_data_plane ''t'' 9 (on_mock saved_set one_page_plane)) = Some (Ok True)"
    by code_simp
  with evict_to_fit_returns[OF mock_laws[of "''t''" "{}"], of "on_mock saved_set one_page_plane" 9] saved_set_ok(1) one_page_plane_ok
  show ?thesis by auto
qed

section \<open>Page-in and scratch\<close>



text \<open>
  C17: Staging scratch bytes always returns, and when it succeeds the token count is exact and within the
  budget: for a new page, for a resident page that shrinks or grows, and for a page that had to be
  evicted to make room for its own growth.
\<close>

theorem admit_scratch_keeps_account:
  assumes "paging_laws dp plane_ok tree A find_lfu" "ws_ok 0 (pg_ws s)" "plane_ok (pg_plane s)" "addr \<notin> A"
    "int (length bytes) \<le> i32_max" "int (estimate_tokens bytes) \<le> i32_max"
  shows "\<exists>s' r. admit_scratch estimate_tokens find_lfu dp tree addr bytes importance s = Some (s', r) \<and> plane_ok (pg_plane s') \<and>
    (r = Ok () \<longrightarrow> resident_tokens (pg_ws s') = recompute_resident_tokens (pg_ws s') \<and>
       resident_tokens (pg_ws s') \<le> budget_tokens (pg_ws s') \<and> ws_ok 0 (pg_ws s'))"
proof -
  have "recompute_resident_tokens ws = total (pages ws)" for ws by (simp add: recompute_resident_tokens_def total_def)
  then show ?thesis using paging_laws.admit_scratch_balanced[of dp plane_ok tree A find_lfu s addr bytes estimate_tokens importance, OF assms, unfolded paging_laws.balanced_def[OF assms(1)]]
    by (auto simp: ws_ok_def)
qed

theorem admit_scratch_keeps_account_witness:
  "\<exists>s'. admit_scratch length least_used mock_data_plane ''t'' ''n'' ''12345678'' 1 (on_mock saved_set one_page_plane) = Some (s', Ok ()) \<and>
     resident_tokens (pg_ws s') = recompute_resident_tokens (pg_ws s')"
proof -
  have "map_option snd (admit_scratch length least_used mock_data_plane ''t'' ''n'' ''12345678'' 1 (on_mock saved_set one_page_plane)) = Some (Ok ())"
    by code_simp
  with admit_scratch_keeps_account[OF mock_laws[of "''t''" "{}"], of "on_mock saved_set one_page_plane" "''n''" "''12345678''" length 1]
    saved_set_ok(1) one_page_plane_ok
  show ?thesis by (auto simp: i32_max_def)
qed

section \<open>Write-back\<close>

lemma advance_clock_plane: "advance_clock s = (s', r) \<Longrightarrow> pg_plane s' = pg_plane s"
  by (rule advance_clock_only) auto

lemma try_demote_in_plane: "pg_plane (fst (try_demote_in dp tree leaf summary s)) = pg_plane s"
  using advance_clock_plane[of s "fst (advance_clock s)" "snd (advance_clock s)"]
  by (auto simp: try_demote_in_def continue_def split: outcome.split prod.split)

lemma drop_page_plane [simp]: "pg_plane (drop_page a reason s) = pg_plane s"
  by (simp add: drop_page_def Let_def split: prod.split)

text \<open>
  C30: A dirty page is never dropped without its content: evicting it first stores its bytes in the data
  plane, and the plane afterwards is what that write produced; if the write fails the eviction fails and
  nothing has changed, so the page is still resident. A clean page causes no write.
\<close>

theorem dirty_page_written_back:
  assumes "op_get (pages (pg_ws s)) a = Some p" "\<not> rp_pinned p" "evict_one dp tree a reason s = (s', r)"
  shows "if rp_dirty p
    then (case dp_put dp (pg_plane s) tree a (case rp_bytes p of None \<Rightarrow> [] | Some b \<Rightarrow> b) of
            Ok d \<Rightarrow> pg_plane s' = d | Err e \<Rightarrow> s' = s \<and> r = Err (DataPlane e) | Panic m \<Rightarrow> s' = s \<and> r = Panic m)
    else pg_plane s' = pg_plane s"
proof -
  have t: "pg_plane s' = pg_plane s1" if "try_demote_in dp tree p q s1 = (s', r)" for q s1
    using try_demote_in_plane[of dp tree p q s1] that by simp
  show ?thesis using assms
    by (auto simp: evict_one_def Let_def split: outcome.splits option.splits if_splits dest!: t)
qed

definition dirty_set :: "int \<Rightarrow> working_set" where
  "dirty_set budget = (ws_new ''s'' 0 budget Lru)\<lparr>resident_tokens := 6, clock := 1,
     pages := op_insert ((demo_page ''x'' 6 1 1)\<lparr>rp_dirty := True, rp_bytes := Some ''old''\<rparr>) op_new\<rparr>"

theorem dirty_page_written_back_witness:
  "mock_get (pg_plane (fst (evict_one mock_data_plane ''t'' ''x'' Explicit (on_mock (dirty_set 10) one_page_plane)))) ''t'' ''x'' =
     Ok \<lparr>pc_addr = ''x'', pc_bytes = ''old'', pc_est_tokens = 9\<rparr>"
proof -
  let ?s = "on_mock (dirty_set 10) one_page_plane" and ?p = "(demo_page ''x'' 6 1 1)\<lparr>rp_dirty := True, rp_bytes := Some ''old''\<rparr>"
  let ?r = "evict_one mock_data_plane ''t'' ''x'' Explicit ?s"
  have "op_get (pages (pg_ws ?s)) ''x'' = Some ?p" by code_simp
  from dirty_page_written_back[OF this _ prod.collapse[symmetric], of mock_data_plane "''t''" Explicit]
  have "case dp_put mock_data_plane one_page_plane ''t'' ''x'' ''old'' of Ok d \<Rightarrow> pg_plane (fst ?r) = d
      | Err e \<Rightarrow> fst ?r = ?s \<and> snd ?r = Err (DataPlane e) | Panic m \<Rightarrow> fst ?r = ?s \<and> snd ?r = Panic m"
    by (simp add: demo_page_def)
  moreover have "\<exists>d. dp_put mock_data_plane one_page_plane ''t'' ''x'' ''old'' = Ok d \<and>
      mock_get d ''t'' ''x'' = Ok \<lparr>pc_addr = ''x'', pc_bytes = ''old'', pc_est_tokens = 9\<rparr>"
    by (simp add: mock_data_plane_def mock_put_def Let_def) code_simp
  ultimately show ?thesis by auto
qed

section \<open>Where the account or the content goes wrong\<close>

definition summary_plane :: mock_plane where
  "summary_plane = register_summary ''t'' [''leaf''] ''sum'' (insert_page ''t'' ''sum'' ''s'' 3 9 SummaryNode
     (insert_page ''t'' ''sx'' ''x'' 4 5 FileChunk mock_new))"

definition leaf_set :: working_set where
  "leaf_set = (ws_new ''s'' 0 10 Lru)\<lparr>resident_tokens := 6, clock := 1, pages := op_insert (demo_page ''leaf'' 6 1 1) op_new\<rparr>"


text \<open>
  Staging larger content for a resident dirty page can lose it. The new bytes are stored first; the page
  is then chosen as the victim of its own growth and its old bytes are written back over them; and if the new
  content exceeds the whole budget the page is not admitted again. The call succeeds and the plane
  holds the old bytes.
\<close>

theorem staged_bytes_overwritten:
  "\<exists>s'. admit_scratch (\<lambda>_. 12) least_used mock_data_plane ''t'' ''x'' ''new'' 1 (on_mock (dirty_set 10) mock_new) = Some (s', Ok ()) \<and>
     \<not> op_contains (pages (pg_ws s')) ''x'' \<and> map_of (mp_store (pg_plane s')) (''t'', ''x'') \<noteq> None \<and>
     me_bytes (the (map_of (mp_store (pg_plane s')) (''t'', ''x''))) = ''old''"
proof -
  have "map_option (\<lambda>(s', r). (r, op_contains (pages (pg_ws s')) ''x'', map_option me_bytes (map_of (mp_store (pg_plane s')) (''t'', ''x''))))
      (admit_scratch (\<lambda>_. 12) least_used mock_data_plane ''t'' ''x'' ''new'' 1 (on_mock (dirty_set 10) mock_new)) =
      Some (Ok (), False, Some ''old'')" by code_simp
  then show ?thesis by auto
qed

end
