(* ===== verification/Conc_Graph.thy ===== *)
theory Conc_Graph
  imports Prelude "HOL-Library.Multiset"
begin

text \<open>
  Cycles of directed graphs (\<open>src/graph/algorithms.rs\<close>): \<open>find_cycles\<close> and \<open>extract_simple_cycles\<close>.

  A graph is its number of nodes and its list of edges between indices. What the code takes from
  \<open>petgraph\<close> (Tarjan's components and the successors of a node, both in an order the library chooses) is
  a record of two functions, with their documented meaning as a locale. The depth-first search keeps
  an explicit stack; it ends because a popped path is replaced by finitely many longer ones, none
  longer than the bound.
\<close>

record digraph =
  gr_count :: nat
  gr_edges :: "(nat \<times> nat) list"

record graph_library =
  tarjan_scc :: "digraph \<Rightarrow> nat list list"
  neighbors :: "digraph \<Rightarrow> nat \<Rightarrow> nat list"

definition graph_ok :: "digraph \<Rightarrow> bool" where
  "graph_ok g \<longleftrightarrow> (\<forall>e \<in> set (gr_edges g). fst e < gr_count g \<and> snd e < gr_count g)"

definition mutual :: "digraph \<Rightarrow> nat \<Rightarrow> nat \<Rightarrow> bool" where
  "mutual g a b \<longleftrightarrow> a = b \<or> (a, b) \<in> (set (gr_edges g))\<^sup>+ \<and> (b, a) \<in> (set (gr_edges g))\<^sup>+"

section \<open>Components and simple cycles\<close>

definition find_cycles :: "graph_library \<Rightarrow> digraph \<Rightarrow> nat list list" where
  "find_cycles lib g = filter (\<lambda>scc. length scc > 1) (tarjan_scc lib g)"

text \<open>\<open>min_by_key\<close> on the indices, then \<open>rotate_left\<close>.\<close>

primrec min_pos :: "nat list \<Rightarrow> nat" where
  "min_pos [] = 0"
| "min_pos (x # xs) = (if \<forall>y \<in> set xs. x \<le> y then 0 else Suc (min_pos xs))"

definition normalize_cycle :: "nat list \<Rightarrow> nat list" where
  "normalize_cycle c = rotate (min_pos c) c"

text \<open>A hash set used to keep first occurrences only.\<close>

definition insert_new :: "'a \<Rightarrow> 'a list \<Rightarrow> 'a list" where
  "insert_new x xs = (if x \<in> set xs then xs else xs @ [x])"

definition first_occurrences :: "'a list \<Rightarrow> 'a list" where
  "first_occurrences xs = fold insert_new xs []"

text \<open>The two branches of the loop over the neighbours: a closed cycle, a longer path.\<close>

definition closes :: "nat \<Rightarrow> nat list \<Rightarrow> nat \<Rightarrow> bool" where
  "closes start path n \<longleftrightarrow> n = start \<and> length path > 1"

definition path_grows :: "nat \<Rightarrow> nat \<Rightarrow> nat list \<Rightarrow> nat \<Rightarrow> bool" where
  "path_grows start max_length path n \<longleftrightarrow> \<not> closes start path n \<and> n \<notin> set path \<and> length path < max_length"

definition search_weight :: "nat \<Rightarrow> (nat \<times> nat list) list \<Rightarrow> nat multiset" where
  "search_weight max_length stack = image_mset (\<lambda>(c, p). Suc max_length - length p) (mset stack)"

lemma search_weight_push:
  assumes "\<not> max_length < length path"
  shows "(search_weight max_length (rev (map (\<lambda>n. (n, path @ [n])) ns) @ stack),
    search_weight max_length ((current, path) # stack)) \<in> mult less_than"
proof -
  have "(search_weight max_length stack + search_weight max_length (rev (map (\<lambda>n. (n, path @ [n])) ns)),
      search_weight max_length stack + {# Suc max_length - length path #}) \<in> mult less_than"
    using assms by (intro one_step_implies_mult) (auto simp: search_weight_def)
  then show ?thesis by (simp add: search_weight_def ac_simps)
qed

function cycle_search ::
  "(nat \<Rightarrow> nat list) \<Rightarrow> nat list \<Rightarrow> nat \<Rightarrow> nat \<Rightarrow> (nat \<times> nat list) list \<Rightarrow> nat list list \<Rightarrow> nat list list" where
  "cycle_search succ scc start max_length [] found = found"
| "cycle_search succ scc start max_length ((current, path) # stack) found =
     (if length path > max_length then cycle_search succ scc start max_length stack found
      else let ns = filter (\<lambda>n. n \<in> set scc) (succ current) in
        cycle_search succ scc start max_length
          (rev (map (\<lambda>n. (n, path @ [n])) (filter (path_grows start max_length path) ns)) @ stack)
          (fold (\<lambda>n. insert_new (normalize_cycle path)) (filter (closes start path) ns) found))"
  by pat_completeness auto
termination
proof (relation "inv_image (mult less_than)
    (\<lambda>(succ, scc, start, max_length, stack, found). search_weight max_length stack)", goal_cases)
  case 1
  show ?case by (simp add: wf_mult)
next
  case (2 succ scc start max_length current path stack found)
  show ?case by (simp add: search_weight_def one_step_implies_mult[of "{#_#}" "{#}", simplified])
next
  case (3 succ scc start max_length current path stack found ns)
  then show ?case using search_weight_push by simp
qed

definition extract_simple_cycles :: "graph_library \<Rightarrow> digraph \<Rightarrow> nat list \<Rightarrow> nat \<Rightarrow> nat list list" where
  "extract_simple_cycles lib g scc max_length =
     sort_key length (first_occurrences
       (concat (map (\<lambda>start. cycle_search (neighbors lib g) scc start max_length [(start, [start])] []) scc)))"

section \<open>What the search finds\<close>

definition has_edge :: "digraph \<Rightarrow> nat \<Rightarrow> nat \<Rightarrow> bool" where
  "has_edge g a b \<longleftrightarrow> (a, b) \<in> set (gr_edges g)"

definition simple_cycle :: "('a \<Rightarrow> 'a \<Rightarrow> bool) \<Rightarrow> 'a list \<Rightarrow> bool" where
  "simple_cycle E c \<longleftrightarrow> length c > 1 \<and> distinct c \<and> successively E c \<and> E (last c) (hd c)"

lemma cycle_hd: "simple_cycle E c \<Longrightarrow> hd c \<in> set c"
  by (cases c) (auto simp: simple_cycle_def)

lemma simple_cycle_rotate1: "simple_cycle E c \<Longrightarrow> simple_cycle E (rotate1 c)"
proof -
  assume c: "simple_cycle E c"
  then obtain a b xs where "c = a # b # xs" by (cases c; cases "tl c") (auto simp: simple_cycle_def)
  with c show ?thesis using successively_append_iff[of E "b # xs" "[a]"] by (auto simp: simple_cycle_def)
qed

lemma simple_cycle_rotate: "simple_cycle E c \<Longrightarrow> simple_cycle E (rotate n c)"
  by (induction n) (auto simp: simple_cycle_rotate1)

lemma min_pos_less: "xs \<noteq> [] \<Longrightarrow> min_pos xs < length xs \<and> (\<forall>y \<in> set xs. xs ! min_pos xs \<le> y)"
proof (induction xs)
  case (Cons x xs)
  show ?case
  proof (cases "\<forall>y \<in> set xs. x \<le> y")
    case False
    then obtain y where y: "y \<in> set xs" "y < x" by (auto simp: not_le)
    then have "xs \<noteq> []" by auto
    then have m: "min_pos xs < length xs" "\<forall>a \<in> set xs. xs ! min_pos xs \<le> a" using Cons.IH by simp_all
    then have "xs ! min_pos xs \<le> x" using y by force
    then show ?thesis using False m by auto
  qed auto
qed simp

lemma min_pos_0: "(\<forall>y \<in> set xs. hd xs \<le> y) \<Longrightarrow> min_pos xs = 0"
  by (cases xs) auto

lemma hd_rotate: "k < length xs \<Longrightarrow> hd (rotate k xs) = xs ! k"
  by (simp add: rotate_drop_take hd_append hd_drop_conv_nth)

lemma normalize_idem [simp]: "normalize_cycle (normalize_cycle c) = normalize_cycle c"
proof (cases "c = []")
  case False
  then have "min_pos (normalize_cycle c) = 0"
    using min_pos_less[OF False] by (intro min_pos_0) (auto simp: normalize_cycle_def hd_rotate)
  then show ?thesis by (simp add: normalize_cycle_def[of "normalize_cycle c"])
qed (simp add: normalize_cycle_def)

lemma normalize_simple: "simple_cycle E c \<Longrightarrow> simple_cycle E (normalize_cycle c)"
  by (simp add: normalize_cycle_def simple_cycle_rotate)

lemma normalize_keeps [simp]: "set (normalize_cycle c) = set c" "length (normalize_cycle c) = length c"
  by (simp_all add: normalize_cycle_def)

lemma set_insert_new [simp]: "set (insert_new x xs) = insert x (set xs)"
  by (auto simp: insert_new_def)

lemma set_fold_insert: "set (fold (\<lambda>n. insert_new x) ns xs) = (if ns = [] then set xs else insert x (set xs))"
  by (induction ns arbitrary: xs) auto

lemma set_first_occurrences [simp]: "set (first_occurrences xs) = set xs"
proof -
  have "set (fold insert_new xs ys) = set xs \<union> set ys" for ys by (induction xs arbitrary: ys) auto
  then show ?thesis by (simp add: first_occurrences_def)
qed

text \<open>The paths the search still has to close when it pops a prefix of them.\<close>

definition closed_path :: "(nat \<Rightarrow> nat list) \<Rightarrow> nat list \<Rightarrow> nat \<Rightarrow> nat \<Rightarrow> nat list \<Rightarrow> bool" where
  "closed_path succ scc start max_length q \<longleftrightarrow> distinct q \<and> successively (\<lambda>a b. b \<in> set (succ a)) q \<and> set q \<subseteq> set scc \<and>
     1 < length q \<and> length q \<le> max_length \<and> start \<in> set (succ (last q))"

definition path_from :: "(nat \<Rightarrow> nat list) \<Rightarrow> nat list \<Rightarrow> nat \<Rightarrow> nat \<times> nat list \<Rightarrow> bool" where
  "path_from succ scc start x \<longleftrightarrow> (case x of (current, p) \<Rightarrow> p \<noteq> [] \<and> hd p = start \<and> last p = current \<and> distinct p \<and>
     successively (\<lambda>a b. b \<in> set (succ a)) p \<and> set p \<subseteq> set scc)"

definition closing :: "(nat \<Rightarrow> nat list) \<Rightarrow> nat list \<Rightarrow> nat \<Rightarrow> nat \<Rightarrow> nat list \<Rightarrow> nat list set" where
  "closing succ scc start max_length p = {q. (\<exists>r. q = p @ r) \<and> closed_path succ scc start max_length q}"

lemma closed_extensions:
  assumes "path_from succ scc start (current, p)" "length p \<le> max_length"
    "ns = filter (\<lambda>n. n \<in> set scc) (succ current)"
  shows "closing succ scc start max_length p = (if filter (closes start p) ns = [] then {} else {p}) \<union>
    (\<Union>n \<in> set (filter (path_grows start max_length p) ns). closing succ scc start max_length (p @ [n]))"
    (is "_ = ?a \<union> ?b")
proof -
  have p: "p \<noteq> []" "hd p = start" "last p = current" "start \<in> set scc" "start \<in> set p"
    "distinct p" "successively (\<lambda>a b. b \<in> set (succ a)) p" "set p \<subseteq> set scc"
    using assms(1) by (auto simp: path_from_def)
  have "q \<in> ?a \<union> ?b" if q: "q \<in> closing succ scc start max_length p" for q
  proof -
    from q obtain r where r: "q = p @ r" and c: "closed_path succ scc start max_length q" by (auto simp: closing_def)
    show ?thesis
    proof (cases r)
      case Nil
      then show ?thesis using r c p by (auto simp: closed_path_def closes_def assms(3) filter_empty_conv)
    next
      case (Cons n r')
      then have "n \<in> set (filter (path_grows start max_length p) ns)"
        using r c p by (auto simp: closed_path_def successively_append_iff path_grows_def closes_def assms(3))
      moreover have "q \<in> closing succ scc start max_length (p @ [n])" using r c Cons by (auto simp: closing_def)
      ultimately show ?thesis by blast
    qed
  qed
  moreover have "?a \<subseteq> closing succ scc start max_length p"
    using p assms(2) by (auto simp: closing_def closed_path_def closes_def assms(3) filter_empty_conv)
  moreover have "?b \<subseteq> closing succ scc start max_length p" by (auto simp: closing_def)
  ultimately show ?thesis by blast
qed

lemma cycle_search_set:
  assumes "\<forall>x \<in> set stack. path_from succ scc start x"
  shows "set (cycle_search succ scc start max_length stack found) =
    set found \<union> normalize_cycle ` (\<Union>x \<in> set stack. closing succ scc start max_length (snd x))"
  using assms
proof (induction succ scc start max_length stack found rule: cycle_search.induct)
  case (2 succ scc start max_length current p stack found)
  show ?case
  proof (cases "length p > max_length")
    case True
    then have "closing succ scc start max_length p = {}" by (auto simp: closing_def closed_path_def)
    with True 2 show ?thesis by simp
  next
    case False
    define ns where "ns = filter (\<lambda>n. n \<in> set scc) (succ current)"
    define new where "new = rev (map (\<lambda>n. (n, p @ [n])) (filter (path_grows start max_length p) ns))"
    have cur: "path_from succ scc start (current, p)" using "2.prems" by simp
    have ok: "\<forall>x \<in> set (new @ stack). path_from succ scc start x"
      using "2.prems" by (auto simp: new_def ns_def path_from_def path_grows_def successively_append_iff)
    have "closing succ scc start max_length p = (if filter (closes start p) ns = [] then {} else {p}) \<union>
        (\<Union>x \<in> set new. closing succ scc start max_length (snd x))"
      using closed_extensions[OF cur _ ns_def, of max_length] False by (simp add: new_def)
    moreover have "cycle_search succ scc start max_length ((current, p) # stack) found = cycle_search succ scc start max_length
        (new @ stack) (fold (\<lambda>n. insert_new (normalize_cycle p)) (filter (closes start p) ns) found)"
      using False by (simp add: Let_def ns_def new_def)
    ultimately show ?thesis
      using "2.IH"(2)[OF False ns_def] ok by (simp add: new_def set_fold_insert image_Un Un_ac)
  qed
qed simp

lemma extract_set:
  "c \<in> set (extract_simple_cycles lib g scc max_length) \<longleftrightarrow>
   simple_cycle (\<lambda>a b. b \<in> set (neighbors lib g a)) c \<and> set c \<subseteq> set scc \<and> length c \<le> max_length \<and> normalize_cycle c = c"
   (is "?l \<longleftrightarrow> ?r")
proof -
  let ?E = "\<lambda>a b. b \<in> set (neighbors lib g a)"
  have search: "set (cycle_search (neighbors lib g) scc start max_length [(start, [start])] []) =
      normalize_cycle ` {q. simple_cycle ?E q \<and> hd q = start \<and> set q \<subseteq> set scc \<and> length q \<le> max_length}"
    if "start \<in> set scc" for start
  proof -
    have "path_from (neighbors lib g) scc start (start, [start])" using that by (simp add: path_from_def)
    moreover have "q \<in> closing (neighbors lib g) scc start max_length [start] \<longleftrightarrow>
        simple_cycle ?E q \<and> hd q = start \<and> set q \<subseteq> set scc \<and> length q \<le> max_length" for q
      by (cases q) (auto simp: closing_def closed_path_def simple_cycle_def)
    ultimately show ?thesis by (subst cycle_search_set) auto
  qed
  have "?l \<longleftrightarrow> (\<exists>q. c = normalize_cycle q \<and> simple_cycle ?E q \<and> hd q \<in> set scc \<and> set q \<subseteq> set scc \<and> length q \<le> max_length)"
    by (auto simp: extract_simple_cycles_def search simp del: cycle_search.simps)
  moreover have "hd q \<in> set q" if "simple_cycle ?E q" for q using that by (rule cycle_hd)
  ultimately show ?thesis using normalize_simple[of ?E] by (auto; metis normalize_idem normalize_keeps subsetD)
qed

section \<open>The library\<close>

text \<open>The members of a cycle reach each other.\<close>

lemma successively_reaches: "successively E (x # xs) \<Longrightarrow> y \<in> set (x # xs) \<Longrightarrow> (x, y) \<in> {(a, b). E a b}\<^sup>*"
proof (induction xs arbitrary: x)
  case (Cons z zs)
  show ?case
  proof (cases "y = x")
    case False
    then have "(z, y) \<in> {(a, b). E a b}\<^sup>*" using Cons by auto
    moreover have "(x, z) \<in> {(a, b). E a b}" using Cons.prems(1) by simp
    ultimately show ?thesis by (rule converse_rtrancl_into_rtrancl[rotated])
  qed simp
qed simp

lemma cycle_reaches:
  assumes "simple_cycle E c" "a \<in> set c" "b \<in> set c"
  shows "(a, b) \<in> {(a, b). E a b}\<^sup>+"
proof -
  obtain k where k: "k < length c" "c ! k = a" using assms(2) by (auto simp: in_set_conv_nth)
  let ?d = "rotate k c"
  have d: "simple_cycle E ?d" "hd ?d = a" "b \<in> set ?d" using simple_cycle_rotate[OF assms(1)] k assms(3) by (simp_all add: hd_rotate)
  then obtain x xs where x: "?d = x # xs" by (cases ?d) (auto simp: simple_cycle_def)
  have "(x, last ?d) \<in> {(a, b). E a b}\<^sup>*" "(x, b) \<in> {(a, b). E a b}\<^sup>*"
    using successively_reaches[of E x xs] d x by (auto simp: simple_cycle_def)
  moreover have "(last ?d, x) \<in> {(a, b). E a b}" using d(1) x by (auto simp: simple_cycle_def)
  ultimately show ?thesis using d(2) x by (auto intro: rtrancl_into_trancl1 trancl_rtrancl_trancl)
qed

lemma edges_as_relation: "{(a, b). has_edge g a b} = set (gr_edges g)"
  by (auto simp: has_edge_def)

text \<open>
  What \<open>petgraph\<close> documents: the neighbours of a node are its successors, and the components
  partition the nodes by mutual reachability.
\<close>

locale graph_laws =
  fixes lib :: graph_library
  assumes neighbors_set: "set (neighbors lib g a) = {b. has_edge g a b}"
    and components_cover: "graph_ok g \<Longrightarrow> \<Union> (set ` set (tarjan_scc lib g)) = {..<gr_count g}"
    and component_mutual: "graph_ok g \<Longrightarrow> scc \<in> set (tarjan_scc lib g) \<Longrightarrow> a \<in> set scc \<Longrightarrow>
      b \<in> set scc \<longleftrightarrow> b < gr_count g \<and> mutual g a b"
    and component_distinct: "graph_ok g \<Longrightarrow> scc \<in> set (tarjan_scc lib g) \<Longrightarrow> distinct scc"
begin

text \<open>In a component of more than one node every node has a successor.\<close>

lemma component_successor:
  assumes "graph_ok g" "scc \<in> set (find_cycles lib g)" "a \<in> set scc"
  obtains b where "b \<in> set scc" "has_edge g a b"
proof -
  let ?E = "set (gr_edges g)"
  have scc: "scc \<in> set (tarjan_scc lib g)" "length scc > 1" using assms(2) by (auto simp: find_cycles_def)
  have "card (set scc) > 1" using scc component_distinct[OF assms(1)] by (simp add: distinct_card)
  moreover have "card (set scc) \<le> 1" if "set scc \<subseteq> {a}" using card_mono[OF _ that] by simp
  ultimately obtain b where b: "b \<in> set scc" "b \<noteq> a" by fastforce
  then have "(a, b) \<in> ?E\<^sup>+" "(b, a) \<in> ?E\<^sup>+" using component_mutual[OF assms(1) scc(1) assms(3)] by (auto simp: mutual_def)
  then obtain c where c: "(a, c) \<in> ?E" "(c, a) \<in> ?E\<^sup>+"
    by (metis converse_tranclE trancl_trans)
  then have "c < gr_count g" "mutual g a c" using assms(1) by (auto simp: graph_ok_def mutual_def)
  then have "c \<in> set scc" using component_mutual[OF assms(1) scc(1) assms(3)] by blast
  then show thesis using that c(1) by (simp add: has_edge_def)
qed

lemma cycle_in_component:
  assumes "graph_ok g" "simple_cycle (has_edge g) c"
  shows "\<exists>scc \<in> set (find_cycles lib g). set c \<subseteq> set scc"
proof -
  have len: "length c > 1" "distinct c" "hd c \<in> set c" using assms(2) cycle_hd[OF assms(2)] by (auto simp: simple_cycle_def)
  have reach: "(a, b) \<in> (set (gr_edges g))\<^sup>+" if "a \<in> set c" "b \<in> set c" for a b
    using cycle_reaches[OF assms(2) that] by (simp add: edges_as_relation)
  have node: "b < gr_count g" if "b \<in> set c" for b
    using reach[OF that that] assms(1) by (cases rule: tranclE) (auto simp: graph_ok_def)
  then obtain scc where scc: "scc \<in> set (tarjan_scc lib g)" "hd c \<in> set scc"
    using components_cover[OF assms(1)] len(3) by blast
  have sub: "set c \<subseteq> set scc"
    using component_mutual[OF assms(1) scc] reach len(3) node by (auto simp: mutual_def)
  have "length c \<le> length scc" using card_mono[OF _ sub] card_length[of scc] len(2) by (simp add: distinct_card)
  then show ?thesis using scc sub len(1) by (auto simp: find_cycles_def intro!: bexI[of _ scc])
qed

text \<open>Every simple cycle up to the bound is found, up to rotation, and nothing else.\<close>

lemma cycles_found:
  assumes "graph_ok g"
  shows "(\<exists>scc \<in> set (find_cycles lib g). c \<in> set (extract_simple_cycles lib g scc max_length)) \<longleftrightarrow>
    simple_cycle (has_edge g) c \<and> length c \<le> max_length \<and> normalize_cycle c = c"
proof -
  have "(\<lambda>a b. b \<in> set (neighbors lib g a)) = has_edge g" by (simp add: neighbors_set)
  then show ?thesis using cycle_in_component[OF assms, of c] by (auto simp: extract_set)
qed

end

section \<open>A reference implementation\<close>

definition reference_library :: graph_library where
  "reference_library = \<lparr>
     tarjan_scc = (\<lambda>g. map (\<lambda>a. filter (mutual g a) [0..<gr_count g])
       (filter (\<lambda>a. \<forall>b \<in> set [0..<a]. \<not> mutual g b a) [0..<gr_count g])),
     neighbors = (\<lambda>g a. map snd (filter (\<lambda>e. fst e = a) (gr_edges g)))\<rparr>"

lemma mutual_sym: "mutual g a b \<Longrightarrow> mutual g b a" by (auto simp: mutual_def)
lemma mutual_trans: "mutual g a b \<Longrightarrow> mutual g b c \<Longrightarrow> mutual g a c"
  unfolding mutual_def by (metis trancl_trans)

interpretation reference: graph_laws reference_library
proof
  fix g a show "set (neighbors reference_library g a) = {b. has_edge g a b}"
    by (force simp: reference_library_def has_edge_def)
next
  fix g
  have "\<exists>a < gr_count g. (\<forall>b \<in> {0..<a}. \<not> mutual g b a) \<and> mutual g a x" if "x < gr_count g" for x
  proof -
    have "mutual g x x" by (simp add: mutual_def)
    define a where "a = (LEAST a. mutual g a x)"
    have a: "mutual g a x" unfolding a_def by (rule LeastI) fact
    have "\<not> mutual g b x" if "b < a" for b using that unfolding a_def by (rule not_less_Least)
    then have "\<forall>b < a. \<not> mutual g b a" using mutual_trans[OF _ a] by blast
    moreover have "a \<le> x" unfolding a_def by (rule Least_le) fact
    ultimately show ?thesis using a that by (intro exI[of _ a]) auto
  qed
  then show "\<Union> (set ` set (tarjan_scc reference_library g)) = {..<gr_count g}"
    by (auto simp: reference_library_def)
next
  fix g scc a b assume "scc \<in> set (tarjan_scc reference_library g)" "a \<in> set scc"
  then show "b \<in> set scc \<longleftrightarrow> b < gr_count g \<and> mutual g a b"
    by (auto simp: reference_library_def intro: mutual_trans dest: mutual_trans[OF mutual_sym])
next
  fix g scc assume "scc \<in> set (tarjan_scc reference_library g)"
  then show "distinct scc" by (auto simp: reference_library_def)
qed

end
