(* ===== verification/Conc_Locks.thy ===== *)
theory Conc_Locks
  imports Complex_Main Conc_Graph Tracker_Vocab "HOL-Library.AList"
begin

text \<open>
  The lock-order analysis: the edges and cycles of \<open>src/graph/lock_order.rs\<close>, the glue of
  \<open>src/concurrency/mod.rs\<close> that turns the rows of \<open>sync_ops\<close> and the call edges into its input, and the
  scores of \<open>src/concurrency/severity.rs\<close>.

  A \<open>HashMap\<close> is an association list in the order in which it is iterated; \<open>f32\<close> is a rational number.
  The rows and call edges are what the queries of \<open>src/db/queries/sync_ops.rs\<close> return, in their order.
\<close>

section \<open>Operations\<close>

datatype sync_op_kind = OpAcquire | OpAcquireRead | OpAcquireWrite | OpRelease | OpSend | OpSendPersistent
  | OpRecv | OpRecvPersistent | OpSpawn | OpAwait | OpSelect

definition sync_op_kind_all :: "sync_op_kind list" where
  "sync_op_kind_all = [OpAcquire, OpAcquireRead, OpAcquireWrite, OpRelease, OpSend, OpSendPersistent,
     OpRecv, OpRecvPersistent, OpSpawn, OpAwait, OpSelect]"

fun sync_op_kind_str :: "sync_op_kind \<Rightarrow> string" where
  "sync_op_kind_str OpAcquire = ''acquire''"
| "sync_op_kind_str OpAcquireRead = ''acquire_read''"
| "sync_op_kind_str OpAcquireWrite = ''acquire_write''"
| "sync_op_kind_str OpRelease = ''release''"
| "sync_op_kind_str OpSend = ''send''"
| "sync_op_kind_str OpSendPersistent = ''send_persistent''"
| "sync_op_kind_str OpRecv = ''recv''"
| "sync_op_kind_str OpRecvPersistent = ''recv_persistent''"
| "sync_op_kind_str OpSpawn = ''spawn''"
| "sync_op_kind_str OpAwait = ''await''"
| "sync_op_kind_str OpSelect = ''select''"

definition sync_op_kind_parse :: "string \<Rightarrow> sync_op_kind option" where
  "sync_op_kind_parse = parse_in sync_op_kind_all sync_op_kind_str"

interpretation sync_op_kind_vocab: closed_vocabulary sync_op_kind_all sync_op_kind_str
proof
  show "set sync_op_kind_all = UNIV" using sync_op_kind.exhaust by (auto simp: sync_op_kind_all_def)
  show "distinct sync_op_kind_all" by (simp add: sync_op_kind_all_def)
  show "inj sync_op_kind_str"
  proof (rule injI)
    fix x y assume "sync_op_kind_str x = sync_op_kind_str y"
    then show "x = y" by (cases x; cases y) simp_all
  qed
qed

record sync_op_row =
  so_symbol_id :: int
  so_seq :: int
  so_op_kind :: string
  so_resource_key :: "string option"
  so_confidence :: rat
  so_line :: int

datatype acq_mode = ReadMode | WriteMode

datatype lock_event =
    Acquire (ev_key: string) (ev_mode: acq_mode) (ev_conf: rat) (ev_line: int)
  | Release (ev_key: string)
  | CallSite (ev_callee: int)

record reach_acq =
  ra_mode :: acq_mode
  ra_conf :: rat
  ra_symbol_id :: int
  ra_line :: int

record lock_edge =
  le_from :: string
  le_to :: string
  le_from_mode :: acq_mode
  le_to_mode :: acq_mode
  le_min_confidence :: rat
  le_interprocedural :: bool
  le_held_symbol :: int
  le_held_line :: int
  le_acquired_symbol :: int
  le_acquired_line :: int
  le_via_callee :: "int option"

record lock_cycle =
  lc_resources :: "string list"
  lc_edges :: "lock_edge list"

record held_lock =
  hl_key :: string
  hl_mode :: acq_mode
  hl_conf :: rat
  hl_line :: int

section \<open>Edges\<close>

definition direct_edge :: "int \<Rightarrow> string \<Rightarrow> acq_mode \<Rightarrow> rat \<Rightarrow> int \<Rightarrow> held_lock \<Rightarrow> lock_edge" where
  "direct_edge symb key mode conf line h =
     \<lparr>le_from = hl_key h, le_to = key, le_from_mode = hl_mode h, le_to_mode = mode,
      le_min_confidence = min (hl_conf h) conf, le_interprocedural = False, le_held_symbol = symb, le_held_line = hl_line h,
      le_acquired_symbol = symb, le_acquired_line = line, le_via_callee = None\<rparr>"

definition callee_edge :: "int \<Rightarrow> int \<Rightarrow> string \<Rightarrow> reach_acq \<Rightarrow> held_lock \<Rightarrow> lock_edge" where
  "callee_edge symb callee key r h =
     \<lparr>le_from = hl_key h, le_to = key, le_from_mode = hl_mode h, le_to_mode = ra_mode r,
      le_min_confidence = min (hl_conf h) (ra_conf r), le_interprocedural = True, le_held_symbol = symb, le_held_line = hl_line h,
      le_acquired_symbol = ra_symbol_id r, le_acquired_line = ra_line r, le_via_callee = Some callee\<rparr>"

text \<open>\<open>rposition\<close> and \<open>remove\<close>: the last lock held under the key goes.\<close>

definition drop_last :: "('a \<Rightarrow> bool) \<Rightarrow> 'a list \<Rightarrow> 'a list" where
  "drop_last P xs = rev (case dropWhile (\<lambda>x. \<not> P x) (rev xs) of
     [] \<Rightarrow> rev xs | x # rest \<Rightarrow> takeWhile (\<lambda>x. \<not> P x) (rev xs) @ rest)"

text \<open>One event of a symbol: the locks held after it and the edges it adds.\<close>

fun lock_step ::
  "(int \<times> (string \<times> reach_acq) list) list \<Rightarrow> rat \<Rightarrow> int \<Rightarrow> lock_event \<Rightarrow> held_lock list \<Rightarrow> held_lock list \<times> lock_edge list" where
  "lock_step reachable min_conf symb (Acquire key mode conf line) held =
     (if conf < min_conf \<or> key = [] then (held, [])
      else (held @ [\<lparr>hl_key = key, hl_mode = mode, hl_conf = conf, hl_line = line\<rparr>],
            map (direct_edge symb key mode conf line) (filter (\<lambda>h. hl_key h \<noteq> key) held)))"
| "lock_step reachable min_conf symb (Release key) held = (drop_last (\<lambda>h. hl_key h = key) held, [])"
| "lock_step reachable min_conf symb (CallSite callee) held =
     (held, if held = [] then [] else case map_of reachable callee of None \<Rightarrow> []
        | Some reach \<Rightarrow> concat (map (\<lambda>(key, r). if ra_conf r < min_conf then []
            else map (callee_edge symb callee key r) (filter (\<lambda>h. hl_key h \<noteq> key) held)) reach))"

primrec symbol_edges ::
  "(int \<times> (string \<times> reach_acq) list) list \<Rightarrow> rat \<Rightarrow> int \<Rightarrow> lock_event list \<Rightarrow> held_lock list \<Rightarrow> lock_edge list" where
  "symbol_edges reachable min_conf symb [] held = []"
| "symbol_edges reachable min_conf symb (e # es) held =
     (let (held', new) = lock_step reachable min_conf symb e held in new @ symbol_edges reachable min_conf symb es held')"

definition build_lock_order ::
  "(int \<times> lock_event list) list \<Rightarrow> (int \<times> (string \<times> reach_acq) list) list \<Rightarrow> rat \<Rightarrow> lock_edge list" where
  "build_lock_order events_by_symbol reachable min_conf =
     concat (map (\<lambda>(symb, events). symbol_edges reachable min_conf symb events []) events_by_symbol)"

section \<open>Cycles\<close>

definition is_all_read :: "lock_cycle \<Rightarrow> bool" where
  "is_all_read c \<longleftrightarrow> lc_edges c \<noteq> [] \<and> list_all (\<lambda>e. le_from_mode e = ReadMode \<and> le_to_mode e = ReadMode) (lc_edges c)"

text \<open>The confidence of a cycle; without edges it is infinite, here \<open>None\<close>.\<close>

definition min_confidence :: "lock_cycle \<Rightarrow> rat option" where
  "min_confidence c = fold (\<lambda>e m. Some (case m of None \<Rightarrow> le_min_confidence e | Some x \<Rightarrow> min x (le_min_confidence e)))
     (lc_edges c) None"

primrec index_of :: "'a \<Rightarrow> 'a list \<Rightarrow> nat" where
  "index_of x [] = 0"
| "index_of x (y # ys) = (if x = y then 0 else Suc (index_of x ys))"

text \<open>Nodes in the order in which the edges mention them; the graph on their indices.\<close>

definition lock_nodes :: "lock_edge list \<Rightarrow> string list" where
  "lock_nodes edges = fold (\<lambda>e ns. insert_new (le_to e) (insert_new (le_from e) ns)) edges []"

definition lock_graph :: "lock_edge list \<Rightarrow> digraph" where
  "lock_graph edges = (let ns = lock_nodes edges in
     \<lparr>gr_count = length ns, gr_edges = map (\<lambda>e. (index_of (le_from e) ns, index_of (le_to e) ns)) edges\<rparr>)"

text \<open>The representative of a pair: the first edge of the highest confidence.\<close>

definition best_edge :: "lock_edge list \<Rightarrow> string \<Rightarrow> string \<Rightarrow> lock_edge option" where
  "best_edge edges a b = fold (\<lambda>e best. if le_from e = a \<and> le_to e = b
       then (case best of Some p \<Rightarrow> if le_min_confidence p \<ge> le_min_confidence e then best else Some e | None \<Rightarrow> Some e)
       else best) edges None"

primrec all_some :: "'a option list \<Rightarrow> 'a list option" where
  "all_some [] = Some []"
| "all_some (x # xs) = (case x of None \<Rightarrow> None | Some y \<Rightarrow> map_option ((#) y) (all_some xs))"

definition cycle_edges :: "lock_edge list \<Rightarrow> string list \<Rightarrow> lock_edge list option" where
  "cycle_edges edges keys = all_some (map (\<lambda>(a, b). best_edge edges a b) (zip keys (rotate1 keys)))"

definition find_lock_cycles :: "graph_library \<Rightarrow> lock_edge list \<Rightarrow> nat \<Rightarrow> lock_cycle list" where
  "find_lock_cycles lib edges max_cycle_len =
     (if edges = [] then [] else
      let g = lock_graph edges; ns = lock_nodes edges;
          candidates = concat (map (\<lambda>scc. extract_simple_cycles lib g scc max_cycle_len) (find_cycles lib g));
          keyed = first_occurrences (filter (\<lambda>ks. length ks \<ge> 2) (map (map (\<lambda>i. ns ! i)) candidates)) in
      List.map_filter (\<lambda>ks. map_option (\<lambda>es. \<lparr>lc_resources = ks, lc_edges = es\<rparr>) (cycle_edges edges ks)) keyed)"

end
