(* ===== verification/Conc_Analysis.thy ===== *)
theory Conc_Analysis
  imports Conc_Locks "HOL-Library.Product_Lexorder"
begin

text \<open>
  The analysis of a project (\<open>src/concurrency/mod.rs\<close>): the event streams of the symbols, the locks a
  symbol can reach within a number of calls (a breadth-first search over callers from every symbol that
  acquires), the edges, and the findings with their severity (\<open>src/concurrency/severity.rs\<close>). Line
  numbers are not negative, so the casts to \<open>u32\<close> keep them.
\<close>

record lock_order_options =
  lo_max_call_depth :: nat
  lo_confidence_floor :: rat
  lo_max_cycle_len :: nat
  lo_call_confidence :: rat

definition default_options :: lock_order_options where
  "default_options = \<lparr>lo_max_call_depth = 5, lo_confidence_floor = 3 / 10, lo_max_cycle_len = 6, lo_call_confidence = 1 / 2\<rparr>"

section \<open>Event streams\<close>

definition row_to_event :: "sync_op_row \<Rightarrow> lock_event option" where
  "row_to_event r = (case sync_op_kind_parse (so_op_kind r) of
     Some OpAcquire \<Rightarrow> map_option (\<lambda>key. Acquire key WriteMode (so_confidence r) (so_line r)) (so_resource_key r)
   | Some OpAcquireWrite \<Rightarrow> map_option (\<lambda>key. Acquire key WriteMode (so_confidence r) (so_line r)) (so_resource_key r)
   | Some OpAcquireRead \<Rightarrow> map_option (\<lambda>key. Acquire key ReadMode (so_confidence r) (so_line r)) (so_resource_key r)
   | Some OpRelease \<Rightarrow> map_option Release (so_resource_key r)
   | _ \<Rightarrow> None)"

text \<open>\<open>entry(k).or_default()\<close> with the change made to the entry.\<close>

definition at_entry :: "'k \<Rightarrow> ('v list \<Rightarrow> 'v list) \<Rightarrow> ('k \<times> 'v list) list \<Rightarrow> ('k \<times> 'v list) list" where
  "at_entry k f m = AList.update k (f (case map_of m k of None \<Rightarrow> [] | Some v \<Rightarrow> v)) m"

definition merge_acq :: "string \<Rightarrow> reach_acq \<Rightarrow> (string \<times> reach_acq) list \<Rightarrow> (string \<times> reach_acq) list" where
  "merge_acq key r m = (case map_of m key of
     Some e \<Rightarrow> if ra_conf r > ra_conf e then AList.update key r m else m
   | None \<Rightarrow> AList.update key r m)"

type_synonym keyed_event = "(int \<times> nat \<times> int) \<times> lock_event"

definition add_row :: "sync_op_row \<Rightarrow> (int \<times> keyed_event list) list \<times> (int \<times> (string \<times> reach_acq) list) list
    \<Rightarrow> (int \<times> keyed_event list) list \<times> (int \<times> (string \<times> reach_acq) list) list" where
  "add_row r st = (case row_to_event r of None \<Rightarrow> st
   | Some ev \<Rightarrow>
      (at_entry (so_symbol_id r) (\<lambda>es. es @ [((so_line r, 0, so_seq r), ev)]) (fst st),
       case ev of Acquire key mode conf line \<Rightarrow>
           at_entry (so_symbol_id r) (merge_acq key \<lparr>ra_mode = mode, ra_conf = conf, ra_symbol_id = so_symbol_id r, ra_line = line\<rparr>) (snd st)
       | _ \<Rightarrow> snd st))"

definition add_call :: "int \<times> int \<times> int \<Rightarrow> (int \<times> keyed_event list) list \<Rightarrow> (int \<times> keyed_event list) list" where
  "add_call c es = (case c of (source, target, line) \<Rightarrow> at_entry source (\<lambda>es. es @ [((line, 1, 0), CallSite target)]) es)"

definition callers_of :: "(int \<times> int \<times> int) list \<Rightarrow> (int \<times> int list) list" where
  "callers_of calls = fold (\<lambda>(source, target, line). at_entry target (\<lambda>cs. cs @ [source])) calls []"

definition ordered_events :: "sync_op_row list \<Rightarrow> (int \<times> int \<times> int) list \<Rightarrow> (int \<times> lock_event list) list" where
  "ordered_events rows calls = map (\<lambda>(s, es). (s, map snd (sort_key fst es))) (fold add_call calls (fst (fold add_row rows ([], []))))"

definition direct_acquires :: "sync_op_row list \<Rightarrow> (int \<times> (string \<times> reach_acq) list) list" where
  "direct_acquires rows = snd (fold add_row rows ([], []))"

section \<open>Locks within reach\<close>

definition fresh_callers :: "(int \<times> int list) list \<Rightarrow> int \<Rightarrow> int list \<Rightarrow> int list" where
  "fresh_callers callers node visited = (case map_of callers node of None \<Rightarrow> []
     | Some cs \<Rightarrow> first_occurrences (filter (\<lambda>c. c \<notin> set visited) cs))"

lemma first_occurrences_distinct: "distinct (first_occurrences xs)"
proof -
  have "distinct ys \<Longrightarrow> distinct (fold insert_new xs ys)" for ys
    by (induction xs arbitrary: ys) (auto simp: insert_new_def)
  then show ?thesis by (simp add: first_occurrences_def)
qed

lemma fresh_callers_props:
  "distinct (fresh_callers callers node visited)" "set (fresh_callers callers node visited) \<inter> set visited = {}"
  "set (fresh_callers callers node visited) \<subseteq> \<Union> (set ` snd ` set callers)"
  by (auto simp: fresh_callers_def first_occurrences_distinct split: option.split) (force dest: map_of_SomeD[OF sym])

definition search_left :: "(int \<times> int list) list \<Rightarrow> (int \<times> nat) list \<Rightarrow> int list \<Rightarrow> nat" where
  "search_left callers queue visited = length queue + card (\<Union> (set ` snd ` set callers) - set visited)"

lemma search_left_less:
  assumes "set new \<subseteq> \<Union> (set ` snd ` set callers)" "set new \<inter> set visited = {}" "distinct new"
  shows "search_left callers (queue @ map f new) (visited @ new) < search_left callers (x # queue) visited"
proof -
  let ?U = "\<Union> (set ` snd ` set callers)"
  have "card (?U - set visited) = card (?U - set (visited @ new)) + length new"
  proof -
    have "?U - set visited = (?U - set (visited @ new)) \<union> set new" using assms by auto
    moreover have "card ((?U - set (visited @ new)) \<union> set new) = card (?U - set (visited @ new)) + card (set new)"
      by (rule card_Un_disjoint) auto
    ultimately show ?thesis using assms(3) by (simp add: distinct_card)
  qed
  then show ?thesis by (simp add: search_left_def)
qed

text \<open>The reverse search from one acquiring symbol: its acquisitions reach every caller within the depth.\<close>

function spread ::
  "(int \<times> int list) list \<Rightarrow> nat \<Rightarrow> (string \<times> reach_acq) list \<Rightarrow> (int \<times> nat) list \<Rightarrow> int list
     \<Rightarrow> (int \<times> (string \<times> reach_acq) list) list \<Rightarrow> (int \<times> (string \<times> reach_acq) list) list" where
  "spread callers depth acqs [] visited reach = reach"
| "spread callers depth acqs ((node, d) # queue) visited reach =
     (let new = (if d < depth then fresh_callers callers node visited else []) in
      spread callers depth acqs (queue @ map (\<lambda>c. (c, d + 1)) new) (visited @ new)
        (at_entry node (fold (\<lambda>(key, r). merge_acq key r) acqs) reach))"
  by pat_completeness auto
termination
proof (relation "measure (\<lambda>(callers, depth, acqs, queue, visited, reach). search_left callers queue visited)", goal_cases)
  case (2 callers depth acqs node d queue visited reach new)
  have "set new \<subseteq> \<Union> (set ` snd ` set callers)" "set new \<inter> set visited = {}" "distinct new"
    using fresh_callers_props[of callers node visited] by (auto simp: 2)
  then show ?case using search_left_less by simp
qed simp

definition reachable_acquires ::
  "(int \<times> int list) list \<Rightarrow> nat \<Rightarrow> (int \<times> (string \<times> reach_acq) list) list \<Rightarrow> (int \<times> (string \<times> reach_acq) list) list" where
  "reachable_acquires callers depth direct = fold (\<lambda>(s, acqs). spread callers depth acqs [(s, 0)] [s]) direct []"

definition lock_order_edges :: "sync_op_row list \<Rightarrow> (int \<times> int \<times> int) list \<Rightarrow> lock_order_options \<Rightarrow> lock_edge list" where
  "lock_order_edges rows calls opts = build_lock_order (ordered_events rows calls)
     (reachable_acquires (callers_of calls) (lo_max_call_depth opts) (direct_acquires rows)) (lo_confidence_floor opts)"

section \<open>Findings\<close>

record lock_cycle_finding =
  lf_cycle :: lock_cycle
  lf_severity :: severity
  lf_score :: rat
  lf_public :: bool

definition clamp_unit :: "rat \<Rightarrow> rat" where
  "clamp_unit x = (if x < 0 then 0 else if x > 1 then 1 else x)"

definition cycle_severity :: "lock_cycle \<Rightarrow> bool \<Rightarrow> severity \<times> rat" where
  "cycle_severity cycle public_api_reachable =
     (let conf = (case min_confidence cycle of None \<Rightarrow> 1 | Some c \<Rightarrow> clamp_unit c);
          rw = (if is_all_read cycle then 3 / 10 else 1);
          api = (if public_api_reachable then 1 else 0);
          score = clamp_unit (conf * rw * (1 / 2 + 1 / 2 * api)) in
      (if score \<ge> 3 / 4 then Critical else if score \<ge> 9 / 20 then High else if score \<ge> 1 / 5 then Medium else Low, score))"

text \<open>The visibility of a symbol comes from the symbol table.\<close>

definition analyze_lock_order ::
  "graph_library \<Rightarrow> (int \<Rightarrow> string option) \<Rightarrow> sync_op_row list \<Rightarrow> (int \<times> int \<times> int) list \<Rightarrow> lock_order_options \<Rightarrow> lock_cycle_finding list" where
  "analyze_lock_order lib visibility rows calls opts =
     sort_key (\<lambda>f. (- int (severity_rank (lf_severity f)), - lf_score f))
       (map (\<lambda>c. let public = list_ex (\<lambda>e. visibility (le_held_symbol e) = Some ''public'' \<or>
                    visibility (le_acquired_symbol e) = Some ''public'') (lc_edges c);
                  (severity, score) = cycle_severity c public in
              \<lparr>lf_cycle = c, lf_severity = severity, lf_score = score, lf_public = public\<rparr>)
         (find_lock_cycles lib (lock_order_edges rows calls opts) (lo_max_cycle_len opts)))"

section \<open>The tool\<close>

text \<open>
  \<open>src/mcp/tools/tool_deadlock_cycles.rs\<close>: the options are brought into their ranges, all-read cycles
  are shown on request only. A confidence floor that is not a finite number is \<open>Some None\<close>.
\<close>

record deadlock_cycles_params =
  dp_max_call_depth :: "nat option"
  dp_confidence_floor :: "rat option option"
  dp_max_cycle_len :: "nat option"
  dp_include_low_confidence :: "bool option"
  dp_limit :: "int option"

definition normalize_confidence_floor :: "rat option option \<Rightarrow> (string, rat) outcome" where
  "normalize_confidence_floor raw = (case raw of None \<Rightarrow> Ok (clamp_unit (3 / 10))
     | Some None \<Rightarrow> Err ''confidence_floor must be finite'' | Some (Some v) \<Rightarrow> Ok (clamp_unit v))"

definition clamp_range :: "'a::linorder \<Rightarrow> 'a \<Rightarrow> 'a \<Rightarrow> 'a" where
  "clamp_range lo hi x = (if x < lo then lo else if x > hi then hi else x)"

definition tool_deadlock_cycles ::
  "graph_library \<Rightarrow> (int \<Rightarrow> string option) \<Rightarrow> sync_op_row list \<Rightarrow> (int \<times> int \<times> int) list \<Rightarrow> deadlock_cycles_params
     \<Rightarrow> (string, lock_cycle_finding list) outcome" where
  "tool_deadlock_cycles lib visibility rows calls params =
     and_then (normalize_confidence_floor (dp_confidence_floor params)) (\<lambda>floor_conf.
       let opts = \<lparr>lo_max_call_depth = clamp_range 1 12 (case dp_max_call_depth params of None \<Rightarrow> 5 | Some d \<Rightarrow> d),
             lo_confidence_floor = floor_conf, lo_max_cycle_len = clamp_range 2 12 (case dp_max_cycle_len params of None \<Rightarrow> 6 | Some l \<Rightarrow> l),
             lo_call_confidence = 1 / 2\<rparr>;
           include_low = (case dp_include_low_confidence params of None \<Rightarrow> False | Some b \<Rightarrow> b);
           limit = nat (clamp_range 1 500 (case dp_limit params of None \<Rightarrow> 50 | Some l \<Rightarrow> l)) in
       Ok (take limit (filter (\<lambda>f. \<not> (is_all_read (lf_cycle f) \<and> \<not> include_low)) (analyze_lock_order lib visibility rows calls opts))))"

end
