(* ===== verification/Conc_Cycles.thy ===== *)
theory Conc_Cycles
  imports Conc_Analysis
begin

text \<open>
  The cycles of the lock-order graph: which are reported, and with which edges as witnesses.
\<close>

definition ordered_before :: "lock_edge list \<Rightarrow> string \<Rightarrow> string \<Rightarrow> bool" where
  "ordered_before edges a b \<longleftrightarrow> (\<exists>e \<in> set edges. le_from e = a \<and> le_to e = b)"

section \<open>The graph\<close>

lemma insert_new_distinct [simp]: "distinct (insert_new x xs) = distinct xs"
  by (simp add: insert_new_def)

lemma lock_nodes_props: "distinct (lock_nodes edges)" "set (lock_nodes edges) = le_from ` set edges \<union> le_to ` set edges"
proof -
  let ?f = "\<lambda>e ns. insert_new (le_to e) (insert_new (le_from e) ns)"
  have "distinct ns \<Longrightarrow> distinct (fold ?f edges ns)" for ns by (induction edges arbitrary: ns) simp_all
  then show "distinct (lock_nodes edges)" by (simp add: lock_nodes_def)
  have "set (fold ?f edges ns) = le_from ` set edges \<union> le_to ` set edges \<union> set ns" for ns by (induction edges arbitrary: ns) auto
  then show "set (lock_nodes edges) = le_from ` set edges \<union> le_to ` set edges" by (simp add: lock_nodes_def)
qed

lemma index_of_less: "x \<in> set xs \<Longrightarrow> index_of x xs < length xs" by (induction xs) auto
lemma nth_index_of: "x \<in> set xs \<Longrightarrow> xs ! index_of x xs = x" by (induction xs) auto
lemma index_of_nth: "distinct xs \<Longrightarrow> i < length xs \<Longrightarrow> index_of (xs ! i) xs = i"
  by (metis index_of_less nth_eq_iff_index_eq nth_index_of nth_mem)

lemma lock_graph_edge:
  "has_edge (lock_graph edges) i j \<longleftrightarrow> i < length (lock_nodes edges) \<and> j < length (lock_nodes edges) \<and>
     ordered_before edges (lock_nodes edges ! i) (lock_nodes edges ! j)" (is "?l \<longleftrightarrow> ?r")
proof
  assume ?l
  then obtain e where "e \<in> set edges" "i = index_of (le_from e) (lock_nodes edges)" "j = index_of (le_to e) (lock_nodes edges)"
    by (auto simp: has_edge_def lock_graph_def Let_def)
  then show ?r using lock_nodes_props(2)[of edges] by (auto simp: ordered_before_def index_of_less nth_index_of)
next
  assume ?r
  then show ?l using lock_nodes_props(1)[of edges] by (force simp: ordered_before_def has_edge_def lock_graph_def Let_def index_of_nth)
qed

lemma lock_graph_ok: "graph_ok (lock_graph edges)"
  using lock_nodes_props(2)[of edges] by (auto simp: graph_ok_def lock_graph_def Let_def index_of_less)

lemma successively_map_iff: "successively P (map f xs) \<longleftrightarrow> successively (\<lambda>a b. P (f a) (f b)) xs"
  by (induction xs rule: induct_list012) auto

lemma successively_within:
  "set xs \<subseteq> A \<Longrightarrow> successively (\<lambda>a b. a \<in> A \<and> b \<in> A \<and> P a b) xs \<longleftrightarrow> successively P xs"
  by (induction xs rule: induct_list012) auto

lemma lock_graph_cycle:
  assumes "set c \<subseteq> {..<length (lock_nodes edges)}"
  shows "simple_cycle (has_edge (lock_graph edges)) c \<longleftrightarrow> simple_cycle (ordered_before edges) (map ((!) (lock_nodes edges)) c)"
proof (cases "length c > 1")
  case True
  then have "c \<noteq> []" by auto
  then have ends: "hd c \<in> {..<length (lock_nodes edges)}" "last c \<in> {..<length (lock_nodes edges)}" using assms by (meson hd_in_set last_in_set subsetD)+
  have "inj_on ((!) (lock_nodes edges)) (set c)"
    using assms lock_nodes_props(1)[of edges] by (auto simp: inj_on_def nth_eq_iff_index_eq subset_iff)
  moreover have "successively (has_edge (lock_graph edges)) c \<longleftrightarrow> successively (\<lambda>i j. ordered_before edges (lock_nodes edges ! i) (lock_nodes edges ! j)) c"
    using successively_within[OF assms, of "\<lambda>i j. ordered_before edges (lock_nodes edges ! i) (lock_nodes edges ! j)"]
    by (simp add: lock_graph_edge[abs_def])
  ultimately show ?thesis using True \<open>c \<noteq> []\<close> ends
    by (simp add: simple_cycle_def distinct_map successively_map_iff hd_map last_map lock_graph_edge)
qed (simp add: simple_cycle_def)

section \<open>Representatives\<close>

definition represents :: "lock_edge list \<Rightarrow> string \<Rightarrow> string \<Rightarrow> lock_edge \<Rightarrow> bool" where
  "represents edges a b e \<longleftrightarrow> e \<in> set edges \<and> le_from e = a \<and> le_to e = b \<and>
     (\<forall>f \<in> set edges. le_from f = a \<and> le_to f = b \<longrightarrow> le_min_confidence f \<le> le_min_confidence e)"

lemma best_edge_snoc: "best_edge (edges @ [e]) a b = (if le_from e = a \<and> le_to e = b
   then (case best_edge edges a b of Some p \<Rightarrow> if le_min_confidence p \<ge> le_min_confidence e then Some p else Some e | None \<Rightarrow> Some e)
   else best_edge edges a b)"
  by (simp add: best_edge_def split: option.split)

lemma best_edge_spec: "(best_edge edges a b = None \<longleftrightarrow> \<not> ordered_before edges a b) \<and>
   (\<forall>e. best_edge edges a b = Some e \<longrightarrow> represents edges a b e)"
proof (induction edges rule: rev_induct)
  case Nil
  show ?case by (simp add: best_edge_def ordered_before_def)
next
  case (snoc e edges)
  show ?case
  proof (cases "best_edge edges a b")
    case None
    then show ?thesis using snoc by (auto simp: best_edge_snoc ordered_before_def represents_def)
  next
    case (Some p)
    then have "represents edges a b p" "ordered_before edges a b" using snoc by auto
    then show ?thesis using Some by (auto simp: best_edge_snoc ordered_before_def represents_def split: if_splits)
  qed
qed

lemma all_some_iff: "all_some xs = Some ys \<longleftrightarrow> xs = map Some ys"
  by (induction xs arbitrary: ys) (auto split: option.split simp: Cons_eq_map_conv)

lemma cycle_pairs: "simple_cycle E c \<Longrightarrow> (a, b) \<in> set (zip c (rotate1 c)) \<Longrightarrow> E a b"
proof -
  assume c: "simple_cycle E c" and ab: "(a, b) \<in> set (zip c (rotate1 c))"
  then obtain x xs where x: "c = x # xs" "xs \<noteq> []" by (cases c) (auto simp: simple_cycle_def)
  have "successively E (c @ [x])" using c x successively_append_iff[of E c "[x]"] by (simp add: simple_cycle_def)
  moreover from ab obtain i where "i < length c" "a = c ! i" "b = rotate1 c ! i" by (auto simp: in_set_zip)
  moreover have "(c @ [x]) ! i = a" "(c @ [x]) ! Suc i = b" using calculation x by (auto simp: nth_append nth_Cons')
  ultimately show ?thesis using successively_nth[of E "c @ [x]" i] by simp
qed

lemma cycle_edges_spec:
  assumes "simple_cycle (ordered_before edges) c"
  obtains es where "cycle_edges edges c = Some es" "length es = length c"
    "\<forall>i < length c. represents edges (c ! i) (rotate1 c ! i) (es ! i)"
proof -
  let ?ps = "zip c (rotate1 c)" and ?b = "\<lambda>p. best_edge edges (fst p) (snd p)"
  have some: "?b p \<noteq> None" if "p \<in> set ?ps" for p
    using cycle_pairs[OF assms, of "fst p" "snd p"] that best_edge_spec[of edges "fst p" "snd p"] by auto
  define es where "es = map (the \<circ> ?b) ?ps"
  have "map ?b ?ps = map Some es" using some by (auto simp: es_def)
  then have "cycle_edges edges c = Some es" by (simp add: cycle_edges_def case_prod_beta' all_some_iff)
  moreover have "represents edges (c ! i) (rotate1 c ! i) (es ! i)" if "i < length c" for i
    using some[of "?ps ! i"] that best_edge_spec[of edges "c ! i" "rotate1 c ! i"] by (auto simp: es_def in_set_zip)
  ultimately show ?thesis using that by (simp add: es_def)
qed

section \<open>Reports\<close>

context graph_laws
begin

lemma lock_cycle_reported:
  assumes "simple_cycle (ordered_before edges) ks" "length ks \<le> max_len"
  obtains n c where "c \<in> set (find_lock_cycles lib edges max_len)" "lc_resources c = rotate n ks"
proof -
  let ?ns = "lock_nodes edges" and ?g = "lock_graph edges"
  have "a \<in> set ?ns" if "a \<in> set ks" for a
    using cycle_reaches[OF assms(1) that that] lock_nodes_props(2)[of edges]
    by (cases rule: tranclE) (auto simp: ordered_before_def)
  then have inv: "map ((!) ?ns) (map (\<lambda>a. index_of a ?ns) ks) = ks" "set (map (\<lambda>a. index_of a ?ns) ks) \<subseteq> {..<length ?ns}"
    by (auto simp: nth_index_of index_of_less intro: map_idI)
  define idx where "idx = map (\<lambda>a. index_of a ?ns) ks"
  have "simple_cycle (has_edge ?g) idx" using lock_graph_cycle[of "idx" edges] inv assms(1) by (simp add: idx_def del: map_map)
  then have norm: "simple_cycle (has_edge ?g) (normalize_cycle idx)" by (rule normalize_simple)
  then obtain scc where scc: "scc \<in> set (find_cycles lib ?g)" "normalize_cycle idx \<in> set (extract_simple_cycles lib ?g scc max_len)"
    using cycles_found[OF lock_graph_ok, of edges "normalize_cycle idx" max_len] assms(2) by (auto simp: idx_def)
  have keys: "map ((!) ?ns) (normalize_cycle idx) = rotate (min_pos idx) ks"
    unfolding normalize_cycle_def rotate_map[symmetric] using inv(1) by (simp add: idx_def del: map_map)
  have cyc: "simple_cycle (ordered_before edges) (rotate (min_pos idx) ks)" by (rule simple_cycle_rotate[OF assms(1)])
  from cycle_edges_spec[OF cyc] obtain es where es: "cycle_edges edges (rotate (min_pos idx) ks) = Some es" .
  have "edges \<noteq> []" using assms(1) by (cases ks) (auto simp: simple_cycle_def ordered_before_def)
  then have "\<lparr>lc_resources = rotate (min_pos idx) ks, lc_edges = es\<rparr> \<in> set (find_lock_cycles lib edges max_len)"
    using scc es cyc keys[symmetric] by (force simp: find_lock_cycles_def Let_def List.map_filter_def simple_cycle_def)
  then show ?thesis using that by force
qed

lemma reported_lock_cycle:
  assumes "c \<in> set (find_lock_cycles lib edges max_len)"
  shows "simple_cycle (ordered_before edges) (lc_resources c)" "length (lc_resources c) \<le> max_len"
    "cycle_edges edges (lc_resources c) = Some (lc_edges c)"
proof -
  from assms obtain scc idx where scc: "scc \<in> set (find_cycles lib (lock_graph edges))"
    "idx \<in> set (extract_simple_cycles lib (lock_graph edges) scc max_len)"
    and res: "lc_resources c = map ((!) (lock_nodes edges)) idx" and es: "cycle_edges edges (lc_resources c) = Some (lc_edges c)"
    by (auto simp: find_lock_cycles_def Let_def List.map_filter_def split: if_splits)
  then have cyc: "simple_cycle (has_edge (lock_graph edges)) idx" "length idx \<le> max_len"
    using cycles_found[OF lock_graph_ok, of edges "idx" max_len] by blast+
  have "set idx \<subseteq> {..<length (lock_nodes edges)}"
  proof
    fix i assume "i \<in> set idx"
    then show "i \<in> {..<length (lock_nodes edges)}"
      using cycle_reaches[OF cyc(1), of i i] by (auto simp: lock_graph_edge elim!: converse_tranclE)
  qed
  then show "simple_cycle (ordered_before edges) (lc_resources c)" using lock_graph_cycle cyc(1) res by simp
  show "length (lc_resources c) \<le> max_len" "cycle_edges edges (lc_resources c) = Some (lc_edges c)" using cyc(2) res es by simp_all
qed

end

end
