(* ===== verification/Conc_Reach.thy ===== *)
theory Conc_Reach
  imports Conc_Cycles
begin

text \<open>
  The summary of reachable acquisitions is complete: every lock a symbol acquires is listed, with at
  least its confidence, at every symbol from which a chain of calls within the depth leads to it.
\<close>

declare spread.simps(2) [simp del]

section \<open>Tables that only grow\<close>

text \<open>The table lists the key for the node, with at least this confidence.\<close>

definition covered :: "(int \<times> (string \<times> reach_acq) list) list \<Rightarrow> int \<Rightarrow> string \<Rightarrow> rat \<Rightarrow> bool" where
  "covered m n key conf \<longleftrightarrow> (\<exists>acqs r. map_of m n = Some acqs \<and> map_of acqs key = Some r \<and> conf \<le> ra_conf r)"

lemma covered_less: "covered m n key conf \<Longrightarrow> conf' \<le> conf \<Longrightarrow> covered m n key conf'"
  unfolding covered_def by (meson order_trans)

definition grows_to :: "(string \<times> reach_acq) list \<Rightarrow> (string \<times> reach_acq) list \<Rightarrow> bool" where
  "grows_to m m' \<longleftrightarrow> (\<forall>k r. map_of m k = Some r \<longrightarrow> (\<exists>r'. map_of m' k = Some r' \<and> ra_conf r \<le> ra_conf r'))"

lemma grows_to_refl [simp]: "grows_to m m" by (simp add: grows_to_def)
lemma grows_to_trans: "grows_to a b \<Longrightarrow> grows_to b c \<Longrightarrow> grows_to a c"
  unfolding grows_to_def by (meson order_trans)

lemma merge_acq_grows: "grows_to m (merge_acq key r m)"
  by (auto simp: grows_to_def merge_acq_def AList.update_conv' split: option.split)

lemma merge_acq_has: "\<exists>r'. map_of (merge_acq key r m) key = Some r' \<and> ra_conf r \<le> ra_conf r'"
  by (auto simp: merge_acq_def AList.update_conv' split: option.split)

lemma fold_merge_grows: "grows_to m (fold (\<lambda>(key, r). merge_acq key r) acqs m)"
  by (induction acqs arbitrary: m) (auto intro: grows_to_trans merge_acq_grows)

lemma fold_merge_has:
  "(key, r) \<in> set acqs \<Longrightarrow> \<exists>r'. map_of (fold (\<lambda>(key, r). merge_acq key r) acqs m) key = Some r' \<and> ra_conf r \<le> ra_conf r'"
proof (induction acqs arbitrary: m)
  case (Cons a acqs)
  show ?case
  proof (cases "a = (key, r)")
    case True
    with merge_acq_has[of key r m] fold_merge_grows[of "merge_acq key r m" acqs] show ?thesis
      unfolding grows_to_def by simp (meson order_trans)
  qed (use Cons in \<open>auto simp: case_prod_beta\<close>)
qed simp

lemma covered_at_entry:
  assumes "\<And>m. grows_to m (f m)"
  shows "covered m n key conf \<Longrightarrow> covered (at_entry k f m) n key conf"
proof -
  assume "covered m n key conf"
  then obtain acqs r where a: "map_of m n = Some acqs" "map_of acqs key = Some r" "conf \<le> ra_conf r" by (auto simp: covered_def)
  from assms[of acqs] a(2) obtain r' where "map_of (f acqs) key = Some r'" "ra_conf r \<le> ra_conf r'" by (auto simp: grows_to_def)
  with a show ?thesis by (auto simp: covered_def at_entry_def AList.update_conv' intro: order_trans)
qed

lemma covered_by_entry:
  "(key, r) \<in> set acqs \<Longrightarrow> covered (at_entry n (fold (\<lambda>(key, r). merge_acq key r) acqs) m) n key (ra_conf r)"
  using fold_merge_has[of key r acqs] by (auto simp: covered_def at_entry_def AList.update_conv')

lemma spread_keeps: "covered reach n key conf \<Longrightarrow> covered (spread callers depth acqs queue visited reach) n key conf"
proof (induction callers depth acqs queue visited reach rule: spread.induct)
  case (2 callers depth acqs node d queue visited reach)
  show ?case unfolding spread.simps Let_def
    by (rule 2(1)[OF refl]) (rule covered_at_entry[OF fold_merge_grows 2(2)])
qed simp

section \<open>The breadth-first search\<close>

definition calls_into :: "(int \<times> int list) list \<Rightarrow> int \<Rightarrow> int \<Rightarrow> bool" where
  "calls_into callers n c \<longleftrightarrow> (\<exists>cs. map_of callers n = Some cs \<and> c \<in> set cs)"

lemma set_fresh_callers: "set (fresh_callers callers n visited) = {c. calls_into callers n c} - set visited"
  by (cases "map_of callers n") (auto simp: fresh_callers_def calls_into_def)

text \<open>
  \<open>D\<close> is the depth at which a node was first seen. Nodes are seen in the order of their depth, and the
  callers of a node that has left the queue have been seen at most one level further.
\<close>

definition bfs_inv :: "(int \<times> int list) list \<Rightarrow> nat \<Rightarrow> (int \<times> nat) list \<Rightarrow> int list \<Rightarrow> (int \<Rightarrow> nat) \<Rightarrow> bool" where
  "bfs_inv callers depth queue visited D \<longleftrightarrow> fst ` set queue \<subseteq> set visited \<and> (\<forall>(n, d) \<in> set queue. D n = d) \<and>
     sorted (map snd queue) \<and> (\<forall>v \<in> set visited. \<forall>(n, d) \<in> set queue. D v \<le> d + 1) \<and>
     (\<forall>v \<in> set visited - fst ` set queue. D v < depth \<longrightarrow> (\<forall>c. calls_into callers v c \<longrightarrow> c \<in> set visited \<and> D c \<le> D v + 1))"

lemma bfs_inv_step:
  assumes inv: "bfs_inv callers depth ((n, d) # queue) visited D"
    and new: "new = (if d < depth then fresh_callers callers n visited else [])"
    and D': "D' = (\<lambda>v. if v \<in> set new then d + 1 else D v)"
  shows "bfs_inv callers depth (queue @ map (\<lambda>c. (c, d + 1)) new) (visited @ new) D'"
proof -
  let ?queue = "queue @ map (\<lambda>c. (c, d + 1)) new"
  note I = inv[unfolded bfs_inv_def]
  have fresh: "v \<notin> set new" if "v \<in> set visited" for v using that by (auto simp: new set_fresh_callers)
  have same: "D' v = D v" if "v \<in> set visited" for v using fresh[OF that] by (simp add: D')
  have q: "fst ` set queue \<subseteq> set visited" "n \<in> set visited" "D n = d" "sorted (map snd queue)" "\<forall>v \<in> set visited. D v \<le> d + 1"
    using I by simp_all
  have level: "D m = e" "d \<le> e" "e \<le> d + 1" "m \<in> set visited" if "(m, e) \<in> set queue" for m e
  proof -
    have "\<forall>(m, e) \<in> set queue. D m = e" "\<forall>x \<in> set queue. d \<le> snd x" using I by simp_all
    with that show "D m = e" "d \<le> e" by fastforce+
    show "m \<in> set visited" using that q(1) by force
    with \<open>D m = e\<close> q(5) show "e \<le> d + 1" by auto
  qed
  have "sorted (map snd ?queue)"
    using q(4) level(3) by (auto simp: sorted_append comp_def map_replicate_const)
  moreover have "D' m = e" if "(m, e) \<in> set ?queue" for m e
    using that level(1,4) fresh by (auto simp: D')
  moreover have "D' v \<le> e + 1" if v: "v \<in> set (visited @ new)" and m: "(m, e) \<in> set ?queue" for v m e
  proof -
    have "D' v \<le> d + 1" using v q(5) by (auto simp: D')
    moreover have "d \<le> e" using m level(2) by auto
    ultimately show ?thesis by simp
  qed
  moreover have "c \<in> set (visited @ new) \<and> D' c \<le> D' v + 1"
    if v: "v \<in> set (visited @ new)" "v \<notin> fst ` set ?queue" "D' v < depth" and c: "calls_into callers v c" for v c
  proof (cases "v = n")
    case True
    then show ?thesis using v(3) q(2,3,5) same[OF q(2)] c by (auto simp: new set_fresh_callers D')
  next
    case False
    have "v \<notin> set new" using v(2) by force
    then have old: "v \<in> set visited" using v(1) by simp
    have "v \<notin> fst ` set ((n, d) # queue)" using v(2) False by auto
    with I old v(3) c same[OF old] have "c \<in> set visited" "D c \<le> D v + 1" by auto
    then show ?thesis using same old by simp
  qed
  moreover have "fst ` set ?queue \<subseteq> set (visited @ new)" using q(1) by auto
  ultimately show ?thesis unfolding bfs_inv_def by blast
qed

definition told :: "(int \<times> (string \<times> reach_acq) list) list \<Rightarrow> (string \<times> reach_acq) list \<Rightarrow> int \<Rightarrow> bool" where
  "told reach acqs v \<longleftrightarrow> (\<forall>(key, r) \<in> set acqs. covered reach v key (ra_conf r))"

definition bfs_closed :: "(int \<times> int list) list \<Rightarrow> nat \<Rightarrow> int set \<Rightarrow> (int \<Rightarrow> nat) \<Rightarrow> bool" where
  "bfs_closed callers depth V D \<longleftrightarrow> (\<forall>v \<in> V. D v < depth \<longrightarrow> (\<forall>c. calls_into callers v c \<longrightarrow> c \<in> V \<and> D c \<le> D v + 1))"

lemma spread_closed:
  assumes "bfs_inv callers depth queue visited D"
  shows "\<exists>V D'. set visited \<subseteq> V \<and> (\<forall>v \<in> set visited. D' v = D v) \<and> bfs_closed callers depth V D' \<and>
     (\<forall>v \<in> V - (set visited - fst ` set queue). told (spread callers depth acqs queue visited reach) acqs v)"
  using assms
proof (induction callers depth acqs queue visited reach arbitrary: D rule: spread.induct)
  case (1 callers depth acqs visited reach)
  then show ?case by (intro exI[of _ "set visited"] exI[of _ D]) (auto simp: bfs_inv_def bfs_closed_def)
next
  case (2 callers depth acqs n d queue visited reach)
  let ?new = "if d < depth then fresh_callers callers n visited else []"
  let ?queue = "queue @ map (\<lambda>c. (c, d + 1)) ?new"
  let ?reach = "at_entry n (fold (\<lambda>(key, r). merge_acq key r) acqs) reach"
  let ?result = "spread callers depth acqs ?queue (visited @ ?new) ?reach"
  have result: "spread callers depth acqs ((n, d) # queue) visited reach = ?result" by (simp only: spread.simps Let_def)
  have fresh: "v \<notin> set ?new" if "v \<in> set visited" for v using that by (auto simp: set_fresh_callers)
  from 2(1)[OF refl bfs_inv_step[OF 2(2) refl refl]]
  obtain V D' where V: "set (visited @ ?new) \<subseteq> V" "\<forall>v \<in> set (visited @ ?new). D' v = (if v \<in> set ?new then d + 1 else D v)"
    "bfs_closed callers depth V D'" "\<forall>v \<in> V - (set (visited @ ?new) - fst ` set ?queue). told ?result acqs v"
    by (elim exE conjE)
  have here: "told ?result acqs n"
    unfolding told_def using spread_keeps[OF covered_by_entry] by blast
  have "told ?result acqs v" if v: "v \<in> V - (set visited - fst ` set ((n, d) # queue))" for v
  proof (cases "v = n")
    case False
    have "v \<in> set ?new \<Longrightarrow> v \<in> fst ` set ?queue" by force
    then have "v \<in> V - (set (visited @ ?new) - fst ` set ?queue)" using v False by auto
    with V(4) show ?thesis by blast
  qed (use here in simp)
  moreover have "set visited \<subseteq> V" "\<forall>v \<in> set visited. D' v = D v" using V(1,2) fresh by auto
  ultimately show ?case unfolding result using V(3) by blast
qed

lemma spread_covers:
  assumes "successively (calls_into callers) (s # ns)" "length ns \<le> depth" "(key, r) \<in> set acqs"
  shows "covered (spread callers depth acqs [(s, 0)] [s] reach) (last (s # ns)) key (ra_conf r)"
proof -
  have "bfs_inv callers depth [(s, 0)] [s] (\<lambda>_. 0)" by (simp add: bfs_inv_def)
  from spread_closed[OF this, of acqs reach] obtain V and D :: "int \<Rightarrow> nat" where V: "s \<in> V" "D s = 0"
    "bfs_closed callers depth V D" "\<forall>v \<in> V. told (spread callers depth acqs [(s, 0)] [s] reach) acqs v"
    by auto
  have "last (s # ns) \<in> V \<and> D (last (s # ns)) \<le> length ns"
    using assms(1,2)
  proof (induction ns rule: rev_induct)
    case (snoc c ns)
    have "successively (calls_into callers) (s # ns)" "calls_into callers (last (s # ns)) c"
      using snoc.prems(1) successively_append_iff[of _ "s # ns" "[c]"] by auto
    with snoc V(3) show ?case by (fastforce simp: bfs_closed_def)
  qed (use V in simp)
  with V(4) assms(3) show ?thesis unfolding told_def by blast
qed

lemma reachable_acquires_covers:
  assumes "successively (calls_into callers) (s # ns)" "length ns \<le> depth" "covered direct s key conf"
  shows "covered (reachable_acquires callers depth direct) (last (s # ns)) key conf"
proof -
  obtain acqs r where a: "(s, acqs) \<in> set direct" "(key, r) \<in> set acqs" "conf \<le> ra_conf r"
    using assms(3) by (auto simp: covered_def dest: map_of_SomeD)
  let ?f = "\<lambda>(s, acqs). spread callers depth acqs [(s, 0)] [s]"
  have keep: "covered m n key (ra_conf r) \<Longrightarrow> covered (fold ?f ds m) n key (ra_conf r)" for ds m n
    by (induction ds arbitrary: m) (auto intro: spread_keeps)
  have "covered (fold ?f direct m) (last (s # ns)) key (ra_conf r)" for m
    using a(1)
  proof (induction direct arbitrary: m)
    case (Cons d ds)
    then show ?case using keep[OF spread_covers[OF assms(1,2) a(2)]] by (cases "d = (s, acqs)") auto
  qed simp
  then have "covered (reachable_acquires callers depth direct) (last (s # ns)) key (ra_conf r)" by (simp only: reachable_acquires_def)
  then show ?thesis using covered_less a(3) by blast
qed

section \<open>What the tables hold\<close>

definition listed :: "('k \<times> 'v list) list \<Rightarrow> 'k \<Rightarrow> 'v \<Rightarrow> bool" where
  "listed m k x \<longleftrightarrow> (\<exists>xs. map_of m k = Some xs \<and> x \<in> set xs)"

lemma listed_at_entry: "listed (at_entry k (\<lambda>xs. xs @ [y]) m) k' x \<longleftrightarrow> listed m k' x \<or> (k' = k \<and> x = y)"
  by (cases "map_of m k") (auto simp: listed_def at_entry_def AList.update_conv')

lemma callers_of_listed: "calls_into (callers_of calls) n c \<longleftrightarrow> (\<exists>line. (c, n, line) \<in> set calls)"
proof -
  have "listed (fold (\<lambda>(source, target, line). at_entry target (\<lambda>cs. cs @ [source])) calls m) n c \<longleftrightarrow>
      listed m n c \<or> (\<exists>line. (c, n, line) \<in> set calls)" for m
    by (induction calls arbitrary: m) (auto simp: listed_at_entry)
  then show ?thesis by (simp add: callers_of_def calls_into_def listed_def)
qed

lemma add_row_listed: "listed (fst (fold add_row rows st)) s x \<longleftrightarrow> listed (fst st) s x \<or>
   (\<exists>r \<in> set rows. so_symbol_id r = s \<and> fst x = (so_line r, 0, so_seq r) \<and> row_to_event r = Some (snd x))"
  by (induction rows arbitrary: st) (auto simp: add_row_def listed_at_entry prod_eq_iff split: option.splits)

lemma add_call_listed: "listed (fold add_call calls m) s x \<longleftrightarrow> listed m s x \<or>
   (\<exists>target line. (s, target, line) \<in> set calls \<and> x = ((line, 1, 0), CallSite target))"
  by (induction calls arbitrary: m) (auto simp: add_call_def listed_at_entry)

lemma ordered_events_listed: "listed (ordered_events rows calls) s e \<longleftrightarrow>
   (\<exists>r \<in> set rows. so_symbol_id r = s \<and> row_to_event r = Some e) \<or> (\<exists>target line. (s, target, line) \<in> set calls \<and> e = CallSite target)"
proof -
  let ?m = "fold add_call calls (fst (fold add_row rows ([], [])))"
  have "map_of (ordered_events rows calls) s = map_option (\<lambda>es. map snd (sort_key fst es)) (map_of ?m s)"
    by (simp add: ordered_events_def map_of_map)
  then have "listed (ordered_events rows calls) s e \<longleftrightarrow> (\<exists>k. listed ?m s (k, e))" by (force simp: listed_def)
  moreover have "(\<exists>k. listed ?m s (k, e)) \<longleftrightarrow> (\<exists>k. \<exists>r \<in> set rows. so_symbol_id r = s \<and> k = (so_line r, 0, so_seq r) \<and> row_to_event r = Some e) \<or>
      (\<exists>k target line. (s, target, line) \<in> set calls \<and> k = (line, 1, 0) \<and> e = CallSite target)"
    unfolding add_call_listed add_row_listed by (simp add: listed_def[of "[]"] ex_disj_distrib) blast
  ultimately show ?thesis by blast
qed

lemma direct_acquires_covers:
  assumes "r \<in> set rows" "row_to_event r = Some (Acquire key mode conf line)"
  shows "covered (direct_acquires rows) (so_symbol_id r) key conf"
proof -
  have one: "covered (snd st) n k c \<Longrightarrow> covered (snd (add_row a st)) n k c" for a st n k c
    by (auto simp: add_row_def intro: covered_at_entry[OF merge_acq_grows] split: option.split lock_event.split)
  have keep: "covered (snd st) n k c \<Longrightarrow> covered (snd (fold add_row rs st)) n k c" for rs st n k c
    by (induction rs arbitrary: st) (simp_all add: one)
  have here: "covered (snd (add_row r st)) (so_symbol_id r) key conf" for st
  proof -
    let ?r = "\<lparr>ra_mode = mode, ra_conf = conf, ra_symbol_id = so_symbol_id r, ra_line = line\<rparr>"
    from covered_by_entry[of key ?r "[(key, ?r)]" "so_symbol_id r" "snd st"] assms(2) show ?thesis by (simp add: add_row_def)
  qed
  have "covered (snd (fold add_row rows st)) (so_symbol_id r) key conf" for st
    using assms(1)
  proof (induction rows arbitrary: st)
    case (Cons a rows)
    then show ?case using keep[OF here] by (cases "a = r") auto
  qed simp
  then show ?thesis by (simp add: direct_acquires_def)
qed

end
