(* ===== verification/Conc_Deadlock.thy ===== *)
theory Conc_Deadlock
  imports Conc_Reach
begin

text \<open>
  What the lock-order analysis is about: threads that run the symbols' event streams. A thread is a
  stack of frames, the running one first; a call pushes a frame, a return drops the locks the frame
  still holds (guards are released at the end of their scope). A lock is granted when nobody holds it, or
  when it is asked for and held for reading only.
\<close>

section \<open>Threads\<close>

record call_frame =
  fr_symbol :: int
  fr_todo :: "lock_event list"
  fr_locks :: "(string \<times> acq_mode) list"

type_synonym thread = "call_frame list"
type_synonym event_table = "(int \<times> lock_event list) list"

definition body :: "event_table \<Rightarrow> int \<Rightarrow> lock_event list" where
  "body prog s = (case map_of prog s of None \<Rightarrow> [] | Some es \<Rightarrow> es)"

definition enter :: "event_table \<Rightarrow> int \<Rightarrow> call_frame" where
  "enter prog s = \<lparr>fr_symbol = s, fr_todo = body prog s, fr_locks = []\<rparr>"

definition thread_holds :: "thread \<Rightarrow> string \<Rightarrow> bool" where
  "thread_holds th k \<longleftrightarrow> (\<exists>f \<in> set th. k \<in> fst ` set (fr_locks f))"

definition grantable :: "thread list \<Rightarrow> string \<Rightarrow> acq_mode \<Rightarrow> bool" where
  "grantable ths k m \<longleftrightarrow> (\<forall>th \<in> set ths. \<forall>f \<in> set th. \<forall>(k', m') \<in> set (fr_locks f). k' = k \<longrightarrow> m = ReadMode \<and> m' = ReadMode)"

inductive lock_run :: "event_table \<Rightarrow> thread list \<Rightarrow> thread list \<Rightarrow> bool" for prog where
  run_acquire: "t < length ths \<Longrightarrow> ths ! t = f # fs \<Longrightarrow> fr_todo f = Acquire k m conf line # es \<Longrightarrow> grantable ths k m \<Longrightarrow>
     lock_run prog ths (ths[t := f\<lparr>fr_todo := es, fr_locks := fr_locks f @ [(k, m)]\<rparr> # fs])"
| run_release: "t < length ths \<Longrightarrow> ths ! t = f # fs \<Longrightarrow> fr_todo f = Release k # es \<Longrightarrow>
     lock_run prog ths (ths[t := f\<lparr>fr_todo := es, fr_locks := drop_last (\<lambda>h. fst h = k) (fr_locks f)\<rparr> # fs])"
| run_call: "t < length ths \<Longrightarrow> ths ! t = f # fs \<Longrightarrow> fr_todo f = CallSite c # es \<Longrightarrow>
     lock_run prog ths (ths[t := enter prog c # f\<lparr>fr_todo := es\<rparr> # fs])"
| run_return: "t < length ths \<Longrightarrow> ths ! t = f # fs \<Longrightarrow> fr_todo f = [] \<Longrightarrow> lock_run prog ths (ths[t := fs])"

definition reachable_from :: "event_table \<Rightarrow> int list \<Rightarrow> thread list \<Rightarrow> bool" where
  "reachable_from prog entries ths \<longleftrightarrow> (lock_run prog)\<^sup>*\<^sup>* (map (\<lambda>s. [enter prog s]) entries) ths"

definition wanted :: "thread \<Rightarrow> string option" where
  "wanted th = (case th of f # fs \<Rightarrow> (case fr_todo f of Acquire k m conf line # es \<Rightarrow> Some k | _ \<Rightarrow> None) | [] \<Rightarrow> None)"

text \<open>No thread asks for a lock it already holds.\<close>

definition no_reentry :: "thread list \<Rightarrow> bool" where
  "no_reentry ths \<longleftrightarrow> list_all (\<lambda>th. case wanted th of Some k \<Rightarrow> \<not> thread_holds th k | None \<Rightarrow> True) ths"

section \<open>Frames follow their symbols\<close>

fun take_event :: "lock_event \<Rightarrow> (string \<times> acq_mode) list \<Rightarrow> (string \<times> acq_mode) list" where
  "take_event (Acquire k m conf line) h = h @ [(k, m)]"
| "take_event (Release k) h = drop_last (\<lambda>x. fst x = k) h"
| "take_event (CallSite c) h = h"

abbreviation locks_after :: "lock_event list \<Rightarrow> (string \<times> acq_mode) list" where
  "locks_after es \<equiv> fold take_event es []"

fun suspended :: "event_table \<Rightarrow> int \<Rightarrow> thread \<Rightarrow> bool" where
  "suspended prog c [] = True"
| "suspended prog c (f # fs) = ((\<exists>pre. body prog (fr_symbol f) = pre @ CallSite c # fr_todo f \<and> fr_locks f = locks_after pre) \<and>
     suspended prog (fr_symbol f) fs)"

fun stack_ok :: "event_table \<Rightarrow> thread \<Rightarrow> bool" where
  "stack_ok prog [] = True"
| "stack_ok prog (f # fs) = ((\<exists>pre. body prog (fr_symbol f) = pre @ fr_todo f \<and> fr_locks f = locks_after pre) \<and>
     suspended prog (fr_symbol f) fs)"

lemma stack_ok_advance:
  assumes "stack_ok prog (f # fs)" "fr_todo f = e # es"
  shows "stack_ok prog (f\<lparr>fr_todo := es, fr_locks := take_event e (fr_locks f)\<rparr> # fs)"
proof -
  obtain pre where "body prog (fr_symbol f) = pre @ e # es" "fr_locks f = locks_after pre" using assms by auto
  then have "body prog (fr_symbol f) = (pre @ [e]) @ es" "take_event e (fr_locks f) = locks_after (pre @ [e])" by simp_all
  then show ?thesis using assms(1) by (auto intro!: exI[of _ "pre @ [e]"])
qed

lemma stack_ok_return: "suspended prog c fs \<Longrightarrow> stack_ok prog fs"
proof (cases fs)
  case (Cons f gs)
  assume "suspended prog c fs"
  then obtain pre where "body prog (fr_symbol f) = (pre @ [CallSite c]) @ fr_todo f" "fr_locks f = locks_after (pre @ [CallSite c])"
    "suspended prog (fr_symbol f) gs" using Cons by auto
  then show ?thesis using Cons by (auto simp del: append_assoc)
qed simp

lemma stack_ok_call:
  "stack_ok prog (f # fs) \<Longrightarrow> fr_todo f = CallSite c # es \<Longrightarrow> stack_ok prog (enter prog c # f\<lparr>fr_todo := es\<rparr> # fs)"
  by (auto simp: enter_def)

lemma run_keeps_stacks: "lock_run prog ths ths' \<Longrightarrow> list_all (stack_ok prog) ths \<Longrightarrow> list_all (stack_ok prog) ths'"
proof (induction rule: lock_run.induct)
  case (run_acquire t ths f fs k m conf line es)
  then have "stack_ok prog (f # fs)" by (metis list_all_length)
  from stack_ok_advance[OF this run_acquire(3)] run_acquire show ?case by (simp add: list_all_length nth_list_update)
next
  case (run_release t ths f fs k es)
  then have "stack_ok prog (f # fs)" by (metis list_all_length)
  from stack_ok_advance[OF this run_release(3)] run_release show ?case by (simp add: list_all_length nth_list_update)
next
  case (run_call t ths f fs c es)
  then have "stack_ok prog (f # fs)" by (metis list_all_length)
  from stack_ok_call[OF this run_call(3)] run_call show ?case by (simp add: list_all_length nth_list_update)
next
  case (run_return t ths f fs)
  then have "stack_ok prog (f # fs)" by (metis list_all_length)
  then have "stack_ok prog fs" by (auto intro: stack_ok_return)
  with run_return show ?case by (simp add: list_all_length nth_list_update)
qed

lemma reachable_stacks: "reachable_from prog entries ths \<Longrightarrow> list_all (stack_ok prog) ths"
  unfolding reachable_from_def
proof (induction rule: rtranclp_induct)
  case base
  show ?case by (auto simp: list_all_iff enter_def)
qed (rule run_keeps_stacks)

section \<open>A lock held and a lock wanted are an edge\<close>

definition confident :: "rat \<Rightarrow> lock_event list \<Rightarrow> bool" where
  "confident min_conf es \<longleftrightarrow> (\<forall>k m conf line. Acquire k m conf line \<in> set es \<longrightarrow> min_conf \<le> conf \<and> k \<noteq> [])"

definition held_pair :: "held_lock \<Rightarrow> string \<times> acq_mode" where
  "held_pair h = (hl_key h, hl_mode h)"

lemma drop_last_map: "drop_last P (map f xs) = map f (drop_last (\<lambda>x. P (f x)) xs)"
  by (cases "dropWhile (\<lambda>x. \<not> P (f x)) (rev xs)") 
    (simp_all add: drop_last_def rev_map dropWhile_map takeWhile_map comp_def del: dropWhile_eq_Nil_conv)

lemma lock_step_held:
  "confident min_conf [e] \<Longrightarrow> map held_pair (fst (lock_step reach min_conf s e held)) = take_event e (map held_pair held)"
  by (cases e) (auto simp: confident_def held_pair_def drop_last_map comp_def)

lemma symbol_edges_at:
  assumes "confident min_conf pre"
  obtains held' where "map held_pair held' = fold take_event pre (map held_pair held)"
    "set (snd (lock_step reach min_conf s e held')) \<subseteq> set (symbol_edges reach min_conf s (pre @ e # es) held)"
proof -
  have "\<exists>held'. map held_pair held' = fold take_event pre (map held_pair held) \<and>
      set (snd (lock_step reach min_conf s e held')) \<subseteq> set (symbol_edges reach min_conf s (pre @ e # es) held)"
    using assms
  proof (induction pre arbitrary: held)
    case (Cons a pre)
    let ?held = "fst (lock_step reach min_conf s a held)"
    have "confident min_conf [a]" "confident min_conf pre" using Cons.prems by (auto simp: confident_def)
    with Cons.IH[of ?held] lock_step_held[of min_conf a reach s held] show ?case by (auto simp: case_prod_beta Let_def)
  qed (auto simp: case_prod_beta Let_def)
  with that show thesis by blast
qed

lemma body_listed: "e \<in> set (body prog s) \<longleftrightarrow> listed prog s e"
  by (cases "map_of prog s") (auto simp: body_def listed_def)

lemma body_edges:
  assumes "body prog s = pre @ e # es" "confident min_conf pre"
  obtains held where "map held_pair held = locks_after pre"
    "set (snd (lock_step reach min_conf s e held)) \<subseteq> set (build_lock_order prog reach min_conf)"
proof -
  have "(s, pre @ e # es) \<in> set prog" using assms(1) by (cases "map_of prog s") (auto simp: body_def dest: map_of_SomeD)
  then have "set (symbol_edges reach min_conf s (pre @ e # es) []) \<subseteq> set (build_lock_order prog reach min_conf)"
    by (force simp: build_lock_order_def)
  moreover obtain held where "map held_pair held = fold take_event pre (map held_pair [])"
    "set (snd (lock_step reach min_conf s e held)) \<subseteq> set (symbol_edges reach min_conf s (pre @ e # es) [])"
    by (rule symbol_edges_at[OF assms(2)])
  ultimately show thesis using that[of held] by simp
qed

lemma direct_ordered:
  assumes "body prog s = pre @ Acquire k m conf line # es" "confident min_conf (body prog s)"
    and "k' \<in> fst ` set (locks_after pre)" "k' \<noteq> k"
  shows "ordered_before (build_lock_order prog reach min_conf) k' k"
proof -
  have c: "confident min_conf pre" "min_conf \<le> conf" "k \<noteq> []" using assms(1,2) by (auto simp: confident_def)
  from body_edges[OF assms(1) c(1)] obtain held where held: "map held_pair held = locks_after pre"
    "set (snd (lock_step reach min_conf s (Acquire k m conf line) held)) \<subseteq> set (build_lock_order prog reach min_conf)" .
  have "fst ` set (locks_after pre) = hl_key ` set held"
    unfolding held(1)[symmetric] by (simp add: held_pair_def image_image)
  then obtain h where "h \<in> set held" "hl_key h = k'" using assms(3) by auto
  then have "direct_edge s k m conf line h \<in> set (build_lock_order prog reach min_conf)" using held(2) c assms(4) by auto
  then show ?thesis using \<open>hl_key h = k'\<close> by (force simp: ordered_before_def direct_edge_def)
qed

lemma call_ordered:
  assumes "body prog s = pre @ CallSite c # es" "confident min_conf (body prog s)"
    and "k' \<in> fst ` set (locks_after pre)" "k' \<noteq> k" "covered reach c k conf" "min_conf \<le> conf"
  shows "ordered_before (build_lock_order prog reach min_conf) k' k"
proof -
  have c: "confident min_conf pre" using assms(1,2) by (auto simp: confident_def)
  from body_edges[OF assms(1) c] obtain held where held: "map held_pair held = locks_after pre"
    "set (snd (lock_step reach min_conf s (CallSite c) held)) \<subseteq> set (build_lock_order prog reach min_conf)" .
  have "fst ` set (locks_after pre) = hl_key ` set held"
    unfolding held(1)[symmetric] by (simp add: held_pair_def image_image)
  then obtain h where h: "h \<in> set held" "hl_key h = k'" using assms(3) by auto
  obtain acqs r where r: "map_of reach c = Some acqs" "(k, r) \<in> set acqs" "\<not> ra_conf r < min_conf"
    using assms(5,6) by (fastforce simp: covered_def dest: map_of_SomeD)
  have "held \<noteq> []" using h(1) by auto
  then have "callee_edge s c k r h \<in> set (snd (lock_step reach min_conf s (CallSite c) held))"
    using h r assms(4) by (force simp: r(1))
  then show ?thesis using held(2) h(2) by (force simp: ordered_before_def callee_edge_def)
qed

lemma row_to_event_not_call: "row_to_event r = Some e \<Longrightarrow> e \<noteq> CallSite c"
  by (auto simp: row_to_event_def split: option.splits sync_op_kind.splits)

text \<open>A frame below the running one waits at a call, and a chain of callers leads to it.\<close>

lemma suspended_chain:
  assumes "suspended (ordered_events rows calls) c fs" "g \<in> set fs"
  obtains ns pre es where "successively (calls_into (callers_of calls)) (c # ns)" "length ns < length fs"
    "body (ordered_events rows calls) (fr_symbol g) = pre @ CallSite (last (c # ns)) # es" "fr_locks g = locks_after pre"
proof -
  let ?prog = "ordered_events rows calls"
  have "\<exists>ns pre es. successively (calls_into (callers_of calls)) (c # ns) \<and> length ns < length fs \<and>
      body ?prog (fr_symbol g) = pre @ CallSite (last (c # ns)) # es \<and> fr_locks g = locks_after pre"
    using assms
  proof (induction fs arbitrary: c)
    case (Cons f fs)
    then obtain pre where f: "body ?prog (fr_symbol f) = pre @ CallSite c # fr_todo f" "fr_locks f = locks_after pre"
      "suspended ?prog (fr_symbol f) fs" by auto
    show ?case
    proof (cases "g = f")
      case True
      then show ?thesis using f by (intro exI[of _ "[]"] exI[of _ pre] exI[of _ "fr_todo f"]) simp
    next
      case False
      then have "g \<in> set fs" using Cons.prems(2) by simp
      from Cons.IH[OF f(3) this] obtain ns pre' es where ns: "successively (calls_into (callers_of calls)) (fr_symbol f # ns)"
        "length ns < length fs" "body ?prog (fr_symbol g) = pre' @ CallSite (last (fr_symbol f # ns)) # es" "fr_locks g = locks_after pre'"
        by blast
      have "CallSite c \<in> set (body ?prog (fr_symbol f))" using f(1) by simp
      then have "calls_into (callers_of calls) c (fr_symbol f)"
        unfolding body_listed ordered_events_listed callers_of_listed by (auto dest: row_to_event_not_call)
      with ns show ?thesis by (intro exI[of _ "fr_symbol f # ns"] exI[of _ pre'] exI[of _ es]) simp
    qed
  qed simp
  with that show thesis by blast
qed

definition rows_confident :: "rat \<Rightarrow> sync_op_row list \<Rightarrow> bool" where
  "rows_confident min_conf rows \<longleftrightarrow> list_all (\<lambda>r. case row_to_event r of
     Some (Acquire k m conf line) \<Rightarrow> min_conf \<le> conf \<and> k \<noteq> [] | _ \<Rightarrow> True) rows"

lemma rows_confidentD:
  "rows_confident min_conf rows \<Longrightarrow> r \<in> set rows \<Longrightarrow> row_to_event r = Some (Acquire k m conf line) \<Longrightarrow> min_conf \<le> conf \<and> k \<noteq> []"
  by (force simp: rows_confident_def list_all_iff)

lemma bodies_confident: "rows_confident min_conf rows \<Longrightarrow> confident min_conf (body (ordered_events rows calls) s)"
  unfolding confident_def body_listed ordered_events_listed by (auto dest: rows_confidentD)

lemma held_before_wanted:
  assumes ok: "stack_ok (ordered_events rows calls) th" and conf: "rows_confident (lo_confidence_floor opts) rows"
    and deep: "length th \<le> lo_max_call_depth opts + 2"
    and k: "wanted th = Some k" and k': "thread_holds th k'" and ne: "k' \<noteq> k"
  shows "ordered_before (lock_order_edges rows calls opts) k' k"
proof -
  let ?prog = "ordered_events rows calls" and ?reach = "reachable_acquires (callers_of calls) (lo_max_call_depth opts) (direct_acquires rows)"
  obtain f fs m c line es where th: "th = f # fs" "fr_todo f = Acquire k m c line # es"
    using k by (auto simp: wanted_def split: list.splits lock_event.splits)
  obtain pre where f: "body ?prog (fr_symbol f) = pre @ Acquire k m c line # es" "fr_locks f = locks_after pre"
    "suspended ?prog (fr_symbol f) fs" using ok th by auto
  obtain g where g: "g \<in> set th" "k' \<in> fst ` set (fr_locks g)" using k' by (auto simp: thread_holds_def)
  note known = bodies_confident[OF conf, of calls]
  show ?thesis
  proof (cases "g = f")
    case True
    then show ?thesis using direct_ordered[OF f(1) known] g(2) ne f(2) by (simp add: lock_order_edges_def)
  next
    case False
    then have "g \<in> set fs" using g(1) th by simp
    with suspended_chain[OF f(3)] obtain ns pre' es' where ns: "successively (calls_into (callers_of calls)) (fr_symbol f # ns)"
      "length ns < length fs" "body ?prog (fr_symbol g) = pre' @ CallSite (last (fr_symbol f # ns)) # es'" "fr_locks g = locks_after pre'"
      by blast
    have "listed ?prog (fr_symbol f) (Acquire k m c line)" using f(1) by (simp flip: body_listed)
    then obtain r where r: "r \<in> set rows" "so_symbol_id r = fr_symbol f" "row_to_event r = Some (Acquire k m c line)"
      by (auto simp: ordered_events_listed)
    have "length ns \<le> lo_max_call_depth opts" using ns(2) deep th by simp
    then have "covered ?reach (last (fr_symbol f # ns)) k c"
      using reachable_acquires_covers[OF ns(1)] direct_acquires_covers[OF r(1,3)] r(2) by simp
    then show ?thesis
      using call_ordered[OF ns(3) known] g(2) ns(4) ne rows_confidentD[OF conf r(1,3)] by (simp add: lock_order_edges_def)
  qed
qed

section \<open>No cycle, no deadlock\<close>

lemma finite_successors_cycle:
  assumes "finite W" "W \<noteq> {}" "\<And>x. x \<in> W \<Longrightarrow> \<exists>y \<in> W. E x y \<and> x \<noteq> y"
  obtains c where "simple_cycle E c" "set c \<subseteq> W"
proof -
  let ?path = "\<lambda>p. p \<noteq> [] \<and> distinct p \<and> successively E p \<and> set p \<subseteq> W"
  obtain x where "x \<in> W" using assms(2) by blast
  then have "?path [x]" by simp
  moreover have "length p \<le> card W" if "?path p" for p
    using that card_mono[OF assms(1), of "set p"] by (simp add: distinct_card)
  ultimately obtain p where p: "?path p" and longest: "\<And>q. ?path q \<Longrightarrow> length q \<le> length p"
    using ex_has_greatest_nat[of ?path "[x]" length "Suc (card W)"] by (metis le_imp_less_Suc)
  have "last p \<in> W" using p by auto
  then obtain y where y: "y \<in> W" "E (last p) y" "last p \<noteq> y" using assms(3) by blast
  have "y \<in> set p"
  proof (rule ccontr)
    assume "y \<notin> set p"
    then have "?path (p @ [y])" using p y by (simp add: successively_append_iff)
    from longest[OF this] show False by simp
  qed
  then obtain us vs where split: "p = us @ y # vs" by (auto dest: split_list)
  have "vs \<noteq> []" using y(3) split by auto
  then have "simple_cycle E (y # vs)" using p y(2) split by (auto simp: simple_cycle_def successively_append_iff)
  moreover have "set (y # vs) \<subseteq> W" using p split by auto
  ultimately show thesis by (rule that)
qed

lemma blocked_thread:
  assumes stuck: "\<And>ths'. \<not> lock_run prog ths ths'" and th: "th \<in> set ths" "th \<noteq> []"
  obtains k th' where "wanted th = Some k" "th' \<in> set ths" "thread_holds th' k"
proof -
  obtain t where t: "t < length ths" "ths ! t = th" using th(1) by (auto simp: in_set_conv_nth)
  obtain f fs where f: "th = f # fs" using th(2) by (cases th) auto
  have "fr_todo f \<noteq> []" "\<forall>k es. fr_todo f \<noteq> Release k # es" "\<forall>c es. fr_todo f \<noteq> CallSite c # es"
    using stuck run_return run_release run_call t f by metis+
  then obtain k m c line es where k: "fr_todo f = Acquire k m c line # es" by (metis lock_event.exhaust neq_Nil_conv)
  have "\<not> grantable ths k m" using stuck run_acquire t f k by metis
  then obtain th' where "th' \<in> set ths" "thread_holds th' k" by (force simp: grantable_def thread_holds_def)
  moreover have "wanted th = Some k" using f k by (simp add: wanted_def)
  ultimately show thesis using that by blast
qed

text \<open>Threads that all wait for a lock they are not granted stay.\<close>

definition blocked_head :: "thread list \<Rightarrow> thread \<Rightarrow> bool" where
  "blocked_head ths th = (case th of f # fs \<Rightarrow> (case fr_todo f of Acquire k m conf line # es \<Rightarrow> \<not> grantable ths k m | _ \<Rightarrow> False) | [] \<Rightarrow> True)"

lemma all_blocked: "list_all (blocked_head ths) ths \<Longrightarrow> \<not> lock_run prog ths ths'"
proof
  assume b: "list_all (blocked_head ths) ths" and "lock_run prog ths ths'"
  from this(2) obtain t f fs where "t < length ths" "ths ! t = f # fs" and
    "(\<exists>k m conf line es. fr_todo f = Acquire k m conf line # es \<and> grantable ths k m) \<or> (\<exists>k es. fr_todo f = Release k # es) \<or>
     (\<exists>c es. fr_todo f = CallSite c # es) \<or> fr_todo f = []"
    by (cases rule: lock_run.cases) blast+
  moreover from this(1,2) b have "blocked_head ths (f # fs)" by (metis list_all_length)
  ultimately show False by (auto simp: blocked_head_def)
qed

context graph_laws
begin

lemma acyclic_progress:
  assumes quiet: "find_lock_cycles lib (lock_order_edges rows calls opts) max_len = []"
    and all_lengths: "length (lock_nodes (lock_order_edges rows calls opts)) \<le> max_len"
    and conf: "rows_confident (lo_confidence_floor opts) rows"
    and run: "reachable_from (ordered_events rows calls) entries ths"
    and deep: "list_all (\<lambda>th. length th \<le> lo_max_call_depth opts + 2) ths"
    and once: "no_reentry ths" and busy: "\<not> list_all (\<lambda>th. th = []) ths"
  shows "\<exists>ths'. lock_run (ordered_events rows calls) ths ths'"
proof (rule ccontr)
  let ?E = "ordered_before (lock_order_edges rows calls opts)"
  let ?W = "{k. \<exists>th \<in> set ths. wanted th = Some k}"
  assume "\<nexists>ths'. lock_run (ordered_events rows calls) ths ths'"
  then have stuck: "\<And>ths'. \<not> lock_run (ordered_events rows calls) ths ths'" by blast
  have "?W \<subseteq> (\<lambda>th. the (wanted th)) ` set ths" by force
  then have "finite ?W" using finite_surj by blast
  moreover obtain th where "th \<in> set ths" "th \<noteq> []" using busy by (auto simp: list_all_iff)
  with blocked_thread[OF stuck] have "?W \<noteq> {}" by blast
  moreover have next_lock: "\<exists>k' \<in> ?W. ?E k k' \<and> k \<noteq> k'" if k: "k \<in> ?W" for k
  proof -
    obtain th where "th \<in> set ths" "wanted th = Some k" using k by blast
    then have "th \<noteq> []" by (auto simp: wanted_def)
    with blocked_thread[OF stuck \<open>th \<in> set ths\<close>] \<open>wanted th = Some k\<close> obtain u where u: "u \<in> set ths" "thread_holds u k" by auto
    then have "u \<noteq> []" by (auto simp: thread_holds_def)
    with blocked_thread[OF stuck u(1)] obtain k' where k': "wanted u = Some k'" by blast
    have "k \<noteq> k'" using once u k' by (auto simp: no_reentry_def list_all_iff)
    moreover have "?E k k'"
      using held_before_wanted[OF _ conf _ k' u(2)] reachable_stacks[OF run] deep u(1) \<open>k \<noteq> k'\<close> by (simp add: list_all_iff)
    ultimately show ?thesis using k' u(1) by blast
  qed
  ultimately obtain c where c: "simple_cycle ?E c" "set c \<subseteq> ?W" by (rule finite_successors_cycle)
  have "set c \<subseteq> set (lock_nodes (lock_order_edges rows calls opts))"
    using next_lock c(2) by (force simp: lock_nodes_props(2) ordered_before_def)
  then have "length c \<le> max_len"
    using card_mono[of "set (lock_nodes (lock_order_edges rows calls opts))" "set c"] c(1) all_lengths lock_nodes_props(1)
    by (simp add: distinct_card simple_cycle_def)
  with lock_cycle_reported[OF c(1)] quiet show False by (metis empty_iff empty_set)
qed

end

end
