(* ===== verification/Conc_Channels.thy ===== *)
theory Conc_Channels
  imports Conc_Cycles "HOL-Library.Option_ord"
begin

text \<open>
  Deadlock over channels (\<open>src/graph/petri.rs\<close>, and \<open>analyze_channels\<close> of \<open>src/concurrency/mod.rs\<close>):
  sends nobody receives, receives nobody sends to, and processes that wait for each other before they
  do anything else. Hash maps are association lists in insertion order, hash sets lists without
  repetition.
\<close>

section \<open>Events and findings\<close>

datatype msg_kind = MsgSend | MsgSendPersistent | MsgRecv | MsgRecvPersistent | MsgSelect | MsgSpawn

definition is_blocking_recv :: "msg_kind \<Rightarrow> bool" where
  "is_blocking_recv k \<longleftrightarrow> k = MsgRecv"

definition is_send :: "msg_kind \<Rightarrow> bool" where
  "is_send k \<longleftrightarrow> k = MsgSend \<or> k = MsgSendPersistent"

record channel_event =
  ce_kind :: msg_kind
  ce_channel :: "string option"

type_synonym process_table = "(int \<times> channel_event list) list"

datatype channel_finding_kind = OrphanSend | BlockedRecv | ChannelCycle

primrec channel_finding_kind_str :: "channel_finding_kind \<Rightarrow> string" where
  "channel_finding_kind_str OrphanSend = ''orphan_send''"
| "channel_finding_kind_str BlockedRecv = ''blocked_recv''"
| "channel_finding_kind_str ChannelCycle = ''channel_cycle''"

record channel_finding =
  cf_kind :: channel_finding_kind
  cf_channel :: "string option"
  cf_processes :: "int list"
  cf_waits :: "(int \<times> string) list"
  cf_detail :: string

text \<open>The texts are UTF-8; a long dash is three bytes.\<close>

definition orphan_detail :: "string \<Rightarrow> string" where
  "orphan_detail ch = ''channel `'' @ ch @ ''` is sent to but never received (orphan send / dropped channel)''"

definition blocked_detail :: "string \<Rightarrow> string" where
  "blocked_detail ch = ''linear receive on `'' @ ch @ ''` has no producer anywhere '' @ [CHR 0xE2, CHR 0x80, CHR 0x94] @ '' the receiver blocks forever''"

definition cycle_detail :: string where
  "cycle_detail = ''communication deadlock: each process blocks on a receive that only the next (also-blocked) process in the cycle would produce''"

section \<open>Matching\<close>

record channel_tally =
  ct_senders :: "int list"
  ct_linear :: "int list"
  ct_persistent :: "int list"

definition new_tally :: channel_tally where
  "new_tally = \<lparr>ct_senders = [], ct_linear = [], ct_persistent = []\<rparr>"

definition any_receiver :: "channel_tally \<Rightarrow> bool" where
  "any_receiver t \<longleftrightarrow> ct_linear t \<noteq> [] \<or> ct_persistent t \<noteq> []"

fun count_event :: "int \<Rightarrow> msg_kind \<Rightarrow> channel_tally \<Rightarrow> channel_tally" where
  "count_event p MsgSend t = t\<lparr>ct_senders := insert_new p (ct_senders t)\<rparr>"
| "count_event p MsgSendPersistent t = t\<lparr>ct_senders := insert_new p (ct_senders t)\<rparr>"
| "count_event p MsgRecv t = t\<lparr>ct_linear := insert_new p (ct_linear t)\<rparr>"
| "count_event p MsgRecvPersistent t = t\<lparr>ct_persistent := insert_new p (ct_persistent t)\<rparr>"
| "count_event p MsgSelect t = t"
| "count_event p MsgSpawn t = t"

definition tally_event :: "int \<Rightarrow> channel_event \<Rightarrow> (string \<times> channel_tally) list \<Rightarrow> (string \<times> channel_tally) list" where
  "tally_event p ev m = (case ce_channel ev of None \<Rightarrow> m
     | Some ch \<Rightarrow> AList.update ch (count_event p (ce_kind ev) (case map_of m ch of None \<Rightarrow> new_tally | Some t \<Rightarrow> t)) m)"

definition tally_channels :: "process_table \<Rightarrow> (string \<times> channel_tally) list" where
  "tally_channels tbl = fold (\<lambda>(p, events). fold (tally_event p) events) tbl []"

definition match_channel :: "string \<times> channel_tally \<Rightarrow> channel_finding list" where
  "match_channel x = (case x of (ch, t) \<Rightarrow>
     (if ct_senders t \<noteq> [] \<and> \<not> any_receiver t
      then [\<lparr>cf_kind = OrphanSend, cf_channel = Some ch, cf_processes = sort (ct_senders t), cf_waits = [], cf_detail = orphan_detail ch\<rparr>] else []) @
     (if ct_linear t \<noteq> [] \<and> ct_senders t = []
      then [\<lparr>cf_kind = BlockedRecv, cf_channel = Some ch, cf_processes = sort (ct_linear t), cf_waits = [], cf_detail = blocked_detail ch\<rparr>] else []))"

definition channel_matching :: "process_table \<Rightarrow> channel_finding list" where
  "channel_matching tbl = sort_key cf_channel (concat (map match_channel (tally_channels tbl)))"

section \<open>Cyclic waits\<close>

text \<open>The channel of the first message operation, when it is a linear receive.\<close>

definition blocked_on :: "channel_event list \<Rightarrow> string option" where
  "blocked_on events = (case find (\<lambda>e. is_send (ce_kind e) \<or> is_blocking_recv (ce_kind e)) events of
     Some ev \<Rightarrow> if is_blocking_recv (ce_kind ev) then ce_channel ev else None | None \<Rightarrow> None)"

definition add_producer :: "int \<Rightarrow> channel_event \<Rightarrow> (string \<times> int list) list \<Rightarrow> (string \<times> int list) list" where
  "add_producer p ev m = (case ce_channel ev of
     Some ch \<Rightarrow> if is_send (ce_kind ev) then at_entry ch (\<lambda>ps. ps @ [p]) m else m | None \<Rightarrow> m)"

definition producers :: "process_table \<Rightarrow> (string \<times> int list) list" where
  "producers tbl = fold (\<lambda>(p, events). fold (add_producer p) events) tbl []"

definition first_recv :: "process_table \<Rightarrow> (int \<times> string) list" where
  "first_recv tbl = concat (map (\<lambda>(p, events). case blocked_on events of Some ch \<Rightarrow> [(p, ch)] | None \<Rightarrow> []) tbl)"

text \<open>The pairs \<open>(p, q)\<close> of the wait-for relation, each with the channel.\<close>

definition wait_triples :: "process_table \<Rightarrow> (int \<times> int \<times> string) list" where
  "wait_triples tbl = concat (map (\<lambda>(p, ch). case map_of (producers tbl) ch of None \<Rightarrow> []
     | Some prods \<Rightarrow> map (\<lambda>q. (p, q, ch)) (filter (\<lambda>q. q \<noteq> p \<and> q \<in> fst ` set (first_recv tbl)) prods)) (first_recv tbl))"

definition wait_nodes :: "process_table \<Rightarrow> int list" where
  "wait_nodes tbl = fold (\<lambda>(p, q, ch) ns. insert_new q (insert_new p ns)) (wait_triples tbl) []"

definition wait_graph :: "process_table \<Rightarrow> digraph" where
  "wait_graph tbl = (let ns = wait_nodes tbl in
     \<lparr>gr_count = length ns, gr_edges = map (\<lambda>(p, q, ch). (index_of p ns, index_of q ns)) (wait_triples tbl)\<rparr>)"

definition waits_on :: "process_table \<Rightarrow> ((int \<times> int) \<times> string) list" where
  "waits_on tbl = fold (\<lambda>(p, q, ch). AList.update (p, q) ch) (wait_triples tbl) []"

definition waits_within :: "process_table \<Rightarrow> int list \<Rightarrow> (int \<times> string) list" where
  "waits_within tbl members = concat (map (\<lambda>p. case find (\<lambda>((pp, qq), ch). pp = p \<and> qq \<in> set members) (waits_on tbl) of
     Some ((pp, qq), ch) \<Rightarrow> [(p, ch)] | None \<Rightarrow> []) members)"

definition channel_cycles :: "graph_library \<Rightarrow> process_table \<Rightarrow> channel_finding list" where
  "channel_cycles lib tbl = snd (fold (\<lambda>scc (seen, out).
     let members = map ((!) (wait_nodes tbl)) scc; procs = sort members in
     if procs \<in> set seen then (seen, out)
     else (seen @ [procs], out @ [\<lparr>cf_kind = ChannelCycle, cf_channel = None, cf_processes = procs, cf_waits = waits_within tbl members, cf_detail = cycle_detail\<rparr>]))
     (find_cycles lib (wait_graph tbl)) ([], []))"

definition petri_analyze_channels :: "graph_library \<Rightarrow> process_table \<Rightarrow> channel_finding list" where
  "petri_analyze_channels lib tbl = channel_cycles lib tbl @ channel_matching tbl"

definition msg_kind_from_str :: "string \<Rightarrow> msg_kind option" where
  "msg_kind_from_str s = (if s = ''send'' then Some MsgSend else if s = ''send_persistent'' then Some MsgSendPersistent
     else if s = ''recv'' then Some MsgRecv else if s = ''recv_persistent'' then Some MsgRecvPersistent
     else if s = ''select'' then Some MsgSelect else if s = ''spawn'' then Some MsgSpawn else None)"

text \<open>The rows come ordered by symbol and sequence number.\<close>

definition channel_processes :: "sync_op_row list \<Rightarrow> process_table" where
  "channel_processes rows = fold (\<lambda>r m. case msg_kind_from_str (so_op_kind r) of None \<Rightarrow> m
     | Some kind \<Rightarrow> at_entry (so_symbol_id r) (\<lambda>es. es @ [\<lparr>ce_kind = kind, ce_channel = so_resource_key r\<rparr>]) m) rows []"

definition analyze_channels :: "graph_library \<Rightarrow> sync_op_row list \<Rightarrow> channel_finding list" where
  "analyze_channels lib rows = petri_analyze_channels lib (channel_processes rows)"

end
