(* ===== verification/Conc_Channel_Run.thy ===== *)
theory Conc_Channel_Run
  imports Conc_Channels
begin

text \<open>
  What the channel analysis is about: processes that run their events against unbounded buffers. A
  message stays in its buffer until a receive takes it, a standing message is never used up, and an
  operation on no named channel never blocks.
\<close>

section \<open>Who sends and who receives\<close>

definition sends :: "process_table \<Rightarrow> int \<Rightarrow> string \<Rightarrow> bool" where
  "sends tbl p ch \<longleftrightarrow> (\<exists>es. (p, es) \<in> set tbl \<and> (\<exists>e \<in> set es. is_send (ce_kind e) \<and> ce_channel e = Some ch))"

definition receives :: "process_table \<Rightarrow> int \<Rightarrow> string \<Rightarrow> bool" where
  "receives tbl p ch \<longleftrightarrow> (\<exists>es. (p, es) \<in> set tbl \<and> (\<exists>e \<in> set es. ce_kind e = MsgRecv \<and> ce_channel e = Some ch))"

definition stands_by :: "process_table \<Rightarrow> int \<Rightarrow> string \<Rightarrow> bool" where
  "stands_by tbl p ch \<longleftrightarrow> (\<exists>es. (p, es) \<in> set tbl \<and> (\<exists>e \<in> set es. ce_kind e = MsgRecvPersistent \<and> ce_channel e = Some ch))"

definition tally_of :: "(string \<times> channel_tally) list \<Rightarrow> string \<Rightarrow> channel_tally" where
  "tally_of m ch = (case map_of m ch of None \<Rightarrow> new_tally | Some t \<Rightarrow> t)"

lemma tally_of_event:
  "tally_of (tally_event p ev m) ch = (if ce_channel ev = Some ch then count_event p (ce_kind ev) (tally_of m ch) else tally_of m ch)"
  by (auto simp: tally_of_def tally_event_def AList.update_conv' split: option.split)

definition tally_ok :: "channel_tally \<Rightarrow> bool" where
  "tally_ok t \<longleftrightarrow> distinct (ct_senders t) \<and> distinct (ct_linear t)"

lemma count_event_facts:
  "set (ct_senders (count_event p k t)) = set (ct_senders t) \<union> (if is_send k then {p} else {})"
  "set (ct_linear (count_event p k t)) = set (ct_linear t) \<union> (if k = MsgRecv then {p} else {})"
  "set (ct_persistent (count_event p k t)) = set (ct_persistent t) \<union> (if k = MsgRecvPersistent then {p} else {})"
  "tally_ok t \<Longrightarrow> tally_ok (count_event p k t)"
  by (cases k; auto simp: is_send_def tally_ok_def)+

lemma tally_events_facts:
  fixes m p es ch
  defines "t \<equiv> tally_of (fold (tally_event p) es m) ch"
  shows "set (ct_senders t) = set (ct_senders (tally_of m ch)) \<union> {q. q = p \<and> (\<exists>e \<in> set es. is_send (ce_kind e) \<and> ce_channel e = Some ch)}"
    and "set (ct_linear t) = set (ct_linear (tally_of m ch)) \<union> {q. q = p \<and> (\<exists>e \<in> set es. ce_kind e = MsgRecv \<and> ce_channel e = Some ch)}"
    and "set (ct_persistent t) = set (ct_persistent (tally_of m ch)) \<union> {q. q = p \<and> (\<exists>e \<in> set es. ce_kind e = MsgRecvPersistent \<and> ce_channel e = Some ch)}"
    and "tally_ok (tally_of m ch) \<Longrightarrow> tally_ok t"
  unfolding t_def by (induction es arbitrary: m) (auto simp: tally_of_event count_event_facts)

lemma tally_channels_facts:
  "set (ct_senders (tally_of (tally_channels tbl) ch)) = {p. sends tbl p ch}"
  "set (ct_linear (tally_of (tally_channels tbl) ch)) = {p. receives tbl p ch}"
  "set (ct_persistent (tally_of (tally_channels tbl) ch)) = {p. stands_by tbl p ch}"
  "tally_ok (tally_of (tally_channels tbl) ch)"
proof -
  let ?t = "\<lambda>m. tally_of (fold (\<lambda>(p, events). fold (tally_event p) events) tbl m) ch"
  have "set (ct_senders (?t m)) = set (ct_senders (tally_of m ch)) \<union> {p. sends tbl p ch}" for m
    by (induction tbl arbitrary: m) (auto simp: tally_events_facts sends_def)
  moreover have "set (ct_linear (?t m)) = set (ct_linear (tally_of m ch)) \<union> {p. receives tbl p ch}" for m
    by (induction tbl arbitrary: m) (auto simp: tally_events_facts receives_def)
  moreover have "set (ct_persistent (?t m)) = set (ct_persistent (tally_of m ch)) \<union> {p. stands_by tbl p ch}" for m
    by (induction tbl arbitrary: m) (auto simp: tally_events_facts stands_by_def)
  moreover have "tally_ok (tally_of m ch) \<Longrightarrow> tally_ok (?t m)" for m
    by (induction tbl arbitrary: m) (auto simp: tally_events_facts)
  ultimately show "set (ct_senders (tally_of (tally_channels tbl) ch)) = {p. sends tbl p ch}"
    "set (ct_linear (tally_of (tally_channels tbl) ch)) = {p. receives tbl p ch}"
    "set (ct_persistent (tally_of (tally_channels tbl) ch)) = {p. stands_by tbl p ch}"
    "tally_ok (tally_of (tally_channels tbl) ch)"
    by (auto simp: tally_channels_def tally_of_def new_tally_def tally_ok_def)
qed

lemma tally_distinct: "distinct (map fst (tally_channels tbl))"
proof -
  have one: "distinct (map fst m) \<Longrightarrow> distinct (map fst (fold (tally_event p) es m))" for p es and m :: "(string \<times> channel_tally) list"
    by (induction es arbitrary: m) (auto simp: tally_event_def distinct_update split: option.split)
  have "distinct (map fst m) \<Longrightarrow> distinct (map fst (fold (\<lambda>(p, events). fold (tally_event p) events) tbl m))" for m :: "(string \<times> channel_tally) list"
    by (induction tbl arbitrary: m) (auto simp: one)
  then show ?thesis by (simp add: tally_channels_def)
qed

lemma matching_findings:
  "f \<in> set (channel_matching tbl) \<longleftrightarrow> (\<exists>ch. f \<in> set (match_channel (ch, tally_of (tally_channels tbl) ch)))"
proof -
  have "f \<in> set (channel_matching tbl) \<longleftrightarrow> (\<exists>ch t. map_of (tally_channels tbl) ch = Some t \<and> f \<in> set (match_channel (ch, t)))"
    using tally_distinct[of tbl] by (force simp: channel_matching_def)
  moreover have "match_channel (ch, new_tally) = []" for ch by (simp add: match_channel_def new_tally_def)
  ultimately show ?thesis unfolding tally_of_def by (auto split: option.splits)
qed

lemma matching_at:
  "(\<exists>f \<in> set (channel_matching tbl). P f \<and> cf_channel f = Some ch \<and> Q f) \<longleftrightarrow>
     (\<exists>f \<in> set (match_channel (ch, tally_of (tally_channels tbl) ch)). P f \<and> Q f)"
proof -
  have "f \<in> set (match_channel (c, t)) \<Longrightarrow> cf_channel f = Some c" for f c t by (auto simp: match_channel_def split: if_splits)
  then show ?thesis using matching_findings by (metis option.inject)
qed

lemma orphan_findings:
  "(\<exists>f \<in> set (channel_matching tbl). cf_kind f = OrphanSend \<and> cf_channel f = Some ch \<and> p \<in> set (cf_processes f)) \<longleftrightarrow>
     sends tbl p ch \<and> (\<forall>q. \<not> receives tbl q ch \<and> \<not> stands_by tbl q ch)"
proof -
  let ?t = "tally_of (tally_channels tbl) ch"
  have "(\<exists>f \<in> set (channel_matching tbl). cf_kind f = OrphanSend \<and> cf_channel f = Some ch \<and> p \<in> set (cf_processes f)) \<longleftrightarrow>
      p \<in> set (ct_senders ?t) \<and> set (ct_linear ?t) = {} \<and> set (ct_persistent ?t) = {}"
    unfolding matching_at by (auto simp: match_channel_def any_receiver_def)
  then show ?thesis by (auto simp: tally_channels_facts)
qed

lemma blocked_findings:
  "(\<exists>f \<in> set (channel_matching tbl). cf_kind f = BlockedRecv \<and> cf_channel f = Some ch \<and> p \<in> set (cf_processes f)) \<longleftrightarrow>
     receives tbl p ch \<and> (\<forall>q. \<not> sends tbl q ch)"
proof -
  let ?t = "tally_of (tally_channels tbl) ch"
  have "(\<exists>f \<in> set (channel_matching tbl). cf_kind f = BlockedRecv \<and> cf_channel f = Some ch \<and> p \<in> set (cf_processes f)) \<longleftrightarrow>
      p \<in> set (ct_linear ?t) \<and> set (ct_senders ?t) = {}"
    unfolding matching_at by (auto simp: match_channel_def)
  then show ?thesis by (auto simp: tally_channels_facts)
qed

lemma matching_kinds: "f \<in> set (channel_matching tbl) \<Longrightarrow> cf_kind f \<noteq> ChannelCycle"
  by (auto simp: matching_findings match_channel_def split: if_splits)

section \<open>Runs\<close>

record channel_state =
  cs_todo :: "int \<Rightarrow> channel_event list"
  cs_buffer :: "string \<Rightarrow> nat"
  cs_standing :: "string set"

definition process_body :: "process_table \<Rightarrow> int \<Rightarrow> channel_event list" where
  "process_body tbl p = (case map_of tbl p of None \<Rightarrow> [] | Some es \<Rightarrow> es)"

definition channel_start :: "process_table \<Rightarrow> channel_state" where
  "channel_start tbl = \<lparr>cs_todo = process_body tbl, cs_buffer = (\<lambda>ch. 0), cs_standing = {}\<rparr>"

definition advance :: "int \<Rightarrow> channel_event list \<Rightarrow> channel_state \<Rightarrow> channel_state" where
  "advance p es st = st\<lparr>cs_todo := (cs_todo st)(p := es)\<rparr>"

definition put_message :: "string \<Rightarrow> channel_state \<Rightarrow> channel_state" where
  "put_message ch st = st\<lparr>cs_buffer := (cs_buffer st)(ch := Suc (cs_buffer st ch))\<rparr>"

definition take_message :: "string \<Rightarrow> channel_state \<Rightarrow> channel_state" where
  "take_message ch st = st\<lparr>cs_buffer := (cs_buffer st)(ch := cs_buffer st ch - 1)\<rparr>"

inductive channel_run :: "channel_state \<Rightarrow> channel_state \<Rightarrow> bool" where
  run_send: "cs_todo st p = e # es \<Longrightarrow> ce_kind e = MsgSend \<Longrightarrow> ce_channel e = Some ch \<Longrightarrow>
     channel_run st (put_message ch (advance p es st))"
| run_send_standing: "cs_todo st p = e # es \<Longrightarrow> ce_kind e = MsgSendPersistent \<Longrightarrow> ce_channel e = Some ch \<Longrightarrow>
     channel_run st (advance p es st\<lparr>cs_standing := insert ch (cs_standing st)\<rparr>)"
| run_recv: "cs_todo st p = e # es \<Longrightarrow> ce_kind e = MsgRecv \<or> ce_kind e = MsgRecvPersistent \<Longrightarrow> ce_channel e = Some ch \<Longrightarrow>
     0 < cs_buffer st ch \<Longrightarrow> channel_run st (take_message ch (advance p es st))"
| run_recv_standing: "cs_todo st p = e # es \<Longrightarrow> ce_kind e = MsgRecv \<Longrightarrow> ce_channel e = Some ch \<Longrightarrow>
     ch \<in> cs_standing st \<Longrightarrow> channel_run st (advance p es st)"
| run_other: "cs_todo st p = e # es \<Longrightarrow> ce_channel e = None \<or> ce_kind e \<in> {MsgRecvPersistent, MsgSelect, MsgSpawn} \<Longrightarrow>
     channel_run st (advance p es st)"

definition channel_reachable :: "process_table \<Rightarrow> channel_state \<Rightarrow> bool" where
  "channel_reachable tbl st \<longleftrightarrow> channel_run\<^sup>*\<^sup>* (channel_start tbl) st"

text \<open>
  A set \<open>W\<close> of waits \<open>(p, ch)\<close> in which everyone who sends on a channel of \<open>W\<close> is itself waiting, and
  sits before its first message operation, never moves.
\<close>

definition sends_in :: "channel_event list \<Rightarrow> string \<Rightarrow> bool" where
  "sends_in es ch \<longleftrightarrow> (\<exists>e \<in> set es. is_send (ce_kind e) \<and> ce_channel e = Some ch)"

definition stuck_waits :: "(int \<times> string) set \<Rightarrow> channel_state \<Rightarrow> bool" where
  "stuck_waits W st \<longleftrightarrow> (\<forall>(p, ch) \<in> W. blocked_on (cs_todo st p) = Some ch \<and> cs_buffer st ch = 0 \<and> ch \<notin> cs_standing st \<and>
     (\<forall>q. sends_in (cs_todo st q) ch \<longrightarrow> q \<in> fst ` W))"

lemma blocked_on_cons: "blocked_on (e # es) = (if is_send (ce_kind e) then None else if ce_kind e = MsgRecv then ce_channel e else blocked_on es)"
  by (auto simp: blocked_on_def is_send_def is_blocking_recv_def)

lemma sends_in_cons: "sends_in (e # es) ch \<longleftrightarrow> is_send (ce_kind e) \<and> ce_channel e = Some ch \<or> sends_in es ch"
  by (auto simp: sends_in_def)

lemma stuck_waitsD:
  assumes "stuck_waits W st" "(p, ch) \<in> W"
  shows "blocked_on (cs_todo st p) = Some ch" "cs_buffer st ch = 0" "ch \<notin> cs_standing st"
    "sends_in (cs_todo st q) ch \<Longrightarrow> q \<in> fst ` W"
  using assms by (auto simp: stuck_waits_def)

lemma waiting_sends_nothing: "stuck_waits W st \<Longrightarrow> q \<in> fst ` W \<Longrightarrow> cs_todo st q = e # es \<Longrightarrow> \<not> is_send (ce_kind e)"
  by (auto simp: blocked_on_cons dest: stuck_waitsD(1) split: if_splits)

lemma advance_stuck:
  assumes st: "stuck_waits W st" and q: "cs_todo st q = e # es" and pass: "\<And>ch. (q, ch) \<in> W \<Longrightarrow> ce_kind e \<noteq> MsgRecv"
  shows "stuck_waits W (advance q es st)"
proof -
  have "blocked_on es = Some ch" if w: "(q, ch) \<in> W" for ch
  proof -
    have "q \<in> fst ` W" using w by force
    then show ?thesis using stuck_waitsD(1)[OF st w] waiting_sends_nothing[OF st _ q] pass[OF w] q by (simp add: blocked_on_cons)
  qed
  moreover have "sends_in es ch \<Longrightarrow> q \<in> fst ` W" if "(p, ch) \<in> W" for p ch
    using stuck_waitsD(4)[OF st that] q by (simp add: sends_in_cons)
  ultimately show ?thesis using st by (auto simp: stuck_waits_def advance_def)
qed

lemma advance_select [simp]: "cs_buffer (advance p es st) = cs_buffer st" "cs_standing (advance p es st) = cs_standing st"
  by (simp_all add: advance_def)

text \<open>A change of the buffers that puts nothing on the channels of \<open>W\<close> keeps the waits.\<close>

lemma stuck_same:
  assumes "stuck_waits W st" "cs_todo st' = cs_todo st"
    "\<And>p ch. (p, ch) \<in> W \<Longrightarrow> cs_buffer st' ch \<le> cs_buffer st ch \<and> (ch \<in> cs_standing st' \<longrightarrow> ch \<in> cs_standing st)"
  shows "stuck_waits W st'"
  unfolding stuck_waits_def using stuck_waitsD[OF assms(1)] assms(2,3) by (force simp: case_prod_beta)

lemma run_keeps_stuck: "channel_run st st' \<Longrightarrow> stuck_waits W st \<Longrightarrow> stuck_waits W st'"
proof (induction rule: channel_run.induct)
  case (run_send st p e es ch)
  have free: "(x, ch) \<notin> W" for x
    using stuck_waitsD(4)[OF run_send(4), of x ch p] waiting_sends_nothing[OF run_send(4) _ run_send(1)] run_send(1-3)
    by (auto simp: sends_in_cons is_send_def)
  have "stuck_waits W (advance p es st)" by (rule advance_stuck[OF run_send(4,1)]) (simp add: run_send(2))
  then show ?case by (rule stuck_same) (use free in \<open>auto simp: put_message_def\<close>)
next
  case (run_send_standing st p e es ch)
  have free: "(x, ch) \<notin> W" for x
    using stuck_waitsD(4)[OF run_send_standing(4), of x ch p] waiting_sends_nothing[OF run_send_standing(4) _ run_send_standing(1)]
      run_send_standing(1-3) by (auto simp: sends_in_cons is_send_def)
  have "stuck_waits W (advance p es st)" by (rule advance_stuck[OF run_send_standing(4,1)]) (simp add: run_send_standing(2))
  then show ?case by (rule stuck_same) (use free in auto)
next
  case (run_recv st p e es ch)
  have "ce_kind e \<noteq> MsgRecv" if "(p, c) \<in> W" for c
    using stuck_waitsD(1,2)[OF run_recv(5) that] run_recv(1,3,4) by (auto simp: blocked_on_cons is_send_def split: if_splits)
  then have "stuck_waits W (advance p es st)" by (rule advance_stuck[OF run_recv(5,1)])
  then show ?case by (rule stuck_same) (simp_all add: take_message_def)
next
  case (run_recv_standing st p e es ch)
  have "(p, c) \<notin> W" for c
    using stuck_waitsD(1,3)[OF run_recv_standing(5), of p c] run_recv_standing(1-4) by (auto simp: blocked_on_cons is_send_def)
  then show ?case using advance_stuck[OF run_recv_standing(5,1)] by blast
next
  case (run_other st p e es)
  have "ce_kind e \<noteq> MsgRecv" if "(p, c) \<in> W" for c
    using stuck_waitsD(1)[OF run_other(3) that] run_other(1,2) by (auto simp: blocked_on_cons is_send_def)
  then show ?case using advance_stuck[OF run_other(3,1)] by blast
qed

lemma reachable_stuck:
  assumes "channel_reachable tbl st" "stuck_waits W (channel_start tbl)"
  shows "stuck_waits W st"
  using assms(1) unfolding channel_reachable_def
  by (induction rule: rtranclp_induct) (auto simp: assms(2) intro: run_keeps_stuck)

text \<open>A receive on a channel nobody sends on is never passed.\<close>

definition starved :: "int \<Rightarrow> string \<Rightarrow> channel_state \<Rightarrow> bool" where
  "starved p ch st \<longleftrightarrow> (\<exists>e \<in> set (cs_todo st p). ce_kind e = MsgRecv \<and> ce_channel e = Some ch) \<and>
     cs_buffer st ch = 0 \<and> ch \<notin> cs_standing st \<and> (\<forall>q. \<not> sends_in (cs_todo st q) ch)"

lemma advance_starved:
  assumes "starved p ch st" "cs_todo st q = e # es" "q = p \<Longrightarrow> \<not> (ce_kind e = MsgRecv \<and> ce_channel e = Some ch)"
  shows "starved p ch (advance q es st)"
proof -
  have "\<not> sends_in es ch" using assms(1,2) by (metis starved_def sends_in_cons)
  then show ?thesis using assms by (auto simp: starved_def advance_def)
qed

lemma starved_same:
  assumes "starved p ch st" "cs_todo st' = cs_todo st" "cs_buffer st' ch \<le> cs_buffer st ch" "ch \<in> cs_standing st' \<Longrightarrow> ch \<in> cs_standing st"
  shows "starved p ch st'"
  using assms by (auto simp: starved_def)

lemma starved_sends_nothing: "starved p ch st \<Longrightarrow> cs_todo st q = e # es \<Longrightarrow> ce_channel e = Some c \<Longrightarrow> is_send (ce_kind e) \<Longrightarrow> c \<noteq> ch"
  unfolding starved_def by (metis sends_in_cons)

lemma run_keeps_starved: "channel_run st st' \<Longrightarrow> starved p ch st \<Longrightarrow> starved p ch st'"
proof (induction rule: channel_run.induct)
  case (run_send st q e es c)
  have "c \<noteq> ch" using starved_sends_nothing[OF run_send(4,1,3)] run_send(2) by (simp add: is_send_def)
  have "starved p ch (advance q es st)" by (rule advance_starved[OF run_send(4,1)]) (simp add: run_send(2))
  then show ?case by (rule starved_same) (use \<open>c \<noteq> ch\<close> in \<open>simp_all add: put_message_def\<close>)
next
  case (run_send_standing st q e es c)
  have "c \<noteq> ch" using starved_sends_nothing[OF run_send_standing(4,1,3)] run_send_standing(2) by (simp add: is_send_def)
  have "starved p ch (advance q es st)" by (rule advance_starved[OF run_send_standing(4,1)]) (simp add: run_send_standing(2))
  then show ?case by (rule starved_same) (use \<open>c \<noteq> ch\<close> in simp_all)
next
  case (run_recv st q e es c)
  have "c \<noteq> ch" using run_recv(4,5) by (auto simp: starved_def)
  then have "starved p ch (advance q es st)" using advance_starved[OF run_recv(5,1)] run_recv(3) by simp
  then show ?case by (rule starved_same) (simp_all add: take_message_def)
next
  case (run_recv_standing st q e es c)
  have "c \<noteq> ch" using run_recv_standing(4,5) by (auto simp: starved_def)
  then show ?case using advance_starved[OF run_recv_standing(5,1)] run_recv_standing(3) by simp
next
  case (run_other st q e es)
  then show ?case using advance_starved[OF run_other(3,1)] by auto
qed

lemma reachable_starved:
  assumes "channel_reachable tbl st" "starved p ch (channel_start tbl)"
  shows "starved p ch st"
  using assms(1) unfolding channel_reachable_def
  by (induction rule: rtranclp_induct) (auto simp: assms(2) intro: run_keeps_starved)

end
