(* ===== verification/Conc_Channel_Cycles.thy ===== *)
theory Conc_Channel_Cycles
  imports Conc_Channel_Run Conc_Reach
begin

text \<open>
  The cyclic waits the channel analysis reports: every process on a wait-for cycle is reported, the
  reported waits are real, and when only the reported processes send on the channels they wait for,
  none of them ever moves.
\<close>

section \<open>The wait-for relation\<close>

definition waits_for :: "process_table \<Rightarrow> int \<Rightarrow> int \<Rightarrow> bool" where
  "waits_for tbl p q \<longleftrightarrow> p \<noteq> q \<and> (\<exists>ch. (p, ch) \<in> set (first_recv tbl) \<and> sends tbl q ch) \<and> q \<in> fst ` set (first_recv tbl)"

lemma producers_listed: "listed (producers tbl) ch q \<longleftrightarrow> sends tbl q ch"
proof -
  have one: "listed (fold (add_producer p) es m) ch q \<longleftrightarrow> listed m ch q \<or>
      (q = p \<and> (\<exists>e \<in> set es. is_send (ce_kind e) \<and> ce_channel e = Some ch))" for p es m
    by (induction es arbitrary: m) (auto simp: add_producer_def listed_at_entry split: option.split)
  have "listed (fold (\<lambda>(p, events). fold (add_producer p) events) tbl m) ch q \<longleftrightarrow> listed m ch q \<or> sends tbl q ch" for m
    by (induction tbl arbitrary: m) (auto simp: one sends_def)
  then show ?thesis by (simp add: producers_def listed_def[of "[]"])
qed

lemma first_recv_iff: "(p, ch) \<in> set (first_recv tbl) \<longleftrightarrow> (\<exists>es. (p, es) \<in> set tbl \<and> blocked_on es = Some ch)"
  by (force simp: first_recv_def split: option.splits)

lemma wait_triples_iff: "(p, q, ch) \<in> set (wait_triples tbl) \<longleftrightarrow>
   (p, ch) \<in> set (first_recv tbl) \<and> sends tbl q ch \<and> q \<noteq> p \<and> q \<in> fst ` set (first_recv tbl)"
proof -
  have "(p, q, ch) \<in> set (wait_triples tbl) \<longleftrightarrow> (p, ch) \<in> set (first_recv tbl) \<and> listed (producers tbl) ch q \<and> q \<noteq> p \<and> q \<in> fst ` set (first_recv tbl)"
    (is "_ \<longleftrightarrow> ?r")
  proof
    assume ?r
    then show "(p, q, ch) \<in> set (wait_triples tbl)" unfolding wait_triples_def by (auto simp: listed_def intro!: bexI[of _ "(p, ch)"]) force
  qed (auto simp: wait_triples_def listed_def eq_commute[of "Some _" "map_of _ _"] split: option.splits)
  then show ?thesis by (simp add: producers_listed)
qed

lemma waits_for_triple: "waits_for tbl p q \<longleftrightarrow> (\<exists>ch. (p, q, ch) \<in> set (wait_triples tbl))"
  by (auto simp: waits_for_def wait_triples_iff)

lemma wait_nodes_props: "distinct (wait_nodes tbl)" "p \<in> set (wait_nodes tbl) \<longleftrightarrow> (\<exists>q. waits_for tbl p q \<or> waits_for tbl q p)"
proof -
  have first: "x \<in> fst ` S \<longleftrightarrow> (\<exists>q ch. (x, q, ch) \<in> S)" for x and S :: "(int \<times> int \<times> string) set" by force
  have second: "x \<in> (\<lambda>t. fst (snd t)) ` S \<longleftrightarrow> (\<exists>q ch. (q, x, ch) \<in> S)" for x and S :: "(int \<times> int \<times> string) set" by force
  let ?f = "\<lambda>(p :: int, q, ch :: string) ns. insert_new q (insert_new p ns)"
  have "distinct ns \<Longrightarrow> distinct (fold ?f ts ns)" for ts ns by (induction ts arbitrary: ns) auto
  then show "distinct (wait_nodes tbl)" by (simp add: wait_nodes_def)
  have "set (fold ?f ts ns) = set ns \<union> fst ` set ts \<union> (\<lambda>t. fst (snd t)) ` set ts" for ts ns
    by (induction ts arbitrary: ns) auto
  then have "set (wait_nodes tbl) = fst ` set (wait_triples tbl) \<union> (\<lambda>t. fst (snd t)) ` set (wait_triples tbl)" by (simp add: wait_nodes_def)
  then show "p \<in> set (wait_nodes tbl) \<longleftrightarrow> (\<exists>q. waits_for tbl p q \<or> waits_for tbl q p)"
    using first second by (simp add: waits_for_triple) blast
qed

lemma wait_graph_ok: "graph_ok (wait_graph tbl)"
proof -
  have "p \<in> set (wait_nodes tbl)" "q \<in> set (wait_nodes tbl)" if "(p, q, ch) \<in> set (wait_triples tbl)" for p q ch
    using that wait_nodes_props(2) waits_for_triple by blast+
  then show ?thesis by (auto simp: graph_ok_def wait_graph_def Let_def intro!: index_of_less)
qed

lemma wait_edge: "waits_for tbl p q \<Longrightarrow> has_edge (wait_graph tbl) (index_of p (wait_nodes tbl)) (index_of q (wait_nodes tbl))"
  by (force simp: waits_for_triple has_edge_def wait_graph_def Let_def)

lemma edge_wait:
  assumes "has_edge (wait_graph tbl) a b"
  shows "waits_for tbl (wait_nodes tbl ! a) (wait_nodes tbl ! b)"
proof -
  obtain p q ch where t: "(p, q, ch) \<in> set (wait_triples tbl)" "a = index_of p (wait_nodes tbl)" "b = index_of q (wait_nodes tbl)"
    using assms by (auto simp: has_edge_def wait_graph_def Let_def)
  then have "waits_for tbl p q" by (auto simp: waits_for_triple)
  moreover from this have "p \<in> set (wait_nodes tbl)" "q \<in> set (wait_nodes tbl)" using wait_nodes_props(2) by blast+
  ultimately show ?thesis using t by (simp add: nth_index_of)
qed

section \<open>The witnesses\<close>

lemma waits_on_sound: "((p, q), ch) \<in> set (waits_on tbl) \<Longrightarrow> (p, q, ch) \<in> set (wait_triples tbl)"
proof -
  have "((p, q), ch) \<in> set (fold (\<lambda>(p, q, ch). AList.update (p, q) ch) ts m) \<Longrightarrow> ((p, q), ch) \<in> set m \<or> (p, q, ch) \<in> set ts" for ts m
  proof (induction ts arbitrary: m)
    case (Cons t ts)
    have "set (AList.update k v m) \<subseteq> insert (k, v) (set m)" for k :: "int \<times> int" and v m by (induction m) auto
    with Cons show ?case by (cases t) fastforce
  qed simp
  then show "((p, q), ch) \<in> set (waits_on tbl) \<Longrightarrow> (p, q, ch) \<in> set (wait_triples tbl)" by (force simp: waits_on_def)
qed

lemma waits_on_complete: "waits_for tbl p q \<Longrightarrow> \<exists>ch. ((p, q), ch) \<in> set (waits_on tbl)"
proof -
  have one: "fst ` set (AList.update k v m) = insert k (fst ` set m)" for k :: "int \<times> int" and v :: string and m by (induction m) auto
  have "fst ` set (fold (\<lambda>(p, q, ch). AList.update (p, q) ch) ts m) = fst ` set m \<union> (\<lambda>(p, q, ch). (p, q)) ` set ts"
    for ts and m :: "((int \<times> int) \<times> string) list"
    by (induction ts arbitrary: m) (simp_all add: one case_prod_beta)
  from this[of "wait_triples tbl" "[]"] show "waits_for tbl p q \<Longrightarrow> ?thesis" by (force simp: waits_on_def waits_for_triple)
qed

lemma waits_within_sound:
  "(p, ch) \<in> set (waits_within tbl ms) \<Longrightarrow> p \<in> set ms \<and> (\<exists>q \<in> set ms. (p, q, ch) \<in> set (wait_triples tbl))"
proof -
  let ?P = "\<lambda>p ((pp, qq), ch :: string). pp = p \<and> qq \<in> set ms"
  assume "(p, ch) \<in> set (waits_within tbl ms)"
  then obtain r where r: "r \<in> set ms" "(p, ch) \<in> set (case find (?P r) (waits_on tbl) of Some ((pp, qq), c) \<Rightarrow> [(r, c)] | None \<Rightarrow> [])"
    unfolding waits_within_def by auto
  then obtain k where k: "find (?P r) (waits_on tbl) = Some (k, ch)" "p = r"
    by (cases "find (?P r) (waits_on tbl)") (auto split: prod.splits)
  have "(k, ch) \<in> set (waits_on tbl)" "?P r (k, ch)" using find_SomeD[OF k(1)] by blast+
  then obtain q where "((p, q), ch) \<in> set (waits_on tbl)" "q \<in> set ms" using k(2) by (cases k) auto
  then show ?thesis using r(1) k(2) waits_on_sound by blast
qed

lemma waits_within_complete:
  assumes "p \<in> set ms" "q \<in> set ms" "waits_for tbl p q"
  shows "\<exists>ch. (p, ch) \<in> set (waits_within tbl ms)"
proof -
  let ?P = "\<lambda>((pp, qq), ch :: string). pp = p \<and> qq \<in> set ms"
  obtain ch where "((p, q), ch) \<in> set (waits_on tbl)" using waits_on_complete[OF assms(3)] by blast
  then have "find ?P (waits_on tbl) \<noteq> None" using assms(2) by (auto simp: find_None_iff)
  then obtain k c where "find ?P (waits_on tbl) = Some (k, c)" by auto
  then show ?thesis using assms(1) by (cases k) (force simp: waits_within_def)
qed

section \<open>The findings\<close>

definition cycle_finding :: "process_table \<Rightarrow> nat list \<Rightarrow> channel_finding" where
  "cycle_finding tbl scc = (let members = map ((!) (wait_nodes tbl)) scc in
     \<lparr>cf_kind = ChannelCycle, cf_channel = None, cf_processes = sort members, cf_waits = waits_within tbl members, cf_detail = cycle_detail\<rparr>)"

definition add_cycle :: "process_table \<Rightarrow> nat list \<Rightarrow> int list list \<times> channel_finding list \<Rightarrow> int list list \<times> channel_finding list" where
  "add_cycle tbl scc st = (let f = cycle_finding tbl scc in
     if cf_processes f \<in> set (fst st) then st else (fst st @ [cf_processes f], snd st @ [f]))"

lemma channel_cycles_fold: "channel_cycles lib tbl = snd (fold (add_cycle tbl) (find_cycles lib (wait_graph tbl)) ([], []))"
  unfolding channel_cycles_def by (intro arg_cong[of _ _ snd] fold_cong) (auto simp: add_cycle_def cycle_finding_def Let_def)

lemma channel_cycles_sound: "f \<in> set (channel_cycles lib tbl) \<Longrightarrow> \<exists>scc \<in> set (find_cycles lib (wait_graph tbl)). f = cycle_finding tbl scc"
proof -
  have "f \<in> set (snd (fold (add_cycle tbl) sccs st)) \<Longrightarrow> f \<in> set (snd st) \<or> (\<exists>scc \<in> set sccs. f = cycle_finding tbl scc)" for sccs st
    by (induction sccs arbitrary: st) (fastforce simp: add_cycle_def Let_def split: if_splits)+
  then show "f \<in> set (channel_cycles lib tbl) \<Longrightarrow> ?thesis" by (fastforce simp: channel_cycles_fold)
qed

lemma channel_cycles_complete:
  "scc \<in> set (find_cycles lib (wait_graph tbl)) \<Longrightarrow> \<exists>f \<in> set (channel_cycles lib tbl). cf_processes f = cf_processes (cycle_finding tbl scc)"
proof -
  define kept where "kept st \<longleftrightarrow> set (fst st) \<subseteq> cf_processes ` set (snd st)" for st :: "int list list \<times> channel_finding list"
  have step: "kept st \<Longrightarrow> kept (add_cycle tbl x st)" "set (snd st) \<subseteq> set (snd (add_cycle tbl x st))"
    "kept st \<Longrightarrow> cf_processes (cycle_finding tbl x) \<in> cf_processes ` set (snd (add_cycle tbl x st))" for x st
    by (auto simp: kept_def add_cycle_def Let_def)
  have grow: "set (snd st) \<subseteq> set (snd (fold (add_cycle tbl) sccs st))" for sccs st
  proof (induction sccs arbitrary: st)
    case (Cons x sccs)
    show ?case using order_trans[OF step(2) Cons.IH] by (simp only: fold.simps comp_apply)
  qed simp
  have "scc \<in> set sccs \<Longrightarrow> kept st \<Longrightarrow> cf_processes (cycle_finding tbl scc) \<in> cf_processes ` set (snd (fold (add_cycle tbl) sccs st))" for sccs st
  proof (induction sccs arbitrary: st)
    case (Cons x sccs)
    show ?case
    proof (cases "x = scc")
      case True
      then show ?thesis using subsetD[OF image_mono[OF grow] step(3)[OF Cons.prems(2), of scc]] by simp
    next
      case False
      then show ?thesis using Cons.IH[OF _ step(1)[OF Cons.prems(2)]] Cons.prems(1) by simp
    qed
  qed simp
  from this[of _ "([], [])"] show "scc \<in> set (find_cycles lib (wait_graph tbl)) \<Longrightarrow> ?thesis"
    by (fastforce simp: channel_cycles_fold kept_def)
qed

section \<open>Processes by name\<close>

text \<open>With one entry per process, the tables are those of the bodies.\<close>

lemma body_of: "distinct (map fst tbl) \<Longrightarrow> (p, es) \<in> set tbl \<Longrightarrow> process_body tbl p = es"
  by (simp add: process_body_def)

lemma sends_body: "distinct (map fst tbl) \<Longrightarrow> sends_in (process_body tbl p) ch \<longleftrightarrow> sends tbl p ch"
  by (auto simp: sends_def sends_in_def process_body_def split: option.split dest: map_of_SomeD)

lemma first_recv_body: "distinct (map fst tbl) \<Longrightarrow> (p, ch) \<in> set (first_recv tbl) \<Longrightarrow> blocked_on (process_body tbl p) = Some ch"
  by (auto simp: first_recv_iff body_of)

lemma channel_processes_distinct: "distinct (map fst (channel_processes rows))"
proof -
  let ?f = "\<lambda>r m. case msg_kind_from_str (so_op_kind r) of None \<Rightarrow> m
     | Some kind \<Rightarrow> at_entry (so_symbol_id r) (\<lambda>es. es @ [\<lparr>ce_kind = kind, ce_channel = so_resource_key r\<rparr>]) m"
  have "distinct (map fst m) \<Longrightarrow> distinct (map fst (fold ?f rs m))" for rs :: "sync_op_row list" and m :: process_table
    by (induction rs arbitrary: m) (auto simp: at_entry_def distinct_update split: option.split)
  then show ?thesis by (simp add: channel_processes_def)
qed

definition only_members_produce :: "process_table \<Rightarrow> channel_finding \<Rightarrow> bool" where
  "only_members_produce tbl f \<longleftrightarrow> list_all (\<lambda>(p, ch). list_all (\<lambda>(q, es).
     list_ex (\<lambda>e. is_send (ce_kind e) \<and> ce_channel e = Some ch) es \<longrightarrow> q \<in> set (cf_processes f)) tbl) (cf_waits f)"

lemma only_members_produceD: "only_members_produce tbl f \<Longrightarrow> (p, ch) \<in> set (cf_waits f) \<Longrightarrow> sends tbl q ch \<Longrightarrow> q \<in> set (cf_processes f)"
  by (fastforce simp: only_members_produce_def sends_def list_all_iff list_ex_iff)

context graph_laws
begin

lemma wait_cycle_reported:
  assumes "simple_cycle (waits_for tbl) ps"
  shows "\<exists>f \<in> set (channel_cycles lib tbl). cf_kind f = ChannelCycle \<and> set ps \<subseteq> set (cf_processes f)"
proof -
  let ?ns = "wait_nodes tbl"
  let ?c = "map (\<lambda>p. index_of p ?ns) ps"
  have ps: "length ps > 1" "distinct ps" "successively (waits_for tbl) ps" "waits_for tbl (last ps) (hd ps)" "ps \<noteq> []"
    using assms by (auto simp: simple_cycle_def)
  have known: "p \<in> set ?ns" if "p \<in> set ps" for p
    using that cycle_reaches[OF assms that that] wait_nodes_props(2) by (auto elim: tranclE)
  have "distinct ?c" using ps(2) known by (auto simp: distinct_map inj_on_def) (metis nth_index_of)
  moreover have "successively (has_edge (wait_graph tbl)) ?c"
    unfolding successively_map_iff using ps(3) by (rule successively_mono) (rule wait_edge)
  moreover have "has_edge (wait_graph tbl) (last ?c) (hd ?c)" using wait_edge[OF ps(4)] ps(5) by (simp add: last_map hd_map)
  ultimately have "simple_cycle (has_edge (wait_graph tbl)) ?c" using ps(1) by (simp add: simple_cycle_def)
  then obtain scc where scc: "scc \<in> set (find_cycles lib (wait_graph tbl))" "set ?c \<subseteq> set scc"
    using cycle_in_component[OF wait_graph_ok] by blast
  obtain f where f: "f \<in> set (channel_cycles lib tbl)" "cf_processes f = cf_processes (cycle_finding tbl scc)"
    using channel_cycles_complete[OF scc(1)] by blast
  have "p \<in> set (cf_processes f)" if p: "p \<in> set ps" for p
  proof -
    have "index_of p ?ns \<in> set scc" using scc(2) p by auto
    then have "?ns ! index_of p ?ns \<in> set (cf_processes f)" by (simp add: f(2) cycle_finding_def Let_def)
    then show ?thesis by (simp add: nth_index_of known p)
  qed
  moreover have "cf_kind f = ChannelCycle" using channel_cycles_sound[OF f(1)] by (auto simp: cycle_finding_def Let_def)
  ultimately show ?thesis using f(1) by blast
qed

lemma reported_waits:
  assumes "f \<in> set (channel_cycles lib tbl)"
  shows "fst ` set (cf_waits f) = set (cf_processes f)"
    and "(p, ch) \<in> set (cf_waits f) \<Longrightarrow> (p, ch) \<in> set (first_recv tbl) \<and> (\<exists>q \<in> set (cf_processes f). q \<noteq> p \<and> sends tbl q ch)"
proof -
  obtain scc where scc: "scc \<in> set (find_cycles lib (wait_graph tbl))" "f = cycle_finding tbl scc"
    using channel_cycles_sound[OF assms] by blast
  let ?ms = "map ((!) (wait_nodes tbl)) scc"
  have f: "set (cf_processes f) = set ?ms" "cf_waits f = waits_within tbl ?ms" by (simp_all add: scc(2) cycle_finding_def Let_def)
  show "(p, ch) \<in> set (cf_waits f) \<Longrightarrow> (p, ch) \<in> set (first_recv tbl) \<and> (\<exists>q \<in> set (cf_processes f). q \<noteq> p \<and> sends tbl q ch)"
    using waits_within_sound[of p ch tbl ?ms] unfolding f wait_triples_iff by blast
  have "x \<in> fst ` set (cf_waits f)" if x: "x \<in> set ?ms" for x
  proof -
    obtain a where a: "a \<in> set scc" "x = wait_nodes tbl ! a" using x by auto
    obtain b where "b \<in> set scc" "has_edge (wait_graph tbl) a b" by (rule component_successor[OF wait_graph_ok scc(1) a(1)])
    then have "waits_for tbl x (wait_nodes tbl ! b)" "wait_nodes tbl ! b \<in> set ?ms" using edge_wait a(2) by auto
    then show ?thesis using waits_within_complete[OF x] f(2) by force
  qed
  moreover have "fst ` set (cf_waits f) \<subseteq> set ?ms" using waits_within_sound f(2) by force
  ultimately show "fst ` set (cf_waits f) = set (cf_processes f)" using f(1) by blast
qed

lemma reported_cycle_stuck:
  assumes "distinct (map fst tbl)" "f \<in> set (channel_cycles lib tbl)" "only_members_produce tbl f" "channel_reachable tbl st"
  shows "stuck_waits (set (cf_waits f)) st"
proof (rule reachable_stuck[OF assms(4)])
  have "blocked_on (process_body tbl p) = Some ch" if "(p, ch) \<in> set (cf_waits f)" for p ch
    using reported_waits(2)[OF assms(2) that] first_recv_body[OF assms(1)] by blast
  moreover have "q \<in> fst ` set (cf_waits f)" if "(p, ch) \<in> set (cf_waits f)" "sends_in (process_body tbl q) ch" for p q ch
    using that only_members_produceD[OF assms(3)] reported_waits(1)[OF assms(2)] by (simp add: sends_body[OF assms(1)])
  ultimately show "stuck_waits (set (cf_waits f)) (channel_start tbl)"
    unfolding stuck_waits_def channel_start_def by auto
qed

end

end
