(* ===== verification/Conc_Trace.thy ===== *)
theory Conc_Trace
  imports Conc_Locks
begin

text \<open>
  Observed waits against the predicted order (\<open>src/concurrency/trace_reconcile.rs\<close>): the three trace
  parsers and the reconciler. Text is ASCII. A hash set that only guards the pushes to a list is that
  list.
\<close>

section \<open>Text\<close>

definition begins_with :: "string \<Rightarrow> string \<Rightarrow> bool" where
  "begins_with p s \<longleftrightarrow> take (length p) s = p"

text \<open>The text before the first, and after the last, occurrence of a pattern.\<close>

primrec before_first :: "string \<Rightarrow> string \<Rightarrow> string" where
  "before_first pat [] = []"
| "before_first pat (c # cs) = (if begins_with pat (c # cs) then [] else c # before_first pat cs)"

definition after_last :: "string \<Rightarrow> string \<Rightarrow> string" where
  "after_last pat s = rev (before_first (rev pat) (rev s))"

text \<open>The text after the first occurrence, if there is one.\<close>

primrec after_first :: "string \<Rightarrow> string \<Rightarrow> string option" where
  "after_first pat [] = None"
| "after_first pat (c # cs) = (if begins_with pat (c # cs) then Some (drop (length pat) (c # cs)) else after_first pat cs)"

definition strip_prefix :: "string \<Rightarrow> string \<Rightarrow> string option" where
  "strip_prefix p s = (if begins_with p s then Some (drop (length p) s) else None)"

definition trim_start :: "string \<Rightarrow> string" where
  "trim_start s = dropWhile is_blank s"

text \<open>\<open>split_once\<close> and \<open>rsplit_once\<close> at a white-space character.\<close>

definition split_blank :: "string \<Rightarrow> (string \<times> string) option" where
  "split_blank s = (case dropWhile (\<lambda>c. \<not> is_blank c) s of [] \<Rightarrow> None | c # rest \<Rightarrow> Some (takeWhile (\<lambda>c. \<not> is_blank c) s, rest))"

definition rsplit_blank :: "string \<Rightarrow> (string \<times> string) option" where
  "rsplit_blank s = map_option (\<lambda>(a, b). (rev b, rev a)) (split_blank (rev s))"

fun split_char :: "char \<Rightarrow> string \<Rightarrow> string list" where
  "split_char d [] = [[]]"
| "split_char d (c # cs) = (if c = d then [] # split_char d cs
     else case split_char d cs of w # ws \<Rightarrow> (c # w) # ws | [] \<Rightarrow> [[c]])"

text \<open>\<open>str::lines\<close>: pieces at line feeds without a last empty piece, a carriage return before the feed dropped.\<close>

definition drop_return :: "string \<Rightarrow> string" where
  "drop_return l = (if l \<noteq> [] \<and> last l = CHR 0x0D then butlast l else l)"

definition text_lines :: "string \<Rightarrow> string list" where
  "text_lines s = (let ws = split_char (CHR 0x0A) s in map drop_return (butlast ws) @ (if last ws = [] then [] else [last ws]))"

definition is_digit :: "char \<Rightarrow> bool" where
  "is_digit c = (let n = (of_char c :: nat) in 48 \<le> n \<and> n \<le> 57)"

definition digits_value :: "string \<Rightarrow> int" where
  "digits_value s = fold (\<lambda>c n. 10 * n + (of_char c - 48)) s 0"

text \<open>Whether \<open>parse::<u64>()\<close> succeeds.\<close>

definition is_u64 :: "string \<Rightarrow> bool" where
  "is_u64 s = (let ds = (case strip_prefix ''+'' s of Some r \<Rightarrow> r | None \<Rightarrow> s) in
     ds \<noteq> [] \<and> list_all is_digit ds \<and> digits_value ds < 2 ^ 64)"

section \<open>Frames\<close>

record observed_wait =
  ow_holder :: string
  ow_wanted :: string
  ow_primitive :: string

definition LOCK_WAIT_PRIMITIVES :: "string list" where
  "LOCK_WAIT_PRIMITIVES = [''futex_wait'', ''__lll_lock_wait'', ''__lll_lock_wait_private'', ''pthread_mutex_lock'',
     ''pthread_rwlock_rdlock'', ''pthread_rwlock_wrlock'', ''pthread_cond_wait'', ''pthread_cond_timedwait'', ''do_futex'',
     ''futex_wait_queue'', ''__futex_abstimed_wait'', ''parking_lot'', ''RawMutex'', ''sys_futex'']"

definition is_lock_wait_primitive :: "string \<Rightarrow> bool" where
  "is_lock_wait_primitive frame \<longleftrightarrow> list_ex (str_contains frame) LOCK_WAIT_PRIMITIVES"

definition clean_frame :: "string \<Rightarrow> string" where
  "clean_frame frame = (let f = trim (before_first ''+0x'' (before_first '' ('' (trim frame))) in
     if begins_with ''0x'' f \<or> begins_with ''0X'' f then [] else f)"

definition bare_symbol :: "string \<Rightarrow> string" where
  "bare_symbol name = trim (takeWhile (\<lambda>c. c \<notin> {CHR ''<'', CHR ''('', CHR '' '', CHR ''@''}) (after_last ''::'' name))"

definition finish_wait :: "string list \<Rightarrow> string \<Rightarrow> observed_wait option" where
  "finish_wait app primitive = (case app of [] \<Rightarrow> None | a # rest \<Rightarrow>
     let wanted = bare_symbol a in
     if wanted = [] then None
     else let holder = (case rest of [] \<Rightarrow> wanted | h # _ \<Rightarrow> if bare_symbol h = [] then wanted else bare_symbol h) in
       Some \<lparr>ow_holder = holder, ow_wanted = wanted, ow_primitive = primitive\<rparr>)"

definition application_frames :: "string list \<Rightarrow> string list" where
  "application_frames frames = take 2 (filter (\<lambda>f. f \<noteq> [] \<and> \<not> is_lock_wait_primitive f) frames)"

definition wait_from_leaf_last :: "string list \<Rightarrow> observed_wait option" where
  "wait_from_leaf_last frames = (case dropWhile (\<lambda>f. \<not> is_lock_wait_primitive f) frames of [] \<Rightarrow> None
     | primitive # _ \<Rightarrow> finish_wait (application_frames (rev (takeWhile (\<lambda>f. \<not> is_lock_wait_primitive f) frames))) primitive)"

definition wait_from_leaf_first :: "string list \<Rightarrow> observed_wait option" where
  "wait_from_leaf_first frames = (case dropWhile (\<lambda>f. \<not> is_lock_wait_primitive f) frames of [] \<Rightarrow> None
     | primitive # rest \<Rightarrow> finish_wait (application_frames rest) primitive)"

section \<open>The three formats\<close>

definition push_wait :: "observed_wait option \<Rightarrow> observed_wait list \<Rightarrow> observed_wait list" where
  "push_wait w out = (case w of None \<Rightarrow> out | Some wait \<Rightarrow> insert_new wait out)"

definition folded_frames :: "string \<Rightarrow> string list" where
  "folded_frames line = (let stack = (case rsplit_blank line of
       Some (s, c) \<Rightarrow> if is_u64 (trim c) then s else line | None \<Rightarrow> line) in
     map clean_frame (split_char (CHR '';'') stack))"

definition parse_offcpu_folded :: "string \<Rightarrow> observed_wait list" where
  "parse_offcpu_folded txt = fold (\<lambda>raw out. let line = trim raw in
     if line = [] then out else push_wait (wait_from_leaf_last (folded_frames line)) out) (text_lines txt) []"

text \<open>The frames collected so far, and the waits; flushing turns the frames into a wait.\<close>

type_synonym block_state = "string list \<times> observed_wait list"

definition flush :: "block_state \<Rightarrow> block_state" where
  "flush st = (case st of (frames, out) \<Rightarrow> if frames = [] then st else ([], push_wait (wait_from_leaf_first frames) out))"

definition push_frame :: "string \<Rightarrow> block_state \<Rightarrow> block_state" where
  "push_frame s st = (if s = [] then st else (fst st @ [s], snd st))"

definition perf_is_frame :: "string \<Rightarrow> bool" where
  "perf_is_frame line \<longleftrightarrow>
     (begins_with [CHR 0x09] line \<or> begins_with '' '' line) \<and> begins_with ''0x'' (trim line) \<or>
     (begins_with [CHR 0x09] line \<or> begins_with '' '' line) \<and> str_contains line ''0x''"

definition perf_frame_symbol :: "string \<Rightarrow> string" where
  "perf_frame_symbol line = (let trimmed = trim line;
       after_addr = trim (case after_first '' '' trimmed of Some rest \<Rightarrow> rest | None \<Rightarrow> trimmed);
       after_in = (case strip_prefix ''in '' after_addr of Some rest \<Rightarrow> rest | None \<Rightarrow> after_addr) in
     clean_frame after_in)"

definition perf_line :: "string \<Rightarrow> block_state \<Rightarrow> block_state" where
  "perf_line line st = (if trim line = [] then flush st else if \<not> perf_is_frame line then flush st
     else push_frame (perf_frame_symbol line) st)"

definition parse_perf_script :: "string \<Rightarrow> observed_wait list" where
  "parse_perf_script txt = snd (flush (fold perf_line (text_lines txt) ([], [])))"

definition gdb_frame_symbol :: "string \<Rightarrow> string" where
  "gdb_frame_symbol rest = (let after_num = trim (case split_blank (trim_start rest) of Some (n, r) \<Rightarrow> r | None \<Rightarrow> rest) in
     clean_frame (case after_first '' in '' after_num of Some c \<Rightarrow> c | None \<Rightarrow> after_num))"

definition gdb_line :: "string \<Rightarrow> block_state \<Rightarrow> block_state" where
  "gdb_line raw st = (let line = trim raw in
     if begins_with ''Thread '' line \<or> begins_with ''[Switching to Thread'' line then flush st
     else case strip_prefix ''#'' line of Some rest \<Rightarrow> push_frame (gdb_frame_symbol rest) st | None \<Rightarrow> st)"

definition parse_gdb_bt :: "string \<Rightarrow> observed_wait list" where
  "parse_gdb_bt txt = snd (flush (fold gdb_line (text_lines txt) ([], [])))"

section \<open>The reconciler\<close>

record confirmed_wait =
  cw_observed :: observed_wait
  cw_static_from :: string
  cw_static_to :: string
  cw_interprocedural :: bool

record static_only_edge =
  se_from :: string
  se_to :: string
  se_interprocedural :: bool

record reconciliation =
  rc_confirmed :: "confirmed_wait list"
  rc_static_missed :: "observed_wait list"
  rc_static_only :: "static_only_edge list"

definition static_pairs :: "lock_edge list \<Rightarrow> (string \<times> string \<times> bool) list" where
  "static_pairs edges = map (\<lambda>e. (bare_symbol (le_from e), bare_symbol (le_to e), le_interprocedural e)) edges"

definition pair_matches :: "string \<Rightarrow> string \<Rightarrow> string \<times> string \<times> bool \<Rightarrow> bool" where
  "pair_matches h w p = (case p of (frm, to, interproc) \<Rightarrow> frm = h \<and> to = w \<or> frm = w \<and> to = h \<or>
     (frm = h \<or> frm = w) \<and> (to = h \<or> to = w) \<and> frm \<noteq> to)"

definition first_match :: "(string \<times> string \<times> bool) list \<Rightarrow> string \<Rightarrow> string \<Rightarrow> nat option" where
  "first_match pairs h w = find (\<lambda>i. pair_matches h w (pairs ! i)) [0..<length pairs]"

text \<open>Confirmed waits, missed waits and the indices of witnessed edges.\<close>

definition classify ::
  "(string \<times> string \<times> bool) list \<Rightarrow> observed_wait \<Rightarrow> confirmed_wait list \<times> observed_wait list \<times> nat list
     \<Rightarrow> confirmed_wait list \<times> observed_wait list \<times> nat list" where
  "classify pairs obs st = (case st of (confirmed, missed, witnessed) \<Rightarrow>
     let h = ow_holder obs; w = ow_wanted obs in
     if h = [] \<or> w = [] then st
     else case first_match pairs h w of
       Some i \<Rightarrow> (confirmed @ [case pairs ! i of (frm, to, interproc) \<Rightarrow>
           \<lparr>cw_observed = obs, cw_static_from = frm, cw_static_to = to, cw_interprocedural = interproc\<rparr>], missed, insert_new i witnessed)
     | None \<Rightarrow> if (h, w) \<in> (\<lambda>o'. (ow_holder o', ow_wanted o')) ` set missed then st else (confirmed, missed @ [obs], witnessed))"

definition unwitnessed :: "(string \<times> string \<times> bool) list \<Rightarrow> nat list \<Rightarrow> static_only_edge list" where
  "unwitnessed pairs witnessed = fold (\<lambda>i out. case pairs ! i of (frm, to, interproc) \<Rightarrow>
     if i \<in> set witnessed \<or> (frm, to) \<in> (\<lambda>e. (se_from e, se_to e)) ` set out then out
     else out @ [\<lparr>se_from = frm, se_to = to, se_interprocedural = interproc\<rparr>]) [0..<length pairs] []"

definition reconcile_observed :: "observed_wait list \<Rightarrow> lock_edge list \<Rightarrow> reconciliation" where
  "reconcile_observed observed edges = (let pairs = static_pairs edges in
     case fold (classify pairs) observed ([], [], []) of (confirmed, missed, witnessed) \<Rightarrow>
       \<lparr>rc_confirmed = confirmed, rc_static_missed = missed, rc_static_only = unwitnessed pairs witnessed\<rparr>)"

definition reconcile :: "(string \<times> string) list \<Rightarrow> lock_edge list \<Rightarrow> reconciliation" where
  "reconcile observed_wait_for edges = reconcile_observed
     (map (\<lambda>(h, w). \<lparr>ow_holder = bare_symbol h, ow_wanted = bare_symbol w, ow_primitive = []\<rparr>)
       (filter (\<lambda>(h, w). trim h \<noteq> [] \<and> trim w \<noteq> []) observed_wait_for)) edges"

section \<open>Parsed waits are usable\<close>

definition usable :: "observed_wait \<Rightarrow> bool" where
  "usable w \<longleftrightarrow> ow_holder w \<noteq> [] \<and> ow_wanted w \<noteq> [] \<and> is_lock_wait_primitive (ow_primitive w)"

definition waits_ok :: "observed_wait list \<Rightarrow> bool" where
  "waits_ok out \<longleftrightarrow> distinct out \<and> list_all usable out"

lemma waits_ok_Nil [simp]: "waits_ok []" by (simp add: waits_ok_def)

lemma finish_wait_usable: "finish_wait app p = Some w \<Longrightarrow> is_lock_wait_primitive p \<Longrightarrow> usable w"
  by (auto simp: finish_wait_def usable_def Let_def split: list.splits if_splits)

lemma dropWhile_head: "dropWhile P xs = y # ys \<Longrightarrow> \<not> P y"
  by (metis hd_dropWhile list.sel(1) list.distinct(1))

lemma leaf_waits_usable:
  "wait_from_leaf_last frames = Some w \<Longrightarrow> usable w" "wait_from_leaf_first frames = Some w \<Longrightarrow> usable w"
  by (auto simp: wait_from_leaf_last_def wait_from_leaf_first_def split: list.splits dest!: dropWhile_head intro: finish_wait_usable)

lemma push_wait_ok: "waits_ok out \<Longrightarrow> (\<And>x. w = Some x \<Longrightarrow> usable x) \<Longrightarrow> waits_ok (push_wait w out)"
  by (auto simp: push_wait_def waits_ok_def insert_new_def split: option.split)

lemma flush_ok: "waits_ok (snd st) \<Longrightarrow> waits_ok (snd (flush st))"
  by (auto simp: flush_def intro: push_wait_ok leaf_waits_usable split: prod.split)

lemma line_ok: "waits_ok (snd st) \<Longrightarrow> waits_ok (snd (perf_line l st))" "waits_ok (snd st) \<Longrightarrow> waits_ok (snd (gdb_line l st))"
  by (simp_all add: perf_line_def gdb_line_def push_frame_def flush_ok Let_def split: option.split)

lemma fold_keeps: "(\<And>x s. P s \<Longrightarrow> P (f x s)) \<Longrightarrow> P s \<Longrightarrow> P (fold f xs s)"
  by (induction xs arbitrary: s) auto

lemma parsers_ok: "waits_ok (parse_offcpu_folded txt)" "waits_ok (parse_perf_script txt)" "waits_ok (parse_gdb_bt txt)"
proof -
  show "waits_ok (parse_offcpu_folded txt)" unfolding parse_offcpu_folded_def
    by (rule fold_keeps[where P = waits_ok]) (auto simp: Let_def intro: push_wait_ok leaf_waits_usable)
  have "waits_ok (snd (fold perf_line ls ([], [])))" "waits_ok (snd (fold gdb_line ls ([], [])))" for ls
    by (rule fold_keeps[where P = "\<lambda>st. waits_ok (snd st)"], simp_all add: line_ok)+
  then show "waits_ok (parse_perf_script txt)" "waits_ok (parse_gdb_bt txt)"
    by (simp_all add: parse_perf_script_def parse_gdb_bt_def flush_ok)
qed

section \<open>Every wait and every edge is accounted for\<close>

definition joined :: "lock_edge list \<Rightarrow> string \<Rightarrow> string \<Rightarrow> bool" where
  "joined edges h w \<longleftrightarrow> list_ex (\<lambda>e. (bare_symbol (le_from e), bare_symbol (le_to e)) = (h, w) \<or>
     (bare_symbol (le_from e), bare_symbol (le_to e)) = (w, h)) edges"

lemma first_match_None: "first_match (static_pairs edges) h w = None \<longleftrightarrow> \<not> joined edges h w"
proof -
  have "first_match (static_pairs edges) h w = None \<longleftrightarrow> (\<forall>p \<in> set (static_pairs edges). \<not> pair_matches h w p)"
    by (auto simp: first_match_def find_None_iff all_set_conv_all_nth)
  then show ?thesis by (auto simp: static_pairs_def pair_matches_def joined_def list_ex_iff)
qed

lemma first_match_Some: "first_match pairs h w = Some i \<Longrightarrow> i < length pairs \<and> pair_matches h w (pairs ! i)"
  by (auto simp: first_match_def dest: find_SomeD)

definition classified :: "(string \<times> string \<times> bool) list \<Rightarrow> confirmed_wait list \<times> observed_wait list \<times> nat list \<Rightarrow> bool" where
  "classified pairs st = (case st of (confirmed, missed, witnessed) \<Rightarrow>
     (\<forall>c \<in> set confirmed. pair_matches (ow_holder (cw_observed c)) (ow_wanted (cw_observed c)) (cw_static_from c, cw_static_to c, cw_interprocedural c)) \<and>
     (\<forall>o' \<in> set missed. first_match pairs (ow_holder o') (ow_wanted o') = None) \<and>
     (\<forall>i \<in> set witnessed. \<exists>c \<in> set confirmed. pairs ! i = (cw_static_from c, cw_static_to c, cw_interprocedural c)))"

lemma classify_ok: "classified pairs st \<Longrightarrow> classified pairs (classify pairs obs st)"
  by (cases st; cases "first_match pairs (ow_holder obs) (ow_wanted obs)")
    (auto simp: classified_def classify_def Let_def insert_new_def split: prod.splits dest: first_match_Some)

definition placed :: "(string \<times> string \<times> bool) list \<Rightarrow> observed_wait \<Rightarrow> confirmed_wait list \<times> observed_wait list \<times> nat list \<Rightarrow> bool" where
  "placed pairs obs st = (case st of (confirmed, missed, witnessed) \<Rightarrow>
     if first_match pairs (ow_holder obs) (ow_wanted obs) = None
     then \<exists>o' \<in> set missed. ow_holder o' = ow_holder obs \<and> ow_wanted o' = ow_wanted obs
     else \<exists>c \<in> set confirmed. cw_observed c = obs)"

lemma placed_keeps: "placed pairs obs st \<Longrightarrow> placed pairs obs (classify pairs x st)"
  by (cases st; cases "first_match pairs (ow_holder x) (ow_wanted x)")
    (auto simp: placed_def classify_def Let_def split: if_splits)

lemma placed_here: "ow_holder obs \<noteq> [] \<Longrightarrow> ow_wanted obs \<noteq> [] \<Longrightarrow> placed pairs obs (classify pairs obs st)"
  by (cases st; cases "first_match pairs (ow_holder obs) (ow_wanted obs)")
    (auto simp: placed_def classify_def Let_def split: prod.splits)

lemma all_placed:
  assumes "obs \<in> set observed" "ow_holder obs \<noteq> []" "ow_wanted obs \<noteq> []"
  shows "placed pairs obs (fold (classify pairs) observed st)"
  using assms(1)
proof (induction observed arbitrary: st)
  case (Cons x xs)
  have "placed pairs obs (fold (classify pairs) xs (classify pairs obs st))"
    by (rule fold_keeps[where P = "placed pairs obs"]) (rule placed_keeps, assumption, rule placed_here[OF assms(2,3)])
  with Cons show ?case by (cases "x = obs") auto
qed simp

lemma unwitnessed_covers:
  assumes "i < length pairs" "i \<notin> set witnessed"
  shows "(fst (pairs ! i), fst (snd (pairs ! i))) \<in> (\<lambda>e. (se_from e, se_to e)) ` set (unwitnessed pairs witnessed)"
proof -
  let ?key = "\<lambda>i. (fst (pairs ! i), fst (snd (pairs ! i)))" and ?keys = "\<lambda>out. (\<lambda>e. (se_from e, se_to e)) ` set out"
  let ?f = "\<lambda>i out. case pairs ! i of (frm, to, interproc) \<Rightarrow> if i \<in> set witnessed \<or> (frm, to) \<in> ?keys out then out
     else out @ [\<lparr>se_from = frm, se_to = to, se_interprocedural = interproc\<rparr>]"
  have "?keys (fold ?f js out) = ?keys out \<union> ?key ` (set js - set witnessed)" for js and out :: "static_only_edge list"
  proof (induction js arbitrary: out)
    case (Cons j js)
    have "?keys (?f j out) = ?keys out \<union> ?key ` ({j} - set witnessed)" by (cases "pairs ! j") auto
    with Cons[of "?f j out"] show ?case by (simp only: fold.simps comp_apply) auto
  qed simp
  from this[of "[0..<length pairs]" "[]"] show ?thesis using assms by (auto simp: unwitnessed_def)
qed

lemma reconciled:
  fixes observed edges
  defines "R \<equiv> reconcile_observed observed edges"
  shows "obs \<in> set observed \<Longrightarrow> ow_holder obs \<noteq> [] \<Longrightarrow> ow_wanted obs \<noteq> [] \<Longrightarrow>
      if joined edges (ow_holder obs) (ow_wanted obs) then \<exists>c \<in> set (rc_confirmed R). cw_observed c = obs
      else \<exists>m \<in> set (rc_static_missed R). ow_holder m = ow_holder obs \<and> ow_wanted m = ow_wanted obs"
    and "m \<in> set (rc_static_missed R) \<Longrightarrow> \<not> joined edges (ow_holder m) (ow_wanted m)"
    and "e \<in> set edges \<Longrightarrow> (\<exists>c \<in> set (rc_confirmed R). cw_static_from c = bare_symbol (le_from e) \<and> cw_static_to c = bare_symbol (le_to e)) \<or>
      (\<exists>x \<in> set (rc_static_only R). se_from x = bare_symbol (le_from e) \<and> se_to x = bare_symbol (le_to e))"
proof -
  let ?pairs = "static_pairs edges"
  obtain confirmed missed witnessed where st: "fold (classify ?pairs) observed ([], [], []) = (confirmed, missed, witnessed)"
    by (metis prod_cases3)
  have R: "rc_confirmed R = confirmed" "rc_static_missed R = missed" "rc_static_only R = unwitnessed ?pairs witnessed"
    by (simp_all add: R_def reconcile_observed_def Let_def st)
  have ok: "classified ?pairs (confirmed, missed, witnessed)" unfolding st[symmetric]
    by (rule fold_keeps[where P = "classified ?pairs"]) (rule classify_ok, assumption, simp add: classified_def)
  show "obs \<in> set observed \<Longrightarrow> ow_holder obs \<noteq> [] \<Longrightarrow> ow_wanted obs \<noteq> [] \<Longrightarrow>
      if joined edges (ow_holder obs) (ow_wanted obs) then \<exists>c \<in> set (rc_confirmed R). cw_observed c = obs
      else \<exists>m \<in> set (rc_static_missed R). ow_holder m = ow_holder obs \<and> ow_wanted m = ow_wanted obs"
    using all_placed[of obs observed ?pairs "([], [], [])"] by (auto simp: st placed_def R first_match_None split: if_splits)
  show "m \<in> set (rc_static_missed R) \<Longrightarrow> \<not> joined edges (ow_holder m) (ow_wanted m)"
    using ok by (simp add: classified_def R first_match_None)
  assume "e \<in> set edges"
  then obtain i where i: "i < length ?pairs" "fst (?pairs ! i) = bare_symbol (le_from e)" "fst (snd (?pairs ! i)) = bare_symbol (le_to e)"
    by (auto simp: static_pairs_def in_set_conv_nth)
  show "(\<exists>c \<in> set (rc_confirmed R). cw_static_from c = bare_symbol (le_from e) \<and> cw_static_to c = bare_symbol (le_to e)) \<or>
      (\<exists>x \<in> set (rc_static_only R). se_from x = bare_symbol (le_from e) \<and> se_to x = bare_symbol (le_to e))"
  proof (cases "i \<in> set witnessed")
    case True
    then show ?thesis using ok i by (fastforce simp: classified_def R)
  next
    case False
    then show ?thesis using unwitnessed_covers[OF i(1) False] i R(3) by auto
  qed
qed

end
