(* ===== verification/Tracker_Promotion.thy ===== *)
theory Tracker_Promotion
  imports Tracker_Trust
begin

text \<open>
  Findings that become work items: the vocabularies of \<open>src/tracker/git_link.rs\<close> and
  \<open>promote_finding\<close> of \<open>src/db/queries/work_items.rs\<close>. The probe for the provenance key and the
  inserts are separate steps, since another transaction may promote the same finding in between.
\<close>

section \<open>Vocabularies\<close>

datatype git_link_type = LinkCommit | LinkPr | LinkBranch

definition git_link_type_all :: "git_link_type list" where
  "git_link_type_all = [LinkCommit, LinkPr, LinkBranch]"

fun git_link_type_str :: "git_link_type \<Rightarrow> string" where
  "git_link_type_str LinkCommit = ''commit''"
| "git_link_type_str LinkPr = ''pr''"
| "git_link_type_str LinkBranch = ''branch''"

definition git_link_type_parse :: "string \<Rightarrow> git_link_type option" where
  "git_link_type_parse = parse_in git_link_type_all git_link_type_str"

definition git_link_sql_in_list :: string where
  "git_link_sql_in_list = join_quoted (map git_link_type_str git_link_type_all)"

definition is_ascii_digit :: "char \<Rightarrow> bool" where
  "is_ascii_digit c = (let n = (of_char c :: nat) in 48 \<le> n \<and> n \<le> 57)"

definition is_ascii_hexdigit :: "char \<Rightarrow> bool" where
  "is_ascii_hexdigit c = (let n = (of_char c :: nat) in is_ascii_digit c \<or> 65 \<le> n \<and> n \<le> 70 \<or> 97 \<le> n \<and> n \<le> 102)"

definition infer_from_ref :: "string \<Rightarrow> git_link_type" where
  "infer_from_ref ref_value = (let v = trim ref_value; digits = (case v of c # rest \<Rightarrow> if c = CHR ''#'' then rest else v | [] \<Rightarrow> v) in
     if digits \<noteq> [] \<and> list_all is_ascii_digit digits then LinkPr
     else if length v \<ge> 7 \<and> list_all is_ascii_hexdigit v then LinkCommit
     else LinkBranch)"

datatype finding_source = BugPrediction | DocumentedTechDebt | DeadlockCycleSource | ChannelDeadlock | SecurityScan | SelfImprovement

definition finding_source_all :: "finding_source list" where
  "finding_source_all = [BugPrediction, DocumentedTechDebt, DeadlockCycleSource, ChannelDeadlock, SecurityScan, SelfImprovement]"

fun finding_source_str :: "finding_source \<Rightarrow> string" where
  "finding_source_str BugPrediction = ''bug_prediction''"
| "finding_source_str DocumentedTechDebt = ''documented_tech_debt''"
| "finding_source_str DeadlockCycleSource = ''deadlock_cycle''"
| "finding_source_str ChannelDeadlock = ''channel_deadlock''"
| "finding_source_str SecurityScan = ''security_scan''"
| "finding_source_str SelfImprovement = ''self_improvement''"

definition finding_source_parse :: "string \<Rightarrow> finding_source option" where
  "finding_source_parse = parse_in finding_source_all finding_source_str"

fun item_kind :: "finding_source \<Rightarrow> string" where
  "item_kind BugPrediction = ''bug''"
| "item_kind DocumentedTechDebt = ''fixme''"
| "item_kind DeadlockCycleSource = ''bug''"
| "item_kind ChannelDeadlock = ''bug''"
| "item_kind SecurityScan = ''bug''"
| "item_kind SelfImprovement = ''idea''"

definition finding_source_sql_in_list :: string where
  "finding_source_sql_in_list = join_quoted (map finding_source_str finding_source_all)"

interpretation git_link_vocab: closed_vocabulary git_link_type_all git_link_type_str
proof
  show "set git_link_type_all = UNIV" using git_link_type.exhaust by (auto simp: git_link_type_all_def)
  show "distinct git_link_type_all" by (simp add: git_link_type_all_def)
  show "inj git_link_type_str"
  proof (rule injI)
    fix x y assume "git_link_type_str x = git_link_type_str y"
    then show "x = y" by (cases x; cases y) simp_all
  qed
qed

interpretation finding_source_vocab: closed_vocabulary finding_source_all finding_source_str
proof
  show "set finding_source_all = UNIV" using finding_source.exhaust by (auto simp: finding_source_all_def)
  show "distinct finding_source_all" by (simp add: finding_source_all_def)
  show "inj finding_source_str"
  proof (rule injI)
    fix x y assume "finding_source_str x = finding_source_str y"
    then show "x = y" by (cases x; cases y) simp_all
  qed
qed

section \<open>Promotion\<close>

record finding_anchor =
  fa_file_id :: "int option"
  fa_chunk_id :: "int option"
  fa_symbol_id :: "int option"

definition anchor_is_empty :: "finding_anchor \<Rightarrow> bool" where
  "anchor_is_empty a \<longleftrightarrow> fa_file_id a = None \<and> fa_chunk_id a = None \<and> fa_symbol_id a = None"

record provenance_row =
  pv_key :: string
  pv_item_id :: int
  pv_source :: string
  pv_first_seen_at :: time
  pv_last_seen_at :: time

text \<open>The tracker with the two tables a promotion writes besides.\<close>

record promotion_db =
  pr_tracker :: tracker_db
  pr_provenance :: "provenance_row list"
  pr_anchors :: "(int \<times> finding_anchor) list"

definition probe :: "promotion_db \<Rightarrow> string \<Rightarrow> int option" where
  "probe db key = map_option pv_item_id (find (\<lambda>p. pv_key p = key) (pr_provenance db))"

definition insert_promoted_item :: "time \<Rightarrow> tracker_db \<Rightarrow> new_work_item \<Rightarrow> (db_error, tracker_db \<times> int) outcome" where
  "insert_promoted_item now db item =
     (let i = next_work_item_id db; parent = Option.bind (nw_parent_id item) (get_work_item db);
          w = new_row now i (map_option coalesced_root parent) item in
      if \<not> (inline_checks w \<and> vocabulary_checks w) then Err CheckViolation
      else if get_work_item_by_public_id db (nw_public_id item) \<noteq> None then Err UniqueViolation
      else if nw_parent_id item \<noteq> None \<and> parent = None then Err ForeignKeyViolation
      else Ok (db\<lparr>work_items := work_items db @ [w], next_work_item_id := i + 1\<rparr>, i))"

text \<open>What follows a probe that found nothing, on the database as it is by then.\<close>

definition promote_fresh ::
  "time \<Rightarrow> promotion_db \<Rightarrow> string \<Rightarrow> string \<Rightarrow> new_work_item \<Rightarrow> finding_anchor \<Rightarrow> promotion_db \<times> (work_item_op_error, int \<times> bool) outcome" where
  "promote_fresh now db key source item anchor = (case insert_promoted_item now (pr_tracker db) item of
     Err e \<Rightarrow> (db, Err (Db e)) | Panic s \<Rightarrow> (db, Panic s)
   | Ok (tracker, i) \<Rightarrow>
       if source \<notin> set (map finding_source_str finding_source_all) then (db, Err (Db CheckViolation))
       else case probe db key of
         Some winner \<Rightarrow> (db, Ok (winner, False))
       | None \<Rightarrow> (db\<lparr>pr_tracker := tracker,
           pr_provenance := pr_provenance db @ [\<lparr>pv_key = key, pv_item_id = i, pv_source = source, pv_first_seen_at = now, pv_last_seen_at = now\<rparr>],
           pr_anchors := pr_anchors db @ (if anchor_is_empty anchor then [] else [(i, anchor)])\<rparr>, Ok (i, True)))"

definition promote_finding ::
  "time \<Rightarrow> promotion_db \<Rightarrow> string \<Rightarrow> string \<Rightarrow> new_work_item \<Rightarrow> finding_anchor \<Rightarrow> promotion_db \<times> (work_item_op_error, int \<times> bool) outcome" where
  "promote_finding now db key source item anchor = (case probe db key of
     Some i \<Rightarrow> (db\<lparr>pr_provenance := map (\<lambda>p. if pv_key p = key then p\<lparr>pv_last_seen_at := now\<rparr> else p) (pr_provenance db)\<rparr>, Ok (i, False))
   | None \<Rightarrow> promote_fresh now db key source item anchor)"

section \<open>One item per finding\<close>

definition promotion_ok :: "promotion_db \<Rightarrow> bool" where
  "promotion_ok db \<longleftrightarrow> distinct (map pv_key (pr_provenance db)) \<and>
     (\<forall>p \<in> set (pr_provenance db). pv_item_id p \<in> wi_id ` set (work_items (pr_tracker db)))"

lemma probe_None: "probe db key = None \<longleftrightarrow> key \<notin> pv_key ` set (pr_provenance db)"
  by (auto simp: probe_def find_None_iff)

lemma probe_Some: "probe db key = Some i \<Longrightarrow> \<exists>p \<in> set (pr_provenance db). pv_key p = key \<and> pv_item_id p = i"
  by (auto simp: probe_def dest!: find_SomeD)

text \<open>After the probe, either nothing is written, or one item with its provenance.\<close>

lemma promote_fresh_cases:
  obtains "fst (promote_fresh now db key source item anchor) = db" "\<forall>i. snd (promote_fresh now db key source item anchor) \<noteq> Ok (i, True)"
  | w where "fst (promote_fresh now db key source item anchor) = db\<lparr>
      pr_tracker := (pr_tracker db)\<lparr>work_items := work_items (pr_tracker db) @ [w], next_work_item_id := next_work_item_id (pr_tracker db) + 1\<rparr>,
      pr_provenance := pr_provenance db @ [\<lparr>pv_key = key, pv_item_id = wi_id w, pv_source = source, pv_first_seen_at = now, pv_last_seen_at = now\<rparr>],
      pr_anchors := pr_anchors db @ (if anchor_is_empty anchor then [] else [(wi_id w, anchor)])\<rparr>"
      "snd (promote_fresh now db key source item anchor) = Ok (wi_id w, True)" "probe db key = None"
      "wi_status w = nw_status item" "wi_kind w = nw_kind item" "wi_id w = next_work_item_id (pr_tracker db)"
proof (cases "insert_promoted_item now (pr_tracker db) item")
  case (Ok x)
  obtain root where x: "x = ((pr_tracker db)\<lparr>work_items := work_items (pr_tracker db) @ [new_row now (next_work_item_id (pr_tracker db)) root item],
      next_work_item_id := next_work_item_id (pr_tracker db) + 1\<rparr>, next_work_item_id (pr_tracker db))"
    using Ok by (auto simp: insert_promoted_item_def Let_def split: if_splits)
  let ?w = "new_row now (next_work_item_id (pr_tracker db)) root item"
  have row: "wi_id ?w = next_work_item_id (pr_tracker db)" "wi_status ?w = nw_status item" "wi_kind ?w = nw_kind item" by (simp_all add: new_row_def)
  show thesis
  proof (cases "source \<in> set (map finding_source_str finding_source_all) \<and> probe db key = None")
    case True
    then show thesis using that(2)[of ?w] Ok x row by (simp add: promote_fresh_def)
  next
    case False
    then have "fst (promote_fresh now db key source item anchor) = db" "\<forall>i. snd (promote_fresh now db key source item anchor) \<noteq> Ok (i, True)"
      using Ok x by (auto simp: promote_fresh_def split: option.split)
    then show thesis by (rule that(1))
  qed
qed (use that(1) in \<open>simp_all add: promote_fresh_def\<close>)

lemma promote_fresh_ok: "promotion_ok db \<Longrightarrow> promotion_ok (fst (promote_fresh now db key source item anchor))"
  by (rule promote_fresh_cases[of now db key source item anchor]) (auto simp: promotion_ok_def probe_None)

lemma touch_ok: "promotion_ok db \<Longrightarrow>
   promotion_ok (db\<lparr>pr_provenance := map (\<lambda>p. if pv_key p = key then p\<lparr>pv_last_seen_at := now\<rparr> else p) (pr_provenance db)\<rparr>)"
proof -
  have "map pv_key (map (\<lambda>p. if pv_key p = key then p\<lparr>pv_last_seen_at := now\<rparr> else p) ps) = map pv_key ps" for ps :: "provenance_row list"
    by (induction ps) auto
  then show "promotion_ok db \<Longrightarrow> ?thesis" by (auto simp: promotion_ok_def simp del: map_map)
qed

lemma promote_ok: "promotion_ok db \<Longrightarrow> promotion_ok (fst (promote_finding now db key source item anchor))"
  by (auto simp: promote_finding_def promote_fresh_ok touch_ok split: option.split)

lemma promote_trust:
  assumes "\<not> is_judgment (nw_status item)"
  shows "trust_kept (pr_tracker db) (pr_tracker (fst (promote_finding now db key source item anchor)))"
proof -
  have "trust_kept (pr_tracker db) (pr_tracker (fst (promote_fresh now db key source item anchor)))"
  proof (rule promote_fresh_cases[of now db key source item anchor], goal_cases)
    case (2 w)
    show ?case unfolding 2(1) by (rule trust_kept_append[of _ _ "[w]"]) (use assms 2(4) in auto)
  qed (simp add: trust_kept_same)
  then show ?thesis by (auto simp: promote_finding_def trust_kept_same split: option.split)
qed

lemma promote_items: "\<exists>new. work_items (pr_tracker (fst (promote_finding now db key source item anchor))) = work_items (pr_tracker db) @ new \<and>
   (\<forall>w \<in> set new. wi_status w = nw_status item \<and> wi_kind w = nw_kind item)"
  by (rule promote_fresh_cases[of now db key source item anchor]) (auto simp: promote_finding_def split: option.split)

lemma promote_known: "key \<in> pv_key ` set (pr_provenance db) \<Longrightarrow> pr_tracker (fst (promote_finding now db key source item anchor)) = pr_tracker db"
  using probe_None[of db key] by (auto simp: promote_finding_def)

end
