(* ===== verification/Conc_Ledger.thy ===== *)
theory Conc_Ledger
  imports Conc_Analysis Conc_Channels Tracker_Promotion
begin

text \<open>
  The scan that records what the analyses find: the vocabulary of \<open>src/concurrency/findings.rs\<close>, the
  tables and statements of \<open>src/db/queries/concurrency.rs\<close>, and \<open>scan_project\<close> of
  \<open>src/cron/concurrency_scan.rs\<close> with its promotions into the work-item tracker. The evidence column
  (JSON for display) is left out; one scan reads the clock once; random identifiers are an argument;
  a confidence of \<open>None\<close> is an infinite one. Each statement commits on its own, the refresh of the
  edges is one transaction.
\<close>

section \<open>Vocabulary\<close>

datatype concurrency_finding_kind =
    CfDeadlockCycle | CfOrphanSend | CfBlockedRecv | CfChannelCycle | CfLockContention | CfBottleneck | CfBlockingInAsyncPath

definition concurrency_finding_kind_all :: "concurrency_finding_kind list" where
  "concurrency_finding_kind_all = [CfDeadlockCycle, CfOrphanSend, CfBlockedRecv, CfChannelCycle, CfLockContention, CfBottleneck, CfBlockingInAsyncPath]"

fun concurrency_finding_kind_str :: "concurrency_finding_kind \<Rightarrow> string" where
  "concurrency_finding_kind_str CfDeadlockCycle = ''deadlock_cycle''"
| "concurrency_finding_kind_str CfOrphanSend = ''orphan_send''"
| "concurrency_finding_kind_str CfBlockedRecv = ''blocked_recv''"
| "concurrency_finding_kind_str CfChannelCycle = ''channel_cycle''"
| "concurrency_finding_kind_str CfLockContention = ''lock_contention''"
| "concurrency_finding_kind_str CfBottleneck = ''bottleneck''"
| "concurrency_finding_kind_str CfBlockingInAsyncPath = ''blocking_in_async_path''"

definition concurrency_finding_kind_parse :: "string \<Rightarrow> concurrency_finding_kind option" where
  "concurrency_finding_kind_parse = parse_in concurrency_finding_kind_all concurrency_finding_kind_str"

definition is_bug :: "concurrency_finding_kind \<Rightarrow> bool" where
  "is_bug k \<longleftrightarrow> k \<in> {CfDeadlockCycle, CfChannelCycle, CfBlockedRecv}"

definition finding_kind_sql_in_list :: string where
  "finding_kind_sql_in_list = join_strings '', '' (map (\<lambda>k. [CHR 0x27] @ concurrency_finding_kind_str k @ [CHR 0x27]) concurrency_finding_kind_all)"

interpretation finding_kind_vocab: closed_vocabulary concurrency_finding_kind_all concurrency_finding_kind_str
proof
  show "set concurrency_finding_kind_all = UNIV" using concurrency_finding_kind.exhaust by (auto simp: concurrency_finding_kind_all_def)
  show "distinct concurrency_finding_kind_all" by (simp add: concurrency_finding_kind_all_def)
  show "inj concurrency_finding_kind_str"
  proof (rule injI)
    fix x y assume "concurrency_finding_kind_str x = concurrency_finding_kind_str y"
    then show "x = y" by (cases x; cases y) simp_all
  qed
qed

section \<open>Tables\<close>

record new_finding =
  nf_kind :: string
  nf_severity :: string
  nf_confidence :: "rat option"
  nf_key :: string
  nf_symbol_id :: "int option"
  nf_title :: string

record finding_row =
  cl_id :: int
  cl_project_id :: int
  cl_kind :: string
  cl_severity :: string
  cl_confidence :: "rat option"
  cl_key :: string
  cl_symbol_id :: "int option"
  cl_title :: string
  cl_first_observed_at :: time
  cl_observed_at :: time
  cl_promoted_item_id :: "int option"

record new_lock_edge =
  ne_from_key :: string
  ne_to_key :: string
  ne_from_mode :: "string option"
  ne_to_mode :: "string option"
  ne_min_confidence :: rat
  ne_interprocedural :: bool

record edge_row =
  oe_project_id :: int
  oe_edge :: new_lock_edge
  oe_valid_from :: time
  oe_valid_to :: "time option"
  oe_last_seen_at :: time

record health_row =
  hh_project_id :: int
  hh_computed_at :: time
  hh_deadlock_cycles :: nat
  hh_channel_cycles :: nat
  hh_blocked_recv :: nat
  hh_max_lock_contention :: rat

record conc_db =
  cd_findings :: "finding_row list"
  cd_next_finding_id :: int
  cd_edges :: "edge_row list"
  cd_health :: "health_row list"
  cd_promotion :: promotion_db
  cd_uuids :: nat

definition record_concurrency_finding :: "time \<Rightarrow> int \<Rightarrow> new_finding \<Rightarrow> conc_db \<Rightarrow> conc_db \<times> (db_error, int) outcome" where
  "record_concurrency_finding now project f db =
     (if nf_kind f \<notin> set (map concurrency_finding_kind_str concurrency_finding_kind_all) \<or> nf_severity f \<notin> set (map severity_str severity_all)
      then (db, Err CheckViolation)
      else let i = cd_next_finding_id db; db' = db\<lparr>cd_next_finding_id := i + 1\<rparr> in
        case find (\<lambda>r. cl_key r = nf_key f) (cd_findings db) of
          Some old \<Rightarrow> (db'\<lparr>cd_findings := map (\<lambda>r. if cl_key r = nf_key f
              then r\<lparr>cl_observed_at := now, cl_severity := nf_severity f, cl_confidence := nf_confidence f, cl_title := nf_title f\<rparr> else r) (cd_findings db)\<rparr>,
            Ok (cl_id old))
        | None \<Rightarrow> (db'\<lparr>cd_findings := cd_findings db @ [\<lparr>cl_id = i, cl_project_id = project, cl_kind = nf_kind f, cl_severity = nf_severity f,
              cl_confidence = nf_confidence f, cl_key = nf_key f, cl_symbol_id = nf_symbol_id f, cl_title = nf_title f,
              cl_first_observed_at = now, cl_observed_at = now, cl_promoted_item_id = None\<rparr>]\<rparr>, Ok i))"

definition set_finding_promoted_item :: "int \<Rightarrow> int \<Rightarrow> conc_db \<Rightarrow> conc_db" where
  "set_finding_promoted_item finding_id item_id db =
     db\<lparr>cd_findings := map (\<lambda>r. if cl_id r = finding_id then r\<lparr>cl_promoted_item_id := Some item_id\<rparr> else r) (cd_findings db)\<rparr>"

definition open_at :: "int \<Rightarrow> string \<Rightarrow> string \<Rightarrow> edge_row \<Rightarrow> bool" where
  "open_at project frm to r \<longleftrightarrow> oe_project_id r = project \<and> ne_from_key (oe_edge r) = frm \<and> ne_to_key (oe_edge r) = to \<and> oe_valid_to r = None"

definition upsert_edge :: "time \<Rightarrow> int \<Rightarrow> new_lock_edge \<Rightarrow> edge_row list \<Rightarrow> edge_row list" where
  "upsert_edge now project e rows = (let P = open_at project (ne_from_key e) (ne_to_key e) in
     if list_ex P rows then map (\<lambda>r. if P r then r\<lparr>oe_edge := e, oe_last_seen_at := now\<rparr> else r) rows
     else rows @ [\<lparr>oe_project_id = project, oe_edge = e, oe_valid_from = now, oe_valid_to = None, oe_last_seen_at = now\<rparr>])"

definition close_unseen :: "time \<Rightarrow> int \<Rightarrow> edge_row list \<Rightarrow> edge_row list" where
  "close_unseen now project rows = map (\<lambda>r. if oe_project_id r = project \<and> oe_valid_to r = None \<and> oe_last_seen_at r < now
     then r\<lparr>oe_valid_to := Some now\<rparr> else r) rows"

definition refresh_lock_order_edges :: "time \<Rightarrow> int \<Rightarrow> new_lock_edge list \<Rightarrow> conc_db \<Rightarrow> conc_db" where
  "refresh_lock_order_edges now project edges db =
     db\<lparr>cd_edges := close_unseen now project (fold (upsert_edge now project) edges (cd_edges db))\<rparr>"

definition insert_concurrency_health :: "time \<Rightarrow> int \<Rightarrow> nat \<Rightarrow> nat \<Rightarrow> nat \<Rightarrow> rat \<Rightarrow> conc_db \<Rightarrow> conc_db" where
  "insert_concurrency_health now project deadlocks cycles blocked contention db =
     db\<lparr>cd_health := cd_health db @ [\<lparr>hh_project_id = project, hh_computed_at = now, hh_deadlock_cycles = deadlocks,
       hh_channel_cycles = cycles, hh_blocked_recv = blocked, hh_max_lock_contention = contention\<rparr>]\<rparr>"

record contention_row =
  cn_resource_key :: string
  cn_resource_kind :: string
  cn_distinct_acquirers :: int
  cn_total_acquires :: int
  cn_max_pagerank :: rat

definition contention_score :: "contention_row \<Rightarrow> rat" where
  "contention_score r = of_int (cn_distinct_acquirers r) * (1 + cn_max_pagerank r)"

section \<open>The scan\<close>

definition mode_str :: "acq_mode \<Rightarrow> string" where
  "mode_str m = (case m of ReadMode \<Rightarrow> ''read'' | WriteMode \<Rightarrow> ''write'')"

definition decimal_int :: "int \<Rightarrow> string" where
  "decimal_int n = (if n < 0 then ''-'' @ decimal (nat (- n)) else decimal (nat n))"

definition finding_public_id :: "(nat \<Rightarrow> string) \<Rightarrow> nat \<Rightarrow> string" where
  "finding_public_id uuid n = ''finding-conc-'' @ take 8 (uuid n)"

definition promote_conc ::
  "(nat \<Rightarrow> string) \<Rightarrow> time \<Rightarrow> int \<Rightarrow> finding_source \<Rightarrow> int \<Rightarrow> string \<Rightarrow> string \<Rightarrow> string \<Rightarrow> int option \<Rightarrow> string \<Rightarrow> conc_db \<Rightarrow> conc_db" where
  "promote_conc uuid now project source finding_id key title bod symb sev db =
     (let item = new_work_item_default\<lparr>nw_public_id := finding_public_id uuid (cd_uuids db), nw_project_id := Some project,
            nw_kind := item_kind source, nw_status := ''pending'', nw_title := title, nw_body := Some bod, nw_priority := 50,
            nw_severity := Some sev, nw_origin := ''agent_write''\<rparr>;
          (promotion, r) = promote_finding now (cd_promotion db) key (finding_source_str source) item
            \<lparr>fa_file_id = None, fa_chunk_id = None, fa_symbol_id = symb\<rparr>;
          db' = db\<lparr>cd_promotion := promotion, cd_uuids := Suc (cd_uuids db)\<rparr> in
      case r of Ok (item_id, created) \<Rightarrow> if created then set_finding_promoted_item finding_id item_id db' else db' | _ \<Rightarrow> db')"

definition lock_provenance_key :: "int \<Rightarrow> string list \<Rightarrow> string" where
  "lock_provenance_key project resources =
     ''conc:deadlock_cycle:'' @ decimal_int project @ '':'' @ join_strings ''|'' (sort resources)"

definition lock_title :: "string list \<Rightarrow> string" where
  "lock_title resources = ''Lock-order deadlock cycle: '' @ join_strings ('' '' @ [CHR 0xE2, CHR 0x86, CHR 0x92] @ '' '') resources"

definition lock_body :: "string list \<Rightarrow> bool \<Rightarrow> string" where
  "lock_body resources public = ''Interprocedural lock-order deadlock cycle over ['' @ join_strings '', '' resources @
     '']. public_api_reachable='' @ (if public then ''true'' else ''false'') @
     ''. See `deadlock_cycles` for the witness; soundness in docs/formal/rocq/LockOrderDeadlock.v (ADR-011).''"

definition scan_lock_finding ::
  "(nat \<Rightarrow> string) \<Rightarrow> time \<Rightarrow> int \<Rightarrow> bool \<Rightarrow> lock_cycle_finding \<Rightarrow> conc_db \<Rightarrow> conc_db \<times> (db_error, unit) outcome" where
  "scan_lock_finding uuid now project auto_promote f db =
     (let resources = lc_resources (lf_cycle f); key = lock_provenance_key project resources; sev = severity_str (lf_severity f);
          symb = (case lc_edges (lf_cycle f) of [] \<Rightarrow> None | e # _ \<Rightarrow> Some (le_held_symbol e)) in
      case record_concurrency_finding now project \<lparr>nf_kind = concurrency_finding_kind_str CfDeadlockCycle, nf_severity = sev,
          nf_confidence = min_confidence (lf_cycle f), nf_key = key, nf_symbol_id = symb, nf_title = lock_title resources\<rparr> db of
        (db', Ok finding_id) \<Rightarrow> (if auto_promote \<and> (sev = ''critical'' \<or> sev = ''high'')
          then promote_conc uuid now project DeadlockCycleSource finding_id key (lock_title resources)
            (lock_body resources (lf_public f)) symb sev db' else db', Ok ())
      | (db', Err e) \<Rightarrow> (db', Err e) | (db', Panic s) \<Rightarrow> (db', Panic s))"

definition finding_edges :: "lock_cycle_finding \<Rightarrow> new_lock_edge list" where
  "finding_edges f = map (\<lambda>e. \<lparr>ne_from_key = le_from e, ne_to_key = le_to e, ne_from_mode = Some (mode_str (le_from_mode e)),
     ne_to_mode = Some (mode_str (le_to_mode e)), ne_min_confidence = le_min_confidence e, ne_interprocedural = le_interprocedural e\<rparr>)
     (lc_edges (lf_cycle f))"

text \<open>Severity, key suffix and whether the finding is promoted.\<close>

definition channel_entry :: "channel_finding \<Rightarrow> string \<times> string \<times> bool" where
  "channel_entry f = (let ch = (case cf_channel f of None \<Rightarrow> [] | Some c \<Rightarrow> c) in
     case cf_kind f of
       ChannelCycle \<Rightarrow> (''critical'', ''procs:'' @ join_strings ''|'' (map decimal_int (cf_processes f)), True)
     | BlockedRecv \<Rightarrow> (''high'', ''ch:'' @ ch, True)
     | OrphanSend \<Rightarrow> (''low'', ''ch:'' @ ch, False))"

definition channel_provenance_key :: "int \<Rightarrow> channel_finding \<Rightarrow> string" where
  "channel_provenance_key project f = ''conc:'' @ channel_finding_kind_str (cf_kind f) @ '':'' @ decimal_int project @ '':'' @ fst (snd (channel_entry f))"

definition scan_channel_finding ::
  "(nat \<Rightarrow> string) \<Rightarrow> time \<Rightarrow> int \<Rightarrow> bool \<Rightarrow> channel_finding \<Rightarrow> conc_db \<Rightarrow> conc_db \<times> (db_error, unit) outcome" where
  "scan_channel_finding uuid now project auto_promote f db =
     (let (sev, suffix, promotable) = channel_entry f; key = channel_provenance_key project f;
          symb = (case cf_processes f of [] \<Rightarrow> None | p # _ \<Rightarrow> Some p) in
      case record_concurrency_finding now project \<lparr>nf_kind = channel_finding_kind_str (cf_kind f), nf_severity = sev,
          nf_confidence = Some (17 / 20), nf_key = key, nf_symbol_id = symb, nf_title = cf_detail f\<rparr> db of
        (db', Ok finding_id) \<Rightarrow> (if auto_promote \<and> promotable
          then promote_conc uuid now project ChannelDeadlock finding_id key (cf_detail f) (cf_detail f) symb sev db' else db', Ok ())
      | (db', Err e) \<Rightarrow> (db', Err e) | (db', Panic s) \<Rightarrow> (db', Panic s))"

definition contention_title :: "contention_row \<Rightarrow> string" where
  "contention_title r = ''Lock contention: '' @ cn_resource_key r @ '' ('' @ decimal_int (cn_distinct_acquirers r) @ '' acquirers)''"

definition scan_contention :: "time \<Rightarrow> int \<Rightarrow> contention_row \<Rightarrow> conc_db \<Rightarrow> conc_db \<times> (db_error, unit) outcome" where
  "scan_contention now project r db =
     (if cn_distinct_acquirers r \<ge> 4
      then case record_concurrency_finding now project \<lparr>nf_kind = concurrency_finding_kind_str CfLockContention,
          nf_severity = (if cn_distinct_acquirers r \<ge> 10 then ''high'' else ''medium''),
          nf_confidence = Some (min (of_int (cn_distinct_acquirers r) / 20) 1),
          nf_key = ''conc:lock_contention:'' @ decimal_int project @ '':'' @ cn_resource_key r, nf_symbol_id = None,
          nf_title = contention_title r\<rparr> db of
          (db', Ok _) \<Rightarrow> (db', Ok ()) | (db', Err e) \<Rightarrow> (db', Err e) | (db', Panic s) \<Rightarrow> (db', Panic s)
      else (db, Ok ()))"

primrec run_each :: "('x \<Rightarrow> 's \<Rightarrow> 's \<times> ('e, unit) outcome) \<Rightarrow> 'x list \<Rightarrow> 's \<Rightarrow> 's \<times> ('e, unit) outcome" where
  "run_each f [] db = (db, Ok ())"
| "run_each f (x # xs) db = (case f x db of (db', Ok _) \<Rightarrow> run_each f xs db' | (db', r) \<Rightarrow> (db', r))"

definition scan_project ::
  "(nat \<Rightarrow> string) \<Rightarrow> time \<Rightarrow> int \<Rightarrow> bool \<Rightarrow> lock_cycle_finding list \<Rightarrow> channel_finding list \<Rightarrow> contention_row list
     \<Rightarrow> conc_db \<Rightarrow> conc_db \<times> (db_error, nat) outcome" where
  "scan_project uuid now project auto_promote locks chans contention db =
     (case run_each (scan_lock_finding uuid now project auto_promote) locks db of
        (db1, Ok _) \<Rightarrow> (case run_each (scan_channel_finding uuid now project auto_promote) chans db1 of
          (db2, Ok _) \<Rightarrow> (case run_each (scan_contention now project) contention db2 of
            (db3, Ok _) \<Rightarrow>
              (insert_concurrency_health now project (length locks) (length (filter (\<lambda>f. cf_kind f = ChannelCycle) chans))
                 (length (filter (\<lambda>f. cf_kind f = BlockedRecv) chans)) (fold max (map contention_score contention) 0)
                 (refresh_lock_order_edges now project (concat (map finding_edges locks)) db3),
               Ok (length locks + length chans + length (filter (\<lambda>r. cn_distinct_acquirers r \<ge> 4) contention)))
          | (db3, Err e) \<Rightarrow> (db3, Err e) | (db3, Panic s) \<Rightarrow> (db3, Panic s))
        | (db2, Err e) \<Rightarrow> (db2, Err e) | (db2, Panic s) \<Rightarrow> (db2, Panic s))
      | (db1, Err e) \<Rightarrow> (db1, Err e) | (db1, Panic s) \<Rightarrow> (db1, Panic s))"

definition concurrency_scan ::
  "graph_library \<Rightarrow> (int \<Rightarrow> string option) \<Rightarrow> sync_op_row list \<Rightarrow> (int \<times> int \<times> int) list \<Rightarrow> sync_op_row list \<Rightarrow> contention_row list
     \<Rightarrow> (nat \<Rightarrow> string) \<Rightarrow> time \<Rightarrow> int \<Rightarrow> bool \<Rightarrow> conc_db \<Rightarrow> conc_db \<times> (db_error, nat) outcome" where
  "concurrency_scan lib visibility lock_rows calls msg_rows contention uuid now project auto_promote db =
     scan_project uuid now project auto_promote (analyze_lock_order lib visibility lock_rows calls default_options)
       (analyze_channels lib msg_rows) contention db"

end
