(* ===== verification/Conc_Scan.thy ===== *)
theory Conc_Scan
  imports Conc_Ledger
begin

text \<open>
  What a scan leaves behind: it never breaks a constraint, it keeps the ledger well formed and the
  tracker's trust, it records a finding once, and it rewrites no history of the lock-order edges.
\<close>

section \<open>Statements\<close>

definition ledger_ok :: "conc_db \<Rightarrow> bool" where
  "ledger_ok db \<longleftrightarrow> distinct (map cl_key (cd_findings db)) \<and> promotion_ok (cd_promotion db) \<and>
     list_all (\<lambda>r. cl_kind r \<in> range concurrency_finding_kind_str \<and> cl_severity r \<in> range severity_str \<and>
       cl_id r < cd_next_finding_id db) (cd_findings db)"

text \<open>What every statement of the scan before the refresh of the edges keeps.\<close>

definition scan_kept :: "conc_db \<Rightarrow> conc_db \<Rightarrow> bool" where
  "scan_kept db db' \<longleftrightarrow> (ledger_ok db \<longrightarrow> ledger_ok db') \<and>
     trust_kept (pr_tracker (cd_promotion db)) (pr_tracker (cd_promotion db')) \<and>
     (\<exists>new. work_items (pr_tracker (cd_promotion db')) = work_items (pr_tracker (cd_promotion db)) @ new \<and>
        (\<forall>w \<in> set new. wi_status w = ''pending'' \<and> wi_kind w = ''bug'')) \<and>
     (\<exists>new. map cl_key (cd_findings db') = map cl_key (cd_findings db) @ new) \<and>
     cd_edges db' = cd_edges db \<and> cd_health db' = cd_health db"

lemma scan_kept_refl: "scan_kept db db" by (simp add: scan_kept_def trust_kept_same)

lemma scan_kept_trans: "scan_kept a b \<Longrightarrow> scan_kept b c \<Longrightarrow> scan_kept a c"
proof -
  assume ab: "scan_kept a b" and bc: "scan_kept b c"
  obtain m n where "work_items (pr_tracker (cd_promotion b)) = work_items (pr_tracker (cd_promotion a)) @ m"
    "\<forall>w \<in> set m. wi_status w = ''pending'' \<and> wi_kind w = ''bug''"
    "work_items (pr_tracker (cd_promotion c)) = work_items (pr_tracker (cd_promotion b)) @ n"
    "\<forall>w \<in> set n. wi_status w = ''pending'' \<and> wi_kind w = ''bug''"
    using ab bc unfolding scan_kept_def by blast
  then have "\<exists>new. work_items (pr_tracker (cd_promotion c)) = work_items (pr_tracker (cd_promotion a)) @ new \<and>
      (\<forall>w \<in> set new. wi_status w = ''pending'' \<and> wi_kind w = ''bug'')" by (intro exI[of _ "m @ n"]) auto
  moreover have "trust_kept (pr_tracker (cd_promotion a)) (pr_tracker (cd_promotion c))"
    using trust_kept_trans ab bc unfolding scan_kept_def by blast
  moreover have "\<exists>new. map cl_key (cd_findings c) = map cl_key (cd_findings a) @ new"
    using ab bc unfolding scan_kept_def by (metis append.assoc)
  ultimately show ?thesis using ab bc unfolding scan_kept_def by simp
qed

definition valid_finding :: "new_finding \<Rightarrow> bool" where
  "valid_finding f \<longleftrightarrow> nf_kind f \<in> range concurrency_finding_kind_str \<and> nf_severity f \<in> range severity_str"

lemma valid_checks: "valid_finding f \<Longrightarrow>
   \<not> (nf_kind f \<notin> set (map concurrency_finding_kind_str concurrency_finding_kind_all) \<or> nf_severity f \<notin> set (map severity_str severity_all))"
  by (auto simp: valid_finding_def finding_kind_vocab.all_complete severity_vocab.all_complete)

lemma same_keys: "map cl_key (map (\<lambda>r. if P r then r\<lparr>cl_observed_at := now, cl_severity := s, cl_confidence := c, cl_title := t\<rparr> else r) rs) = map cl_key rs"
  for rs :: "finding_row list" by (induction rs) auto

lemma record_finding:
  assumes "valid_finding f"
  shows "\<exists>i. snd (record_concurrency_finding now project f db) = Ok i"
    and "scan_kept db (fst (record_concurrency_finding now project f db))"
    and "nf_key f \<in> set (map cl_key (cd_findings (fst (record_concurrency_finding now project f db))))"
    and "nf_key f \<in> set (map cl_key (cd_findings db)) \<Longrightarrow> map cl_key (cd_findings (fst (record_concurrency_finding now project f db))) = map cl_key (cd_findings db)"
proof -
  let ?db = "fst (record_concurrency_finding now project f db)"
  note V = valid_checks[OF assms]
  have old: "find (\<lambda>r. cl_key r = nf_key f) (cd_findings db) = None \<longleftrightarrow> nf_key f \<notin> set (map cl_key (cd_findings db))"
    by (force simp: find_None_iff)
  have next_id: "\<forall>r \<in> set (cd_findings db). cl_id r < cd_next_finding_id db \<Longrightarrow> r \<in> set (cd_findings db) \<Longrightarrow> cl_id r < cd_next_finding_id db + 1" for r
    by (meson less_add_one order_less_trans)
  show "\<exists>i. snd (record_concurrency_finding now project f db) = Ok i"
    unfolding record_concurrency_finding_def if_not_P[OF V] by (simp add: Let_def split: option.split)
  have known: "map cl_key (cd_findings ?db) = map cl_key (cd_findings db)" if "nf_key f \<in> set (map cl_key (cd_findings db))"
    unfolding record_concurrency_finding_def if_not_P[OF V] using that old by (auto simp: Let_def same_keys simp del: map_map split: option.split)
  then show "nf_key f \<in> set (map cl_key (cd_findings db)) \<Longrightarrow> map cl_key (cd_findings ?db) = map cl_key (cd_findings db)" .
  have fresh: "map cl_key (cd_findings ?db) = map cl_key (cd_findings db) @ [nf_key f]" if "nf_key f \<notin> set (map cl_key (cd_findings db))"
    unfolding record_concurrency_finding_def if_not_P[OF V] using that old by (simp add: Let_def)
  show "nf_key f \<in> set (map cl_key (cd_findings ?db))"
    using known fresh by (cases "nf_key f \<in> set (map cl_key (cd_findings db))") simp_all
  have rest: "cd_promotion ?db = cd_promotion db" "cd_edges ?db = cd_edges db" "cd_health ?db = cd_health db"
    unfolding record_concurrency_finding_def if_not_P[OF V] by (simp_all add: Let_def split: option.split)
  have rows: "list_all (\<lambda>r. cl_kind r \<in> range concurrency_finding_kind_str \<and> cl_severity r \<in> range severity_str \<and>
      cl_id r < cd_next_finding_id ?db) (cd_findings ?db)" if "ledger_ok db"
    using that assms next_id unfolding record_concurrency_finding_def if_not_P[OF V] ledger_ok_def valid_finding_def
    by (auto simp: Let_def list_all_iff split: option.split)
  have "distinct (map cl_key (cd_findings ?db))" if "ledger_ok db"
    using that known fresh by (cases "nf_key f \<in> set (map cl_key (cd_findings db))") (simp_all add: ledger_ok_def)
  moreover have "\<exists>new. map cl_key (cd_findings ?db) = map cl_key (cd_findings db) @ new"
    using known fresh by (cases "nf_key f \<in> set (map cl_key (cd_findings db))") simp_all
  ultimately show "scan_kept db ?db"
    using rows unfolding scan_kept_def rest by (simp add: ledger_ok_def rest trust_kept_same)
qed

lemma set_promoted_kept: "scan_kept db (set_finding_promoted_item i j db)"
proof -
  have "map cl_key (map (\<lambda>r. if cl_id r = i then r\<lparr>cl_promoted_item_id := Some j\<rparr> else r) rs) = map cl_key rs" for rs :: "finding_row list"
    by (induction rs) auto
  then show ?thesis
    by (auto simp: scan_kept_def set_finding_promoted_item_def ledger_ok_def trust_kept_same list_all_iff simp del: map_map)
qed

lemma promote_kept:
  assumes "item_kind source = ''bug''"
  shows "scan_kept db (promote_conc uuid now project source i key title bod symb sev db)"
proof -
  let ?item = "new_work_item_default\<lparr>nw_public_id := finding_public_id uuid (cd_uuids db), nw_project_id := Some project,
      nw_kind := item_kind source, nw_status := ''pending'', nw_title := title, nw_body := Some bod, nw_priority := 50,
      nw_severity := Some sev, nw_origin := ''agent_write''\<rparr>"
  let ?p = "promote_finding now (cd_promotion db) key (finding_source_str source) ?item \<lparr>fa_file_id = None, fa_chunk_id = None, fa_symbol_id = symb\<rparr>"
  let ?db = "db\<lparr>cd_promotion := fst ?p, cd_uuids := Suc (cd_uuids db)\<rparr>"
  have "scan_kept db ?db"
    using promote_items[of now "cd_promotion db" key "finding_source_str source" ?item] assms
    by (auto simp: scan_kept_def ledger_ok_def promote_ok promote_trust)
  moreover have "promote_conc uuid now project source i key title bod symb sev db =
      (case snd ?p of Ok (item_id, created) \<Rightarrow> if created then set_finding_promoted_item i item_id ?db else ?db | _ \<Rightarrow> ?db)"
    by (simp add: promote_conc_def Let_def case_prod_beta)
  ultimately show ?thesis using scan_kept_trans[OF _ set_promoted_kept] by (auto split: outcome.split)
qed

section \<open>Steps of the scan\<close>

text \<open>A step that succeeds, keeps the ledger, and leaves its key recorded; a known key is not recorded again.\<close>

definition good_step :: "(conc_db \<Rightarrow> conc_db \<times> (db_error, unit) outcome) \<Rightarrow> string option \<Rightarrow> bool" where
  "good_step step key \<longleftrightarrow> (\<forall>db. snd (step db) = Ok () \<and> scan_kept db (fst (step db)) \<and>
     set_option key \<subseteq> set (map cl_key (cd_findings (fst (step db)))) \<and>
     (set_option key \<subseteq> set (map cl_key (cd_findings db)) \<longrightarrow> map cl_key (cd_findings (fst (step db))) = map cl_key (cd_findings db)))"

lemma promoted_keys: "map cl_key (cd_findings (promote_conc uuid now project source i key title bod symb sev db)) = map cl_key (cd_findings db)"
proof -
  have "map cl_key (map (\<lambda>r. if cl_id r = i then r\<lparr>cl_promoted_item_id := Some j\<rparr> else r) rs) = map cl_key rs" for rs :: "finding_row list" and j
    by (induction rs) auto
  then show ?thesis by (simp add: promote_conc_def Let_def case_prod_beta set_finding_promoted_item_def del: map_map split: outcome.split)
qed

lemma recorded_step:
  assumes "valid_finding f" "item_kind source = ''bug''"
  shows "good_step (\<lambda>db. case record_concurrency_finding now project f db of
      (db', Ok i) \<Rightarrow> (if b then promote_conc uuid now project source i key title bod symb sev db' else db', Ok ())
    | (db', Err e) \<Rightarrow> (db', Err e) | (db', Panic s) \<Rightarrow> (db', Panic s)) (Some (nf_key f))" (is "good_step ?step _")
  unfolding good_step_def
proof
  fix db
  note R = record_finding[OF assms(1), where now = now and project = project and db = db]
  obtain db' i where r: "record_concurrency_finding now project f db = (db', Ok i)" using R(1) by (metis prod.collapse)
  have "scan_kept db (fst (?step db))" using R(2) promote_kept[OF assms(2)] scan_kept_trans by (auto simp: r)
  moreover have "map cl_key (cd_findings (fst (?step db))) = map cl_key (cd_findings db')" by (simp add: r promoted_keys)
  ultimately show "snd (?step db) = Ok () \<and> scan_kept db (fst (?step db)) \<and>
      set_option (Some (nf_key f)) \<subseteq> set (map cl_key (cd_findings (fst (?step db)))) \<and>
      (set_option (Some (nf_key f)) \<subseteq> set (map cl_key (cd_findings db)) \<longrightarrow> map cl_key (cd_findings (fst (?step db))) = map cl_key (cd_findings db))"
    using R(3,4) by (simp add: r)
qed

lemma lock_step_good: "good_step (scan_lock_finding uuid now project auto_promote f) (Some (lock_provenance_key project (lc_resources (lf_cycle f))))"
proof -
  let ?nf = "\<lparr>nf_kind = concurrency_finding_kind_str CfDeadlockCycle, nf_severity = severity_str (lf_severity f),
      nf_confidence = min_confidence (lf_cycle f), nf_key = lock_provenance_key project (lc_resources (lf_cycle f)),
      nf_symbol_id = (case lc_edges (lf_cycle f) of [] \<Rightarrow> None | e # _ \<Rightarrow> Some (le_held_symbol e)), nf_title = lock_title (lc_resources (lf_cycle f))\<rparr>"
  have v: "valid_finding ?nf" unfolding valid_finding_def by (simp only: new_finding.simps rangeI simp_thms)
  have k: "item_kind DeadlockCycleSource = ''bug''" by simp
  from recorded_step[OF v k] show ?thesis unfolding scan_lock_finding_def[abs_def] Let_def by simp
qed

lemma channel_step_good: "good_step (scan_channel_finding uuid now project auto_promote f) (Some (channel_provenance_key project f))"
proof -
  let ?nf = "\<lparr>nf_kind = channel_finding_kind_str (cf_kind f), nf_severity = fst (channel_entry f),
      nf_confidence = Some (17 / 20), nf_key = channel_provenance_key project f,
      nf_symbol_id = (case cf_processes f of [] \<Rightarrow> None | p # _ \<Rightarrow> Some p), nf_title = cf_detail f\<rparr>"
  have "channel_finding_kind_str (cf_kind f) \<in> concurrency_finding_kind_str ` {CfOrphanSend, CfBlockedRecv, CfChannelCycle}"
    by (cases "cf_kind f") simp_all
  moreover have "fst (channel_entry f) \<in> severity_str ` {Critical, High, Low}"
    by (cases "cf_kind f") (simp_all add: channel_entry_def)
  ultimately have "channel_finding_kind_str (cf_kind f) \<in> range concurrency_finding_kind_str" "fst (channel_entry f) \<in> range severity_str"
    by (meson image_mono subsetD subset_UNIV)+
  then have v: "valid_finding ?nf" by (simp only: valid_finding_def new_finding.simps simp_thms)
  have k: "item_kind ChannelDeadlock = ''bug''" by simp
  from recorded_step[OF v k] show ?thesis unfolding scan_channel_finding_def[abs_def] Let_def case_prod_beta by simp
qed

definition contention_key :: "int \<Rightarrow> contention_row \<Rightarrow> string option" where
  "contention_key project r = (if cn_distinct_acquirers r \<ge> 4
     then Some (''conc:lock_contention:'' @ decimal_int project @ '':'' @ cn_resource_key r) else None)"

lemma contention_step_good: "good_step (scan_contention now project r) (contention_key project r)"
proof (cases "cn_distinct_acquirers r \<ge> 4")
  case True
  let ?nf = "\<lparr>nf_kind = concurrency_finding_kind_str CfLockContention,
      nf_severity = (if cn_distinct_acquirers r \<ge> 10 then ''high'' else ''medium''),
      nf_confidence = Some (min (of_int (cn_distinct_acquirers r) / 20) 1),
      nf_key = ''conc:lock_contention:'' @ decimal_int project @ '':'' @ cn_resource_key r, nf_symbol_id = None, nf_title = contention_title r\<rparr>"
  have "nf_severity ?nf \<in> severity_str ` {High, Medium}" by simp
  then have "nf_severity ?nf \<in> range severity_str" by (meson image_mono subsetD subset_UNIV)
  then have v: "valid_finding ?nf" by (simp only: valid_finding_def new_finding.simps rangeI simp_thms)
  have k: "item_kind ChannelDeadlock = ''bug''" by simp
  from recorded_step[OF v k, where b = False] True show ?thesis
    unfolding scan_contention_def[abs_def] contention_key_def by (simp cong: outcome.case_cong)
qed (simp add: good_step_def scan_contention_def contention_key_def scan_kept_refl)

definition good_run :: "(conc_db \<Rightarrow> conc_db \<times> (db_error, 'r) outcome) \<Rightarrow> string set \<Rightarrow> bool" where
  "good_run run ks \<longleftrightarrow> (\<forall>db. is_Ok (snd (run db)) \<and> scan_kept db (fst (run db)) \<and>
     ks \<subseteq> set (map cl_key (cd_findings (fst (run db)))) \<and>
     (ks \<subseteq> set (map cl_key (cd_findings db)) \<longrightarrow> map cl_key (cd_findings (fst (run db))) = map cl_key (cd_findings db)))"

lemma good_run_then:
  assumes "good_run f A" "good_run g B" and h: "\<And>db db' r. f db = (db', Ok r) \<Longrightarrow> h db = g db'"
  shows "good_run h (A \<union> B)"
  unfolding good_run_def
proof
  fix db
  define db' where "db' = fst (f db)"
  have "is_Ok (snd (f db))" and A: "scan_kept db db'" "A \<subseteq> set (map cl_key (cd_findings db'))"
    "A \<subseteq> set (map cl_key (cd_findings db)) \<Longrightarrow> map cl_key (cd_findings db') = map cl_key (cd_findings db)"
    using assms(1) unfolding good_run_def db'_def by blast+
  then obtain r where "snd (f db) = Ok r" unfolding is_Ok_iff by blast
  then have f: "f db = (db', Ok r)" by (simp add: db'_def prod_eq_iff)
  have B: "is_Ok (snd (h db))" "scan_kept db' (fst (h db))" "B \<subseteq> set (map cl_key (cd_findings (fst (h db))))"
    "B \<subseteq> set (map cl_key (cd_findings db')) \<Longrightarrow> map cl_key (cd_findings (fst (h db))) = map cl_key (cd_findings db')"
    using assms(2) unfolding good_run_def h[OF f] by blast+
  have "set (map cl_key (cd_findings db')) \<subseteq> set (map cl_key (cd_findings (fst (h db))))"
    using B(2) unfolding scan_kept_def by (metis set_append sup_ge1)
  with A(2) B(3) have "A \<union> B \<subseteq> set (map cl_key (cd_findings (fst (h db))))" by blast
  moreover have "map cl_key (cd_findings (fst (h db))) = map cl_key (cd_findings db)" if "A \<union> B \<subseteq> set (map cl_key (cd_findings db))"
    using A(3) B(4) that by (metis Un_subset_iff)
  ultimately show "is_Ok (snd (h db)) \<and> scan_kept db (fst (h db)) \<and> A \<union> B \<subseteq> set (map cl_key (cd_findings (fst (h db)))) \<and>
      (A \<union> B \<subseteq> set (map cl_key (cd_findings db)) \<longrightarrow> map cl_key (cd_findings (fst (h db))) = map cl_key (cd_findings db))"
    using B(1) scan_kept_trans[OF A(1) B(2)] by blast
qed

lemma run_each_good:
  assumes "\<And>x. good_step (f x) (key x)"
  shows "good_run (run_each f xs) (\<Union> (set_option ` key ` set xs))"
proof (induction xs)
  case Nil
  show ?case by (simp add: good_run_def scan_kept_refl is_Ok_def)
next
  case (Cons x xs)
  have "good_run (f x) (set_option (key x))" using assms[of x] by (simp add: good_run_def good_step_def is_Ok_def)
  then have "good_run (run_each f (x # xs)) (set_option (key x) \<union> \<Union> (set_option ` key ` set xs))"
    by (rule good_run_then[OF _ Cons]) simp
  then show ?case by (simp only: list.set image_insert Union_insert)
qed

section \<open>The lock-order edges over time\<close>

definition edge_pair :: "edge_row \<Rightarrow> string \<times> string" where
  "edge_pair r = (ne_from_key (oe_edge r), ne_to_key (oe_edge r))"

definition new_pair :: "new_lock_edge \<Rightarrow> string \<times> string" where
  "new_pair e = (ne_from_key e, ne_to_key e)"

text \<open>The edges of a project in force at a time.\<close>

definition in_force :: "edge_row list \<Rightarrow> int \<Rightarrow> time \<Rightarrow> (string \<times> string) set" where
  "in_force rows project t = edge_pair ` {r \<in> set rows. oe_project_id r = project \<and> oe_valid_from r \<le> t \<and>
     (case oe_valid_to r of None \<Rightarrow> True | Some u \<Rightarrow> t < u)}"

definition open_unique :: "edge_row list \<Rightarrow> bool" where
  "open_unique rows \<longleftrightarrow> distinct (map (\<lambda>r. (oe_project_id r, edge_pair r)) (filter (\<lambda>r. oe_valid_to r = None) rows))"

lemma open_at_pair: "open_at project (ne_from_key e) (ne_to_key e) r \<longleftrightarrow> oe_project_id r = project \<and> edge_pair r = new_pair e \<and> oe_valid_to r = None"
  by (auto simp: open_at_def edge_pair_def new_pair_def)

lemma in_force_append: "in_force (xs @ ys) project t = in_force xs project t \<union> in_force ys project t"
  by (auto simp: in_force_def)

lemma in_force_cons: "in_force (r # rs) project t = in_force [r] project t \<union> in_force rs project t"
  using in_force_append[of "[r]" rs] by simp

lemma in_force_map: "(\<And>r. r \<in> set rows \<Longrightarrow> in_force [f r] project t = in_force [r] project t) \<Longrightarrow> in_force (map f rows) project t = in_force rows project t"
proof (induction rows)
  case (Cons r rows)
  then show ?case using in_force_cons[of "f r" "map f rows"] in_force_cons[of r rows] by simp
qed simp

lemma upsert_history:
  assumes "t < now"
  shows "in_force (upsert_edge now project e rows) p t = in_force rows p t"
proof (cases "list_ex (open_at project (ne_from_key e) (ne_to_key e)) rows")
  case True
  then show ?thesis unfolding upsert_edge_def Let_def
    by (simp, intro in_force_map) (auto simp: in_force_def open_at_def edge_pair_def)
next
  case False
  then show ?thesis using assms by (auto simp: upsert_edge_def in_force_append) (auto simp: in_force_def)
qed

lemma refresh_history:
  assumes "t < now"
  shows "in_force (close_unseen now project (fold (upsert_edge now project) edges rows)) p t = in_force rows p t"
proof -
  have "in_force (fold (upsert_edge now project) edges rows) p t = in_force rows p t"
    by (induction edges arbitrary: rows) (simp_all add: upsert_history[OF assms])
  moreover have "in_force (close_unseen now project rs) p t = in_force rs p t" for rs
    unfolding close_unseen_def by (rule in_force_map) (use assms in \<open>auto simp: in_force_def edge_pair_def\<close>)
  ultimately show ?thesis by simp
qed

text \<open>The rows open for the project: seen in this run exactly when their pair has been written.\<close>

definition seen_inv :: "time \<Rightarrow> int \<Rightarrow> (string \<times> string) set \<Rightarrow> edge_row list \<Rightarrow> bool" where
  "seen_inv now project S rows \<longleftrightarrow>
     (\<forall>r \<in> set rows. oe_project_id r = project \<longrightarrow> oe_valid_to r = None \<longrightarrow> oe_valid_from r \<le> now \<and>
        (if edge_pair r \<in> S then oe_last_seen_at r = now else oe_last_seen_at r < now)) \<and>
     (\<forall>s \<in> S. \<exists>r \<in> set rows. oe_project_id r = project \<and> oe_valid_to r = None \<and> edge_pair r = s)"

lemma upsert_seen:
  assumes "seen_inv now project S rows"
  shows "seen_inv now project (insert (new_pair e) S) (upsert_edge now project e rows)"
proof (cases "list_ex (open_at project (ne_from_key e) (ne_to_key e)) rows")
  case True
  let ?g = "\<lambda>r. if open_at project (ne_from_key e) (ne_to_key e) r then r\<lparr>oe_edge := e, oe_last_seen_at := now\<rparr> else r"
  have g: "oe_project_id (?g r) = oe_project_id r" "oe_valid_to (?g r) = oe_valid_to r" "oe_valid_from (?g r) = oe_valid_from r" "edge_pair (?g r) = edge_pair r" for r
    by (auto simp: open_at_pair edge_pair_def new_pair_def)
  have last: "oe_last_seen_at (?g r) = (if oe_project_id r = project \<and> edge_pair r = new_pair e \<and> oe_valid_to r = None then now else oe_last_seen_at r)" for r
    by (simp add: open_at_pair)
  obtain r where "r \<in> set rows" "oe_project_id r = project" "edge_pair r = new_pair e" "oe_valid_to r = None"
    using True by (auto simp: list_ex_iff open_at_pair)
  moreover have "upsert_edge now project e rows = map ?g rows" using True by (simp add: upsert_edge_def Let_def)
  ultimately show ?thesis using assms unfolding seen_inv_def by (simp only: list.set_map ball_simps bex_simps g last) fastforce
next
  case False
  then have "upsert_edge now project e rows = rows @ [\<lparr>oe_project_id = project, oe_edge = e, oe_valid_from = now, oe_valid_to = None, oe_last_seen_at = now\<rparr>]"
    by (simp add: upsert_edge_def Let_def)
  moreover have "r \<in> set rows \<Longrightarrow> oe_project_id r = project \<Longrightarrow> oe_valid_to r = None \<Longrightarrow> edge_pair r \<noteq> new_pair e" for r
    using False by (auto simp: list_ex_iff open_at_pair)
  ultimately show ?thesis using assms unfolding seen_inv_def by (auto simp: edge_pair_def new_pair_def)
qed

lemma refresh_seen: "seen_inv now project S rows \<Longrightarrow> seen_inv now project (S \<union> new_pair ` set edges) (fold (upsert_edge now project) edges rows)"
proof (induction edges arbitrary: S rows)
  case (Cons e edges)
  from Cons.IH[OF upsert_seen[OF Cons.prems]] show ?case by simp
qed simp

text \<open>The clock has moved on since every row open for the project was last seen.\<close>

definition clock_ahead :: "time \<Rightarrow> int \<Rightarrow> edge_row list \<Rightarrow> bool" where
  "clock_ahead now project rows \<longleftrightarrow> list_all (\<lambda>r. oe_project_id r = project \<and> oe_valid_to r = None \<longrightarrow>
     oe_valid_from r \<le> oe_last_seen_at r \<and> oe_last_seen_at r < now) rows \<and>
     list_all (\<lambda>r. case oe_valid_to r of None \<Rightarrow> True | Some u \<Rightarrow> u \<le> now) rows"

lemma closed_stay: "r \<in> set (fold (upsert_edge now project) edges rows) \<Longrightarrow> oe_valid_to r = Some u \<Longrightarrow> r \<in> set rows"
proof (induction edges arbitrary: rows)
  case (Cons e edges)
  then have "r \<in> set (upsert_edge now project e rows)" by simp
  then show ?case using Cons.prems(2) by (auto simp: upsert_edge_def Let_def open_at_def split: if_splits)
qed simp

lemma refresh_now:
  assumes "clock_ahead now project rows"
  shows "in_force (close_unseen now project (fold (upsert_edge now project) edges rows)) project now = new_pair ` set edges" (is "?l = ?r")
proof -
  let ?rows = "fold (upsert_edge now project) edges rows"
  define close where "close r = (if oe_project_id r = project \<and> oe_valid_to r = None \<and> oe_last_seen_at r < now then r\<lparr>oe_valid_to := Some now\<rparr> else r)" for r :: edge_row
  have rows: "close_unseen now project ?rows = map close ?rows" by (simp add: close_unseen_def close_def)
  have "seen_inv now project {} rows" using assms by (fastforce simp: seen_inv_def clock_ahead_def list_all_iff)
  from refresh_seen[OF this] have inv: "seen_inv now project ?r ?rows" by simp
  have closed: "u \<le> now" if "r \<in> set ?rows" "oe_valid_to r = Some u" for r u
    using closed_stay[OF that] that(2) assms by (fastforce simp: clock_ahead_def list_all_iff)
  have "edge_pair r \<in> ?r" if r: "r \<in> set ?rows" "oe_project_id (close r) = project" "case oe_valid_to (close r) of None \<Rightarrow> True | Some u \<Rightarrow> now < u" for r
  proof -
    have "oe_valid_to (close r) = None" using r(3) closed[OF r(1)] by (auto simp: close_def split: option.splits if_splits)
    then have "oe_project_id r = project" "oe_valid_to r = None" "\<not> oe_last_seen_at r < now" using r(2) by (auto simp: close_def split: if_splits)
    then show ?thesis using inv r(1) unfolding seen_inv_def by (metis less_irrefl)
  qed
  moreover have "edge_pair (close r) = edge_pair r" for r by (simp add: edge_pair_def close_def)
  ultimately have "?l \<subseteq> ?r" unfolding in_force_def rows by auto
  moreover have "s \<in> ?l" if s: "s \<in> ?r" for s
  proof -
    obtain r where r: "r \<in> set ?rows" "oe_project_id r = project" "oe_valid_to r = None" "edge_pair r = s"
      using inv s unfolding seen_inv_def by blast
    then have "oe_last_seen_at r = now" "oe_valid_from r \<le> now" using inv s unfolding seen_inv_def by auto
    then have "close r = r" by (simp add: close_def)
    then have "r \<in> set (map close ?rows)" using r(1) by (metis image_eqI list.set_map)
    then show ?thesis unfolding rows in_force_def using r \<open>oe_valid_from r \<le> now\<close> by (intro image_eqI[of _ _ r]) simp_all
  qed
  ultimately show ?thesis by blast
qed

lemma upsert_unique: "open_unique rows \<Longrightarrow> open_unique (upsert_edge now project e rows)"
proof (cases "list_ex (open_at project (ne_from_key e) (ne_to_key e)) rows")
  case True
  let ?g = "\<lambda>r. if open_at project (ne_from_key e) (ne_to_key e) r then r\<lparr>oe_edge := e, oe_last_seen_at := now\<rparr> else r"
  have "map (\<lambda>r. (oe_project_id r, edge_pair r)) (filter (\<lambda>r. oe_valid_to r = None) (map ?g rs)) =
      map (\<lambda>r. (oe_project_id r, edge_pair r)) (filter (\<lambda>r. oe_valid_to r = None) rs)" for rs
    by (induction rs) (auto simp: open_at_def edge_pair_def)
  then show "open_unique rows \<Longrightarrow> ?thesis" using True by (simp add: upsert_edge_def Let_def open_unique_def del: filter_map)
next
  case False
  then show "open_unique rows \<Longrightarrow> ?thesis" by (auto simp: upsert_edge_def Let_def open_unique_def list_ex_iff open_at_def edge_pair_def)
qed

lemma refresh_unique: "open_unique rows \<Longrightarrow> open_unique (close_unseen now project (fold (upsert_edge now project) edges rows))"
proof -
  have "open_unique rows \<Longrightarrow> open_unique (close_unseen now project rows)" for rows
  proof (induction rows)
    case (Cons r rows)
    have "set (filter (\<lambda>r. oe_valid_to r = None) (close_unseen now project rows)) \<subseteq> set (filter (\<lambda>r. oe_valid_to r = None) rows)"
      by (auto simp: close_unseen_def split: if_splits)
    with Cons show ?case by (auto simp: open_unique_def close_unseen_def split: if_splits)
  qed (simp add: open_unique_def close_unseen_def)
  moreover have "open_unique rows \<Longrightarrow> open_unique (fold (upsert_edge now project) edges rows)"
    by (induction edges arbitrary: rows) (simp_all add: upsert_unique)
  ultimately show "open_unique rows \<Longrightarrow> ?thesis" by blast
qed

section \<open>A scan\<close>

definition scan_keys :: "int \<Rightarrow> lock_cycle_finding list \<Rightarrow> channel_finding list \<Rightarrow> contention_row list \<Rightarrow> string set" where
  "scan_keys project locks chans contention = (\<lambda>f. lock_provenance_key project (lc_resources (lf_cycle f))) ` set locks \<union>
     channel_provenance_key project ` set chans \<union> \<Union> (set_option ` contention_key project ` set contention)"

lemma scan_run:
  fixes uuid now project auto_promote locks chans contention db
  defines "r \<equiv> scan_project uuid now project auto_promote locks chans contention db"
  obtains db3 where "scan_kept db db3" "scan_keys project locks chans contention \<subseteq> set (map cl_key (cd_findings db3))"
    "scan_keys project locks chans contention \<subseteq> set (map cl_key (cd_findings db)) \<Longrightarrow> map cl_key (cd_findings db3) = map cl_key (cd_findings db)"
    "snd r = Ok (length locks + length chans + length (filter (\<lambda>r. cn_distinct_acquirers r \<ge> 4) contention))"
    "cd_findings (fst r) = cd_findings db3" "cd_next_finding_id (fst r) = cd_next_finding_id db3" "cd_promotion (fst r) = cd_promotion db3"
    "cd_edges (fst r) = close_unseen now project (fold (upsert_edge now project) (concat (map finding_edges locks)) (cd_edges db))"
proof -
  let ?lock = "run_each (scan_lock_finding uuid now project auto_promote) locks"
  let ?chan = "run_each (scan_channel_finding uuid now project auto_promote) chans"
  let ?cont = "run_each (scan_contention now project) contention"
  note L = run_each_good[of "scan_lock_finding uuid now project auto_promote", OF lock_step_good, of locks]
  note C = run_each_good[of "scan_channel_finding uuid now project auto_promote", OF channel_step_good, of chans]
  note K = run_each_good[of "scan_contention now project", OF contention_step_good, of contention]
  define f where "f db = (case ?lock db of (db1, Ok _) \<Rightarrow> ?chan db1 | (db1, e) \<Rightarrow> (db1, e))" for db
  define g where "g db = (case f db of (db2, Ok _) \<Rightarrow> ?cont db2 | (db2, e) \<Rightarrow> (db2, e))" for db
  have "good_run f (\<Union> (set_option ` (\<lambda>f. Some (lock_provenance_key project (lc_resources (lf_cycle f)))) ` set locks) \<union>
      \<Union> (set_option ` (\<lambda>f. Some (channel_provenance_key project f)) ` set chans))" (is "good_run f ?ks")
    by (rule good_run_then[OF L C]) (simp add: f_def)
  then have "good_run g (?ks \<union> \<Union> (set_option ` contention_key project ` set contention))"
    by (rule good_run_then[OF _ K]) (simp add: g_def)
  moreover have "?ks \<union> \<Union> (set_option ` contention_key project ` set contention) = scan_keys project locks chans contention"
    by (auto simp: scan_keys_def)
  ultimately have G: "good_run g (scan_keys project locks chans contention)" by simp
  define db3 where "db3 = fst (g db)"
  obtain u where "g db = (db3, Ok u)" using G unfolding good_run_def is_Ok_iff db3_def by (metis prod.collapse)
  then have "r = (insert_concurrency_health now project (length locks) (length (filter (\<lambda>f. cf_kind f = ChannelCycle) chans))
       (length (filter (\<lambda>f. cf_kind f = BlockedRecv) chans)) (fold max (map contention_score contention) 0)
       (refresh_lock_order_edges now project (concat (map finding_edges locks)) db3),
     Ok (length locks + length chans + length (filter (\<lambda>r. cn_distinct_acquirers r \<ge> 4) contention)))"
    unfolding r_def scan_project_def g_def f_def by (auto split: prod.splits outcome.splits)
  moreover have "cd_edges db3 = cd_edges db" using G unfolding good_run_def db3_def scan_kept_def by blast
  ultimately show thesis using that[of db3] G unfolding good_run_def db3_def[symmetric]
    by (simp add: insert_concurrency_health_def refresh_lock_order_edges_def db3_def del: set_map list.set_map)
qed

lemma scan_facts:
  fixes uuid now project auto_promote locks chans contention db
  defines "r \<equiv> scan_project uuid now project auto_promote locks chans contention db"
  shows "snd r = Ok (length locks + length chans + length (filter (\<lambda>r. cn_distinct_acquirers r \<ge> 4) contention))"
    and "ledger_ok db \<Longrightarrow> ledger_ok (fst r)"
    and "trust_kept (pr_tracker (cd_promotion db)) (pr_tracker (cd_promotion (fst r)))"
    and "\<exists>new. work_items (pr_tracker (cd_promotion (fst r))) = work_items (pr_tracker (cd_promotion db)) @ new \<and>
      (\<forall>w \<in> set new. wi_status w = ''pending'' \<and> wi_kind w = ''bug'')"
    and "scan_keys project locks chans contention \<subseteq> set (map cl_key (cd_findings (fst r)))"
    and "scan_keys project locks chans contention \<subseteq> set (map cl_key (cd_findings db)) \<Longrightarrow> map cl_key (cd_findings (fst r)) = map cl_key (cd_findings db)"
    and "cd_edges (fst r) = close_unseen now project (fold (upsert_edge now project) (concat (map finding_edges locks)) (cd_edges db))"
proof -
  obtain db3 where k: "scan_kept db db3" and e: "scan_keys project locks chans contention \<subseteq> set (map cl_key (cd_findings db3))"
    "scan_keys project locks chans contention \<subseteq> set (map cl_key (cd_findings db)) \<Longrightarrow> map cl_key (cd_findings db3) = map cl_key (cd_findings db)"
    "snd r = Ok (length locks + length chans + length (filter (\<lambda>r. cn_distinct_acquirers r \<ge> 4) contention))"
    "cd_findings (fst r) = cd_findings db3" "cd_next_finding_id (fst r) = cd_next_finding_id db3" "cd_promotion (fst r) = cd_promotion db3"
    "cd_edges (fst r) = close_unseen now project (fold (upsert_edge now project) (concat (map finding_edges locks)) (cd_edges db))"
    using scan_run[of db project locks chans contention uuid now auto_promote] unfolding r_def by blast
  note k = k[unfolded scan_kept_def]
  show "snd r = Ok (length locks + length chans + length (filter (\<lambda>r. cn_distinct_acquirers r \<ge> 4) contention))" by (rule e(3))
  show "cd_edges (fst r) = close_unseen now project (fold (upsert_edge now project) (concat (map finding_edges locks)) (cd_edges db))" by (rule e(7))
  show "ledger_ok (fst r)" if "ledger_ok db" using that k e(4-6) unfolding ledger_ok_def by simp
  show "trust_kept (pr_tracker (cd_promotion db)) (pr_tracker (cd_promotion (fst r)))"
    "\<exists>new. work_items (pr_tracker (cd_promotion (fst r))) = work_items (pr_tracker (cd_promotion db)) @ new \<and>
      (\<forall>w \<in> set new. wi_status w = ''pending'' \<and> wi_kind w = ''bug'')" using k unfolding e(6) by blast+
  show "scan_keys project locks chans contention \<subseteq> set (map cl_key (cd_findings (fst r)))" unfolding e(4) by (rule e(1))
  show "map cl_key (cd_findings (fst r)) = map cl_key (cd_findings db)" if "scan_keys project locks chans contention \<subseteq> set (map cl_key (cd_findings db))"
    unfolding e(4) using that by (rule e(2))
qed

end
