(* ===== verification/Conc_Results.thy ===== *)
theory Conc_Results
  imports Conc_Deadlock Conc_Channel_Cycles Conc_Trace Conc_Scan Tracker_Results
begin

text \<open>
  What the concurrency analysis is for: a project without lock-order cycles does not deadlock, reported
  cycles are the cycles of the order, reported channel cycles are stuck, a scan keeps the ledger and
  the tracker in order, and observed waits are all accounted for; with the cases in which the analysis
  is wrong.
\<close>

section \<open>Sample projects\<close>

definition lock_row :: "int \<Rightarrow> int \<Rightarrow> string \<Rightarrow> string \<Rightarrow> rat \<Rightarrow> sync_op_row" where
  "lock_row s l op key conf = \<lparr>so_symbol_id = s, so_seq = l, so_op_kind = op, so_resource_key = Some key, so_confidence = conf, so_line = l\<rparr>"

text \<open>Both threads take \<open>a\<close> before \<open>b\<close>, the second through a call.\<close>

definition ordered_rows :: "sync_op_row list" where
  "ordered_rows = [lock_row 1 1 ''acquire'' ''a'' 1, lock_row 1 2 ''acquire'' ''b'' 1, lock_row 2 1 ''acquire'' ''a'' 1, lock_row 3 3 ''acquire'' ''b'' 1]"

definition ordered_calls :: "(int \<times> int \<times> int) list" where
  "ordered_calls = [(2, 3, 2)]"

text \<open>Opposite orders, written with middling confidence and read with full confidence.\<close>

definition mixed_rows :: "sync_op_row list" where
  "mixed_rows = [lock_row 1 1 ''acquire_write'' ''a'' (3 / 5), lock_row 1 2 ''acquire_write'' ''b'' (3 / 5),
     lock_row 2 1 ''acquire_write'' ''b'' (3 / 5), lock_row 2 2 ''acquire_write'' ''a'' (3 / 5),
     lock_row 3 1 ''acquire_read'' ''a'' 1, lock_row 3 2 ''acquire_read'' ''b'' 1,
     lock_row 4 1 ''acquire_read'' ''b'' 1, lock_row 4 2 ''acquire_read'' ''a'' 1]"

text \<open>Three locks taken in every order.\<close>

definition tangled_rows :: "sync_op_row list" where
  "tangled_rows = concat (map (\<lambda>(s, k, k'). [lock_row s 1 ''acquire'' k 1, lock_row s 2 ''acquire'' k' 1])
     [(1, ''a'', ''b''), (2, ''b'', ''a''), (3, ''b'', ''c''), (4, ''c'', ''b''), (5, ''a'', ''c''), (6, ''c'', ''a'')])"

definition no_params :: deadlock_cycles_params where
  "no_params = \<lparr>dp_max_call_depth = None, dp_confidence_floor = None, dp_max_cycle_len = None, dp_include_low_confidence = None, dp_limit = None\<rparr>"

definition waiting :: "int \<Rightarrow> string \<Rightarrow> string \<Rightarrow> rat \<Rightarrow> call_frame" where
  "waiting s k k' conf = \<lparr>fr_symbol = s, fr_todo = [Acquire k' WriteMode conf 2], fr_locks = [(k, WriteMode)]\<rparr>"

definition message_row :: "int \<Rightarrow> int \<Rightarrow> string \<Rightarrow> string \<Rightarrow> sync_op_row" where
  "message_row s l op ch = lock_row s l op ch 1"

text \<open>Two processes that first receive what the other sends; in the second project a third one sends too.\<close>

definition crossed_rows :: "sync_op_row list" where
  "crossed_rows = [message_row 1 1 ''recv'' ''a'', message_row 1 2 ''send'' ''b'', message_row 2 1 ''recv'' ''b'', message_row 2 2 ''send'' ''a'']"

definition started_rows :: "sync_op_row list" where
  "started_rows = crossed_rows @ [message_row 3 1 ''send'' ''a'']"

definition empty_conc :: conc_db where
  "empty_conc = \<lparr>cd_findings = [], cd_next_finding_id = 1, cd_edges = [], cd_health = [],
     cd_promotion = \<lparr>pr_tracker = empty_db, pr_provenance = [], pr_anchors = []\<rparr>, cd_uuids = 0\<rparr>"

definition sample_uuid :: "nat \<Rightarrow> string" where
  "sample_uuid n = replicate 7 (CHR ''0'') @ [char_of (48 + n mod 10)]"

section \<open>Lock order\<close>

text \<open>
  C2: a project whose lock order has no cycle does not deadlock. Let the threads start at any symbols
  and take any steps (acquire, release, call, return). If the analysis of the rows and the call edges
  finds no cycle, with a length bound that admits every cycle, every acquisition is known with enough
  confidence, no call stack is deeper than the analysis looks, and no thread asks for a lock it holds,
  then some thread can always take a step until all have finished.
\<close>

theorem lock_order_deadlock_free:
  assumes "graph_laws lib" "find_lock_cycles lib (lock_order_edges rows calls opts) max_len = []"
    and "length (lock_nodes (lock_order_edges rows calls opts)) \<le> max_len"
    and "rows_confident (lo_confidence_floor opts) rows"
    and "reachable_from (ordered_events rows calls) entries ths"
    and "list_all (\<lambda>th. length th \<le> lo_max_call_depth opts + 2) ths" "no_reentry ths" "\<not> list_all (\<lambda>th. th = []) ths"
  shows "\<exists>ths'. lock_run (ordered_events rows calls) ths ths'"
  using assms by (rule graph_laws.acyclic_progress)

theorem lock_order_deadlock_free_witness:
  "find_lock_cycles reference_library (lock_order_edges ordered_rows ordered_calls default_options) 6 = [] \<and>
   (\<exists>ths'. lock_run (ordered_events ordered_rows ordered_calls)
     (map (\<lambda>s. [enter (ordered_events ordered_rows ordered_calls) s]) [1, 2]) ths')"
proof -
  have quiet: "find_lock_cycles reference_library (lock_order_edges ordered_rows ordered_calls default_options) 6 = []" by code_simp
  have nodes: "length (lock_nodes (lock_order_edges ordered_rows ordered_calls default_options)) \<le> 6" by code_simp
  have conf: "rows_confident (lo_confidence_floor default_options) ordered_rows" by code_simp
  have start: "reachable_from (ordered_events ordered_rows ordered_calls) [1, 2] (map (\<lambda>s. [enter (ordered_events ordered_rows ordered_calls) s]) [1, 2])"
    by (simp add: reachable_from_def)
  show ?thesis
    using quiet lock_order_deadlock_free[OF reference.graph_laws_axioms quiet nodes conf start]
    by (simp add: enter_def no_reentry_def thread_holds_def split: option.split)
qed

text \<open>
  C5: the reported lock cycles are the cycles of the lock order. Every simple cycle of locks, each
  acquired while its predecessor is held, is reported up to where it starts if it is not longer than
  the bound; and every reported cycle is such a cycle, each of its steps witnessed by an edge between
  these two locks, of the highest confidence there is.
\<close>

theorem lock_cycles_exact:
  assumes "graph_laws lib"
  shows "(\<forall>ks. simple_cycle (ordered_before edges) ks \<and> length ks \<le> max_len \<longrightarrow>
      (\<exists>n. \<exists>c \<in> set (find_lock_cycles lib edges max_len). lc_resources c = rotate n ks)) \<and>
    (\<forall>c \<in> set (find_lock_cycles lib edges max_len). simple_cycle (ordered_before edges) (lc_resources c) \<and>
      length (lc_resources c) \<le> max_len \<and> length (lc_edges c) = length (lc_resources c) \<and>
      (\<forall>i < length (lc_resources c). represents edges (lc_resources c ! i) (rotate1 (lc_resources c) ! i) (lc_edges c ! i)))"
proof -
  have "\<exists>n. \<exists>c \<in> set (find_lock_cycles lib edges max_len). lc_resources c = rotate n ks"
    if "simple_cycle (ordered_before edges) ks" "length ks \<le> max_len" for ks
    using graph_laws.lock_cycle_reported[OF assms that] by blast
  moreover have "length (lc_edges c) = length (lc_resources c) \<and>
      (\<forall>i < length (lc_resources c). represents edges (lc_resources c ! i) (rotate1 (lc_resources c) ! i) (lc_edges c ! i))"
    if c: "c \<in> set (find_lock_cycles lib edges max_len)" for c
  proof -
    note R = graph_laws.reported_lock_cycle[OF assms c]
    show ?thesis by (rule cycle_edges_spec[OF R(1)]) (simp add: R(3))
  qed
  ultimately show ?thesis using graph_laws.reported_lock_cycle[OF assms] by blast
qed

theorem lock_cycles_exact_witness:
  "\<exists>n. \<exists>c \<in> set (find_lock_cycles reference_library (lock_order_edges tangled_rows [] default_options) 6). lc_resources c = rotate n [''a'', ''c'', ''b'']"
proof -
  have "\<forall>(x, y) \<in> set [(''a'', ''c''), (''c'', ''b''), (''b'', ''a'')]. list_ex (\<lambda>e. le_from e = x \<and> le_to e = y) (lock_order_edges tangled_rows [] default_options)"
    by code_simp
  then have "simple_cycle (ordered_before (lock_order_edges tangled_rows [] default_options)) [''a'', ''c'', ''b'']"
    by (simp add: simple_cycle_def ordered_before_def list_ex_iff)
  then show ?thesis using lock_cycles_exact[OF reference.graph_laws_axioms, of "lock_order_edges tangled_rows [] default_options" 6] by simp
qed

text \<open>
  C36: a deadlock can be hidden as harmless. Two functions take two locks for writing in opposite
  orders, with a confidence above the floor, and two others take them for reading, with a higher one.
  The writers reach a state in which neither can move, but the edges that witness the cycle are chosen
  by confidence alone, so the cycle counts as all-read and the tool with its default parameters shows
  nothing.
\<close>

theorem write_deadlock_hidden:
  "tool_deadlock_cycles reference_library (\<lambda>_. None) mixed_rows [] no_params = Ok [] \<and>
   rows_confident (lo_confidence_floor default_options) mixed_rows \<and>
   (\<exists>ths. reachable_from (ordered_events mixed_rows []) [1, 2] ths \<and> \<not> list_all (\<lambda>th. th = []) ths \<and>
     (\<forall>ths'. \<not> lock_run (ordered_events mixed_rows []) ths ths'))"
proof -
  let ?prog = "ordered_events mixed_rows []"
  let ?start = "map (\<lambda>s. [enter ?prog s]) [1, 2]"
  let ?jam = "[[waiting 1 ''a'' ''b'' (3 / 5)], [waiting 2 ''b'' ''a'' (3 / 5)]]"
  have body: "body ?prog 1 = [Acquire ''a'' WriteMode (3 / 5) 1, Acquire ''b'' WriteMode (3 / 5) 2]"
    "body ?prog 2 = [Acquire ''b'' WriteMode (3 / 5) 1, Acquire ''a'' WriteMode (3 / 5) 2]" by code_simp+
  have one: "lock_run ?prog ?start [[waiting 1 ''a'' ''b'' (3 / 5)], [enter ?prog 2]]"
    using run_acquire[of 0 ?start "enter ?prog 1" "[]" "''a''" WriteMode "3 / 5" 1 "[Acquire ''b'' WriteMode (3 / 5) 2]" ?prog]
    by (simp add: enter_def body waiting_def grantable_def)
  have two: "lock_run ?prog [[waiting 1 ''a'' ''b'' (3 / 5)], [enter ?prog 2]] ?jam"
    using run_acquire[of 1 "[[waiting 1 ''a'' ''b'' (3 / 5)], [enter ?prog 2]]" "enter ?prog 2" "[]" "''b''" WriteMode "3 / 5" 1 "[Acquire ''a'' WriteMode (3 / 5) 2]" ?prog]
    by (simp add: enter_def body waiting_def grantable_def)
  have reach: "reachable_from ?prog [1, 2] ?jam"
    unfolding reachable_from_def using r_into_rtranclp[of "lock_run ?prog", OF one] two by (rule rtranclp.rtrancl_into_rtrancl)
  have "list_all (blocked_head ?jam) ?jam" by (simp add: blocked_head_def waiting_def grantable_def)
  then have stuck: "\<not> lock_run ?prog ?jam ths'" for ths' by (rule all_blocked)
  have "tool_deadlock_cycles reference_library (\<lambda>_. None) mixed_rows [] no_params = Ok []" by code_simp
  moreover have "rows_confident (lo_confidence_floor default_options) mixed_rows" by code_simp
  moreover have "\<not> list_all (\<lambda>th. th = []) ?jam" by simp
  ultimately show ?thesis using reach stuck by blast
qed

definition twice_rows :: "sync_op_row list" where
  "twice_rows = [lock_row 1 1 ''acquire'' ''a'' 1, lock_row 1 2 ''acquire'' ''a'' 1]"

text \<open>
  a lock order without any edge does not rule out a deadlock. A function that takes the same lock
  twice gives no edge, so nothing is reported, and the thread that runs it never takes a second step.
\<close>

theorem reacquired_lock_unreported:
  "lock_order_edges twice_rows [] default_options = [] \<and>
   (\<exists>ths. reachable_from (ordered_events twice_rows []) [1] ths \<and> \<not> list_all (\<lambda>th. th = []) ths \<and>
     (\<forall>ths'. \<not> lock_run (ordered_events twice_rows []) ths ths'))"
proof -
  let ?prog = "ordered_events twice_rows []"
  let ?jam = "[[waiting 1 ''a'' ''a'' 1]]"
  have body: "body ?prog 1 = [Acquire ''a'' WriteMode 1 1, Acquire ''a'' WriteMode 1 2]" by code_simp
  have "lock_run ?prog [[enter ?prog 1]] ?jam"
    using run_acquire[of 0 "[[enter ?prog 1]]" "enter ?prog 1" "[]" "''a''" WriteMode 1 1 "[Acquire ''a'' WriteMode 1 2]" ?prog]
    by (simp add: enter_def body waiting_def grantable_def)
  then have reach: "reachable_from ?prog [1] ?jam" by (simp add: reachable_from_def)
  have "list_all (blocked_head ?jam) ?jam" by (simp add: blocked_head_def waiting_def grantable_def)
  then have stuck: "\<not> lock_run ?prog ?jam ths'" for ths' by (rule all_blocked)
  have "lock_order_edges twice_rows [] default_options = []" by code_simp
  then show ?thesis using reach stuck by (intro conjI exI[of _ ?jam]) simp_all
qed

text \<open>
  C34: the score of a lock cycle is between 0 and 1, only a cycle that is not all-read and that a public
  symbol takes part in is critical, and an all-read cycle is at most medium.
\<close>

theorem cycle_severity_bounds:
  "0 \<le> snd (cycle_severity c public) \<and> snd (cycle_severity c public) \<le> 1 \<and>
   (fst (cycle_severity c public) = Critical \<longrightarrow> public \<and> \<not> is_all_read c) \<and>
   (is_all_read c \<longrightarrow> severity_rank (fst (cycle_severity c public)) \<le> severity_rank Medium)"
proof -
  define conf where "conf = (case min_confidence c of None \<Rightarrow> 1 | Some c \<Rightarrow> clamp_unit c)"
  have conf: "0 \<le> conf" "conf \<le> 1" by (auto simp: conf_def clamp_unit_def split: option.split)
  have "cycle_severity c public = (let score = clamp_unit (conf * (if is_all_read c then 3 / 10 else 1) * (1 / 2 + 1 / 2 * (if public then 1 else 0))) in
      (if score \<ge> 3 / 4 then Critical else if score \<ge> 9 / 20 then High else if score \<ge> 1 / 5 then Medium else Low, score))"
    by (simp add: cycle_severity_def conf_def Let_def)
  then show ?thesis using conf by (auto simp: Let_def clamp_unit_def)
qed

theorem cycle_severity_bounds_witness:
  "severity_rank (fst (cycle_severity \<lparr>lc_resources = [''a'', ''b''], lc_edges = [\<lparr>le_from = ''a'', le_to = ''b'', le_from_mode = ReadMode,
     le_to_mode = ReadMode, le_min_confidence = 1, le_interprocedural = False, le_held_symbol = 1, le_held_line = 1, le_acquired_symbol = 1,
     le_acquired_line = 2, le_via_callee = None\<rparr>]\<rparr> True)) \<le> severity_rank Medium"
  using cycle_severity_bounds[of "\<lparr>lc_resources = [''a'', ''b''], lc_edges = [\<lparr>le_from = ''a'', le_to = ''b'', le_from_mode = ReadMode,
     le_to_mode = ReadMode, le_min_confidence = 1, le_interprocedural = False, le_held_symbol = 1, le_held_line = 1, le_acquired_symbol = 1,
     le_acquired_line = 2, le_via_callee = None\<rparr>]\<rparr>" True] by (simp add: is_all_read_def)

section \<open>Channels\<close>

lemma cycle_kind: "f \<in> set (channel_cycles lib tbl) \<Longrightarrow> cf_kind f = ChannelCycle"
  by (auto simp: cycle_finding_def Let_def dest!: channel_cycles_sound)

lemma channel_findings:
  assumes "f \<in> set (analyze_channels lib rows)"
  shows "cf_kind f = ChannelCycle \<Longrightarrow> f \<in> set (channel_cycles lib (channel_processes rows))"
    and "cf_kind f \<noteq> ChannelCycle \<Longrightarrow> f \<in> set (channel_matching (channel_processes rows))"
  using assms matching_kinds[of f] cycle_kind[of f lib] by (auto simp: analyze_channels_def petri_analyze_channels_def)

lemma initially_starved:
  assumes "receives (channel_processes rows) p ch" "\<forall>q. \<not> sends (channel_processes rows) q ch"
  shows "starved p ch (channel_start (channel_processes rows))"
proof -
  obtain es where "(p, es) \<in> set (channel_processes rows)" "\<exists>e \<in> set es. ce_kind e = MsgRecv \<and> ce_channel e = Some ch"
    using assms(1) by (auto simp: receives_def)
  then have "\<exists>e \<in> set (process_body (channel_processes rows) p). ce_kind e = MsgRecv \<and> ce_channel e = Some ch"
    using body_of[OF channel_processes_distinct] by simp
  then show ?thesis using assms(2) sends_body[OF channel_processes_distinct] by (simp add: starved_def channel_start_def)
qed

text \<open>
  C10: a reported channel cycle is a deadlock if only its members send on the channels they wait for:
  in every state the processes can reach, with buffered sends and every interleaving, each member
  still waits for its first message, on the channel the finding names, and that channel is empty.
\<close>

theorem channel_cycle_deadlocked:
  assumes "graph_laws lib" "f \<in> set (analyze_channels lib rows)" "cf_kind f = ChannelCycle"
    and "only_members_produce (channel_processes rows) f" "channel_reachable (channel_processes rows) st" "p \<in> set (cf_processes f)"
  shows "\<exists>ch. (p, ch) \<in> set (cf_waits f) \<and> blocked_on (cs_todo st p) = Some ch \<and> cs_buffer st ch = 0"
proof -
  note f = channel_findings(1)[OF assms(2,3)]
  have "p \<in> fst ` set (cf_waits f)" using graph_laws.reported_waits(1)[OF assms(1) f] assms(6) by simp
  then obtain ch where ch: "(p, ch) \<in> set (cf_waits f)" by force
  then show ?thesis
    using stuck_waitsD(1,2)[OF graph_laws.reported_cycle_stuck[OF assms(1) channel_processes_distinct f assms(4,5)] ch] by blast
qed

theorem channel_cycle_deadlocked_witness:
  "list_ex (\<lambda>f. cf_kind f = ChannelCycle \<and> only_members_produce (channel_processes crossed_rows) f \<and> 1 \<in> set (cf_processes f))
     (analyze_channels reference_library crossed_rows) \<and>
   blocked_on (cs_todo (channel_start (channel_processes crossed_rows)) 1) \<noteq> None"
proof -
  have ex: "list_ex (\<lambda>f. cf_kind f = ChannelCycle \<and> only_members_produce (channel_processes crossed_rows) f \<and> 1 \<in> set (cf_processes f))
     (analyze_channels reference_library crossed_rows)" by code_simp
  then obtain f where f: "f \<in> set (analyze_channels reference_library crossed_rows)" "cf_kind f = ChannelCycle"
    "only_members_produce (channel_processes crossed_rows) f" "1 \<in> set (cf_processes f)" by (auto simp: list_ex_iff)
  have "channel_reachable (channel_processes crossed_rows) (channel_start (channel_processes crossed_rows))" by (simp add: channel_reachable_def)
  from channel_cycle_deadlocked[OF reference.graph_laws_axioms f(1-3) this f(4)] ex show ?thesis by auto
qed

text \<open>
  C21: a reported blocked receive never happens: in every state the processes can reach, each of the
  processes the finding names still has the receive on that channel before it.
\<close>

theorem blocked_receiver_never_passes:
  assumes "f \<in> set (analyze_channels lib rows)" "cf_kind f = BlockedRecv" "cf_channel f = Some ch" "p \<in> set (cf_processes f)"
    and "channel_reachable (channel_processes rows) st"
  shows "\<exists>e \<in> set (cs_todo st p). ce_kind e = MsgRecv \<and> ce_channel e = Some ch"
proof -
  have "receives (channel_processes rows) p ch \<and> (\<forall>q. \<not> sends (channel_processes rows) q ch)"
    using channel_findings(2)[OF assms(1)] assms(2-4) blocked_findings[of "channel_processes rows" ch p] by auto
  then have "starved p ch st" using reachable_starved[OF assms(5)] initially_starved by blast
  then show ?thesis by (simp add: starved_def)
qed

theorem blocked_receiver_never_passes_witness:
  "\<exists>e \<in> set (cs_todo (channel_start (channel_processes [message_row 1 1 ''recv'' ''cmd''])) 1). ce_kind e = MsgRecv \<and> ce_channel e = Some ''cmd''"
proof -
  let ?rows = "[message_row 1 1 ''recv'' ''cmd'']"
  have "list_ex (\<lambda>f. cf_kind f = BlockedRecv \<and> cf_channel f = Some ''cmd'' \<and> 1 \<in> set (cf_processes f)) (analyze_channels reference_library ?rows)" by code_simp
  then obtain f where f: "f \<in> set (analyze_channels reference_library ?rows)" "cf_kind f = BlockedRecv" "cf_channel f = Some ''cmd''" "1 \<in> set (cf_processes f)"
    by (auto simp: list_ex_iff)
  have "channel_reachable (channel_processes ?rows) (channel_start (channel_processes ?rows))" by (simp add: channel_reachable_def)
  from blocked_receiver_never_passes[OF f this] show ?thesis .
qed



lemma channel_step:
  "channel_run st st' \<Longrightarrow> channel_reachable tbl st \<Longrightarrow> channel_reachable tbl st'"
  by (auto simp: channel_reachable_def)

text \<open>
  C37: a reported channel cycle need not be a deadlock: the analysis asks that the members of a cycle
  send what the others wait for, not that nobody else does. With a third process that sends the first
  message, the two crossed processes are still reported, and all three can run to their ends.
\<close>

theorem reported_cycle_can_finish:
  "list_ex (\<lambda>f. cf_kind f = ChannelCycle \<and> cf_processes f = [1, 2]) (analyze_channels reference_library started_rows) \<and>
   (\<exists>st. channel_reachable (channel_processes started_rows) st \<and> (\<forall>p. cs_todo st p = []))"
proof -
  let ?ev = "\<lambda>k c. \<lparr>ce_kind = k, ce_channel = Some c\<rparr>"
  let ?tbl = "[(1, [?ev MsgRecv ''a'', ?ev MsgSend ''b'']), (2, [?ev MsgRecv ''b'', ?ev MsgSend ''a'']), (3, [?ev MsgSend ''a''])]"
  have tbl: "channel_processes started_rows = ?tbl" by code_simp
  define s0 where "s0 = channel_start ?tbl"
  define s1 where "s1 = put_message ''a'' (advance 3 [] s0)"
  define s2 where "s2 = take_message ''a'' (advance 1 [?ev MsgSend ''b''] s1)"
  define s3 where "s3 = put_message ''b'' (advance 1 [] s2)"
  define s4 where "s4 = take_message ''b'' (advance 2 [?ev MsgSend ''a''] s3)"
  define s5 where "s5 = put_message ''a'' (advance 2 [] s4)"
  note defs = channel_start_def process_body_def put_message_def take_message_def advance_def
  have todo: "cs_todo s0 3 = [?ev MsgSend ''a'']" "cs_todo s1 1 = [?ev MsgRecv ''a'', ?ev MsgSend ''b'']" "cs_todo s2 1 = [?ev MsgSend ''b'']"
    "cs_todo s3 2 = [?ev MsgRecv ''b'', ?ev MsgSend ''a'']" "cs_todo s4 2 = [?ev MsgSend ''a'']" "\<forall>p. cs_todo s5 p = []"
    "cs_buffer s1 ''a'' = 1" "cs_buffer s3 ''b'' = 1"
    by (simp_all add: s0_def s1_def s2_def s3_def s4_def s5_def defs)
  have "channel_run s0 s1" unfolding s1_def by (rule run_send[OF todo(1)]) simp_all
  moreover have "channel_run s1 s2" unfolding s2_def by (rule run_recv[OF todo(2)]) (simp_all add: todo)
  moreover have "channel_run s2 s3" unfolding s3_def by (rule run_send[OF todo(3)]) simp_all
  moreover have "channel_run s3 s4" unfolding s4_def by (rule run_recv[OF todo(4)]) (simp_all add: todo)
  moreover have "channel_run s4 s5" unfolding s5_def by (rule run_send[OF todo(5)]) simp_all
  moreover have "channel_reachable ?tbl s0" by (simp add: channel_reachable_def s0_def)
  ultimately have "channel_reachable ?tbl s5" by (meson channel_step)
  moreover have "list_ex (\<lambda>f. cf_kind f = ChannelCycle \<and> cf_processes f = [1, 2]) (analyze_channels reference_library started_rows)" by code_simp
  ultimately show ?thesis using todo(6) tbl by auto
qed

section \<open>The scan\<close>

text \<open>
  C6: a scan succeeds, keeps the ledger well formed (one row per provenance key, known kinds and
  severities, one promotion per key), and keeps the tracker's trust boundary: what it promotes are
  pending bugs, no item that was there is touched, and no item gets a judgment status.
\<close>

theorem scan_keeps_trust:
  fixes lib visibility lock_rows calls msg_rows contention uuid now project auto_promote db
  defines "r \<equiv> concurrency_scan lib visibility lock_rows calls msg_rows contention uuid now project auto_promote db"
  assumes "ledger_ok db" "open_unique (cd_edges db)"
  shows "is_Ok (snd r) \<and> ledger_ok (fst r) \<and> open_unique (cd_edges (fst r)) \<and>
    trust_kept (pr_tracker (cd_promotion db)) (pr_tracker (cd_promotion (fst r))) \<and>
    (\<exists>new. work_items (pr_tracker (cd_promotion (fst r))) = work_items (pr_tracker (cd_promotion db)) @ new \<and>
      (\<forall>w \<in> set new. wi_status w = ''pending'' \<and> wi_kind w = ''bug''))"
proof -
  note S = scan_facts[where uuid = uuid and now = now and project = project and auto_promote = auto_promote and
      locks = "analyze_lock_order lib visibility lock_rows calls default_options" and chans = "analyze_channels lib msg_rows" and
      contention = contention and db = db, folded concurrency_scan_def, folded r_def]
  show ?thesis using S(1,3,4) S(2)[OF assms(2)] refresh_unique[OF assms(3)] unfolding S(7) by simp
qed

theorem scan_keeps_trust_witness:
  "ledger_ok empty_conc \<and> is_Ok (snd (concurrency_scan reference_library (\<lambda>_. None) tangled_rows [] crossed_rows [] sample_uuid 10 1 True empty_conc)) \<and>
   ledger_ok (fst (concurrency_scan reference_library (\<lambda>_. None) tangled_rows [] crossed_rows [] sample_uuid 10 1 True empty_conc))"
proof -
  have ok: "ledger_ok empty_conc" by (simp add: ledger_ok_def empty_conc_def promotion_ok_def)
  have "open_unique (cd_edges empty_conc)" by (simp add: open_unique_def empty_conc_def)
  from scan_keeps_trust[OF ok this, of reference_library "\<lambda>_. None" tangled_rows "[]" crossed_rows "[]" sample_uuid 10 1 True] ok show ?thesis by blast
qed

lemma finding_pairs: "new_pair ` set (concat (map finding_edges fs)) = (\<lambda>e. (le_from e, le_to e)) ` (\<Union>f \<in> set fs. set (lc_edges (lf_cycle f)))"
  by (auto simp: finding_edges_def new_pair_def image_iff) force+

text \<open>
  C14: the recorded lock-order edges are a history. A scan changes nothing about which edges of any
  project were in force at an earlier time; at the time of the scan, if the clock has moved on since
  the last one, the edges in force for the project are those of the cycles the scan reported.
\<close>

theorem scan_rewrites_no_history:
  fixes lib visibility lock_rows calls msg_rows contention uuid now project auto_promote db
  defines "r \<equiv> concurrency_scan lib visibility lock_rows calls msg_rows contention uuid now project auto_promote db"
  shows "(\<forall>t < now. \<forall>p. in_force (cd_edges (fst r)) p t = in_force (cd_edges db) p t) \<and>
    (clock_ahead now project (cd_edges db) \<longrightarrow> in_force (cd_edges (fst r)) project now =
       (\<lambda>e. (le_from e, le_to e)) ` (\<Union>f \<in> set (analyze_lock_order lib visibility lock_rows calls default_options). set (lc_edges (lf_cycle f))))"
proof -
  have edges: "cd_edges (fst r) = close_unseen now project (fold (upsert_edge now project)
      (concat (map finding_edges (analyze_lock_order lib visibility lock_rows calls default_options))) (cd_edges db))"
    unfolding r_def concurrency_scan_def by (rule scan_facts(7))
  show ?thesis unfolding edges using refresh_history refresh_now finding_pairs by metis
qed

theorem scan_rewrites_no_history_witness:
  "clock_ahead 10 1 (cd_edges empty_conc) \<and>
   in_force (cd_edges (fst (concurrency_scan reference_library (\<lambda>_. None) tangled_rows [] [] [] sample_uuid 10 1 True empty_conc))) 1 5 = {}"
proof -
  have "clock_ahead 10 1 (cd_edges empty_conc)" "in_force (cd_edges empty_conc) 1 5 = {}"
    by (simp_all add: clock_ahead_def empty_conc_def in_force_def)
  then show ?thesis using scan_rewrites_no_history[of 10 reference_library "\<lambda>_. None" tangled_rows "[]" "[]" "[]" sample_uuid 1 True empty_conc] by auto
qed

text \<open>
  C40: scanning again records nothing twice: a second scan that finds the same, at whatever time and
  with whatever identifiers, leaves the keys of the ledger as they are.
\<close>

theorem rescan_adds_nothing:
  "map cl_key (cd_findings (fst (concurrency_scan lib visibility lock_rows calls msg_rows contention uuid' now' project auto_promote'
      (fst (concurrency_scan lib visibility lock_rows calls msg_rows contention uuid now project auto_promote db))))) =
   map cl_key (cd_findings (fst (concurrency_scan lib visibility lock_rows calls msg_rows contention uuid now project auto_promote db)))"
  unfolding concurrency_scan_def by (rule scan_facts(6)) (rule scan_facts(5))

text \<open>
  the recorded edges are not the lock order. Both functions of a project take one lock while they
  hold another, so its lock order has an edge, but no cycle; the scan records only edges of cycles,
  and none is in force after it.
\<close>

theorem order_edges_not_recorded:
  "lock_order_edges ordered_rows ordered_calls default_options \<noteq> [] \<and>
   cd_edges (fst (concurrency_scan reference_library (\<lambda>_. None) ordered_rows ordered_calls [] [] sample_uuid 10 1 True empty_conc)) = []"
proof -
  have "analyze_lock_order reference_library (\<lambda>_. None) ordered_rows ordered_calls default_options = []" by code_simp
  moreover have "lock_order_edges ordered_rows ordered_calls default_options \<noteq> []" by code_simp
  ultimately show ?thesis unfolding concurrency_scan_def by (simp add: scan_facts(7) close_unseen_def empty_conc_def)
qed

lemma rotate_three: "rotate k [x, y, z] \<in> {[x, y, z], [y, z, x], [z, x, y]}"
proof (induction k)
  case (Suc k)
  then have "rotate k [x, y, z] = [x, y, z] \<or> rotate k [x, y, z] = [y, z, x] \<or> rotate k [x, y, z] = [z, x, y]"
    by (simp only: insert_iff empty_iff simp_thms)
  then show ?case unfolding rotate_Suc by (elim disjE) (simp_all only: rotate1.simps append.simps insert_iff simp_thms)
qed (simp only: rotate0 id_apply insertI1)

text \<open>
  different lock cycles can share one row of the ledger. Three locks that are taken in every order
  have two cycles through all three, in the two directions, which are not the same cycle started
  elsewhere; both are reported, but the provenance key is built from the sorted names, so the row of
  one is overwritten by the other.
\<close>

theorem cycles_share_row:
  "\<exists>c \<in> set (find_lock_cycles reference_library (lock_order_edges tangled_rows [] default_options) 6).
   \<exists>d \<in> set (find_lock_cycles reference_library (lock_order_edges tangled_rows [] default_options) 6).
     (\<forall>n. lc_resources d \<noteq> rotate n (lc_resources c)) \<and> lock_provenance_key project (lc_resources c) = lock_provenance_key project (lc_resources d)"
proof -
  let ?edges = "lock_order_edges tangled_rows [] default_options"
  have "list_all (\<lambda>(x, y). list_ex (\<lambda>e. le_from e = x \<and> le_to e = y) ?edges)
      [(''a'', ''b''), (''b'', ''c''), (''c'', ''a''), (''a'', ''c''), (''c'', ''b''), (''b'', ''a'')]" by code_simp
  then have cycles: "simple_cycle (ordered_before ?edges) [''a'', ''b'', ''c'']" "simple_cycle (ordered_before ?edges) [''a'', ''c'', ''b'']"
    by (simp_all add: simple_cycle_def ordered_before_def list_ex_iff)
  obtain n c where c: "c \<in> set (find_lock_cycles reference_library ?edges 6)" "lc_resources c = rotate n [''a'', ''b'', ''c'']"
    by (rule reference.lock_cycle_reported[OF cycles(1), of 6]) (simp, blast)
  obtain m d where d: "d \<in> set (find_lock_cycles reference_library ?edges 6)" "lc_resources d = rotate m [''a'', ''c'', ''b'']"
    by (rule reference.lock_cycle_reported[OF cycles(2), of 6]) (simp, blast)
  note rot = rotate_three[where 'a = string]
  have "sort (lc_resources c) = sort (lc_resources d)"
    using rot[of n "''a''" "''b''" "''c''"] rot[of m "''a''" "''c''" "''b''"] by (auto simp: c(2) d(2))
  moreover have "lc_resources d \<noteq> rotate k (lc_resources c)" for k
    using rot[of "k + n" "''a''" "''b''" "''c''"] rot[of m "''a''" "''c''" "''b''"] by (auto simp: c(2) d(2) rotate_rotate)
  ultimately show ?thesis using c(1) d(1) by (intro bexI[of _ c] bexI[of _ d]) (simp_all add: lock_provenance_key_def)
qed

text \<open>
  C18: a finding is promoted once. The step after a probe that found nothing runs on whatever the
  database is by then: if another transaction has promoted the finding meanwhile, nothing is written
  and its item is returned; otherwise one item with its provenance is added. A finding already promoted
  leaves the tracker as it is, and no two promotions share a key.
\<close>

theorem finding_promoted_once:
  assumes "promotion_ok db"
  shows "promotion_ok (fst (promote_finding now db key source item anchor)) \<and>
    promotion_ok (fst (promote_fresh now db key source item anchor)) \<and>
    (key \<in> pv_key ` set (pr_provenance db) \<longrightarrow> fst (promote_fresh now db key source item anchor) = db \<and>
      pr_tracker (fst (promote_finding now db key source item anchor)) = pr_tracker db) \<and>
    (\<forall>i. snd (promote_fresh now db key source item anchor) = Ok (i, True) \<longrightarrow>
      key \<in> pv_key ` set (pr_provenance (fst (promote_fresh now db key source item anchor))) \<and>
      (\<exists>w. work_items (pr_tracker (fst (promote_fresh now db key source item anchor))) = work_items (pr_tracker db) @ [w] \<and> wi_id w = i))"
proof -
  have "key \<in> pv_key ` set (pr_provenance db) \<Longrightarrow> fst (promote_fresh now db key source item anchor) = db"
    using probe_None[of db key] by (cases rule: promote_fresh_cases[of now db key source item anchor]) auto
  moreover have "key \<in> pv_key ` set (pr_provenance (fst (promote_fresh now db key source item anchor))) \<and>
      (\<exists>w. work_items (pr_tracker (fst (promote_fresh now db key source item anchor))) = work_items (pr_tracker db) @ [w] \<and> wi_id w = i)"
    if "snd (promote_fresh now db key source item anchor) = Ok (i, True)" for i
    using that by (cases rule: promote_fresh_cases[of now db key source item anchor]) auto
  ultimately show ?thesis using promote_ok[OF assms] promote_fresh_ok[OF assms] promote_known by blast
qed

theorem finding_promoted_once_witness:
  "promotion_ok (fst (promote_finding 10 \<lparr>pr_tracker = empty_db, pr_provenance = [], pr_anchors = []\<rparr> ''k'' ''deadlock_cycle''
     (new_work_item_default\<lparr>nw_public_id := ''a'', nw_kind := ''bug'', nw_title := ''a''\<rparr>) \<lparr>fa_file_id = None, fa_chunk_id = None, fa_symbol_id = Some 1\<rparr>))"
proof -
  have "promotion_ok \<lparr>pr_tracker = empty_db, pr_provenance = [], pr_anchors = []\<rparr>" by (simp add: promotion_ok_def)
  from finding_promoted_once[OF this, of 10 "''k''" "''deadlock_cycle''"] show ?thesis by blast
qed

section \<open>Observed waits\<close>


definition sample_trace :: string where
  "sample_trace = ''worker;handle_request;acquire_b;pthread_mutex_lock;futex_wait 4200''"

definition plain_edge :: "string \<Rightarrow> string \<Rightarrow> lock_edge" where
  "plain_edge a b = \<lparr>le_from = a, le_to = b, le_from_mode = WriteMode, le_to_mode = WriteMode, le_min_confidence = 9 / 10,
     le_interprocedural = False, le_held_symbol = 1, le_held_line = 1, le_acquired_symbol = 2, le_acquired_line = 2, le_via_callee = None\<rparr>"


text \<open>
  an order that was observed can be listed as never observed. A wait matches the first edge that
  joins its two names in either direction; of two edges in opposite directions, observing the second
  confirms the first, and the second is reported as having no witness.
\<close>

theorem observed_order_called_unobserved:
  "let R = reconcile [(''b'', ''a'')] [plain_edge ''a'' ''b'', plain_edge ''b'' ''a''] in
     map (\<lambda>c. (cw_static_from c, cw_static_to c)) (rc_confirmed R) = [(''a'', ''b'')] \<and>
     map (\<lambda>x. (se_from x, se_to x)) (rc_static_only R) = [(''b'', ''a'')]"
  by code_simp

end
