(* ===== verification/Spec2Isabelle.thy ===== *)
theory Spec2Isabelle
  imports Csm_Results Tracker_Authority Tape_Results Conc_Results
begin

text \<open>
  A verification of the coordination core of \<open>pgmcp\<close>, a server that indexes code into PostgreSQL and
  coordinates agents over it. Source paths are relative to the crate root (\<open>src/src\<close> of the tree is
  written \<open>src\<close> here and in the other theories).

  \<^bold>\<open>Parts of the program.\<close> Four parts are modelled. Three meet in the runs of agents: a run follows a
  registered protocol, works on items of the tracker and keeps its context on the tape. The fourth
  analyses indexed code and files what it finds as items of the tracker.

  \<^item> Communicating state machines, \<open>src/csm\<close>: global protocol types are checked, projected to one
    local type per role and compiled to pushdown machines; recorded runs are replayed against them.
  \<^item> The work-item tracker, \<open>src/tracker\<close>, \<open>src/db/queries/work_items.rs\<close> and
    \<open>src/mcp/tools/work_items\<close>: a state machine with a trust boundary between agents, users and
    continuous integration, over tables of items, evidence, negotiations, relations and claims.
  \<^item> The context tape, \<open>src/tape\<close>: a working set of pages under a token budget, with eviction policies,
    write-back to a data plane, demotion to summaries, persistence and prefetch.
  \<^item> The concurrency analysis, \<open>src/concurrency\<close>, \<open>src/graph/lock_order.rs\<close>, \<open>src/graph/petri.rs\<close>,
    \<open>src/db/queries/concurrency.rs\<close> and \<open>src/cron/concurrency_scan.rs\<close>: deadlock candidates from lock
    and channel operations, their ledger, and their comparison with traces of running programs.

  \<^bold>\<open>Conventions.\<close> \<open>Prelude\<close> holds them. A fallible function returns an \<open>outcome\<close> (\<open>Ok\<close>, \<open>Err\<close>, or
  \<open>Panic\<close> where Rust panics). A \<open>BTreeMap\<close> is a sorted association list behind the locale
  \<open>ordered_map\<close>; a closed enum with its wire form is an instance of the locale \<open>closed_vocabulary\<close>.
  A table is the list of its rows, \<open>NOW()\<close> is an argument, and an SQL statement is the function it
  computes; a transaction that fails returns the tables it started from. \<open>i32\<close> arithmetic that
  saturates is written out; \<open>f32\<close> and \<open>f64\<close> are exact rationals.

  \<^bold>\<open>Communicating state machines.\<close>

  \<^item> \<open>Csm_Types\<close>: roles, labels, global and local types, composition (\<open>role.rs\<close>, \<open>mpst/global.rs\<close>,
    \<open>mpst/local.rs\<close>). \<open>Csm_Wellformed\<close>: \<open>check\<close> and \<open>well_formed_in\<close> (\<open>mpst/wellformed.rs\<close>).
    \<open>Csm_Project\<close>: \<open>project\<close> and \<open>merge\<close> (\<open>mpst/project.rs\<close>).
  \<^item> \<open>Csm_Machine\<close>: the compiler and networks (\<open>machine.rs\<close>); \<open>Csm_Compile\<close>: its correctness.
    \<open>Csm_Conformance\<close>: one step and the replay (\<open>transition.rs\<close>, \<open>conformance.rs\<close>).
  \<^item> \<open>Csm_Semantics\<close>: runs of a global type, and that its network accepts them. \<open>Csm_Build\<close>: building
    ends and succeeds. \<open>Csm_Finite\<close>: replay without calls and boxes always answers.
  \<^item> \<open>Csm_Registry\<close>, \<open>Csm_Linear\<close>, \<open>Csm_Protocols\<close>: the shipped protocols (\<open>registry.rs\<close>,
    \<open>examples.rs\<close>) for all parameters. \<open>Csm_Driver\<close>: trajectory encoding, run validation and the
    driver (\<open>trajectory.rs\<close>, \<open>validate.rs\<close>, \<open>driver.rs\<close>).
  \<^item> \<open>Csm_Results\<close> shows that replay is complete and local, that composition commutes with projection,
    that building ends and succeeds for the registry, that plans conform; and three protocols on which
    the code does not do what it documents.

  \<^bold>\<open>Work-item tracker.\<close>

  \<^item> \<open>Tracker_Vocab\<close>, \<open>Tracker_Transition\<close>: vocabularies, the matrix and its gates (\<open>status.rs\<close>,
    \<open>kind.rs\<close>, \<open>severity.rs\<close>, \<open>views.rs\<close>, \<open>transition.rs\<close>, \<open>auto_transition.rs\<close>).
  \<^item> \<open>Tracker_Store\<close>, \<open>Tracker_Status\<close>: tables and writes, and the exact effect of a status change with
    its cascade. \<open>Tracker_Rollup\<close>, \<open>Tracker_Tree\<close>, \<open>Tracker_Move\<close>: completion (\<open>rollup.rs\<close>), the
    recursive queries, moving a subtree. \<open>Tracker_Claims\<close>: claims, leases, presence, the sweep.
  \<^item> \<open>Tracker_Tools\<close>, \<open>Tracker_Slug\<close>: the tool bodies and public identifiers. \<open>Tracker_Trust\<close>: the step
    relation of agent calls and its invariant. \<open>Tracker_Promotion\<close>: findings become items
    (\<open>git_link.rs\<close>, \<open>promote_finding\<close>).
  \<^item> \<open>Tracker_Results\<close>, \<open>Tracker_Plans\<close> and \<open>Tracker_Authority\<close> show the trust boundary, the exact
    acceptance of status changes, the cascade, exclusive leases, the tree invariant, completion, atomic
    deferral and schedulable links; and the operations whose effect differs from their comments.

  \<^bold>\<open>Context tape.\<close>

  \<^item> \<open>Tape_Vocab\<close>, \<open>Tape_Pages\<close>, \<open>Tape_Store\<close>, \<open>Tape_Plane\<close>, \<open>Tape_Engine\<close>, \<open>Tape_Prefetch\<close>: the files
    \<open>vocab.rs\<close>, \<open>working_set.rs\<close>, \<open>store.rs\<close>, \<open>data_plane.rs\<close>, \<open>engine.rs\<close>, \<open>prefetch.rs\<close>. The trait
    \<open>TapeDataPlane\<close> is a record of operations; the locale \<open>lawful_plane\<close> states what the engine relies
    on, \<open>paging_laws\<close> adds the LFU query, and both are interpreted on the in-memory plane.
  \<^item> \<open>Tape_Order\<close>: the page map refines a list. \<open>Tape_Paging\<close>: eviction ends (the multiset of evictable
    sizes decreases), the account stays exact, pins are kept. \<open>Tape_Persist\<close>: saving and loading.
  \<^item> \<open>Tape_Results\<close> states these for every lawful plane, with the write-back of dirty pages and the
    choice of victims; and the runs in which the account or the staged bytes go wrong.

  \<^bold>\<open>Concurrency analysis.\<close>

  \<^item> \<open>Conc_Graph\<close>: \<open>find_cycles\<close> and \<open>extract_simple_cycles\<close> (\<open>graph/algorithms.rs\<close>). The functions of
    \<open>petgraph\<close> are a record; the locale \<open>graph_laws\<close> states their documented behaviour and is
    interpreted on an executable library.
  \<^item> \<open>Conc_Locks\<close>, \<open>Conc_Analysis\<close>: lock events, edges and cycles (\<open>lock_order.rs\<close>); event streams, the
    reverse search over calls, severities and the tool (\<open>concurrency/mod.rs\<close>, \<open>severity.rs\<close>,
    \<open>tool_deadlock_cycles.rs\<close>). \<open>Conc_Cycles\<close>: reported cycles are the simple cycles. \<open>Conc_Reach\<close>: the
    search reaches every caller. \<open>Conc_Deadlock\<close>: threads that run the event streams, and that an acyclic
    lock order lets them progress.
  \<^item> \<open>Conc_Channels\<close>: message skeletons, matching and cyclic waits (\<open>petri.rs\<close>). \<open>Conc_Channel_Run\<close>,
    \<open>Conc_Channel_Cycles\<close>: processes that send and receive, and what a finding says of their runs.
  \<^item> \<open>Conc_Trace\<close>: trace parsers and the reconciler (\<open>trace_reconcile.rs\<close>).
  \<^item> \<open>Conc_Ledger\<close>, \<open>Conc_Scan\<close>: findings, the bitemporal edges, health snapshots and the scan
    (\<open>findings.rs\<close>, \<open>db/queries/concurrency.rs\<close>, \<open>concurrency_scan.rs\<close>), with the invariant of the ledger.
  \<^item> \<open>Conc_Results\<close> shows that a project without lock cycles does not deadlock, that cycles and channel
    findings are exact, that reported channels stay blocked, that a scan keeps the trust boundary and
    the history, that promotion is idempotent and that every observed wait is accounted for; and the
    inputs on which a deadlock is hidden or a report is wrong.

  The thread and channel runs are the semantics the reports are measured against: a lock is
  shared between readers only and not reentrant, calls run the callee's events, channels are unbounded.

  \<^bold>\<open>Loops and bounds.\<close> \<open>epsilon_close\<close>, the compiler, the recursive queries and \<open>evict_to_fit\<close> are
  partial functions: \<open>None\<close> is a loop that does not end, and the theorems say when they return. The two
  graph searches end by a measure (a multiset of path weights, the symbols not yet visited). The depth
  100000 of the subtree query and \<open>MAX_STACK_DEPTH\<close> are constants of the code. The account theorems
  assume a budget below the largest \<open>i32\<close>: at that budget saturating addition makes everything fit.

  \<^bold>\<open>Arguments that stand for code outside the sources.\<close> The cycle test, the components and the
  successors of \<open>petgraph\<close>, the LFU query of \<open>liblevenshtein\<close>, the token estimate of the crate \<open>context-tape\<close>, the JSON parser, random suffixes of
  public identifiers, and rows locked by concurrent transactions. The rows of the code index (lock and
  message operations, resolved calls, visibility of symbols, contention ranking) are arguments too.

  \<^bold>\<open>Not modelled.\<close>

  \<^item> Of the four parts: tools that only render rows as JSON, full-text and embedding search, tags,
    progress notes, plan ingestion from text; \<open>real_data_plane.rs\<close>, \<open>hydrate.rs\<close>, \<open>registry.rs\<close>
    and \<open>repl_host.rs\<close> of the tape, which are queries and calls into \<open>context-tape\<close>; the JSON
    evidence of findings and the extraction of lock and message operations from source text.
    Concurrency between transactions appears as the set of locked rows and as the race of two
    promotions; one scan reads the clock once.
  \<^item> The rest of the server: indexing, parsing, embedding, topic and code analysis, pattern libraries,
    graph metrics, the other cron jobs, the command line, the HTTP interface and configuration. They are driven by
    files, models, the network and numerical libraries.
\<close>

end
